(* ===== verification/Prelude.thy ===== *)
theory Prelude
  imports Main "HOL-Library.Sublist" "HOL-Library.Word"
begin

text \<open>
  What every other theory of the development shares: the names of the model's basic types,
  the collections of hints the component theories fill (\<open>go_simps\<close> for the evaluation of
  the string library, \<open>wf_intros\<close> for well-formedness facts), and the few facts about
  lists, options and sums that more than one component uses.

  A Go string or byte slice is a \<open>string\<close>, a list of 8-bit characters, so \<open>length\<close> is
  the Go \<open>len\<close>.  A fallible Go function \<open>f(...) (T, error)\<close> is a function into
  \<open>'err + 't\<close>; a panic is a value of \<open>go_panic\<close> on the left of such a sum.
\<close>

type_synonym bytes = string

datatype go_panic = IndexOutOfRange

named_theorems go_simps "evaluation of the Go string library on concrete input"
named_theorems wf_intros "introduction rules of well-formedness predicates"

section \<open>Machine integers\<close>

text \<open>Go's \<open>int\<close> is 64 bits wide on every platform the plugin is built for: the value of
  an arithmetic expression is reduced to the two's complement range.\<close>

definition wrap64 :: "int \<Rightarrow> int" where
  "wrap64 x = (x + 2 ^ 63) mod 2 ^ 64 - 2 ^ 63"

lemma wrap64_id: "- (2 ^ 63) \<le> x \<Longrightarrow> x < 2 ^ 63 \<Longrightarrow> wrap64 x = x"
  by (simp add: wrap64_def)

lemma wrap64_bounds: "- (2 ^ 63) \<le> wrap64 x \<and> wrap64 x < 2 ^ 63"
  by (simp add: wrap64_def)

section \<open>Lists\<close>

lemma nth_take_drop_split: "i < length xs \<Longrightarrow> xs = take i xs @ xs ! i # drop (Suc i) xs"
  by (simp add: id_take_nth_drop)

lemma filter_Cons_first:
  assumes "filter P xs = y # ys"
  shows "\<exists>us vs. xs = us @ y # vs \<and> (\<forall>u\<in>set us. \<not> P u) \<and> P y"
  using assms by (auto simp: filter_eq_Cons_iff)

text \<open>The first element satisfying a predicate, as the search loops of the code return it.\<close>

lemma find_Some_split:
  assumes "find P xs = Some y"
  shows "\<exists>us vs. xs = us @ y # vs \<and> (\<forall>u\<in>set us. \<not> P u) \<and> P y"
  using assms
proof (induction xs)
  case Nil
  then show ?case by simp
next
  case (Cons x xs)
  show ?case
  proof (cases "P x")
    case True
    with Cons.prems show ?thesis by fastforce
  next
    case False
    with Cons.prems Cons.IH obtain us vs
      where "xs = us @ y # vs" "\<forall>u\<in>set us. \<not> P u" "P y" by auto
    with False show ?thesis
      by (intro exI [of _ "x # us"] exI [of _ vs]) auto
  qed
qed

lemma find_Some_in: "find P xs = Some y \<Longrightarrow> y \<in> set xs \<and> P y"
  by (auto dest: find_Some_split)

lemma find_None: "find P xs = None \<longleftrightarrow> (\<forall>x\<in>set xs. \<not> P x)"
  by (auto simp: find_None_iff)

lemma find_upto:
  "find P [a..b] = Some x \<Longrightarrow> a \<le> x \<and> x \<le> b \<and> P x \<and> (\<forall>y. a \<le> y \<longrightarrow> y < x \<longrightarrow> \<not> P y)"
proof (induction a b rule: upto.induct)
  case (1 a b)
  show ?case
  proof (cases "a \<le> b")
    case True
    show ?thesis
    proof (cases "P a")
      case False
      with "1.prems" True have "find P [a + 1..b] = Some x" by (simp add: upto_rec1)
      note IH = "1.IH" [OF True this]
      have "\<not> P y" if "a \<le> y" "y < x" for y
        using IH that False by (cases "y = a") auto
      with IH show ?thesis by auto
    qed (use "1.prems" True in \<open>simp add: upto_rec1\<close>)
  qed (use "1.prems" in simp)
qed

lemma find_rev_upto:
  assumes "find P (rev [a..b]) = Some x"
  shows "a \<le> x \<and> x \<le> b \<and> P x \<and> (\<forall>y. x < y \<longrightarrow> y \<le> b \<longrightarrow> \<not> P y)"
proof -
  obtain us vs where s: "rev [a..b] = us @ x # vs" "\<forall>u\<in>set us. \<not> P u" "P x"
    using find_Some_split [OF assms] by blast
  then have e: "[a..b] = rev vs @ x # rev us"
    by (metis append.assoc append_Cons append_Nil rev.simps(2) rev_append rev_rev_ident)
  have "sorted_wrt (<) (rev vs @ x # rev us)" unfolding e [symmetric] by simp
  then have "\<forall>v\<in>set vs. v < x" by (simp add: sorted_wrt_append)
  moreover have "{a..b} = set vs \<union> {x} \<union> set us" using e set_upto [of a b] by (metis Un_insert_left Un_insert_right insert_is_Un list.simps(15) set_append set_rev sup_bot_left sup_commute)
  ultimately have "y \<in> set us" if "x < y" "y \<le> b" "a \<le> x" for y
    using that by (metis UnE atLeastAtMost_iff less_imp_not_less order_trans less_imp_le order_less_irrefl singletonD)
  moreover have "x \<in> set [a..b]" unfolding e by simp
  ultimately show ?thesis using s by auto
qed

text \<open>The loops that skip what does not decode.\<close>

lemma map_filter_mem: "y \<in> set (List.map_filter f xs) \<longleftrightarrow> (\<exists>x\<in>set xs. f x = Some y)"
  by (induction xs) (auto simp: List.map_filter_simps split: option.splits)

lemma map_filter_cong: "(\<And>x. x \<in> set xs \<Longrightarrow> f x = g x) \<Longrightarrow> List.map_filter f xs = List.map_filter g xs"
  by (induction xs) (auto simp: List.map_filter_simps split: option.split)

lemma map_filter_total:
  "(\<And>x. x \<in> set xs \<Longrightarrow> f x \<noteq> None) \<Longrightarrow> List.map_filter f xs = map (\<lambda>x. the (f x)) xs"
  by (induction xs) (auto simp: List.map_filter_simps split: option.split)

lemma map_filter_keys:
  "distinct (map fst xs) \<Longrightarrow> distinct (map fst (List.map_filter (\<lambda>(k, v). map_option (Pair k) (f v)) xs))"
proof (induction xs)
  case (Cons x xs)
  obtain k v where x: "x = (k, v)" by (cases x)
  have "k \<notin> fst ` set (List.map_filter (\<lambda>(k, v). map_option (Pair k) (f v)) xs)"
    using Cons.prems by (force simp: x map_filter_mem)
  with Cons show ?case by (simp add: x List.map_filter_simps split: option.splits)
qed (simp add: List.map_filter_simps)

section \<open>Options\<close>

text \<open>A check returns \<open>None\<close> or the error it met; the next check runs only after the first has passed.\<close>

lemma first_error_None [simp]:
  "(case x of None \<Rightarrow> y | Some e \<Rightarrow> Some (f e)) = None \<longleftrightarrow> x = None \<and> y = None"
  by (cases x) auto

lemma option_check_None [simp]:
  "(case x of None \<Rightarrow> None | Some s \<Rightarrow> g s) = None \<longleftrightarrow> (\<forall>s. x = Some s \<longrightarrow> g s = None)"
  by (cases x) auto

lemma map_option_append [simp]:
  "map_option ((@) []) r = r"
  "map_option ((@) xs) (map_option ((@) ys) r) = map_option ((@) (xs @ ys)) r"
  by (cases r; simp)+

section \<open>Sums\<close>

text \<open>Sequencing of fallible steps, the pattern \<open>if err != nil { return err }\<close>.\<close>

definition sum_bind :: "'e + 'a \<Rightarrow> ('a \<Rightarrow> 'e + 'b) \<Rightarrow> 'e + 'b" where
  "sum_bind r f = (case r of Inl e \<Rightarrow> Inl e | Inr x \<Rightarrow> f x)"

lemma sum_bind_simps [simp]:
  "sum_bind (Inl e) f = Inl e"
  "sum_bind (Inr x) f = f x"
  by (simp_all add: sum_bind_def)

lemma sum_bind_Inr: "sum_bind r f = Inr y \<longleftrightarrow> (\<exists>x. r = Inr x \<and> f x = Inr y)"
  by (cases r) auto

lemma sum_bind_Inl: "sum_bind r f = Inl e \<longleftrightarrow> r = Inl e \<or> (\<exists>x. r = Inr x \<and> f x = Inl e)"
  by (cases r) auto

end
