(* ===== verification/Go_Strings.thy ===== *)
theory Go_Strings
  imports Prelude "HOL-Library.List_Lexorder" "HOL-Library.Char_ord"
begin

text \<open>
  The part of Go's standard library on strings and byte slices that the plugin calls
  (packages \<open>strings\<close>, \<open>bytes\<close>, \<open>unicode\<close>, \<open>unicode/utf8\<close>), on byte lists.  Runes are decoded
  from UTF-8 exactly as \<open>utf8.DecodeRune\<close> does, an invalid byte being U+FFFD of width one.
  Case mapping covers the ASCII letters and the three runes outside ASCII whose case orbit
  meets ASCII (U+0130, U+017F, U+212A), so comparisons against an ASCII literal are exact;
  other letters outside ASCII are compared byte for byte.
\<close>

section \<open>Runes\<close>

definition cont_byte :: "char \<Rightarrow> bool" where
  "cont_byte c \<longleftrightarrow> 0x80 \<le> (of_char c :: nat) \<and> (of_char c :: nat) \<le> 0xBF"

definition rune_error :: nat where
  "rune_error = 0xFFFD"

definition second_ok :: "nat \<Rightarrow> nat \<Rightarrow> bool" where
  "second_ok b0 b1 \<longleftrightarrow>
     (if b0 = 0xE0 then 0xA0 \<le> b1 else if b0 = 0xF0 then 0x90 \<le> b1 else 0x80 \<le> b1) \<and>
     (if b0 = 0xED then b1 \<le> 0x9F else if b0 = 0xF4 then b1 \<le> 0x8F else b1 \<le> 0xBF)"

definition decode_rune :: "string \<Rightarrow> nat \<times> nat" where
  "decode_rune s = (case s of
     [] \<Rightarrow> (rune_error, 0)
   | c0 # t \<Rightarrow>
      if (of_char c0 :: nat) < 0x80 then (of_char c0, 1)
      else if (of_char c0 :: nat) < 0xC2 \<or> 0xF4 < (of_char c0 :: nat) then (rune_error, 1)
      else case t of
        [] \<Rightarrow> (rune_error, 1)
      | c1 # u \<Rightarrow>
         if \<not> second_ok (of_char c0) (of_char c1) then (rune_error, 1)
         else if (of_char c0 :: nat) < 0xE0 then
           ((of_char c0 - 0xC0) * 64 + (of_char c1 - 0x80), 2)
         else case u of
           [] \<Rightarrow> (rune_error, 1)
         | c2 # v \<Rightarrow>
            if \<not> cont_byte c2 then (rune_error, 1)
            else if (of_char c0 :: nat) < 0xF0 then
              ((of_char c0 - 0xE0) * 4096 + (of_char c1 - 0x80) * 64 + (of_char c2 - 0x80), 3)
            else case v of
              [] \<Rightarrow> (rune_error, 1)
            | c3 # w \<Rightarrow>
               if \<not> cont_byte c3 then (rune_error, 1)
               else ((of_char c0 - 0xF0) * 262144 + (of_char c1 - 0x80) * 4096
                      + (of_char c2 - 0x80) * 64 + (of_char c3 - 0x80), 4))"

lemma decode_rune_size_pos: "s \<noteq> [] \<Longrightarrow> 1 \<le> snd (decode_rune s)"
  by (auto simp: decode_rune_def split: list.splits)

lemma decode_rune_size_le: "snd (decode_rune s) \<le> length s"
  by (auto simp: decode_rune_def split: list.splits)

lemma decode_rune_shrinks [simp]: "s \<noteq> [] \<Longrightarrow> length s - snd (decode_rune s) < length s"
  using decode_rune_size_pos [of s] by (cases s) auto

lemma decode_rune_ascii:
  "(of_char c :: nat) < 0x80 \<Longrightarrow> decode_rune (c # s) = (of_char c, 1)"
  by (simp add: decode_rune_def)

text \<open>Cutting a string short either keeps its first rune or leaves an invalid one.\<close>

lemma decode_rune_take:
  assumes "0 < k"
  shows "decode_rune (take k s) = decode_rune s \<or> s \<noteq> [] \<and> fst (decode_rune (take k s)) = rune_error"
proof -
  obtain m where k: "k = Suc m" using assms by (cases k) auto
  consider "m = 0" | "m = 1" | "m = 2" | n where "m = Suc (Suc (Suc n))"
    by (metis One_nat_def Suc_1 not0_implies_Suc)
  then show ?thesis
    by cases (auto simp: k decode_rune_def numeral_2_eq_2 split: list.splits)
qed

text \<open>\<open>for _, r := range s\<close>\<close>

function runes :: "string \<Rightarrow> nat list" where
  "runes s = (if s = [] then [] else
     fst (decode_rune s) # runes (drop (snd (decode_rune s)) s))"
  by pat_completeness auto
termination
  by (relation "measure length") auto

declare runes.simps [simp del]

lemma runes_Nil [simp]: "runes [] = []"
  by (simp add: runes.simps)

lemma runes_ascii [simp]:
  "(of_char c :: nat) < 0x80 \<Longrightarrow> runes (c # s) = of_char c # runes s"
  by (simp add: runes.simps [of "c # s"] decode_rune_ascii)

lemma runes_all_ascii:
  "\<forall>c\<in>set s. (of_char c :: nat) < 0x80 \<Longrightarrow> runes s = map of_char s"
  by (induction s) auto

text \<open>\<open>unicode.IsSpace\<close>\<close>

definition is_space :: "nat \<Rightarrow> bool" where
  "is_space r \<longleftrightarrow> 9 \<le> r \<and> r \<le> 13 \<or> r = 0x20 \<or> r = 0x85 \<or> r = 0xA0 \<or> r = 0x1680 \<or>
     0x2000 \<le> r \<and> r \<le> 0x200A \<or> r = 0x2028 \<or> r = 0x2029 \<or> r = 0x202F \<or> r = 0x205F \<or> r = 0x3000"

lemma is_space_rune_error [simp]: "\<not> is_space rune_error"
  by (simp add: is_space_def rune_error_def)

section \<open>strings.TrimSpace, bytes.TrimSpace\<close>

function trim_left :: "string \<Rightarrow> string" where
  "trim_left s = (if s \<noteq> [] \<and> is_space (fst (decode_rune s))
     then trim_left (drop (snd (decode_rune s)) s) else s)"
  by pat_completeness auto
termination
  by (relation "measure length") auto

declare trim_left.simps [simp del]

definition rune_start :: "char \<Rightarrow> bool" where
  "rune_start c \<longleftrightarrow> \<not> cont_byte c"

text \<open>\<open>utf8.DecodeLastRune\<close>: the last byte if it is ASCII, else the rune that starts at the
  nearest rune start two to four bytes from the end, if it ends exactly at the end.\<close>

fun last_rune_from :: "string \<Rightarrow> nat list \<Rightarrow> nat \<times> nat" where
  "last_rune_from s [] = (rune_error, 1)"
| "last_rune_from s (k # ks) =
     (if k \<le> length s \<and> rune_start (hd (drop (length s - k) s)) then
        (if snd (decode_rune (drop (length s - k) s)) = k
         then (fst (decode_rune (drop (length s - k) s)), k) else (rune_error, 1))
      else last_rune_from s ks)"

definition decode_last_rune :: "string \<Rightarrow> nat \<times> nat" where
  "decode_last_rune s =
     (if s = [] then (rune_error, 0)
      else if (of_char (last s) :: nat) < 0x80 then (of_char (last s), 1)
      else last_rune_from s [2, 3, 4])"

lemma last_rune_from_size:
  "s \<noteq> [] \<Longrightarrow> \<forall>k\<in>set ks. 1 \<le> k \<Longrightarrow>
     1 \<le> snd (last_rune_from s ks) \<and> snd (last_rune_from s ks) \<le> length s"
  by (induction ks) (auto simp: Suc_le_eq)

lemma decode_last_rune_size:
  "s \<noteq> [] \<Longrightarrow> 1 \<le> snd (decode_last_rune s) \<and> snd (decode_last_rune s) \<le> length s"
  using last_rune_from_size [of s "[2, 3, 4]"]
  by (auto simp: decode_last_rune_def Suc_le_eq)

function trim_right :: "string \<Rightarrow> string" where
  "trim_right s = (if s \<noteq> [] \<and> is_space (fst (decode_last_rune s))
     then trim_right (take (length s - snd (decode_last_rune s)) s) else s)"
  by pat_completeness auto
termination
  by (relation "measure length") (auto dest!: decode_last_rune_size simp: Suc_le_eq)

declare trim_right.simps [simp del]

definition trim_space :: "string \<Rightarrow> string" where
  "trim_space s = trim_right (trim_left s)"

lemma trim_left_Nil [simp]: "trim_left [] = []"
  by (simp add: trim_left.simps)

lemma trim_right_Nil [simp]: "trim_right [] = []"
  by (simp add: trim_right.simps)

lemma trim_space_Nil [simp]: "trim_space [] = []"
  by (simp add: trim_space_def)

lemma trim_left_stops: "trim_left s = [] \<or> \<not> is_space (fst (decode_rune (trim_left s)))"
proof (induction s rule: trim_left.induct)
  case (1 s)
  show ?case
  proof (cases "s \<noteq> [] \<and> is_space (fst (decode_rune s))")
    case True
    with 1 show ?thesis by (simp add: trim_left.simps [of s])
  next
    case False
    then show ?thesis by (auto simp: trim_left.simps [of s])
  qed
qed

lemma trim_left_fixed: "s = [] \<or> \<not> is_space (fst (decode_rune s)) \<Longrightarrow> trim_left s = s"
  by (auto simp: trim_left.simps [of s])

lemma trim_right_stops: "trim_right s = [] \<or> \<not> is_space (fst (decode_last_rune (trim_right s)))"
proof (induction s rule: trim_right.induct)
  case (1 s)
  show ?case
  proof (cases "s \<noteq> [] \<and> is_space (fst (decode_last_rune s))")
    case True
    with 1 show ?thesis by (simp add: trim_right.simps [of s])
  next
    case False
    then show ?thesis by (auto simp: trim_right.simps [of s])
  qed
qed

lemma trim_right_fixed: "s = [] \<or> \<not> is_space (fst (decode_last_rune s)) \<Longrightarrow> trim_right s = s"
  by (auto simp: trim_right.simps [of s])

lemma trim_right_take: "\<exists>k. trim_right s = take k s"
proof (induction s rule: trim_right.induct)
  case (1 s)
  show ?case
  proof (cases "s \<noteq> [] \<and> is_space (fst (decode_last_rune s))")
    case True
    with 1 obtain k where "trim_right (take (length s - snd (decode_last_rune s)) s)
      = take k (take (length s - snd (decode_last_rune s)) s)" by blast
    with True show ?thesis
      by (auto simp: trim_right.simps [of s] take_take)
  next
    case False
    then have "trim_right s = take (length s) s" by (auto simp: trim_right.simps [of s])
    then show ?thesis by blast
  qed
qed

lemma trim_space_left_fixed: "trim_left (trim_space s) = trim_space s"
proof -
  let ?t = "trim_left s"
  obtain k where k: "trim_right ?t = take k ?t" using trim_right_take by blast
  show ?thesis
  proof (cases "k = 0 \<or> ?t = []")
    case True
    with k show ?thesis by (auto simp: trim_space_def)
  next
    case False
    then have "0 < k" by simp
    from decode_rune_take [OF this, of ?t] trim_left_stops [of s] False
    have "\<not> is_space (fst (decode_rune (take k ?t)))" by auto
    then show ?thesis by (simp add: trim_space_def k trim_left_fixed)
  qed
qed

lemma trim_space_idem [simp]: "trim_space (trim_space s) = trim_space s"
  by (metis trim_space_def trim_space_left_fixed trim_right_fixed trim_right_stops)

lemma length_trim_left: "length (trim_left s) \<le> length s"
proof (induction s rule: trim_left.induct)
  case (1 s)
  then show ?case by (subst trim_left.simps) (auto intro: le_trans)
qed

lemma length_trim_space: "length (trim_space s) \<le> length s"
proof -
  obtain k where "trim_right (trim_left s) = take k (trim_left s)" using trim_right_take by blast
  then show ?thesis using length_trim_left [of s] by (simp add: trim_space_def)
qed

section \<open>Searching and splitting\<close>

text \<open>\<open>strings.HasPrefix\<close> is \<open>prefix\<close> and \<open>strings.HasSuffix\<close> is \<open>suffix\<close> of the library;
  \<open>strings.Index\<close> returns the first occurrence, \<open>None\<close> standing for \<open>-1\<close>.\<close>

fun index_of :: "string \<Rightarrow> string \<Rightarrow> nat option" where
  "index_of s pat = (if prefix pat s then Some 0 else
     (case s of [] \<Rightarrow> None | _ # t \<Rightarrow> map_option Suc (index_of t pat)))"

declare index_of.simps [simp del]

lemma index_of_Some:
  "index_of s pat = Some i \<Longrightarrow> prefix pat (drop i s) \<and> i \<le> length s \<and> (\<forall>j<i. \<not> prefix pat (drop j s))"
proof (induction s pat arbitrary: i rule: index_of.induct)
  case (1 s pat)
  show ?case
  proof (cases "prefix pat s")
    case True
    with "1.prems" show ?thesis by (simp add: index_of.simps [of s])
  next
    case False
    with "1.prems" obtain c t k
      where s: "s = c # t" and k: "index_of t pat = Some k" "i = Suc k"
      by (auto simp: index_of.simps [of s] split: list.splits)
    from "1.IH" [OF False s k(1)] False s k(2) show ?thesis
      by (auto simp: less_Suc_eq_0_disj)
  qed
qed

lemma index_of_None: "index_of s pat = None \<Longrightarrow> \<not> prefix pat (drop j s)"
proof (induction s pat arbitrary: j rule: index_of.induct)
  case (1 s pat)
  show ?case
  proof (cases "prefix pat s")
    case True
    with "1.prems" show ?thesis by (simp add: index_of.simps [of s])
  next
    case False
    show ?thesis
    proof (cases s)
      case Nil
      with False show ?thesis by simp
    next
      case (Cons c t)
      with "1.prems" False have "index_of t pat = None" by (simp add: index_of.simps [of "c # t" pat])
      with "1.IH" [OF False Cons] False Cons show ?thesis by (cases j) auto
    qed
  qed
qed

text \<open>The search finds the least position with the pattern.\<close>

lemma index_of_least:
  assumes "prefix pat (drop j s)"
  shows "\<exists>i\<le>j. index_of s pat = Some i"
proof (cases "index_of s pat")
  case None
  with assms index_of_None show ?thesis by blast
next
  case (Some i)
  with index_of_Some [OF Some] assms show ?thesis by (metis not_le)
qed

definition contains :: "string \<Rightarrow> string \<Rightarrow> bool" where
  "contains s pat \<longleftrightarrow> index_of s pat \<noteq> None"

text \<open>\<open>strings.Split(s, sep)\<close> for a non-empty separator.\<close>

function split_on :: "string \<Rightarrow> string \<Rightarrow> string list" where
  "split_on sep s = (case index_of s sep of
     None \<Rightarrow> [s]
   | Some i \<Rightarrow> if sep = [] then [s] else take i s # split_on sep (drop (i + length sep) s))"
  by pat_completeness auto
termination
proof (relation "measure (length \<circ> snd)", goal_cases)
  case 1
  show ?case by simp
next
  case (2 sep s i)
  then have "s \<noteq> []" using index_of_Some [of s sep i] by (cases s) (auto simp: index_of.simps)
  with 2 show ?case by (cases s; cases sep) auto
qed

declare split_on.simps [simp del]

text \<open>\<open>strings.Join\<close>\<close>

fun join :: "string \<Rightarrow> string list \<Rightarrow> string" where
  "join sep [] = []"
| "join sep [x] = x"
| "join sep (x # y # xs) = x @ sep @ join sep (y # xs)"

lemma split_on_not_Nil [simp]: "split_on sep s \<noteq> []"
  by (subst split_on.simps) (simp split: option.splits)

lemma join_Cons: "xs \<noteq> [] \<Longrightarrow> join sep (x # xs) = x @ sep @ join sep xs"
  by (cases xs) auto

text \<open>Splitting loses nothing: joining the pieces gives the string back.\<close>

lemma join_split_on: "join sep (split_on sep s) = s"
proof (induction sep s rule: split_on.induct)
  case (1 sep s)
  show ?case
  proof (cases "index_of s sep")
    case None
    then show ?thesis by (subst split_on.simps) simp
  next
    case (Some i)
    show ?thesis
    proof (cases "sep = []")
      case True
      with Some show ?thesis by (subst split_on.simps) simp
    next
      case False
      from index_of_Some [OF Some] obtain u where u: "drop i s = sep @ u" by (auto simp: prefix_def)
      then have "drop (i + length sep) s = u"
        by (metis append_eq_conv_conj drop_drop add.commute)
      with u have "take i s @ sep @ drop (i + length sep) s = s"
        by (metis append_take_drop_id)
      with "1.IH" [OF Some False] Some False show ?thesis
        by (subst split_on.simps) (simp add: join_Cons)
    qed
  qed
qed

text \<open>\<open>strings.Cut(s, sep)\<close> on a one-byte separator: what is before and after the first
  occurrence, \<open>None\<close> when there is none.\<close>

fun cut_at :: "char \<Rightarrow> string \<Rightarrow> (string \<times> string) option" where
  "cut_at c [] = None"
| "cut_at c (d # s) = (if d = c then Some ([], s)
     else (case cut_at c s of None \<Rightarrow> None | Some (u, v) \<Rightarrow> Some (d # u, v)))"

lemma cut_at_Some: "cut_at c s = Some (u, v) \<Longrightarrow> s = u @ c # v \<and> c \<notin> set u"
  by (induction s arbitrary: u) (auto split: if_splits option.splits)

text \<open>\<open>strings.LastIndexByte\<close>\<close>

definition last_index_byte :: "string \<Rightarrow> char \<Rightarrow> nat option" where
  "last_index_byte s c = (if c \<in> set s
     then Some (length s - 1 - length (takeWhile (\<lambda>d. d \<noteq> c) (rev s))) else None)"

text \<open>\<open>strings.TrimRight(s, cutset)\<close> and \<open>bytes.TrimLeft(s, cutset)\<close> for an ASCII cutset.\<close>

definition trim_right_set :: "char set \<Rightarrow> string \<Rightarrow> string" where
  "trim_right_set cs s = rev (dropWhile (\<lambda>c. c \<in> cs) (rev s))"

definition trim_left_set :: "char set \<Rightarrow> string \<Rightarrow> string" where
  "trim_left_set cs s = dropWhile (\<lambda>c. c \<in> cs) s"

section \<open>Case\<close>

definition char_at :: "nat \<Rightarrow> char" where
  "char_at n = char_of n"

text \<open>\<open>utf8.EncodeRune\<close>; a surrogate or a value above U+10FFFF is written as U+FFFD.\<close>

definition encode_rune :: "nat \<Rightarrow> string" where
  "encode_rune r0 =
     (let r = (if 0xD800 \<le> r0 \<and> r0 \<le> 0xDFFF \<or> 0x10FFFF < r0 then rune_error else r0) in
      if r < 0x80 then [char_at r]
      else if r < 0x800 then [char_at (0xC0 + r div 64), char_at (0x80 + r mod 64)]
      else if r < 0x10000 then
        [char_at (0xE0 + r div 4096), char_at (0x80 + r div 64 mod 64), char_at (0x80 + r mod 64)]
      else [char_at (0xF0 + r div 262144), char_at (0x80 + r div 4096 mod 64),
            char_at (0x80 + r div 64 mod 64), char_at (0x80 + r mod 64)])"

definition encode_runes :: "nat list \<Rightarrow> string" where
  "encode_runes rs = concat (map encode_rune rs)"

definition lower_rune :: "nat \<Rightarrow> nat" where
  "lower_rune r = (if 0x41 \<le> r \<and> r \<le> 0x5A then r + 32
     else if r = 0x130 then 0x69 else if r = 0x212A then 0x6B else r)"

text \<open>\<open>strings.ToLower\<close>\<close>

definition to_lower :: "string \<Rightarrow> string" where
  "to_lower s = concat (map (\<lambda>r. encode_rune (lower_rune r)) (runes s))"

definition fold_rune :: "nat \<Rightarrow> nat" where
  "fold_rune r = (if 0x41 \<le> r \<and> r \<le> 0x5A then r + 32
     else if r = 0x17F then 0x73 else if r = 0x212A then 0x6B else r)"

text \<open>\<open>strings.EqualFold\<close>\<close>

definition equal_fold :: "string \<Rightarrow> string \<Rightarrow> bool" where
  "equal_fold s t \<longleftrightarrow> map fold_rune (runes s) = map fold_rune (runes t)"

lemma equal_fold_refl [simp]: "equal_fold s s"
  by (simp add: equal_fold_def)

lemma equal_fold_sym: "equal_fold s t \<Longrightarrow> equal_fold t s"
  by (simp add: equal_fold_def)

lemma equal_fold_trans: "equal_fold s t \<Longrightarrow> equal_fold t u \<Longrightarrow> equal_fold s u"
  by (simp add: equal_fold_def)

section \<open>Numbers\<close>

definition is_digit :: "char \<Rightarrow> bool" where
  "is_digit c \<longleftrightarrow> 0x30 \<le> (of_char c :: nat) \<and> (of_char c :: nat) \<le> 0x39"

definition digit_val :: "char \<Rightarrow> int" where
  "digit_val c = int (of_char c) - 0x30"

text \<open>\<open>strconv.Atoi\<close>: an optional sign and decimal digits within the range of \<open>int\<close>;
  \<open>None\<close> is an error.\<close>

definition digits_value :: "string \<Rightarrow> int" where
  "digits_value ds = fold (\<lambda>d n. n * 10 + digit_val d) ds 0"

definition atoi :: "string \<Rightarrow> int option" where
  "atoi s =
     (let neg = (s \<noteq> [] \<and> hd s = CHR ''-'');
          ds = (if s \<noteq> [] \<and> (hd s = CHR ''-'' \<or> hd s = CHR ''+'') then tl s else s);
          v = (if neg then - digits_value ds else digits_value ds)
      in if ds = [] \<or> (\<exists>c\<in>set ds. \<not> is_digit c) \<or> v < - (2 ^ 63) \<or> 2 ^ 63 \<le> v then None else Some v)"

text \<open>\<open>strconv.Itoa\<close> on a non-negative number.\<close>

definition digit_char :: "nat \<Rightarrow> char" where
  "digit_char d = char_at (0x30 + d)"

fun itoa :: "nat \<Rightarrow> string" where
  "itoa n = (if n < 10 then [digit_char n] else itoa (n div 10) @ [digit_char (n mod 10)])"

declare itoa.simps [simp del]

lemma digit_char_code: "d < 10 \<Longrightarrow> (of_char (digit_char d) :: nat) = 0x30 + d"
  by (simp add: digit_char_def char_at_def)

lemma digit_char_props [simp]:
  "d < 10 \<Longrightarrow> is_digit (digit_char d)"
  "d < 10 \<Longrightarrow> digit_val (digit_char d) = int d"
  by (simp_all add: is_digit_def digit_val_def digit_char_code)

lemma itoa_digits: "\<forall>c\<in>set (itoa n). is_digit c"
proof (induction n rule: itoa.induct)
  case (1 n)
  then show ?case by (subst itoa.simps) auto
qed

lemma itoa_not_Nil [simp]: "itoa n \<noteq> []"
  by (subst itoa.simps) simp

lemma itoa_hd: "0 < n \<Longrightarrow> hd (itoa n) \<noteq> CHR ''0''"
proof (induction n rule: itoa.induct)
  case (1 n)
  show ?case
  proof (cases "n < 10")
    case True
    have "(of_char (digit_char n) :: nat) \<noteq> of_char (CHR ''0'')"
      using True "1.prems" by (simp add: digit_char_code)
    with True show ?thesis by (subst itoa.simps) auto
  next
    case False
    with 1 show ?thesis by (subst itoa.simps) simp
  qed
qed

section \<open>Evaluation\<close>

lemma char_of_eval [go_simps]:
  "char_of (n :: nat) = Char (odd n) (odd (n div 2)) (odd (n div 4)) (odd (n div 8))
     (odd (n div 16)) (odd (n div 32)) (odd (n div 64)) (odd (n div 128))"
  by (simp add: char_of_def bit_iff_odd)

lemmas [go_simps] =
  trim_space_def trim_left.simps trim_right.simps decode_rune_def decode_last_rune_def
  is_space_def rune_error_def cont_byte_def rune_start_def second_ok_def index_of.simps
  split_on.simps to_lower_def lower_rune_def runes.simps encode_rune_def char_at_def
  equal_fold_def fold_rune_def contains_def last_index_byte_def trim_right_set_def
  trim_left_set_def is_digit_def digit_val_def digit_char_def itoa.simps
  digits_value_def atoi_def

end
