(* ===== verification/Rule_DSL.thy ===== *)
theory Rule_DSL
  imports Go_Strings
begin

text \<open>
  The mapping rule language of \<open>main.go\<close>: tokens, rules and the parser (\<open>parseRules\<close>,
  \<open>splitEscaped\<close>, \<open>findRuleSeparator\<close>, \<open>parseFind\<close>, \<open>parseReplace\<close>).  The index loops of the
  source are recursions over the rest of the string; an accumulator stands for the
  \<open>strings.Builder\<close>.  A \<open>;\<close>-separated ruleset is accepted or refused with the first error.
\<close>

section \<open>Tokens and rules\<close>

record token =
  tok_literal :: string
  tok_capture :: int

datatype caseOperation = caseOperationNone | caseOperationLower | caseOperationUpper

record rule =
  patternTokens :: "token list"
  replacementTokens :: "token list"
  captureCount :: int
  caseOp :: caseOperation

datatype rule_error =
    EmptyRules
  | InvalidCharacter
  | InvalidControlCharacter nat
  | InvalidRules
  | InvalidRule
  | EmptySegment
  | DanglingEscape
  | InvalidEscape
  | InvalidReference

abbreviation backslash :: char where
  "backslash \<equiv> CHR 0x5C"

abbreviation lit_token :: "string \<Rightarrow> token" where
  "lit_token l \<equiv> \<lparr>tok_literal = l, tok_capture = 0\<rparr>"

abbreviation cap_token :: "int \<Rightarrow> token" where
  "cap_token n \<equiv> \<lparr>tok_literal = [], tok_capture = n\<rparr>"

section \<open>Splitting a ruleset\<close>

text \<open>\<open>splitEscaped\<close>: \<open>seg\<close> is the segment \<open>s[start:i]\<close> read so far.\<close>

fun splitEscaped_loop ::
    "char \<Rightarrow> bool \<Rightarrow> string \<Rightarrow> string list \<Rightarrow> string \<Rightarrow> rule_error + string list" where
  "splitEscaped_loop sep escaped seg parts [] =
     (if escaped then Inl DanglingEscape
      else if seg = [] then Inl EmptySegment
      else Inr (parts @ [seg]))"
| "splitEscaped_loop sep escaped seg parts (c # s) =
     (if escaped then splitEscaped_loop sep False (seg @ [c]) parts s
      else if c = backslash then splitEscaped_loop sep True (seg @ [c]) parts s
      else if c = sep then
        (if seg = [] then Inl EmptySegment else splitEscaped_loop sep False [] (parts @ [seg]) s)
      else splitEscaped_loop sep False (seg @ [c]) parts s)"

definition splitEscaped :: "string \<Rightarrow> char \<Rightarrow> rule_error + string list" where
  "splitEscaped s sep = splitEscaped_loop sep False [] [] s"

text \<open>\<open>findRuleSeparator\<close>: the position of the only unescaped \<open>=>\<close>; \<open>None\<close> is the pair
  \<open>(-1, false)\<close>.  \<open>i\<close> is the loop variable, \<open>sep\<close> the separator found so far.\<close>

fun findRuleSeparator_loop :: "nat \<Rightarrow> bool \<Rightarrow> nat option \<Rightarrow> string \<Rightarrow> nat option" where
  "findRuleSeparator_loop i escaped sep (c # d # s) =
     (if escaped then findRuleSeparator_loop (Suc i) False sep (d # s)
      else if c = backslash then findRuleSeparator_loop (Suc i) True sep (d # s)
      else if c = CHR ''='' \<and> d = CHR ''>'' then
        (if sep \<noteq> None then None
         else findRuleSeparator_loop (Suc i) False (Some i) (d # s))
      else findRuleSeparator_loop (Suc i) False sep (d # s))"
| "findRuleSeparator_loop i escaped sep s = sep"

definition findRuleSeparator :: "string \<Rightarrow> nat option" where
  "findRuleSeparator s = findRuleSeparator_loop 0 False None s"

section \<open>Patterns and replacements\<close>

text \<open>The closure \<open>flush\<close> of both parsers: the pending literal becomes a token.\<close>

definition flush :: "string \<Rightarrow> token list \<Rightarrow> token list" where
  "flush lit tokens = (if lit = [] then tokens else tokens @ [lit_token lit])"

fun parseFind_loop :: "string \<Rightarrow> string \<Rightarrow> token list \<Rightarrow> int \<Rightarrow> rule_error + token list \<times> int" where
  "parseFind_loop [] lit tokens captures = Inr (flush lit tokens, captures)"
| "parseFind_loop (c # s) lit tokens captures =
     (if c = backslash then
        (case s of
           [] \<Rightarrow> Inl DanglingEscape
         | n # s1 \<Rightarrow>
           if n = CHR ''*'' \<or> n = CHR '';'' \<or> n = CHR ''$'' \<or> n = backslash then
             parseFind_loop s1 (lit @ [n]) tokens captures
           else if n = CHR ''='' then
             (case s1 of
                [] \<Rightarrow> Inl InvalidEscape
              | m # s2 \<Rightarrow> if m = CHR ''>'' then parseFind_loop s2 (lit @ ''=>'') tokens captures
                          else Inl InvalidEscape)
           else Inl InvalidEscape)
      else if c = CHR ''*'' then
        parseFind_loop s [] (flush lit tokens @ [cap_token (captures + 1)]) (captures + 1)
      else parseFind_loop s (lit @ [c]) tokens captures)"

definition parseFind :: "string \<Rightarrow> rule_error + token list \<times> int" where
  "parseFind s = parseFind_loop s [] [] 0"

text \<open>The number after a \<open>$\<close>: \<open>n = n*10 + int(s[k]-'0')\<close> in 64-bit arithmetic.\<close>

definition reference_number :: "string \<Rightarrow> int" where
  "reference_number ds = fold (\<lambda>d n. wrap64 (n * 10 + digit_val d)) ds 0"

text \<open>The run of digits \<open>s[i+1:j]\<close> after a \<open>$\<close> and the rest of the string.\<close>

definition digit_run :: "string \<Rightarrow> string" where
  "digit_run s = takeWhile is_digit s"

definition after_digits :: "string \<Rightarrow> string" where
  "after_digits s = dropWhile is_digit s"

function (sequential) parseReplace_loop ::
    "int \<Rightarrow> string \<Rightarrow> string \<Rightarrow> token list \<Rightarrow> rule_error + token list" where
  "parseReplace_loop captures [] lit tokens = Inr (flush lit tokens)"
| "parseReplace_loop captures (c # s) lit tokens =
     (if c = backslash then
        (case s of
           [] \<Rightarrow> Inl DanglingEscape
         | n # s1 \<Rightarrow>
           if n = CHR '';'' \<or> n = backslash \<or> n = CHR ''$'' \<or> n = CHR ''*'' then
             parseReplace_loop captures s1 (lit @ [n]) tokens
           else if n = CHR ''='' then
             (case s1 of
                [] \<Rightarrow> Inl InvalidEscape
              | m # s2 \<Rightarrow> if m = CHR ''>'' then parseReplace_loop captures s2 (lit @ ''=>'') tokens
                          else Inl InvalidEscape)
           else Inl InvalidEscape)
      else if c \<noteq> CHR ''$'' then parseReplace_loop captures s (lit @ [c]) tokens
      else if s = [] \<or> \<not> is_digit (hd s) \<or> hd s = CHR ''0'' then Inl InvalidReference
      else if reference_number (digit_run s) = 0 \<or> captures < reference_number (digit_run s) then
        Inl InvalidReference
      else parseReplace_loop captures (after_digits s) []
             (flush lit tokens @ [cap_token (reference_number (digit_run s))]))"
  by pat_completeness auto
termination
  by (relation "measure (\<lambda>(captures, s, lit, tokens). length s)")
     (auto simp: after_digits_def intro: le_less_trans [OF length_dropWhile_le])

definition parseReplace :: "string \<Rightarrow> int \<Rightarrow> rule_error + token list" where
  "parseReplace s captures = parseReplace_loop captures s [] []"

section \<open>Rules\<close>

text \<open>The character check at the head of \<open>parseRules\<close>, rune by rune.\<close>

fun check_runes :: "nat list \<Rightarrow> rule_error option" where
  "check_runes [] = None"
| "check_runes (r # rs) =
     (if is_space r \<or> r = 0x22 \<or> r = 0x27 then Some InvalidCharacter
      else if r < 0x20 \<or> r = 0x7F then Some (InvalidControlCharacter r)
      else check_runes rs)"

text \<open>One iteration of the loop over the segments.\<close>

definition parseRule :: "string \<Rightarrow> rule_error + rule" where
  "parseRule part =
     (if part = [backslash, CHR ''a''] then
        Inr \<lparr>patternTokens = [], replacementTokens = [], captureCount = 0, caseOp = caseOperationLower\<rparr>
      else if part = [backslash, CHR ''A''] then
        Inr \<lparr>patternTokens = [], replacementTokens = [], captureCount = 0, caseOp = caseOperationUpper\<rparr>
      else case findRuleSeparator part of
        None \<Rightarrow> Inl InvalidRule
      | Some sep \<Rightarrow>
        if take sep part = [] \<or> drop (sep + 2) part = [] then Inl InvalidRule
        else sum_bind (parseFind (take sep part)) (\<lambda>(pt, captures).
             sum_bind (parseReplace (drop (sep + 2) part) captures) (\<lambda>rt.
               Inr \<lparr>patternTokens = pt, replacementTokens = rt, captureCount = captures,
                    caseOp = caseOperationNone\<rparr>)))"

fun parseParts :: "string list \<Rightarrow> rule_error + rule list" where
  "parseParts [] = Inr []"
| "parseParts (p # ps) =
     sum_bind (parseRule p) (\<lambda>r. sum_bind (parseParts ps) (\<lambda>rs. Inr (r # rs)))"

definition parseRules :: "string \<Rightarrow> rule_error + rule list" where
  "parseRules raw =
     (if raw = [] then Inl EmptyRules
      else case check_runes (runes raw) of
        Some e \<Rightarrow> Inl e
      | None \<Rightarrow>
        (case splitEscaped raw (CHR '';'') of
           Inl _ \<Rightarrow> Inl InvalidRules
         | Inr parts \<Rightarrow> if parts = [] then Inl InvalidRules else parseParts parts))"

lemmas [go_simps] =
  splitEscaped_def findRuleSeparator_def flush_def parseFind_def reference_number_def
  digit_run_def after_digits_def parseReplace_def parseRule_def parseRules_def wrap64_def

end
