(* ===== verification/Rule_Match.thy ===== *)
theory Rule_Match
  imports Rule_DSL
begin

text \<open>
  Application of mapping rules (\<open>main.go\<close>: \<open>applyASCIIModelCase\<close>, \<open>matchTokens\<close> with its
  memoising \<open>tokenMatcher\<close>, \<open>buildReplacement\<close>, \<open>applyRules\<close>).  The matcher is modelled with
  its memo table threaded through the calls.  \<open>bt_match\<close> is the reference it is compared to:
  plain backtracking over all occurrences of the next literal, nearest first.
\<close>

section \<open>ASCII case operations\<close>

definition lower_byte :: "char \<Rightarrow> char" where
  "lower_byte c = (if 0x41 \<le> (of_char c :: nat) \<and> (of_char c :: nat) \<le> 0x5A
     then char_at (of_char c + 32) else c)"

definition upper_byte :: "char \<Rightarrow> char" where
  "upper_byte c = (if 0x61 \<le> (of_char c :: nat) \<and> (of_char c :: nat) \<le> 0x7A
     then char_at (of_char c - 32) else c)"

definition applyASCIIModelCase :: "string \<Rightarrow> caseOperation \<Rightarrow> string" where
  "applyASCIIModelCase model operation = (case operation of
     caseOperationLower \<Rightarrow> map lower_byte model
   | caseOperationUpper \<Rightarrow> map upper_byte model
   | caseOperationNone \<Rightarrow> model)"

section \<open>The memoising matcher\<close>

fun nextLit :: "token list \<Rightarrow> string" where
  "nextLit [] = []"
| "nextLit (t # ts) = (if tok_literal t \<noteq> [] then tok_literal t else nextLit ts)"

definition slice :: "string \<Rightarrow> nat \<Rightarrow> nat \<Rightarrow> string" where
  "slice s i j = take (j - i) (drop i s)"

definition memoKey :: "string \<Rightarrow> nat \<Rightarrow> nat \<Rightarrow> nat" where
  "memoKey s ti pos = ti * (length s + 1) + pos"

text \<open>\<open>tm_match\<close>, \<open>tm_token\<close> and \<open>tm_ends\<close> are \<open>tokenMatcher.match\<close>, \<open>matchToken\<close> and its
  loop over capture ends.  The tokens from index \<open>ti\<close> on are a list; \<open>failed\<close> is the set of
  memo keys, returned updated.\<close>

function (sequential)
  tm_match :: "string \<Rightarrow> token list \<Rightarrow> nat \<Rightarrow> nat \<Rightarrow> string list \<Rightarrow> nat set \<Rightarrow> string list option \<times> nat set"
and tm_token :: "string \<Rightarrow> token \<Rightarrow> token list \<Rightarrow> nat \<Rightarrow> nat \<Rightarrow> string list \<Rightarrow> nat set \<Rightarrow> string list option \<times> nat set"
and tm_ends :: "string \<Rightarrow> token list \<Rightarrow> nat \<Rightarrow> nat \<Rightarrow> nat \<Rightarrow> string list \<Rightarrow> nat set \<Rightarrow> string list option \<times> nat set"
where
  "tm_match s [] ti pos captures failed =
     (if pos = length s then Some captures else None, failed)"
| "tm_match s (tok # rest) ti pos captures failed =
     (if memoKey s ti pos \<in> failed then (None, failed)
      else case tm_token s tok rest ti pos captures failed of
        (Some out, failed') \<Rightarrow> (Some out, failed')
      | (None, failed') \<Rightarrow> (None, insert (memoKey s ti pos) failed'))"
| "tm_token s tok rest ti pos captures failed =
     (if tok_literal tok \<noteq> [] then
        (if prefix (tok_literal tok) (drop pos s)
         then tm_match s rest (Suc ti) (pos + length (tok_literal tok)) captures failed
         else (None, failed))
      else if nextLit rest = [] then
        tm_match s rest (Suc ti) (length s) (captures @ [drop pos s]) failed
      else tm_ends s rest ti pos pos captures failed)"
| "tm_ends s rest ti pos end captures failed =
     (if end + length (nextLit rest) \<le> length s then
        (case index_of (drop end s) (nextLit rest) of
           None \<Rightarrow> (None, failed)
         | Some idx \<Rightarrow>
           (case tm_match s rest (Suc ti) (end + idx) (captures @ [slice s pos (end + idx)]) failed of
              (Some out, failed') \<Rightarrow> (Some out, failed')
            | (None, failed') \<Rightarrow> tm_ends s rest ti pos (Suc (end + idx)) captures failed'))
      else (None, failed))"
  by pat_completeness auto
termination
  by (relation "measures [\<lambda>x. case x of
        Inl (s, toks, _) \<Rightarrow> 3 * length toks
      | Inr (Inl (s, tok, rest, _)) \<Rightarrow> 3 * length rest + 2
      | Inr (Inr (s, rest, _)) \<Rightarrow> 3 * length rest + 1,
      \<lambda>x. case x of
        Inr (Inr (s, rest, ti, pos, end, _)) \<Rightarrow> Suc (length s) - end
      | _ \<Rightarrow> 0]") auto

definition matchTokens :: "string \<Rightarrow> token list \<Rightarrow> string list option" where
  "matchTokens s tokens = fst (tm_match s tokens 0 0 [] {})"

section \<open>Replacement and application\<close>

text \<open>\<open>buildReplacement\<close>: a reference outside the captures panics, as Go's indexing does.\<close>

fun buildReplacement :: "token list \<Rightarrow> string list \<Rightarrow> go_panic + string" where
  "buildReplacement [] captures = Inr []"
| "buildReplacement (tok # toks) captures =
     (if tok_literal tok \<noteq> [] then
        sum_bind (buildReplacement toks captures) (\<lambda>r. Inr (tok_literal tok @ r))
      else if wrap64 (tok_capture tok - 1) < 0 \<or> int (length captures) \<le> wrap64 (tok_capture tok - 1) then
        Inl IndexOutOfRange
      else sum_bind (buildReplacement toks captures)
             (\<lambda>r. Inr (captures ! nat (wrap64 (tok_capture tok - 1)) @ r)))"

text \<open>\<open>applyRules\<close>: the current model name and whether any entry matched.\<close>

fun applyRules_loop :: "string \<Rightarrow> bool \<Rightarrow> rule list \<Rightarrow> go_panic + string \<times> bool" where
  "applyRules_loop current matchedAny [] = Inr (current, matchedAny)"
| "applyRules_loop current matchedAny (r # rs) =
     (if caseOp r \<noteq> caseOperationNone then
        applyRules_loop (applyASCIIModelCase current (caseOp r)) True rs
      else case matchTokens current (patternTokens r) of
        None \<Rightarrow> applyRules_loop current matchedAny rs
      | Some captures \<Rightarrow>
        sum_bind (buildReplacement (replacementTokens r) captures) (\<lambda>next.
          if next = [] then applyRules_loop current matchedAny rs
          else applyRules_loop next True rs))"

definition applyRules :: "string \<Rightarrow> rule list \<Rightarrow> go_panic + string \<times> bool" where
  "applyRules model rules = applyRules_loop model False rules"

lemmas [go_simps] =
  lower_byte_def upper_byte_def applyASCIIModelCase_def slice_def memoKey_def matchTokens_def
  applyRules_def

section \<open>Reference matcher\<close>

fun first_some :: "('a \<Rightarrow> 'b option) \<Rightarrow> 'a list \<Rightarrow> 'b option" where
  "first_some f [] = None"
| "first_some f (x # xs) = (case f x of Some y \<Rightarrow> Some y | None \<Rightarrow> first_some f xs)"

definition occurrences :: "string \<Rightarrow> string \<Rightarrow> nat \<Rightarrow> nat list" where
  "occurrences s lit from = filter (\<lambda>e. prefix lit (drop e s)) [from..<Suc (length s)]"

primrec bt_match :: "string \<Rightarrow> token list \<Rightarrow> nat \<Rightarrow> string list option" where
  "bt_match s [] pos = (if pos = length s then Some [] else None)"
| "bt_match s (tok # rest) pos =
     (if tok_literal tok \<noteq> [] then
        (if prefix (tok_literal tok) (drop pos s)
         then bt_match s rest (pos + length (tok_literal tok)) else None)
      else if nextLit rest = [] then
        map_option (Cons (drop pos s)) (bt_match s rest (length s))
      else first_some (\<lambda>e. map_option (Cons (slice s pos e)) (bt_match s rest e))
             (occurrences s (nextLit rest) pos))"

lemma occurrences_none:
  assumes "lit \<noteq> []" and "length s < from + length lit \<or> index_of (drop from s) lit = None"
  shows "occurrences s lit from = []"
  unfolding occurrences_def filter_empty_conv
proof
  fix e assume e: "e \<in> set [from..<Suc (length s)]"
  then have eq: "drop e s = drop (e - from) (drop from s)" by (auto simp: drop_drop)
  show "\<not> prefix lit (drop e s)"
  proof
    assume p: "prefix lit (drop e s)"
    then have "length lit \<le> length s - e" using prefix_length_le by fastforce
    moreover have "length lit > 0" using assms(1) by simp
    ultimately have "from + length lit \<le> length s" using e by auto
    then have "index_of (drop from s) lit = None" using assms(2) by simp
    then show False using index_of_None [of "drop from s" lit "e - from"] p eq by simp
  qed
qed

lemma occurrences_some:
  assumes "index_of (drop from s) lit = Some idx" and "from \<le> length s"
  shows "occurrences s lit from = (from + idx) # occurrences s lit (Suc (from + idx))"
proof -
  from index_of_Some [OF assms(1)] have
    p: "prefix lit (drop (from + idx) s)" and le: "from + idx \<le> length s"
    and min: "\<forall>j<idx. \<not> prefix lit (drop (from + j) s)"
    using assms(2) by (auto simp: add.commute)
  have split: "[from..<Suc (length s)] = [from..<from + idx] @ (from + idx) # [Suc (from + idx)..<Suc (length s)]"
    using le upt_add_eq_append [of "from" "from + idx" "Suc (length s) - (from + idx)"]
      upt_conv_Cons [of "from + idx" "Suc (length s)"] by simp
  have "filter (\<lambda>e. prefix lit (drop e s)) [from..<from + idx] = []"
    unfolding filter_empty_conv
  proof
    fix e assume "e \<in> set [from..<from + idx]"
    then have "e - from < idx" "from + (e - from) = e" by auto
    with min show "\<not> prefix lit (drop e s)" by metis
  qed
  with p show ?thesis unfolding occurrences_def split filter_append by simp
qed

lemma memoKey_inj:
  assumes "memoKey s i p = memoKey s j q" and "p \<le> length s" and "q \<le> length s"
  shows "i = j \<and> p = q"
proof -
  define n where "n = length s + 1"
  have "p < n" "q < n" using assms(2,3) by (simp_all add: n_def)
  then have "(i * n + p) div n = i" "(j * n + q) div n = j" by simp_all
  with assms(1) have "i = j" by (simp add: memoKey_def n_def)
  with assms(1) show ?thesis by (simp add: memoKey_def)
qed

text \<open>The memo table is sound: every key in it stands for a position the reference refuses,
  and there is one key for a token and a position at most.\<close>

definition memo_sound :: "string \<Rightarrow> token list \<Rightarrow> nat set \<Rightarrow> bool" where
  "memo_sound s toks failed \<longleftrightarrow>
     failed \<subseteq> {..<length toks * (length s + 1)} \<and>
     (\<forall>i p. i \<le> length toks \<longrightarrow> p \<le> length s \<longrightarrow> memoKey s i p \<in> failed \<longrightarrow>
        bt_match s (drop i toks) p = None)"

lemma memo_sound_empty [wf_intros]: "memo_sound s toks {}"
  by (simp add: memo_sound_def)

lemma memo_sound_insert [wf_intros]:
  assumes "memo_sound s toks failed" and "bt_match s (drop i toks) p = None" and "p \<le> length s"
    and "i < length toks"
  shows "memo_sound s toks (insert (memoKey s i p) failed)"
  unfolding memo_sound_def
proof (intro conjI allI impI)
  have "memoKey s i p < Suc i * (length s + 1)" using assms(3) by (simp add: memoKey_def)
  also have "\<dots> \<le> length toks * (length s + 1)" using assms(4) by (intro mult_le_mono1) simp
  finally show "insert (memoKey s i p) failed \<subseteq> {..<length toks * (length s + 1)}"
    using assms(1) by (simp add: memo_sound_def)
next
  fix j q assume "j \<le> length toks" "q \<le> length s" "memoKey s j q \<in> insert (memoKey s i p) failed"
  with assms memoKey_inj [of s j q i p] show "bt_match s (drop j toks) q = None"
    by (auto simp: memo_sound_def)
qed

lemma drop_Suc_eq: "drop i xs = y # ys \<Longrightarrow> drop (Suc i) xs = ys"
  by (metis drop_Suc list.sel(3) tl_drop)

section \<open>The memoising matcher agrees with the reference\<close>

definition extends :: "string list \<Rightarrow> string list option \<Rightarrow> string list option" where
  "extends caps r = map_option (\<lambda>cs. caps @ cs) r"

lemma extends_simps [simp]:
  "extends caps None = None" "extends caps (Some cs) = Some (caps @ cs)"
  "extends caps (map_option (Cons c) r) = extends (caps @ [c]) r"
  by (auto simp: extends_def option.map_comp comp_def)

lemma extends_None [simp]:
  "extends caps r = None \<longleftrightarrow> r = None" "None = extends caps r \<longleftrightarrow> r = None"
  by (auto simp: extends_def)

lemma first_some_cong_extends:
  "extends caps (case r of Some y \<Rightarrow> Some y | None \<Rightarrow> q) =
     (case extends caps r of Some y \<Rightarrow> Some y | None \<Rightarrow> extends caps q)"
  by (cases r) auto

lemma prefix_drop_le: "prefix l (drop p s) \<Longrightarrow> p \<le> length s \<Longrightarrow> p + length l \<le> length s"
  using prefix_length_le by fastforce

lemma memoised_agrees:
  shows "toks = drop ti all \<Longrightarrow> ti \<le> length all \<Longrightarrow> pos \<le> length s \<Longrightarrow> memo_sound s all failed \<Longrightarrow>
      fst (tm_match s toks ti pos caps failed) = extends caps (bt_match s toks pos) \<and>
      memo_sound s all (snd (tm_match s toks ti pos caps failed))"
    and "tok # rest = drop ti all \<Longrightarrow> ti < length all \<Longrightarrow> pos \<le> length s \<Longrightarrow> memo_sound s all failed \<Longrightarrow>
      fst (tm_token s tok rest ti pos caps failed) = extends caps (bt_match s (tok # rest) pos) \<and>
      memo_sound s all (snd (tm_token s tok rest ti pos caps failed))"
    and "rest = drop (Suc ti) all \<Longrightarrow> ti < length all \<Longrightarrow> nextLit rest \<noteq> [] \<Longrightarrow>
      memo_sound s all failed \<Longrightarrow>
      fst (tm_ends s rest ti pos end caps failed) =
        extends caps (first_some (\<lambda>e. map_option (Cons (slice s pos e)) (bt_match s rest e))
          (occurrences s (nextLit rest) end)) \<and>
      memo_sound s all (snd (tm_ends s rest ti pos end caps failed))"
proof (induction s toks ti pos caps failed and s tok rest ti pos caps failed and s rest ti pos "end" caps failed
    rule: tm_match_tm_token_tm_ends.induct)
  case (1 s ti pos caps failed)
  then show ?case by simp
next
  case (2 s tok rest ti pos caps failed)
  show ?case
  proof (cases "memoKey s ti pos \<in> failed")
    case True
    with "2.prems" have "bt_match s (tok # rest) pos = None" unfolding memo_sound_def by metis
    with True "2.prems"(4) show ?thesis by (simp del: bt_match.simps)
  next
    case False
    from "2.prems" have lt: "ti < length all" by (metis drop_all list.distinct(1) not_le)
    obtain r f where rf: "tm_token s tok rest ti pos caps failed = (r, f)" by fastforce
    with "2.IH" [OF False _ lt] "2.prems"
    have r: "r = extends caps (bt_match s (tok # rest) pos)" and f: "memo_sound s all f" by simp_all
    show ?thesis
    proof (cases r)
      case None
      with r "2.prems"(1) have "bt_match s (drop ti all) pos = None" by simp
      with f "2.prems"(3) None r rf False show ?thesis
        by (simp add: memo_sound_insert lt del: bt_match.simps)
    next
      case (Some out)
      with rf False have "tm_match s (tok # rest) ti pos caps failed = (Some out, f)"
        by (simp del: tm_token.simps)
      with Some r f show ?thesis by (simp del: bt_match.simps)
    qed
  qed
next
  case (3 s tok rest ti pos caps failed)
  from "3.prems" have rest: "rest = drop (Suc ti) all" by (metis drop_Suc_eq)
  show ?case
  proof (cases "tok_literal tok \<noteq> []")
    case True
    note IH = "3.IH"(1) [OF True _ rest]
    show ?thesis using IH "3.prems"(2-4) True by (auto simp: prefix_drop_le)
  next
    case False
    note IH = "3.IH"(2) [OF False _ rest] "3.IH"(3) [OF False _ rest]
    show ?thesis using IH "3.prems"(2-4) False by auto
  qed
next
  case (4 s rest ti pos "end" caps failed)
  show ?case
  proof (cases "end + length (nextLit rest) \<le> length s")
    case False
    then have "occurrences s (nextLit rest) end = []"
      using occurrences_none "4.prems"(3) by simp
    with False "4.prems" show ?thesis by simp
  next
    case len: True
    show ?thesis
    proof (cases "index_of (drop end s) (nextLit rest)")
      case None
      then have "occurrences s (nextLit rest) end = []"
        using occurrences_none "4.prems"(3) by simp
      with None len "4.prems" show ?thesis by simp
    next
      case (Some idx)
      from len have le: "end \<le> length s" by simp
      note occ = occurrences_some [OF Some le]
      from index_of_Some [OF Some] have "idx \<le> length s - end" by simp
      with le have pos': "end + idx \<le> length s" by arith
      let ?caps = "caps @ [slice s pos (end + idx)]"
      obtain r f where rf: "tm_match s rest (Suc ti) (end + idx) ?caps failed = (r, f)" by fastforce
      from "4.IH"(1) [OF len Some] "4.prems" pos' rf
      have r: "r = extends ?caps (bt_match s rest (end + idx))" and f: "memo_sound s all f" by auto
      show ?thesis
      proof (cases r)
        case None
        with "4.IH"(2) [OF len Some rf [symmetric]] "4.prems" f r rf Some len occ
        show ?thesis by simp
      next
        case (Some out)
        with r obtain cs where "bt_match s rest (end + idx) = Some cs" "out = ?caps @ cs"
          by (cases "bt_match s rest (end + idx)") auto
        with Some rf f \<open>index_of _ _ = Some idx\<close> len occ show ?thesis by simp
      qed
    qed
  qed
qed

lemma matchTokens_bt: "matchTokens s toks = bt_match s toks 0"
  using memoised_agrees(1) [of toks 0 toks 0 s "{}" "[]"]
  by (cases "bt_match s toks 0") (auto simp: matchTokens_def memo_sound_empty)

section \<open>What a match means\<close>

text \<open>\<open>expand\<close> fills the captures of a pattern; a match is a way of writing the model name so.\<close>

fun expand :: "token list \<Rightarrow> string list \<Rightarrow> string option" where
  "expand [] [] = Some []"
| "expand [] (c # cs) = None"
| "expand (t # ts) caps =
     (if tok_literal t \<noteq> [] then map_option (append (tok_literal t)) (expand ts caps)
      else (case caps of [] \<Rightarrow> None | c # cs \<Rightarrow> map_option (append c) (expand ts cs)))"

definition capture_tokens :: "token list \<Rightarrow> nat" where
  "capture_tokens ts = length (filter (\<lambda>t. tok_literal t = []) ts)"

lemma capture_tokens_simps [simp]:
  "capture_tokens [] = 0"
  "capture_tokens (t # ts) = (if tok_literal t = [] then Suc (capture_tokens ts) else capture_tokens ts)"
  "capture_tokens (ts @ us) = capture_tokens ts + capture_tokens us"
  by (simp_all add: capture_tokens_def)

lemma expand_length: "expand ts caps = Some s \<Longrightarrow> length caps = capture_tokens ts"
  by (induction ts caps arbitrary: s rule: expand.induct) (auto split: if_splits list.splits)

lemma first_some_Some: "first_some f xs = Some y \<Longrightarrow> \<exists>x\<in>set xs. f x = Some y"
  by (induction xs) (auto split: option.splits)

lemma first_some_None: "first_some f xs = None \<longleftrightarrow> (\<forall>x\<in>set xs. f x = None)"
  by (induction xs) (auto split: option.splits)

lemma slice_append_drop: "i \<le> j \<Longrightarrow> slice s i j @ drop j s = drop i s"
  by (metis slice_def append_take_drop_id drop_drop le_add_diff_inverse2)

lemma in_occurrences:
  "e \<in> set (occurrences s lit i) \<longleftrightarrow> i \<le> e \<and> e \<le> length s \<and> prefix lit (drop e s)"
  by (auto simp: occurrences_def)

lemma bt_match_sound:
  "bt_match s toks pos = Some caps \<Longrightarrow> pos \<le> length s \<Longrightarrow> expand toks caps = Some (drop pos s)"
proof (induction toks arbitrary: pos caps)
  case Nil
  then show ?case by (auto split: if_splits)
next
  case (Cons t ts)
  show ?case
  proof (cases "tok_literal t \<noteq> []")
    case True
    with Cons.prems have p: "prefix (tok_literal t) (drop pos s)"
      and m: "bt_match s ts (pos + length (tok_literal t)) = Some caps" by (auto split: if_splits)
    from p obtain u where u: "drop pos s = tok_literal t @ u" by (auto simp: prefix_def)
    then have "drop (pos + length (tok_literal t)) s = u"
      by (metis append_eq_conv_conj drop_drop add.commute)
    with Cons.IH [OF m prefix_drop_le [OF p Cons.prems(2)]] True u show ?thesis by simp
  next
    case cap: False
    show ?thesis
    proof (cases "nextLit ts = []")
      case True
      with cap Cons.prems(1) obtain cs where m: "bt_match s ts (length s) = Some cs"
        and c: "caps = drop pos s # cs" by auto
      from Cons.IH [OF m] c cap show ?thesis by simp
    next
      case False
      with cap Cons.prems(1) obtain e cs
        where e: "e \<in> set (occurrences s (nextLit ts) pos)" and m: "bt_match s ts e = Some cs"
          and c: "caps = slice s pos e # cs"
        by (auto dest!: first_some_Some)
      from e have "pos \<le> e" "e \<le> length s" by (simp_all add: in_occurrences)
      with Cons.IH [OF m] c cap show ?thesis by (simp add: slice_append_drop)
    qed
  qed
qed

lemma bt_match_trailing: "nextLit ts = [] \<Longrightarrow> bt_match s ts (length s) \<noteq> None"
  by (induction ts) (auto split: if_splits)

text \<open>In any reading of a pattern, the captures before the next literal can be emptied.\<close>

lemma expand_next_literal:
  "expand ts cs = Some u \<Longrightarrow> nextLit ts \<noteq> [] \<Longrightarrow>
     \<exists>v w cs'. u = v @ w \<and> prefix (nextLit ts) w \<and> expand ts cs' = Some w"
proof (induction ts cs arbitrary: u rule: expand.induct)
  case (3 t ts caps)
  show ?case
  proof (cases "tok_literal t \<noteq> []")
    case True
    with "3.prems" have "prefix (nextLit (t # ts)) u" by auto
    with "3.prems"(1) show ?thesis by (metis append_Nil)
  next
    case False
    with "3.prems" obtain c cs u' where caps: "caps = c # cs"
      and u: "u = c @ u'" "expand ts cs = Some u'" "nextLit ts \<noteq> []"
      by (auto split: list.splits)
    from "3.IH"(2) [OF False caps u(2,3)] obtain v w cs'
      where h: "u' = v @ w" "prefix (nextLit ts) w" "expand ts cs' = Some w" by blast
    have "expand (t # ts) ([] # cs') = Some w" using False h(3) by simp
    with h u(1) False show ?thesis by (metis append_assoc nextLit.simps(2))
  qed
qed auto

lemma bt_match_complete:
  "expand toks caps = Some (drop pos s) \<Longrightarrow> pos \<le> length s \<Longrightarrow> bt_match s toks pos \<noteq> None"
proof (induction toks arbitrary: pos caps)
  case Nil
  then show ?case by (cases caps) auto
next
  case (Cons t ts)
  show ?case
  proof (cases "tok_literal t \<noteq> []")
    case True
    with Cons.prems obtain u where u: "expand ts caps = Some u" "drop pos s = tok_literal t @ u" by auto
    then have p: "prefix (tok_literal t) (drop pos s)" by simp
    from u(2) have "drop (pos + length (tok_literal t)) s = u"
      by (metis append_eq_conv_conj drop_drop add.commute)
    with Cons.IH [of caps] u(1) prefix_drop_le [OF p Cons.prems(2)] p True show ?thesis by auto
  next
    case cap: False
    then obtain c cs u where c: "caps = c # cs" and u: "expand ts cs = Some u" "drop pos s = c @ u"
      using Cons.prems by (auto split: list.splits)
    show ?thesis
    proof (cases "nextLit ts = []")
      case True
      with cap show ?thesis using bt_match_trailing [OF True, of s] by auto
    next
      case False
      from expand_next_literal [OF u(1) False] obtain v w cs'
        where h: "u = v @ w" "prefix (nextLit ts) w" "expand ts cs' = Some w" by blast
      define e where "e = pos + length (c @ v)"
      have dw: "drop e s = w"
        using u(2) h(1) by (metis e_def append_assoc append_eq_conv_conj drop_drop add.commute)
      have "e \<le> length s"
        using u(2) h(1) Cons.prems(2) by (metis e_def append_assoc length_append length_drop le_add1
          le_diff_conv2 add.commute)
      then have occ: "e \<in> set (occurrences s (nextLit ts) pos)"
        using dw h(2) by (simp add: in_occurrences e_def)
      from Cons.IH [of cs' e] dw h(3) \<open>e \<le> length s\<close> have "bt_match s ts e \<noteq> None" by simp
      with occ cap False show ?thesis by (auto simp: first_some_None simp del: not_None_eq)
    qed
  qed
qed

section \<open>Correctness of the matcher\<close>

text \<open>C2. \<open>matchTokens\<close> decides the pattern language: when it returns captures they fill the
  pattern to exactly the model name, and when it refuses no captures do.  Nearest-first
  search with backtracking therefore misses no match, also when a literal repeats.\<close>

theorem matchTokens_decides:
  "case matchTokens s toks of
     Some caps \<Rightarrow> expand toks caps = Some s
   | None \<Rightarrow> \<forall>caps. expand toks caps \<noteq> Some s"
  using bt_match_sound [of s toks 0] bt_match_complete [of toks _ 0 s]
  by (auto simp: matchTokens_bt split: option.splits)

text \<open>The memo table changes no result: the matcher returns what plain backtracking returns,
  and it keeps at most one failed entry for a token and a position.\<close>

theorem matchTokens_memoised:
  "matchTokens s toks = bt_match s toks 0 \<and>
   card (snd (tm_match s toks 0 0 [] {})) \<le> length toks * (length s + 1)"
proof -
  have "memo_sound s toks (snd (tm_match s toks 0 0 [] {}))"
    using memoised_agrees(1) [of toks 0 toks 0 s "{}" "[]"] by (simp add: memo_sound_empty)
  then have "snd (tm_match s toks 0 0 [] {}) \<subseteq> {..<length toks * (length s + 1)}"
    by (simp add: memo_sound_def)
  from card_mono [OF _ this] show ?thesis by (simp add: matchTokens_bt)
qed

end
