(* ===== verification/Rule_Roundtrip.thy ===== *)
theory Rule_Roundtrip
  imports Rule_Match
begin

text \<open>
  What \<open>parseRules\<close> builds and that it loses nothing: a printer for rulesets, the shape
  (\<open>rule_ok\<close>) of every rule the parser returns, and the two theorems that connect them.
\<close>

section \<open>Well-formed rules\<close>

text \<open>Patterns: literals are maximal and not empty, captures are numbered from left to right.\<close>

fun pattern_ok :: "int \<Rightarrow> bool \<Rightarrow> token list \<Rightarrow> bool" where
  "pattern_ok k lit [] = True"
| "pattern_ok k lit (t # ts) =
     (if tok_literal t \<noteq> [] then \<not> lit \<and> tok_capture t = 0 \<and> pattern_ok k True ts
      else tok_capture t = k + 1 \<and> pattern_ok (k + 1) False ts)"

datatype replace_ctx = AfterLiteral | AfterReference | AtStart

text \<open>Replacements: references lie within the captures, and a literal after a reference does not
  begin with a digit, which would read as part of the number.\<close>

fun replacement_ok :: "int \<Rightarrow> replace_ctx \<Rightarrow> token list \<Rightarrow> bool" where
  "replacement_ok m ctx [] = True"
| "replacement_ok m ctx (t # ts) =
     (if tok_literal t \<noteq> [] then
        ctx \<noteq> AfterLiteral \<and> tok_capture t = 0 \<and>
        (ctx = AfterReference \<longrightarrow> \<not> is_digit (hd (tok_literal t))) \<and>
        replacement_ok m AfterLiteral ts
      else 1 \<le> tok_capture t \<and> tok_capture t \<le> m \<and> replacement_ok m AfterReference ts)"

definition rule_ok :: "rule \<Rightarrow> bool" where
  "rule_ok r \<longleftrightarrow>
     (if caseOp r \<noteq> caseOperationNone then
        patternTokens r = [] \<and> replacementTokens r = [] \<and> captureCount r = 0
      else patternTokens r \<noteq> [] \<and> replacementTokens r \<noteq> [] \<and>
        pattern_ok 0 False (patternTokens r) \<and>
        captureCount r = int (capture_tokens (patternTokens r)) \<and>
        replacement_ok (captureCount r) AtStart (replacementTokens r) \<and>
        captureCount r < 2 ^ 63)"

section \<open>The printer\<close>

definition special :: "char \<Rightarrow> bool" where
  "special c \<longleftrightarrow> c = CHR ''*'' \<or> c = CHR '';'' \<or> c = CHR ''$'' \<or> c = backslash"

function escape :: "string \<Rightarrow> string" where
  "escape [] = []"
| "escape (c # s) =
     (if c = CHR ''='' \<and> s \<noteq> [] \<and> hd s = CHR ''>'' then backslash # ''=>'' @ escape (tl s)
      else if special c then backslash # c # escape s
      else c # escape s)"
  by pat_completeness auto
termination
  by (relation "measure length") auto

definition render_find :: "token list \<Rightarrow> string" where
  "render_find ts = concat (map (\<lambda>t. if tok_literal t \<noteq> [] then escape (tok_literal t) else ''*'') ts)"

definition render_replace :: "token list \<Rightarrow> string" where
  "render_replace ts = concat (map (\<lambda>t. if tok_literal t \<noteq> [] then escape (tok_literal t)
     else ''$'' @ itoa (nat (tok_capture t))) ts)"

definition render_rule :: "rule \<Rightarrow> string" where
  "render_rule r = (case caseOp r of
     caseOperationLower \<Rightarrow> [backslash, CHR ''a'']
   | caseOperationUpper \<Rightarrow> [backslash, CHR ''A'']
   | caseOperationNone \<Rightarrow> render_find (patternTokens r) @ ''=>'' @ render_replace (replacementTokens r))"

definition render_rules :: "rule list \<Rightarrow> string" where
  "render_rules rs = join '';'' (map render_rule rs)"

lemmas [go_simps] = special_def render_find_def render_replace_def render_rule_def render_rules_def

lemma render_find_simps [simp]:
  "render_find [] = []"
  "render_find (t # ts) = (if tok_literal t \<noteq> [] then escape (tok_literal t) else ''*'') @ render_find ts"
  by (simp_all add: render_find_def)

lemma render_replace_simps [simp]:
  "render_replace [] = []"
  "render_replace (t # ts) = (if tok_literal t \<noteq> [] then escape (tok_literal t)
     else ''$'' @ itoa (nat (tok_capture t))) @ render_replace ts"
  by (simp_all add: render_replace_def)

lemma token_eqI: "tok_literal t = l \<Longrightarrow> tok_capture t = n \<Longrightarrow> t = \<lparr>tok_literal = l, tok_capture = n\<rparr>"
  by simp

section \<open>Parsing what was printed\<close>

lemma parseFind_escape:
  "parseFind_loop (escape l @ rest) lit ts k = parseFind_loop rest (lit @ l) ts k"
proof (induction l arbitrary: lit rule: escape.induct)
  case 1
  then show ?case by simp
next
  case (2 c s)
  consider (arrow) "c = CHR ''=''" "s \<noteq> []" "hd s = CHR ''>''"
    | (esc) "special c" "c \<noteq> CHR ''=''"
    | (plain) "\<not> (c = CHR ''='' \<and> s \<noteq> [] \<and> hd s = CHR ''>'')" "\<not> special c"
    by (auto simp: special_def)
  then show ?case
  proof cases
    case arrow
    then obtain s' where "s = CHR ''>'' # s'" by (cases s) auto
    with arrow 2 show ?thesis by simp
  next
    case esc
    with 2 show ?thesis by (auto simp: special_def)
  next
    case plain
    with 2 show ?thesis by (auto simp: special_def)
  qed
qed

lemma parseFind_print:
  "pattern_ok k (lit \<noteq> []) ts \<Longrightarrow>
     parseFind_loop (render_find ts) lit acc k = Inr (flush lit acc @ ts, k + int (capture_tokens ts))"
proof (induction ts arbitrary: lit acc k)
  case Nil
  then show ?case by simp
next
  case (Cons t ts)
  show ?case
  proof (cases "tok_literal t \<noteq> []")
    case True
    with Cons.prems have "lit = []" "t = lit_token (tok_literal t)" and ok: "pattern_ok k True ts"
      by (auto intro: token_eqI)
    moreover have "parseFind_loop (render_find ts) (tok_literal t) acc k
        = Inr (flush (tok_literal t) acc @ ts, k + int (capture_tokens ts))"
      using Cons.IH [of k "tok_literal t" acc] ok True by simp
    ultimately show ?thesis using True by (simp add: parseFind_escape flush_def)
  next
    case False
    with Cons.prems have t: "t = cap_token (k + 1)" and ok: "pattern_ok (k + 1) False ts"
      by (auto intro: token_eqI)
    have "parseFind_loop (render_find ts) [] (flush lit acc @ [cap_token (k + 1)]) (k + 1)
        = Inr (flush [] (flush lit acc @ [cap_token (k + 1)]) @ ts, k + 1 + int (capture_tokens ts))"
      using Cons.IH [of "k + 1" "[]"] ok by simp
    with False t show ?thesis by (simp add: flush_def)
  qed
qed

lemma parseReplace_escape:
  "parseReplace_loop m (escape l @ rest) lit ts = parseReplace_loop m rest (lit @ l) ts"
proof (induction l arbitrary: lit rule: escape.induct)
  case 1
  then show ?case by simp
next
  case (2 c s)
  consider (arrow) "c = CHR ''=''" "s \<noteq> []" "hd s = CHR ''>''"
    | (esc) "special c" "c \<noteq> CHR ''=''"
    | (plain) "\<not> (c = CHR ''='' \<and> s \<noteq> [] \<and> hd s = CHR ''>'')" "\<not> special c"
    by (auto simp: special_def)
  then show ?case
  proof cases
    case arrow
    then obtain s' where "s = CHR ''>'' # s'" by (cases s) auto
    with arrow 2 show ?thesis by simp
  next
    case esc
    with 2 show ?thesis by (auto simp: special_def)
  next
    case plain
    with 2 show ?thesis by (auto simp: special_def)
  qed
qed

lemma fold_reference_itoa:
  assumes "int n < 2 ^ 63"
  shows "reference_number (itoa n) = int n"
  using assms
proof (induction n rule: itoa.induct)
  case (1 n)
  show ?case
  proof (cases "n < 10")
    case True
    then show ?thesis by (subst itoa.simps) (simp add: reference_number_def wrap64_id)
  next
    case False
    have q: "reference_number (itoa (n div 10)) = int (n div 10)" using "1.IH" [OF False] "1.prems" by simp
    have e: "int (n div 10) * 10 + int (n mod 10) = int n" by presburger
    have "reference_number (itoa n) = wrap64 (reference_number (itoa (n div 10)) * 10 + int (n mod 10))"
      using False by (subst itoa.simps) (simp add: reference_number_def)
    with q e "1.prems" show ?thesis by (simp add: wrap64_id)
  qed
qed

lemma digit_run_itoa:
  assumes "rest = [] \<or> \<not> is_digit (hd rest)"
  shows "digit_run (itoa n @ rest) = itoa n" and "after_digits (itoa n @ rest) = rest"
  using itoa_digits [of n] assms
  by (cases rest; auto simp: digit_run_def after_digits_def takeWhile_append dropWhile_append)+

lemma escape_hd: "l \<noteq> [] \<Longrightarrow> hd (escape l) = hd l \<or> hd (escape l) = backslash"
  by (cases l) auto

lemma escape_Nil [simp]: "escape l = [] \<longleftrightarrow> l = []"
  by (cases l) auto

lemma render_replace_hd:
  "replacement_ok m AfterReference ts \<Longrightarrow> render_replace ts = [] \<or> \<not> is_digit (hd (render_replace ts))"
proof (cases ts)
  case (Cons t us)
  assume ok: "replacement_ok m AfterReference ts"
  show ?thesis
  proof (cases "tok_literal t \<noteq> []")
    case True
    with ok Cons have "\<not> is_digit (hd (tok_literal t))" by simp
    with escape_hd [OF True] True Cons show ?thesis by (auto simp: is_digit_def)
  next
    case False
    with Cons show ?thesis by (simp add: is_digit_def)
  qed
qed simp

lemma parseReplace_print:
  assumes "m < 2 ^ 63"
  shows "replacement_ok m ctx ts \<Longrightarrow> (ctx = AfterLiteral \<longleftrightarrow> lit \<noteq> []) \<Longrightarrow>
     parseReplace_loop m (render_replace ts) lit acc = Inr (flush lit acc @ ts)"
proof (induction ts arbitrary: lit acc ctx)
  case Nil
  then show ?case by simp
next
  case (Cons t ts)
  show ?case
  proof (cases "tok_literal t \<noteq> []")
    case True
    with Cons.prems have "lit = []" "t = lit_token (tok_literal t)" and ok: "replacement_ok m AfterLiteral ts"
      by (auto intro: token_eqI)
    moreover have "parseReplace_loop m (render_replace ts) (tok_literal t) acc = Inr (flush (tok_literal t) acc @ ts)"
      using Cons.IH [of AfterLiteral "tok_literal t" acc] ok True by simp
    ultimately show ?thesis using True by (simp add: parseReplace_escape flush_def)
  next
    case False
    define n where "n = nat (tok_capture t)"
    from False Cons.prems have t: "t = cap_token (int n)" and n: "0 < n" "int n \<le> m"
      and ok: "replacement_ok m AfterReference ts"
      by (auto intro: token_eqI simp: n_def)
    have run: "digit_run (itoa n @ render_replace ts) = itoa n" "after_digits (itoa n @ render_replace ts) = render_replace ts"
      using digit_run_itoa render_replace_hd [OF ok] by blast+
    have ref: "reference_number (itoa n) = int n" using n assms fold_reference_itoa by simp
    have hd: "is_digit (hd (itoa n))" "hd (itoa n) \<noteq> CHR ''0''"
      using itoa_digits [of n] itoa_hd [OF n(1)] by auto
    have "parseReplace_loop m (render_replace ts) [] (flush lit acc @ [cap_token (int n)])
        = Inr (flush [] (flush lit acc @ [cap_token (int n)]) @ ts)"
      using Cons.IH [of AfterReference "[]"] ok by simp
    with False t run ref hd n(1,2) show ?thesis by (simp add: flush_def)
  qed
qed

section \<open>Segments and separators\<close>

text \<open>A text is closed for the splitter if it is read through without a split.\<close>

definition split_closed :: "string \<Rightarrow> bool" where
  "split_closed w \<longleftrightarrow> (\<forall>seg parts rest.
     splitEscaped_loop (CHR '';'') False seg parts (w @ rest) =
     splitEscaped_loop (CHR '';'') False (seg @ w) parts rest)"

lemma split_closed_append [wf_intros]: "split_closed u \<Longrightarrow> split_closed v \<Longrightarrow> split_closed (u @ v)"
  by (simp add: split_closed_def)

lemma split_closed_Nil [wf_intros]: "split_closed []"
  by (simp add: split_closed_def)

lemma split_closed_char [wf_intros]: "c \<noteq> CHR '';'' \<Longrightarrow> c \<noteq> backslash \<Longrightarrow> split_closed [c]"
  by (simp add: split_closed_def)

lemma split_closed_escaped [wf_intros]: "split_closed [backslash, c]"
  by (simp add: split_closed_def)

lemma split_closed_chars:
  "\<forall>c\<in>set w. c \<noteq> CHR '';'' \<and> c \<noteq> backslash \<Longrightarrow> split_closed w"
proof (induction w)
  case (Cons c w)
  then have "split_closed ([c] @ w)" by (intro wf_intros) auto
  then show ?case by simp
qed (simp add: split_closed_Nil)

lemma split_closed_two: "split_closed [c] \<Longrightarrow> split_closed [d] \<Longrightarrow> split_closed [c, d]"
  using split_closed_append [of "[c]" "[d]"] by simp

lemma split_closed_escape [wf_intros]: "split_closed (escape l)"
proof (induction l rule: escape.induct)
  case 1
  then show ?case by (simp add: split_closed_Nil)
next
  case (2 c s)
  let ?arrow = "c = CHR ''='' \<and> s \<noteq> [] \<and> hd s = CHR ''>''"
  consider (arrow) ?arrow | (esc) "special c" "\<not> ?arrow" | (plain) "\<not> special c" "\<not> ?arrow" by blast
  then show ?case
  proof cases
    case arrow
    then have "split_closed ([backslash, CHR ''=''] @ [CHR ''>''] @ escape (tl s))"
      using 2(1) by (intro split_closed_append split_closed_escaped split_closed_char) auto
    with arrow show ?thesis by simp
  next
    case esc
    then have "split_closed ([backslash, c] @ escape s)"
      using 2(2) by (intro split_closed_append split_closed_escaped) auto
    with esc show ?thesis by auto
  next
    case plain
    then have "split_closed ([c] @ escape s)"
      using 2(3) by (intro split_closed_append split_closed_char) (auto simp: special_def)
    with plain show ?thesis by auto
  qed
qed

lemma itoa_chars: "c \<in> set (itoa n) \<Longrightarrow> c \<noteq> CHR '';'' \<and> c \<noteq> backslash \<and> c \<noteq> CHR ''='' \<and> c \<noteq> CHR ''>''"
  using itoa_digits [of n] by (auto simp: is_digit_def)

lemma split_closed_find [wf_intros]: "split_closed (render_find ts)"
proof (induction ts)
  case (Cons t ts)
  then have "split_closed (escape (tok_literal t) @ render_find ts)" "split_closed (''*'' @ render_find ts)"
    by (auto intro: split_closed_append split_closed_escape split_closed_char simp del: append_Cons)
  then show ?case by simp
qed (simp add: split_closed_Nil)

lemma split_closed_itoa [wf_intros]: "split_closed (itoa n)"
  by (rule split_closed_chars) (auto dest: itoa_chars)

lemma split_closed_replace [wf_intros]: "split_closed (render_replace ts)"
proof (induction ts)
  case (Cons t ts)
  have "split_closed (''$'' @ itoa (nat (tok_capture t)) @ render_replace ts)"
    by (intro split_closed_append split_closed_itoa Cons split_closed_char) auto
  moreover have "split_closed (escape (tok_literal t) @ render_replace ts)"
    by (intro split_closed_append split_closed_escape Cons)
  ultimately show ?case by simp
qed (simp add: split_closed_Nil)

lemma split_closed_rule: "split_closed (render_rule r)"
proof -
  have "split_closed (''='' @ ''>'')"
    by (intro split_closed_append split_closed_char) auto
  then have "split_closed (render_find (patternTokens r) @ ''=>'' @ render_replace (replacementTokens r))"
    by (intro split_closed_append split_closed_find split_closed_replace) simp
  then show ?thesis
    by (cases "caseOp r") (auto simp: render_rule_def intro: split_closed_escaped)
qed

lemma split_closedD:
  "split_closed w \<Longrightarrow> splitEscaped_loop (CHR '';'') False [] parts (w @ rest) =
     splitEscaped_loop (CHR '';'') False w parts rest"
  by (simp add: split_closed_def)

lemma splitEscaped_join:
  assumes "ps \<noteq> []" and "\<forall>p\<in>set ps. split_closed p \<and> p \<noteq> []"
  shows "splitEscaped_loop (CHR '';'') False [] parts (join '';'' ps) = Inr (parts @ ps)"
  using assms
proof (induction ps arbitrary: parts rule: list_nonempty_induct)
  case (single p)
  then show ?case using split_closedD [of p parts "[]"] by simp
next
  case (cons p ps)
  then show ?case
    using split_closedD [of p parts "'';'' @ join '';'' ps"]
    by (cases ps) simp_all
qed

text \<open>The separator search reads through an escaped literal without finding a \<open>=>\<close>.\<close>

lemma frs_end [simp]:
  "findRuleSeparator_loop i e sep [] = sep" "findRuleSeparator_loop i e sep [c] = sep"
  by simp_all

lemma frs_pair:
  "findRuleSeparator_loop i False sep (backslash # c # w) = findRuleSeparator_loop (Suc (Suc i)) False sep w"
  by (cases w) auto

lemma frs_char:
  "c \<noteq> backslash \<Longrightarrow> \<not> (c = CHR ''='' \<and> w \<noteq> [] \<and> hd w = CHR ''>'') \<Longrightarrow>
     findRuleSeparator_loop i False sep (c # w) = findRuleSeparator_loop (Suc i) False sep w"
  by (cases w) auto

lemma frs_separator:
  "findRuleSeparator_loop i False None (''=>'' @ w) = findRuleSeparator_loop (Suc (Suc i)) False (Some i) w"
  by (cases w) auto

declare findRuleSeparator_loop.simps [simp del, go_simps]

lemma frs_escape:
  assumes "rest = [] \<or> hd rest \<noteq> CHR ''>''"
  shows "findRuleSeparator_loop i False sep (escape l @ rest) =
     findRuleSeparator_loop (i + length (escape l)) False sep rest"
proof (induction l arbitrary: i rule: escape.induct)
  case 1
  then show ?case by simp
next
  case (2 c s)
  let ?arrow = "c = CHR ''='' \<and> s \<noteq> [] \<and> hd s = CHR ''>''"
  consider (arrow) ?arrow | (esc) "special c" "\<not> ?arrow" | (plain) "\<not> special c" "\<not> ?arrow" by blast
  then show ?case
  proof cases
    case arrow
    have "findRuleSeparator_loop i False sep (backslash # CHR ''='' # CHR ''>'' # escape (tl s) @ rest)
        = findRuleSeparator_loop (Suc (Suc (Suc i))) False sep (escape (tl s) @ rest)"
      by (simp add: frs_pair frs_char)
    with arrow 2(1) show ?thesis by simp
  next
    case esc
    then have "findRuleSeparator_loop i False sep (escape (c # s) @ rest)
        = findRuleSeparator_loop (Suc (Suc i)) False sep (escape s @ rest)"
      by (auto simp: frs_pair)
    with esc 2(2) show ?thesis by auto
  next
    case plain
    then have "\<not> (c = CHR ''='' \<and> escape s @ rest \<noteq> [] \<and> hd (escape s @ rest) = CHR ''>'')"
      using assms escape_hd [of s] by (cases "s = []") auto
    with plain have "findRuleSeparator_loop i False sep (escape (c # s) @ rest)
        = findRuleSeparator_loop (Suc i) False sep (escape s @ rest)"
      by (auto simp: frs_char special_def)
    with plain 2(3) show ?thesis by auto
  qed
qed

lemma frs_find:
  "pattern_ok k lit ts \<Longrightarrow> rest = [] \<or> hd rest \<noteq> CHR ''>'' \<Longrightarrow>
     findRuleSeparator_loop i False sep (render_find ts @ rest) =
     findRuleSeparator_loop (i + length (render_find ts)) False sep rest"
proof (induction ts arbitrary: i k lit)
  case (Cons t ts)
  show ?case
  proof (cases "tok_literal t \<noteq> []")
    case True
    with Cons.prems(1) have ok: "pattern_ok k True ts" by simp
    have "render_find ts @ rest = [] \<or> hd (render_find ts @ rest) \<noteq> CHR ''>''"
      using ok Cons.prems(2) by (cases ts) auto
    from frs_escape [OF this] True Cons.IH [OF ok Cons.prems(2)]
    show ?thesis by (simp add: add.assoc)
  next
    case False
    with Cons.prems(1) have ok: "pattern_ok (k + 1) False ts" by simp
    from False Cons.IH [OF ok Cons.prems(2)] show ?thesis by (simp add: frs_char)
  qed
qed simp

lemma frs_digits:
  "\<forall>c\<in>set ds. is_digit c \<Longrightarrow>
     findRuleSeparator_loop i False sep (ds @ rest) = findRuleSeparator_loop (i + length ds) False sep rest"
proof (induction ds arbitrary: i)
  case (Cons d ds)
  then have "d \<noteq> backslash" "d \<noteq> CHR ''=''" by (auto simp: is_digit_def)
  with Cons show ?case by (simp add: frs_char)
qed simp

lemma frs_replace:
  "replacement_ok m ctx ts \<Longrightarrow> findRuleSeparator_loop i False sep (render_replace ts) = sep"
proof (induction ts arbitrary: i ctx)
  case (Cons t ts)
  show ?case
  proof (cases "tok_literal t \<noteq> []")
    case True
    with Cons.prems have ok: "replacement_ok m AfterLiteral ts" by simp
    then have "render_replace ts = [] \<or> hd (render_replace ts) \<noteq> CHR ''>''" by (cases ts) auto
    from frs_escape [OF this] True Cons.IH [OF ok] show ?thesis by simp
  next
    case False
    with Cons.prems have ok: "replacement_ok m AfterReference ts" by simp
    from False Cons.IH [OF ok] show ?thesis by (simp add: frs_char frs_digits itoa_digits)
  qed
qed simp

section \<open>Round trip\<close>

lemma render_find_not_Nil: "ts \<noteq> [] \<Longrightarrow> render_find ts \<noteq> []"
  by (cases ts) auto

lemma render_replace_not_Nil: "ts \<noteq> [] \<Longrightarrow> render_replace ts \<noteq> []"
  by (cases ts) auto

lemma parseRule_render:
  assumes "rule_ok r"
  shows "parseRule (render_rule r) = Inr r"
proof (cases "caseOp r")
  case caseOperationNone
  let ?f = "render_find (patternTokens r)" and ?g = "render_replace (replacementTokens r)"
  from assms caseOperationNone have ne: "?f \<noteq> []" "?g \<noteq> []"
    and p: "pattern_ok 0 False (patternTokens r)" and m: "captureCount r = int (capture_tokens (patternTokens r))"
    and g: "replacement_ok (captureCount r) AtStart (replacementTokens r)" and lt: "captureCount r < 2 ^ 63"
    by (auto simp: rule_ok_def render_find_not_Nil render_replace_not_Nil)
  have case_ops: "?f @ ''=>'' @ ?g \<noteq> [backslash, c]" for c
    using ne by (auto dest: arg_cong [where f = length])
  have "findRuleSeparator (?f @ ''=>'' @ ?g) = findRuleSeparator_loop (length ?f) False None (''=>'' @ ?g)"
    using frs_find [OF p, of "''=>'' @ ?g" 0 None] by (simp add: findRuleSeparator_def)
  then have sep: "findRuleSeparator (?f @ ''=>'' @ ?g) = Some (length ?f)"
    unfolding frs_separator frs_replace [OF g] .
  have pf: "parseFind ?f = Inr (patternTokens r, captureCount r)"
    using parseFind_print [of 0 "[]" "patternTokens r" "[]"] p m by (simp add: parseFind_def flush_def)
  have pr: "parseReplace ?g (captureCount r) = Inr (replacementTokens r)"
    using parseReplace_print [OF lt g, of "[]" "[]"] by (simp add: parseReplace_def flush_def)
  from case_ops sep pf pr ne caseOperationNone show ?thesis
    by (simp add: parseRule_def render_rule_def)
next
  case caseOperationLower
  with assms show ?thesis by (simp add: parseRule_def render_rule_def rule_ok_def)
next
  case caseOperationUpper
  with assms show ?thesis by (simp add: parseRule_def render_rule_def rule_ok_def)
qed

lemma parseParts_render: "\<forall>r\<in>set rs. rule_ok r \<Longrightarrow> parseParts (map render_rule rs) = Inr rs"
  by (induction rs) (auto simp: parseRule_render)

lemma render_rule_not_Nil: "render_rule r \<noteq> []"
  by (cases "caseOp r") (auto simp: render_rule_def)

lemma splitEscaped_render:
  assumes "rs \<noteq> []"
  shows "splitEscaped (render_rules rs) (CHR '';'') = Inr (map render_rule rs)"
  using splitEscaped_join [of "map render_rule rs" "[]"] assms
  by (auto simp: splitEscaped_def render_rules_def split_closed_rule render_rule_not_Nil)

lemma parseRules_rendered:
  assumes "rs \<noteq> []" and "\<forall>r\<in>set rs. rule_ok r" and "check_runes (runes (render_rules rs)) = None"
  shows "parseRules (render_rules rs) = Inr rs"
proof -
  have "render_rules rs \<noteq> []"
    using splitEscaped_render [OF assms(1)] by (auto simp: splitEscaped_def)
  with assms show ?thesis
    by (simp add: parseRules_def splitEscaped_render parseParts_render)
qed

section \<open>Every parsed rule is well formed\<close>

text \<open>\<open>short_runs\<close>: the text has no run of 19 or more digits, so that every reference number
  is read without wrapping around.\<close>

fun short_runs_from :: "nat \<Rightarrow> string \<Rightarrow> bool" where
  "short_runs_from k [] = True"
| "short_runs_from k (c # s) =
     (if is_digit c then k + 1 < 19 \<and> short_runs_from (k + 1) s else short_runs_from 0 s)"

definition short_runs :: "string \<Rightarrow> bool" where
  "short_runs s = short_runs_from 0 s"

lemma short_runs_from_run:
  "short_runs_from k (ds @ v) \<Longrightarrow> \<forall>c\<in>set ds. is_digit c \<Longrightarrow> k < 19 \<Longrightarrow> k + length ds < 19"
  by (induction ds arbitrary: k) fastforce+

lemma short_runs_from_mono: "short_runs_from k s \<Longrightarrow> j \<le> k \<Longrightarrow> short_runs_from j s"
proof (induction s arbitrary: k j)
  case (Cons c s)
  then show ?case using Cons.IH [of "Suc k" "Suc j"] by (auto split: if_splits)
qed simp

lemma short_runs_from_suffix: "short_runs_from k (u @ v) \<Longrightarrow> short_runs_from 0 v"
proof (induction u arbitrary: k)
  case Nil
  then show ?case using short_runs_from_mono by simp
next
  case (Cons c u)
  then show ?case by (auto split: if_splits)
qed

lemma short_runs_from_prefix: "short_runs_from k (u @ v) \<Longrightarrow> short_runs_from k u"
  by (induction u arbitrary: k) auto

lemma short_runs_sublist: "short_runs s \<Longrightarrow> sublist u s \<Longrightarrow> short_runs u"
  unfolding short_runs_def sublist_def
  using short_runs_from_suffix short_runs_from_prefix by blast

lemma split_parts:
  "splitEscaped_loop c e seg parts s = Inr ps \<Longrightarrow>
     \<exists>qs. ps = parts @ qs \<and> qs \<noteq> [] \<and> join [c] qs = seg @ s"
proof (induction c e seg parts s rule: splitEscaped_loop.induct)
  case (2 sep escaped seg parts c s)
  then show ?case
    by (auto split: if_splits simp: join_Cons)
qed (auto split: if_splits)

lemma join_sublist: "p \<in> set qs \<Longrightarrow> sublist p (join sep qs)"
proof (induction qs)
  case (Cons q qs)
  show ?case
  proof (cases "p = q")
    case True
    then show ?thesis by (cases qs) (auto simp: sublist_def)
  next
    case False
    with Cons obtain u v where "join sep qs = u @ p @ v" "qs \<noteq> []" by (fastforce simp: sublist_def)
    then have "join sep (q # qs) = (q @ sep @ u) @ p @ v" by (cases qs) auto
    then show ?thesis unfolding sublist_def by blast
  qed
qed simp

lemma parseFind_ok:
  "parseFind_loop s lit acc k = Inr (ts, m) \<Longrightarrow>
     \<exists>us. ts = acc @ us \<and> pattern_ok k False us \<and> m = k + int (capture_tokens us) \<and>
          capture_tokens us \<le> length s \<and> (s \<noteq> [] \<or> lit \<noteq> [] \<longrightarrow> us \<noteq> [])"
proof (induction s lit acc k rule: parseFind_loop.induct)
  case (1 lit acc k)
  then show ?case by (auto simp: flush_def)
next
  case (2 c s lit acc k)
  consider (esc) "c = backslash" | (star) "c = CHR ''*''" | (plain) "c \<noteq> backslash" "c \<noteq> CHR ''*''" by blast
  then show ?case
  proof cases
    case esc
    with "2.prems" obtain n s1 where s: "s = n # s1" by (cases s) auto
    show ?thesis
    proof (cases "n = CHR ''*'' \<or> n = CHR '';'' \<or> n = CHR ''$'' \<or> n = backslash")
      case True
      with "2.IH"(1) [OF esc s True] "2.prems" esc s show ?thesis by fastforce
    next
      case False
      with "2.prems" esc s obtain s2 where n: "n = CHR ''=''" "s1 = CHR ''>'' # s2"
        by (cases s1) (auto split: if_splits)
      with "2.IH"(2) [OF esc s False] "2.prems" esc s show ?thesis by fastforce
    qed
  next
    case star
    with "2.prems" "2.IH"(3) obtain us where
      us: "ts = flush lit acc @ [cap_token (k + 1)] @ us" "pattern_ok (k + 1) False us"
        "m = k + 1 + int (capture_tokens us)" "capture_tokens us \<le> length s" by auto
    then show ?thesis
      by (intro exI [of _ "flush lit [] @ [cap_token (k + 1)] @ us"]) (auto simp: flush_def star)
  next
    case plain
    with "2.prems" "2.IH"(4) show ?thesis by fastforce
  qed
qed

lemma reference_number_bound:
  "\<forall>c\<in>set ds. is_digit c \<Longrightarrow> length ds < 19 \<Longrightarrow> 0 \<le> reference_number ds \<and> reference_number ds < 10 ^ length ds"
proof (induction ds rule: rev_induct)
  case Nil
  then show ?case by (simp add: reference_number_def)
next
  case (snoc d ds)
  then have b: "0 \<le> reference_number ds" "reference_number ds < 10 ^ length ds" by auto
  have d: "0 \<le> digit_val d" "digit_val d \<le> 9" using snoc.prems(1) by (auto simp: is_digit_def digit_val_def)
  have "reference_number ds * 10 + digit_val d < 10 ^ Suc (length ds)" using b d by simp
  moreover have "(10::int) ^ Suc (length ds) \<le> 10 ^ 18"
    using snoc.prems(2) by (intro power_increasing) auto
  ultimately have "wrap64 (reference_number ds * 10 + digit_val d) = reference_number ds * 10 + digit_val d"
    using b d by (intro wrap64_id) auto
  then have "reference_number (ds @ [d]) = reference_number ds * 10 + digit_val d"
    by (simp add: reference_number_def)
  with b d show ?case by simp
qed

lemma short_runs_digit_run:
  assumes "short_runs s"
  shows "length (digit_run s) < 19"
proof -
  have "s = digit_run s @ after_digits s" by (simp add: digit_run_def after_digits_def)
  with assms have "short_runs_from 0 (digit_run s)"
    unfolding short_runs_def using short_runs_from_prefix by metis
  moreover have "\<forall>c\<in>set (digit_run s). is_digit c" by (auto simp: digit_run_def dest: set_takeWhileD)
  ultimately show ?thesis using short_runs_from_run [of 0 "digit_run s" "[]"] by simp
qed

lemma short_runs_tl: "short_runs (c # s) \<Longrightarrow> short_runs s"
  using short_runs_from_suffix [of 0 "[c]" s] by (simp add: short_runs_def)

lemma after_digits_hd: "after_digits s = [] \<or> \<not> is_digit (hd (after_digits s))"
  using hd_dropWhile [of is_digit s] by (auto simp: after_digits_def)

lemma short_runs_after: "short_runs s \<Longrightarrow> short_runs (after_digits s)"
  by (rule short_runs_sublist) (auto simp: after_digits_def suffix_dropWhile)

lemma parseReplace_ok:
  "parseReplace_loop m s lit acc = Inr ts \<Longrightarrow> short_runs s \<Longrightarrow> ctx \<noteq> AfterLiteral \<Longrightarrow>
     (ctx = AfterReference \<longrightarrow> (if lit \<noteq> [] then \<not> is_digit (hd lit) else s = [] \<or> \<not> is_digit (hd s))) \<Longrightarrow>
     \<exists>us. ts = acc @ us \<and> replacement_ok m ctx us \<and> (s \<noteq> [] \<or> lit \<noteq> [] \<longrightarrow> us \<noteq> [])"
proof (induction m s lit acc arbitrary: ctx rule: parseReplace_loop.induct)
  case (1 m lit acc)
  then show ?case by (auto simp: flush_def)
next
  case (2 m c s lit acc)
  note short = short_runs_tl [OF "2.prems"(2)]
  consider (esc) "c = backslash" | (plain) "c \<noteq> backslash" "c \<noteq> CHR ''$''" | (ref) "c = CHR ''$''" by blast
  then show ?case
  proof cases
    case esc
    have start: "ctx = AfterReference \<longrightarrow> (if lit @ [n] \<noteq> [] then \<not> is_digit (hd (lit @ [n])) else P)"
      if "\<not> is_digit n" for n P using "2.prems"(4) that by (cases lit) auto
    from esc "2.prems" obtain n s1 where s: "s = n # s1" by (cases s) auto
    show ?thesis
    proof (cases "n = CHR '';'' \<or> n = backslash \<or> n = CHR ''$'' \<or> n = CHR ''*''")
      case True
      then have nd: "\<not> is_digit n" by (auto simp: is_digit_def)
      have "parseReplace_loop m s1 (lit @ [n]) acc = Inr ts" using "2.prems"(1) esc s True by simp
      from "2.IH"(1) [OF esc s True this _ "2.prems"(3) start [OF nd]] short s
      show ?thesis using short_runs_tl by fastforce
    next
      case False
      with "2.prems" esc s obtain s2 where n: "n = CHR ''=''" "s1 = CHR ''>'' # s2"
        by (cases s1) (auto split: if_splits)
      have "parseReplace_loop m s2 (lit @ ''=>'') acc = Inr ts" using "2.prems"(1) esc s n by simp
      moreover have "short_runs s2" using short s n short_runs_tl by blast
      moreover have "ctx = AfterReference \<longrightarrow> (if lit @ ''=>'' \<noteq> [] then \<not> is_digit (hd (lit @ ''=>'')) else s2 = [] \<or> \<not> is_digit (hd s2))"
        using start [of "CHR ''=''"] by (cases lit) (auto simp: is_digit_def)
      ultimately show ?thesis
        using "2.IH"(2) [OF esc s False n(1) n(2) refl, of ctx] "2.prems"(3) by fastforce
    qed
  next
    case plain
    have "parseReplace_loop m s (lit @ [c]) acc = Inr ts" using "2.prems"(1) plain by simp
    moreover have "ctx = AfterReference \<longrightarrow> (if lit @ [c] \<noteq> [] then \<not> is_digit (hd (lit @ [c])) else s = [] \<or> \<not> is_digit (hd s))"
      using "2.prems"(4) by (cases lit) auto
    ultimately show ?thesis
      using "2.IH"(3) [OF plain, of ctx] "2.prems"(3) short by fastforce
  next
    case ref
    let ?n = "reference_number (digit_run s)"
    from ref "2.prems"(1) have d: "\<not> (s = [] \<or> \<not> is_digit (hd s) \<or> hd s = CHR ''0'')"
      and n: "\<not> (?n = 0 \<or> m < ?n)"
      and p: "parseReplace_loop m (after_digits s) [] (flush lit acc @ [cap_token ?n]) = Inr ts"
      by (auto split: if_splits)
    have "0 \<le> ?n"
      using reference_number_bound [of "digit_run s"] short_runs_digit_run [OF short]
      by (auto simp: digit_run_def dest: set_takeWhileD)
    with n have bounds: "1 \<le> ?n" "?n \<le> m" by auto
    have "c \<noteq> backslash" "\<not> c \<noteq> CHR ''$''" using ref by auto
    from "2.IH"(4) [OF this d n p short_runs_after [OF short], of AfterReference] after_digits_hd [of s]
    obtain us where "ts = flush lit acc @ [cap_token ?n] @ us" "replacement_ok m AfterReference us"
      by (auto split: if_splits)
    with bounds "2.prems"(3,4) show ?thesis
      by (intro exI [of _ "flush lit [] @ [cap_token ?n] @ us"]) (auto simp: flush_def split: if_splits)
  qed
qed

lemma take_drop_sublist: "sublist (take n s) s" "sublist (drop n s) s"
  by (metis append_take_drop_id sublist_appendI append_Nil append_Nil2)+

lemma parseRule_ok:
  assumes "parseRule part = Inr r" and "short_runs part" and "length part < 2 ^ 63"
  shows "rule_ok r"
proof -
  consider (case_op) "caseOp r \<noteq> caseOperationNone" "patternTokens r = []" "replacementTokens r = []" "captureCount r = 0"
    | (sep) sep m where "take sep part \<noteq> []" "drop (sep + 2) part \<noteq> []"
        "parseFind (take sep part) = Inr (patternTokens r, m)"
        "parseReplace (drop (sep + 2) part) m = Inr (replacementTokens r)"
        "captureCount r = m" "caseOp r = caseOperationNone"
    using assms(1) by (auto simp: parseRule_def sum_bind_Inr split: if_splits option.splits)
  then show ?thesis
  proof cases
    case case_op
    then show ?thesis by (simp add: rule_ok_def)
  next
    case sep
    have find: "patternTokens r \<noteq> []" "pattern_ok 0 False (patternTokens r)" "m = int (capture_tokens (patternTokens r))"
      "capture_tokens (patternTokens r) \<le> length (take sep part)"
      using parseFind_ok [OF sep(3) [unfolded parseFind_def]] sep(1) by auto
    have "short_runs (drop (sep + 2) part)" using assms(2) short_runs_sublist take_drop_sublist by blast
    then have "replacementTokens r \<noteq> []" "replacement_ok m AtStart (replacementTokens r)"
      using parseReplace_ok [OF sep(4) [unfolded parseReplace_def], of AtStart] sep(2) by auto
    with find sep(5,6) assms(3) show ?thesis by (simp add: rule_ok_def)
  qed
qed

lemma parseParts_ok:
  "parseParts ps = Inr rs \<Longrightarrow> \<forall>p\<in>set ps. short_runs p \<and> length p < 2 ^ 63 \<Longrightarrow>
     length rs = length ps \<and> (\<forall>r\<in>set rs. rule_ok r)"
  by (induction ps arbitrary: rs) (auto simp: sum_bind_Inr dest: parseRule_ok [simplified])

lemma parseRules_ok:
  assumes "parseRules raw = Inr rs" and "short_runs raw" and "length raw < 2 ^ 63"
  shows "rs \<noteq> [] \<and> (\<forall>r\<in>set rs. rule_ok r)"
proof -
  from assms(1) obtain ps where ps: "splitEscaped raw (CHR '';'') = Inr ps" "ps \<noteq> []" "parseParts ps = Inr rs"
    by (auto simp: parseRules_def split: if_splits option.splits sum.splits)
  from split_parts [OF ps(1) [unfolded splitEscaped_def]] have "join '';'' ps = raw" by auto
  then have sub: "\<forall>p\<in>set ps. sublist p raw" using join_sublist by blast
  have "\<forall>p\<in>set ps. short_runs p \<and> length p < 2 ^ 63"
    using sub assms(2,3) short_runs_sublist sublist_length_le le_less_trans by blast
  from parseParts_ok [OF ps(3) this] ps(2) show ?thesis by auto
qed

section \<open>Applying well-formed rules\<close>

lemma pattern_replacement_no_panic:
  "replacement_ok m ctx ts \<Longrightarrow> m = int (length caps) \<Longrightarrow> m < 2 ^ 63 \<Longrightarrow> \<exists>u. buildReplacement ts caps = Inr u"
proof (induction ts arbitrary: ctx)
  case (Cons t ts)
  then show ?case
    by (cases "tok_literal t = []") (fastforce simp: wrap64_id)+
qed simp

lemma rule_ok_builds:
  assumes "rule_ok r" and "caseOp r = caseOperationNone" and "matchTokens cur (patternTokens r) = Some caps"
  shows "\<exists>u. buildReplacement (replacementTokens r) caps = Inr u"
proof -
  have "expand (patternTokens r) caps = Some cur"
    using bt_match_sound [of cur "patternTokens r" 0 caps] assms(3) by (simp add: matchTokens_bt)
  then have "length caps = capture_tokens (patternTokens r)" by (rule expand_length)
  with assms pattern_replacement_no_panic show ?thesis unfolding rule_ok_def by fastforce
qed

lemma applyRules_loop_total:
  "\<forall>r\<in>set rs. rule_ok r \<Longrightarrow> \<exists>y. applyRules_loop cur b rs = Inr y"
proof (induction rs arbitrary: cur b)
  case (Cons r rs)
  show ?case
  proof (cases "caseOp r \<noteq> caseOperationNone \<or> matchTokens cur (patternTokens r) = None")
    case True
    with Cons show ?thesis by auto
  next
    case False
    then obtain caps where "matchTokens cur (patternTokens r) = Some caps" by auto
    with rule_ok_builds [of r cur caps] Cons False show ?thesis by auto
  qed
qed simp

lemma applyRules_loop_append:
  "applyRules_loop cur b (rs @ rs') = sum_bind (applyRules_loop cur b rs) (\<lambda>(m, b'). applyRules_loop m b' rs')"
proof (induction rs arbitrary: cur b)
  case (Cons r rs)
  then show ?case
    by (auto simp: sum_bind_def split: option.splits sum.splits)
qed simp

lemma case_not_Nil [simp]: "applyASCIIModelCase m c = [] \<longleftrightarrow> m = []"
  by (cases c) (auto simp: applyASCIIModelCase_def)

lemma applyRules_loop_shape:
  "applyRules_loop cur b rs = Inr (m, b') \<Longrightarrow>
     (cur \<noteq> [] \<longrightarrow> m \<noteq> []) \<and> (\<not> b' \<longrightarrow> m = cur \<and> \<not> b)"
proof (induction rs arbitrary: cur b)
  case (Cons r rs)
  then show ?case
    by (fastforce simp: sum_bind_Inr split: if_splits option.splits)
qed auto

lemma applyRules_loop_True:
  "applyRules_loop m True ss = sum_bind (applyRules_loop m False ss) (\<lambda>(m', b'). Inr (m', True))"
proof (induction ss arbitrary: m)
  case (Cons r ss)
  show ?case
  proof (cases "caseOp r \<noteq> caseOperationNone")
    case True
    then show ?thesis
      by (cases "applyRules_loop (applyASCIIModelCase m (caseOp r)) False ss") (auto simp: Cons)
  next
    case False
    show ?thesis
    proof (cases "matchTokens m (patternTokens r)")
      case None
      with False show ?thesis by (simp add: Cons)
    next
      case (Some caps)
      show ?thesis
      proof (cases "buildReplacement (replacementTokens r) caps")
        case (Inr nx)
        have "applyRules_loop nx True ss = sum_bind (applyRules_loop nx False ss) (\<lambda>(m', b'). Inr (m', True))"
          by (rule Cons)
        with Some False Inr Cons [of m] show ?thesis
          by (cases "applyRules_loop nx False ss") auto
      qed (use Some False in simp)
    qed
  qed
qed simp

lemma applyRules_loop_or:
  "applyRules_loop m b ss = sum_bind (applyRules_loop m False ss) (\<lambda>(m', b'). Inr (m', b \<or> b'))"
  by (cases b) (auto simp: applyRules_loop_True sum_bind_def split: sum.splits)

section \<open>Correctness of the rule language\<close>

text \<open>C1. Round trip: a well-formed ruleset, written in the rule syntax with its literals escaped,
  is parsed back to itself, provided the text has none of the refused characters.\<close>

theorem parseRules_render:
  "rs \<noteq> [] \<Longrightarrow> \<forall>r\<in>set rs. rule_ok r \<Longrightarrow> check_runes (runes (render_rules rs)) = None \<Longrightarrow>
     parseRules (render_rules rs) = Inr rs"
  by (rule parseRules_rendered)

definition sample_rules :: "rule list" where
  "sample_rules =
     [\<lparr>patternTokens = [lit_token ''claude-'', cap_token 1, lit_token ''=>x;'', cap_token 2],
       replacementTokens = [cap_token 2, lit_token ''/*$'', cap_token 1], captureCount = 2,
       caseOp = caseOperationNone\<rparr>,
      \<lparr>patternTokens = [], replacementTokens = [], captureCount = 0, caseOp = caseOperationUpper\<rparr>]"

theorem parseRules_render_witness:
  "parseRules (''claude-*'' @ backslash # ''=>x'' @ backslash # '';*=>$2/'' @ backslash # ''*'' @
     backslash # ''$$1;'' @ [backslash, CHR ''A'']) = Inr sample_rules"
proof -
  have "\<forall>r\<in>set sample_rules. rule_ok r" by (simp add: sample_rules_def rule_ok_def go_simps)
  moreover have "check_runes (runes (render_rules sample_rules)) = None"
    by (simp add: sample_rules_def go_simps)
  ultimately have "parseRules (render_rules sample_rules) = Inr sample_rules"
    by (intro parseRules_render) (simp_all add: sample_rules_def)
  then show ?thesis by (simp add: sample_rules_def go_simps)
qed

text \<open>What \<open>parseRules\<close> accepts is well formed: patterns number their captures from left to
  right, every reference of a replacement lies within them, and neither side is empty.\<close>

theorem parseRules_wellformed:
  "parseRules raw = Inr rs \<Longrightarrow> short_runs raw \<Longrightarrow> length raw < 2 ^ 63 \<Longrightarrow>
     rs \<noteq> [] \<and> (\<forall>r\<in>set rs. rule_ok r)"
  by (rule parseRules_ok)

theorem parseRules_wellformed_witness:
  "\<exists>rs. parseRules ''gpt-*-*=>$2;mini=>x'' = Inr rs \<and> rs \<noteq> [] \<and> (\<forall>r\<in>set rs. rule_ok r)"
proof -
  obtain rs where "parseRules ''gpt-*-*=>$2;mini=>x'' = Inr rs" by (simp add: go_simps)
  with parseRules_wellformed [OF this] show ?thesis by (simp add: short_runs_def go_simps)
qed

text \<open>Routing a model through a parsed ruleset never panics: \<open>buildReplacement\<close> finds every
  capture it refers to.\<close>

theorem applyRules_no_panic:
  "parseRules raw = Inr rs \<Longrightarrow> short_runs raw \<Longrightarrow> length raw < 2 ^ 63 \<Longrightarrow>
     \<exists>m matched. applyRules model rs = Inr (m, matched)"
  using applyRules_loop_total parseRules_ok unfolding applyRules_def by (metis surj_pair)

theorem applyRules_no_panic_witness:
  "\<exists>rs m matched. parseRules ''*-*=>$2/$1'' = Inr rs \<and> applyRules ''a-b'' rs = Inr (m, matched)"
proof -
  obtain rs where "parseRules ''*-*=>$2/$1'' = Inr rs" by (simp add: go_simps)
  with applyRules_no_panic [OF this] show ?thesis by (simp add: short_runs_def go_simps)
qed

text \<open>The reference check reads the number in 64-bit arithmetic: the reference
  \<open>$9223372036854775808\<close> wraps around to a negative number, passes the check against the
  captures, and the accepted rule panics on the first model it matches; \<open>$18446744073709551617\<close>
  is accepted as \<open>$1\<close>.\<close>

theorem parseReplace_overflow:
  "(\<exists>rs. parseRules ''*=>$9223372036854775808'' = Inr rs \<and> applyRules ''m'' rs = Inl IndexOutOfRange) \<and>
   parseRules ''*=>$18446744073709551617'' = parseRules ''*=>$1''"
proof (intro conjI exI)
  let ?rs = "[\<lparr>patternTokens = [cap_token 1], replacementTokens = [cap_token (- 9223372036854775808)],
      captureCount = 1, caseOp = caseOperationNone\<rparr>]"
  show "parseRules ''*=>$9223372036854775808'' = Inr ?rs" by (simp add: go_simps)
  show "applyRules ''m'' ?rs = Inl IndexOutOfRange" by (simp add: go_simps)
  show "parseRules ''*=>$18446744073709551617'' = parseRules ''*=>$1''" by (simp add: go_simps)
qed

text \<open>C3. A ruleset is a pipeline: applying it is applying any front part and then the rest to the
  result; without a match the model name is returned unchanged, and a model name that is not
  empty never becomes empty.\<close>

theorem applyRules_pipeline:
  "(applyRules model (rs @ rs') =
      sum_bind (applyRules model rs) (\<lambda>(m, b). sum_bind (applyRules m rs') (\<lambda>(m', b'). Inr (m', b \<or> b')))) \<and>
   (case applyRules model rs of
      Inl _ \<Rightarrow> True
    | Inr (m, matched) \<Rightarrow> (matched \<or> m = model) \<and> (model = [] \<or> m \<noteq> []))"
proof
  show "applyRules model (rs @ rs') = sum_bind (applyRules model rs) (\<lambda>(m, b). sum_bind (applyRules m rs') (\<lambda>(m', b'). Inr (m', b \<or> b')))"
    unfolding applyRules_def applyRules_loop_append
    by (simp only: applyRules_loop_or [symmetric])
  show "case applyRules model rs of Inl _ \<Rightarrow> True | Inr (m, matched) \<Rightarrow> (matched \<or> m = model) \<and> (model = [] \<or> m \<noteq> [])"
    using applyRules_loop_shape [of model False rs]
    by (auto simp: applyRules_def split: sum.splits)
qed

theorem applyRules_pipeline_witness:
  "applyRules ''gpt-x'' ([\<lparr>patternTokens = [lit_token ''gpt-'', cap_token 1],
       replacementTokens = [cap_token 1, lit_token ''/mini''], captureCount = 1, caseOp = caseOperationNone\<rparr>] @
     [\<lparr>patternTokens = [], replacementTokens = [], captureCount = 0, caseOp = caseOperationUpper\<rparr>])
   = Inr (''X/MINI'', True)"
  by (subst conjunct1 [OF applyRules_pipeline]) (simp add: go_simps)

end
