(* ===== verification/State_Types.thy ===== *)
theory State_Types
  imports Go_Strings
begin

text \<open>
  The persisted data model of \<open>state.go\<close> and \<open>notification_types.go\<close>: rule sets, channel
  targets, key bindings, notifications and the state, with the copying helpers.  A Go string type
  (\<open>type PlatformKind string\<close>) is a string, since the values come from JSON and any text is
  possible; a pointer that may be \<open>nil\<close> is an option, and so is the list of a key's notifications,
  which the audit tells from the empty one.  The model is a value, so the deep
  copies of \<open>cloneKeyBindings\<close> and \<open>cloneNotifications\<close> are the identity on it.
\<close>

type_synonym PlatformKind = string
type_synonym ModuleKind = string
type_synonym PeriodKind = string
type_synonym ScheduleKind = string

definition PlatformWeCom :: PlatformKind where "PlatformWeCom = ''wecom''"
definition PlatformFeishu :: PlatformKind where "PlatformFeishu = ''feishu''"
definition PlatformDingTalk :: PlatformKind where "PlatformDingTalk = ''dingtalk''"

definition ModuleDaily :: ModuleKind where "ModuleDaily = ''daily''"
definition ModuleMonthly :: ModuleKind where "ModuleMonthly = ''monthly''"
definition ModuleHalfYear :: ModuleKind where "ModuleHalfYear = ''half_year''"
definition ModuleYearly :: ModuleKind where "ModuleYearly = ''yearly''"
definition ModuleWindow5H :: ModuleKind where "ModuleWindow5H = ''window_5h''"
definition ModuleWeeklyWindow :: ModuleKind where "ModuleWeeklyWindow = ''weekly''"
definition ModuleResetCards :: ModuleKind where "ModuleResetCards = ''reset_cards''"

definition PeriodCurrent :: PeriodKind where "PeriodCurrent = ''current''"
definition PeriodPrevious :: PeriodKind where "PeriodPrevious = ''previous''"

definition ScheduleInterval :: ScheduleKind where "ScheduleInterval = ''interval''"
definition ScheduleMonthly :: ScheduleKind where "ScheduleMonthly = ''monthly''"
definition ScheduleYearly :: ScheduleKind where "ScheduleYearly = ''yearly''"

lemmas kind_defs [go_simps] =
  PlatformWeCom_def PlatformFeishu_def PlatformDingTalk_def ModuleDaily_def ModuleMonthly_def
  ModuleHalfYear_def ModuleYearly_def ModuleWindow5H_def ModuleWeeklyWindow_def
  ModuleResetCards_def PeriodCurrent_def PeriodPrevious_def ScheduleInterval_def
  ScheduleMonthly_def ScheduleYearly_def

record ModuleConfig =
  m_Kind :: ModuleKind
  m_Period :: PeriodKind

record NotificationSchedule =
  s_Kind :: ScheduleKind
  s_Interval :: int
  s_MonthEnd :: bool
  s_Month :: int
  s_Day :: int
  s_Time :: string

record PlatformIdentity =
  p_Kind :: PlatformKind
  p_Enabled :: bool
  p_Webhook :: string
  p_UserIDs :: "string list"
  p_AtAll :: bool
  p_SignSecret :: string
  p_FetchAppID :: string
  p_FetchAppSecret :: string
  p_FetchAppKey :: string
  p_FetchCorpID :: string
  p_FetchSecret :: string

record Notification =
  n_ID :: string
  n_Name :: string
  n_Enabled :: bool
  n_IsDefault :: bool
  n_TemplateFollowsGlobal :: bool
  n_ScheduleFollowsGlobal :: bool
  n_Modules :: "ModuleConfig list"
  n_Schedule :: "NotificationSchedule option"
  n_Platforms :: "PlatformIdentity list"
  n_NextFire :: string

record NotificationSettings =
  ns_Enabled :: bool
  ns_GlobalDefault :: Notification
  ns_Notifications :: "Notification list"

record RuleSet =
  rs_Global :: string
  rs_Claude :: string
  rs_Codex :: string
  rs_OpenAI :: string

record ChannelTarget =
  ct_Enabled :: bool
  ct_Suppliers :: "string list"
  ct_AuthIDs :: "string list"

record KeyBinding =
  kb_Key :: string
  kb_Alias :: string
  kb_Enabled :: bool
  kb_Blocked :: bool
  kb_Rules :: RuleSet
  kb_ChannelTarget :: "ChannelTarget option"
  kb_FastAllowed :: "bool option"
  kb_NotificationSlice :: "Notification list option"

text \<open>A slice that may be \<open>nil\<close> and is compared with \<open>nil\<close> somewhere is an option; everywhere else only its
  elements count.\<close>

fun list_of :: "'a list option \<Rightarrow> 'a list" where
  "list_of None = []"
| "list_of (Some xs) = xs"

lemma list_of_map [simp]: "list_of (map_option (map f) s) = map f (list_of s)"
  by (cases s) simp_all

abbreviation kb_Notifications :: "KeyBinding \<Rightarrow> Notification list" where
  "kb_Notifications b \<equiv> list_of (kb_NotificationSlice b)"

record State =
  st_Version :: int
  st_Rules :: RuleSet
  st_KeyBindings :: "KeyBinding list"
  st_Notifications :: "NotificationSettings option"
  st_UpdatedAt :: string

text \<open>\<open>ruleSource\<close>, the runtime view the router reads.\<close>

record ruleSource =
  src_Rules :: RuleSet
  src_KeyBindings :: "KeyBinding list"

text \<open>\<open>Config\<close> of the plugin and its defaults.\<close>

record Config =
  cfg_UsageKeeperURL :: string
  cfg_UsageKeeperPasswordEnv :: string
  cfg_CPAManagementURL :: string
  cfg_CPAManagementKeyEnv :: string
  cfg_Enabled :: bool
  cfg_GlobalRules :: string
  cfg_ClaudeMessagesRules :: string
  cfg_CodexResponsesRules :: string
  cfg_OpenAICompletionsRules :: string
  cfg_StateFile :: string

definition defaultStateFile :: string where "defaultStateFile = ''model-mapper-plus-state.json''"

definition defaultConfig :: Config where
  "defaultConfig =
     \<lparr>cfg_UsageKeeperURL = [], cfg_UsageKeeperPasswordEnv = ''CPA_KEEPER_LOGIN_PASSWORD'',
      cfg_CPAManagementURL = [], cfg_CPAManagementKeyEnv = [], cfg_Enabled = True,
      cfg_GlobalRules = [], cfg_ClaudeMessagesRules = [], cfg_CodexResponsesRules = [],
      cfg_OpenAICompletionsRules = [], cfg_StateFile = defaultStateFile\<rparr>"

definition stateVersion :: int where "stateVersion = 1"

definition ruleSetFromConfig :: "Config \<Rightarrow> RuleSet" where
  "ruleSetFromConfig cfg =
     \<lparr>rs_Global = cfg_GlobalRules cfg, rs_Claude = cfg_ClaudeMessagesRules cfg,
      rs_Codex = cfg_CodexResponsesRules cfg, rs_OpenAI = cfg_OpenAICompletionsRules cfg\<rparr>"

definition seedStateFromConfig :: "Config \<Rightarrow> State" where
  "seedStateFromConfig cfg =
     \<lparr>st_Version = stateVersion, st_Rules = ruleSetFromConfig cfg, st_KeyBindings = [],
      st_Notifications = None, st_UpdatedAt = []\<rparr>"

definition ruleSourceFromState :: "State \<Rightarrow> ruleSource" where
  "ruleSourceFromState st = \<lparr>src_Rules = st_Rules st, src_KeyBindings = st_KeyBindings st\<rparr>"

definition ruleSourceFromConfig :: "Config \<Rightarrow> ruleSource" where
  "ruleSourceFromConfig cfg = ruleSourceFromState (seedStateFromConfig cfg)"

lemmas [go_simps] =
  defaultStateFile_def defaultConfig_def stateVersion_def ruleSetFromConfig_def seedStateFromConfig_def ruleSourceFromState_def
  ruleSourceFromConfig_def

end
