(* ===== verification/Notification_Types.thy ===== *)
theory Notification_Types
  imports State_Types "HOL-Library.Multiset"
begin

text \<open>
  The notification half of the persisted state (\<open>notification_types.go\<close>): validation of send
  times, schedules and notifications, the migration and pinning of the global list, and the
  resolution of what a follower inherits.  An error carries the index the code writes into its
  path; the text of the message is left out.
\<close>

datatype notif_error =
    BadTimeFormat
  | BadTime
  | IntervalRange
  | MonthRange
  | DayRange
  | UnknownSchedule string
  | NameRequired
  | ModulesRequired
  | UnknownModule nat string
  | DuplicateModule nat string
  | PeriodRequired nat string
  | PeriodNotAllowed nat string
  | UnknownPlatform nat string
  | DuplicatePlatform nat string
  | BadWebhook nat
  | UserIDRequired nat
  | SecretUnsupported nat
  | DuplicateName string nat
  | DuplicateID string nat
  | EmptyGlobalList
  | AtNotification nat notif_error

definition validModuleKinds :: "ModuleKind \<Rightarrow> bool" where
  "validModuleKinds k \<longleftrightarrow> k \<in> {ModuleDaily, ModuleMonthly, ModuleHalfYear, ModuleYearly,
     ModuleWindow5H, ModuleWeeklyWindow, ModuleResetCards}"

definition moduleKindsWithPeriod :: "ModuleKind \<Rightarrow> bool" where
  "moduleKindsWithPeriod k \<longleftrightarrow> k \<in> {ModuleDaily, ModuleMonthly, ModuleHalfYear, ModuleYearly}"

definition validPlatformKinds :: "PlatformKind \<Rightarrow> bool" where
  "validPlatformKinds k \<longleftrightarrow> k \<in> {PlatformWeCom, PlatformFeishu, PlatformDingTalk}"

definition maxScheduleIntervalSeconds :: int where
  "maxScheduleIntervalSeconds = 31 * 86400"

section \<open>Validation\<close>

text \<open>\<open>validDayTime\<close>: the loop over the parts collects the numbers; \<open>None\<close> is its early return.\<close>

fun dayTimeNums :: "string list \<Rightarrow> int list option" where
  "dayTimeNums [] = Some []"
| "dayTimeNums (p # ps) =
     (if length p \<noteq> 2 then None
      else case atoi p of
        None \<Rightarrow> None
      | Some v \<Rightarrow> if v < 0 then None else map_option (Cons v) (dayTimeNums ps))"

definition validDayTime :: "string \<Rightarrow> notif_error option" where
  "validDayTime s =
     (let parts = split_on '':'' s
      in if length parts \<noteq> 3 then Some BadTimeFormat
         else case dayTimeNums parts of
           None \<Rightarrow> Some BadTimeFormat
         | Some nums \<Rightarrow>
           if 23 < nums ! 0 \<or> 59 < nums ! 1 \<or> 59 < nums ! 2 then Some BadTime else None)"

definition validateNotificationSchedule :: "NotificationSchedule \<Rightarrow> notif_error option" where
  "validateNotificationSchedule s =
     (if s_Kind s = ScheduleInterval then
        (if s_Interval s < 1 \<or> maxScheduleIntervalSeconds < s_Interval s then Some IntervalRange
         else if s_Time s \<noteq> [] then validDayTime (s_Time s)
         else None)
      else if s_Kind s = ScheduleMonthly then validDayTime (s_Time s)
      else if s_Kind s = ScheduleYearly then
        (if s_Month s < 1 \<or> 12 < s_Month s then Some MonthRange
         else if s_Day s < 1 \<or> 31 < s_Day s then Some DayRange
         else validDayTime (s_Time s))
      else Some (UnknownSchedule (s_Kind s)))"

text \<open>The loop over the modules of an entity, \<open>seen\<close> the set of the kinds before index \<open>i\<close>.\<close>

fun validateModules :: "nat \<Rightarrow> ModuleKind set \<Rightarrow> ModuleConfig list \<Rightarrow> notif_error option" where
  "validateModules i seen [] = None"
| "validateModules i seen (m # ms) =
     (if \<not> validModuleKinds (m_Kind m) then Some (UnknownModule i (m_Kind m))
      else if m_Kind m \<in> seen then Some (DuplicateModule i (m_Kind m))
      else if moduleKindsWithPeriod (m_Kind m) then
        (if m_Period m = PeriodCurrent \<or> m_Period m = PeriodPrevious
         then validateModules (Suc i) (insert (m_Kind m) seen) ms
         else Some (PeriodRequired i (m_Kind m)))
      else if m_Period m \<noteq> [] then Some (PeriodNotAllowed i (m_Kind m))
      else validateModules (Suc i) (insert (m_Kind m) seen) ms)"

definition hasUserID :: "PlatformIdentity \<Rightarrow> bool" where
  "hasUserID p \<longleftrightarrow> list_ex (\<lambda>uid. trim_space uid \<noteq> []) (p_UserIDs p)"

definition httpWebhook :: "PlatformIdentity \<Rightarrow> bool" where
  "httpWebhook p \<longleftrightarrow> prefix ''http://'' (p_Webhook p) \<or> prefix ''https://'' (p_Webhook p)"

fun validatePlatforms ::
    "bool \<Rightarrow> nat \<Rightarrow> PlatformKind set \<Rightarrow> PlatformIdentity list \<Rightarrow> notif_error option" where
  "validatePlatforms allowAtAll i seen [] = None"
| "validatePlatforms allowAtAll i seen (p # ps) =
     (if \<not> validPlatformKinds (p_Kind p) then Some (UnknownPlatform i (p_Kind p))
      else if p_Kind p \<in> seen then Some (DuplicatePlatform i (p_Kind p))
      else if p_Enabled p \<and> \<not> httpWebhook p then Some (BadWebhook i)
      else if p_Enabled p \<and> \<not> hasUserID p \<and> \<not> allowAtAll then Some (UserIDRequired i)
      else if p_Kind p = PlatformWeCom \<and> trim_space (p_SignSecret p) \<noteq> [] then
        Some (SecretUnsupported i)
      else validatePlatforms allowAtAll (Suc i) (insert (p_Kind p) seen) ps)"

definition validateNotificationEntity :: "Notification \<Rightarrow> bool \<Rightarrow> notif_error option" where
  "validateNotificationEntity n allowAtAll =
     (if trim_space (n_Name n) = [] then Some NameRequired
      else if n_Modules n = [] \<and> \<not> n_TemplateFollowsGlobal n then Some ModulesRequired
      else case validateModules 0 {} (n_Modules n) of
        Some e \<Rightarrow> Some e
      | None \<Rightarrow>
        (case (case n_Schedule n of None \<Rightarrow> None | Some s \<Rightarrow> validateNotificationSchedule s) of
           Some e \<Rightarrow> Some e
         | None \<Rightarrow> validatePlatforms allowAtAll 0 {} (n_Platforms n)))"

fun validateSettingsLoop ::
    "nat \<Rightarrow> (string \<rightharpoonup> nat) \<Rightarrow> (string \<rightharpoonup> nat) \<Rightarrow> Notification list \<Rightarrow> notif_error option" where
  "validateSettingsLoop i seenNames seenIDs [] = None"
| "validateSettingsLoop i seenNames seenIDs (n # ns) =
     (let name = trim_space (n_Name n); uid = trim_space (n_ID n)
      in if name = [] then Some (AtNotification i NameRequired)
         else case validateNotificationEntity n True of
           Some e \<Rightarrow> Some (AtNotification i e)
         | None \<Rightarrow>
           (case seenNames name of
              Some prev \<Rightarrow> Some (AtNotification i (DuplicateName name prev))
            | None \<Rightarrow>
              if uid = [] then validateSettingsLoop (Suc i) (seenNames(name \<mapsto> i)) seenIDs ns
              else (case seenIDs uid of
                  Some prev \<Rightarrow> Some (AtNotification i (DuplicateID uid prev))
                | None \<Rightarrow>
                  validateSettingsLoop (Suc i) (seenNames(name \<mapsto> i)) (seenIDs(uid \<mapsto> i)) ns)))"

definition validateNotificationSettings :: "NotificationSettings \<Rightarrow> notif_error option" where
  "validateNotificationSettings s =
     (case validateSettingsLoop 0 Map.empty Map.empty (ns_Notifications s) of
        Some e \<Rightarrow> Some e
      | None \<Rightarrow> if ns_Notifications s = [] then Some EmptyGlobalList else None)"

fun validateKeyLoop :: "nat \<Rightarrow> (string \<rightharpoonup> nat) \<Rightarrow> Notification list \<Rightarrow> notif_error option" where
  "validateKeyLoop j seenNames [] = None"
| "validateKeyLoop j seenNames (n # ns) =
     (case validateNotificationEntity n False of
        Some e \<Rightarrow> Some (AtNotification j e)
      | None \<Rightarrow>
        (let name = trim_space (n_Name n)
         in case seenNames name of
              Some prev \<Rightarrow> Some (AtNotification j (DuplicateName name prev))
            | None \<Rightarrow> validateKeyLoop (Suc j) (seenNames(name \<mapsto> j)) ns))"

definition validateKeyNotificationsEntity :: "KeyBinding \<Rightarrow> notif_error option" where
  "validateKeyNotificationsEntity b =
     (if kb_Notifications b = [] then None else validateKeyLoop 0 Map.empty (kb_Notifications b))"

fun validateKeyNotifications_from :: "nat \<Rightarrow> KeyBinding list \<Rightarrow> (nat \<times> notif_error) option" where
  "validateKeyNotifications_from i [] = None"
| "validateKeyNotifications_from i (b # bs) =
     (case validateKeyNotificationsEntity b of
        Some e \<Rightarrow> Some (i, e)
      | None \<Rightarrow> validateKeyNotifications_from (Suc i) bs)"

definition validateKeyNotifications :: "State \<Rightarrow> (nat \<times> notif_error) option" where
  "validateKeyNotifications st = validateKeyNotifications_from 0 (st_KeyBindings st)"

section \<open>Normalisation and resolution\<close>

text \<open>The index of the first flagged entry, 0 when there is none.\<close>

fun default_index_from :: "nat \<Rightarrow> Notification list \<Rightarrow> nat" where
  "default_index_from i [] = 0"
| "default_index_from i (n # ns) = (if n_IsDefault n then i else default_index_from (Suc i) ns)"

fun pin_from :: "nat \<Rightarrow> nat \<Rightarrow> Notification list \<Rightarrow> Notification list" where
  "pin_from d i [] = []"
| "pin_from d i (n # ns) =
     n\<lparr>n_IsDefault := (i = d), n_TemplateFollowsGlobal := False, n_ScheduleFollowsGlobal := False\<rparr>
       # pin_from d (Suc i) ns"

definition normalizeNotificationSettings :: "NotificationSettings \<Rightarrow> NotificationSettings" where
  "normalizeNotificationSettings s =
     (let ns = (if ns_Notifications s = [] then [ns_GlobalDefault s] else ns_Notifications s);
          d = default_index_from 0 ns;
          ns' = pin_from d 0 ns
      in s\<lparr>ns_GlobalDefault := ns' ! d, ns_Notifications := ns'\<rparr>)"

definition defaultGlobalNotification :: "NotificationSettings option \<Rightarrow> Notification option" where
  "defaultGlobalNotification s =
     (case s of
        None \<Rightarrow> None
      | Some s \<Rightarrow>
        (case find n_IsDefault (ns_Notifications s) of
           Some n \<Rightarrow> Some n
         | None \<Rightarrow> (case ns_Notifications s of [] \<Rightarrow> None | n # _ \<Rightarrow> Some n)))"

definition orderModulesByGroup :: "ModuleConfig list \<Rightarrow> ModuleConfig list" where
  "orderModulesByGroup mods =
     (if length mods < 2 then mods
      else let stats = filter (\<lambda>m. moduleKindsWithPeriod (m_Kind m)) mods;
               windows = filter (\<lambda>m. \<not> moduleKindsWithPeriod (m_Kind m)) mods
           in if stats = [] \<or> windows = [] then mods else stats @ windows)"

text \<open>\<open>st\<close> is the state pointer, which may be nil.\<close>

definition effectiveModules :: "State option \<Rightarrow> Notification \<Rightarrow> ModuleConfig list" where
  "effectiveModules st n =
     orderModulesByGroup
       (case st of
          Some st' \<Rightarrow>
            if n_TemplateFollowsGlobal n \<and> st_Notifications st' \<noteq> None then
              (case defaultGlobalNotification (st_Notifications st') of
                 Some d \<Rightarrow> n_Modules d | None \<Rightarrow> n_Modules n)
            else n_Modules n
        | None \<Rightarrow> n_Modules n)"

definition effectiveSchedule :: "State option \<Rightarrow> Notification \<Rightarrow> NotificationSchedule option" where
  "effectiveSchedule st n =
     (case st of
        Some st' \<Rightarrow>
          if n_ScheduleFollowsGlobal n \<and> st_Notifications st' \<noteq> None then
            (case defaultGlobalNotification (st_Notifications st') of
               Some d \<Rightarrow> n_Schedule d | None \<Rightarrow> n_Schedule n)
          else n_Schedule n
      | None \<Rightarrow> n_Schedule n)"

definition stripKeyNotificationAtAll :: "KeyBinding \<Rightarrow> KeyBinding" where
  "stripKeyNotificationAtAll b =
     b\<lparr>kb_NotificationSlice := map_option (map (\<lambda>n. n\<lparr>n_Platforms := map (\<lambda>p. p\<lparr>p_AtAll := False\<rparr>) (n_Platforms n)\<rparr>))
         (kb_NotificationSlice b)\<rparr>"

definition effectiveNotifications :: "State \<Rightarrow> KeyBinding \<Rightarrow> Notification list" where
  "effectiveNotifications st b =
     (if kb_Notifications b \<noteq> [] then kb_Notifications b
      else case st_Notifications st of
        None \<Rightarrow> []
      | Some s \<Rightarrow> if ns_Notifications s \<noteq> [] then ns_Notifications s else [ns_GlobalDefault s])"

lemmas [go_simps] =
  validModuleKinds_def moduleKindsWithPeriod_def validPlatformKinds_def
  maxScheduleIntervalSeconds_def validDayTime_def validateNotificationSchedule_def hasUserID_def
  httpWebhook_def validateNotificationEntity_def validateNotificationSettings_def
  validateKeyNotificationsEntity_def validateKeyNotifications_def
  normalizeNotificationSettings_def defaultGlobalNotification_def orderModulesByGroup_def
  effectiveModules_def effectiveSchedule_def stripKeyNotificationAtAll_def
  effectiveNotifications_def

section \<open>What the validators accept\<close>

definition module_ok :: "ModuleConfig \<Rightarrow> bool" where
  "module_ok m \<longleftrightarrow> validModuleKinds (m_Kind m) \<and>
     (if moduleKindsWithPeriod (m_Kind m) then m_Period m = PeriodCurrent \<or> m_Period m = PeriodPrevious
      else m_Period m = [])"

definition platform_ok :: "bool \<Rightarrow> PlatformIdentity \<Rightarrow> bool" where
  "platform_ok allowAtAll p \<longleftrightarrow> validPlatformKinds (p_Kind p) \<and>
     (p_Enabled p \<longrightarrow> httpWebhook p \<and> (hasUserID p \<or> allowAtAll)) \<and>
     (p_Kind p = PlatformWeCom \<longrightarrow> trim_space (p_SignSecret p) = [])"

definition entity_ok :: "bool \<Rightarrow> Notification \<Rightarrow> bool" where
  "entity_ok allowAtAll n \<longleftrightarrow>
     trim_space (n_Name n) \<noteq> [] \<and>
     (n_Modules n \<noteq> [] \<or> n_TemplateFollowsGlobal n) \<and>
     distinct (map m_Kind (n_Modules n)) \<and> (\<forall>m\<in>set (n_Modules n). module_ok m) \<and>
     (\<forall>s. n_Schedule n = Some s \<longrightarrow> validateNotificationSchedule s = None) \<and>
     distinct (map p_Kind (n_Platforms n)) \<and> (\<forall>p\<in>set (n_Platforms n). platform_ok allowAtAll p)"

lemma validateModules_None:
  "validateModules i seen ms = None \<longleftrightarrow>
     distinct (map m_Kind ms) \<and> (\<forall>m\<in>set ms. module_ok m) \<and> m_Kind ` set ms \<inter> seen = {}"
  by (induction i seen ms rule: validateModules.induct) (auto simp: module_ok_def)

lemma validatePlatforms_None:
  "validatePlatforms a i seen ps = None \<longleftrightarrow>
     distinct (map p_Kind ps) \<and> (\<forall>p\<in>set ps. platform_ok a p) \<and> p_Kind ` set ps \<inter> seen = {}"
  by (induction a i seen ps rule: validatePlatforms.induct) (auto simp: platform_ok_def)

lemma validateNotificationEntity_None:
  "validateNotificationEntity n a = None \<longleftrightarrow> entity_ok a n"
  by (auto simp: validateNotificationEntity_def entity_ok_def validateModules_None
      validatePlatforms_None)

lemma validateKeyLoop_None:
  "validateKeyLoop j seen ns = None \<longleftrightarrow>
     (\<forall>n\<in>set ns. entity_ok False n) \<and> distinct (map (trim_space \<circ> n_Name) ns) \<and>
     (trim_space \<circ> n_Name) ` set ns \<inter> dom seen = {}"
proof (induction j seen ns rule: validateKeyLoop.induct)
  case (2 j seen n ns)
  show ?case
  proof (cases "entity_ok False n \<and> seen (trim_space (n_Name n)) = None")
    case True
    then have e: "validateNotificationEntity n False = None" and u: "seen (trim_space (n_Name n)) = None"
      by (simp_all add: validateNotificationEntity_None)
    have step: "validateKeyLoop j seen (n # ns) = validateKeyLoop (Suc j) (seen(trim_space (n_Name n) \<mapsto> j)) ns"
      using e u by (simp add: Let_def)
    show ?thesis unfolding step "2.IH" [OF e refl u] using True by (auto simp: comp_def)
  next
    case False
    then have "validateKeyLoop j seen (n # ns) \<noteq> None"
      using validateNotificationEntity_None [of n False] by (auto simp: Let_def split: option.splits)
    with False show ?thesis by auto
  qed
qed simp

definition nonblank_ids :: "Notification list \<Rightarrow> string list" where
  "nonblank_ids ns = filter (\<lambda>s. s \<noteq> []) (map (trim_space \<circ> n_ID) ns)"

lemma validateSettingsLoop_None:
  "validateSettingsLoop i names ids ns = None \<longleftrightarrow>
     (\<forall>n\<in>set ns. entity_ok True n) \<and> distinct (map (trim_space \<circ> n_Name) ns) \<and>
     (trim_space \<circ> n_Name) ` set ns \<inter> dom names = {} \<and>
     distinct (nonblank_ids ns) \<and> set (nonblank_ids ns) \<inter> dom ids = {}"
proof (induction i names ids ns rule: validateSettingsLoop.induct)
  case (2 i names ids n ns)
  let ?name = "trim_space (n_Name n)" and ?uid = "trim_space (n_ID n)"
  consider (bad) "\<not> entity_ok True n \<or> names ?name \<noteq> None \<or> (?uid \<noteq> [] \<and> ids ?uid \<noteq> None)"
    | (blank) "entity_ok True n" "names ?name = None" "?uid = []"
    | (known) "entity_ok True n" "names ?name = None" "?uid \<noteq> []" "ids ?uid = None" by blast
  then show ?case
  proof cases
    case bad
    then have "validateSettingsLoop i names ids (n # ns) \<noteq> None"
      using validateNotificationEntity_None [of n True] by (auto simp: Let_def split: option.splits)
    with bad show ?thesis by (auto simp: nonblank_ids_def)
  next
    case blank
    then have e: "validateNotificationEntity n True = None" and nm: "?name \<noteq> []"
      by (simp_all add: validateNotificationEntity_None entity_ok_def)
    have step: "validateSettingsLoop i names ids (n # ns) =
        validateSettingsLoop (Suc i) (names(?name \<mapsto> i)) ids ns"
      using blank e nm by (simp add: Let_def)
    show ?thesis
      unfolding step "2.IH"(1) [OF refl refl nm e blank(2,3)]
      using blank by (auto simp: nonblank_ids_def comp_def)
  next
    case known
    then have e: "validateNotificationEntity n True = None" and nm: "?name \<noteq> []"
      by (simp_all add: validateNotificationEntity_None entity_ok_def)
    have step: "validateSettingsLoop i names ids (n # ns) =
        validateSettingsLoop (Suc i) (names(?name \<mapsto> i)) (ids(?uid \<mapsto> i)) ns"
      using known e nm by (simp add: Let_def)
    show ?thesis
      unfolding step "2.IH"(2) [OF refl refl nm e known(2,3,4)]
      using known by (auto simp: nonblank_ids_def comp_def)
  qed
qed (simp add: nonblank_ids_def)

section \<open>The pinned entry\<close>

lemma length_pin_from [simp]: "length (pin_from d i ns) = length ns"
  by (induction d i ns rule: pin_from.induct) auto

lemma nth_pin_from:
  "k < length ns \<Longrightarrow> pin_from d i ns ! k =
     (ns ! k)\<lparr>n_IsDefault := (i + k = d), n_TemplateFollowsGlobal := False, n_ScheduleFollowsGlobal := False\<rparr>"
  by (induction d i ns arbitrary: k rule: pin_from.induct) (auto simp: nth_Cons split: nat.splits)

lemma default_index_from:
  "default_index_from i ns =
     (if \<exists>n\<in>set ns. n_IsDefault n then i + length (takeWhile (\<lambda>n. \<not> n_IsDefault n) ns) else 0)"
  by (induction i ns rule: default_index_from.induct) auto

lemma default_index_less: "ns \<noteq> [] \<Longrightarrow> default_index_from 0 ns < length ns"
  by (auto simp: default_index_from)
     (metis (full_types) length_takeWhile_le le_neq_implies_less takeWhile_eq_all_conv takeWhile_eq_take take_all order_refl)

lemma pin_from_Nil [simp]: "pin_from d i ns = [] \<longleftrightarrow> ns = []"
  by (cases ns) auto

definition pinned :: "NotificationSettings \<Rightarrow> nat \<Rightarrow> bool" where
  "pinned s d \<longleftrightarrow>
     d < length (ns_Notifications s) \<and>
     ns_GlobalDefault s = ns_Notifications s ! d \<and>
     (\<forall>k<length (ns_Notifications s).
        (n_IsDefault (ns_Notifications s ! k) \<longleftrightarrow> k = d) \<and>
        \<not> n_TemplateFollowsGlobal (ns_Notifications s ! k) \<and>
        \<not> n_ScheduleFollowsGlobal (ns_Notifications s ! k))"

lemma normalize_pinned:
  "pinned (normalizeNotificationSettings s)
     (default_index_from 0 (if ns_Notifications s = [] then [ns_GlobalDefault s] else ns_Notifications s))"
  using default_index_less [of "if ns_Notifications s = [] then [ns_GlobalDefault s] else ns_Notifications s"]
  by (simp add: pinned_def normalizeNotificationSettings_def Let_def nth_pin_from del: pin_from.simps)

lemma pinned_default_index:
  assumes "pinned s d"
  shows "default_index_from 0 (ns_Notifications s) = d"
proof -
  let ?ns = "ns_Notifications s" and ?P = "\<lambda>n. \<not> n_IsDefault n"
  from assms have d: "d < length ?ns" "n_IsDefault (?ns ! d)" "\<forall>k<d. ?P (?ns ! k)"
    by (auto simp: pinned_def)
  have "length (takeWhile ?P ?ns) = d"
    using d takeWhile_eq_take_P_nth [of d ?ns ?P] by auto
  moreover have "\<exists>n\<in>set ?ns. n_IsDefault n" using d by auto
  ultimately show ?thesis by (simp add: default_index_from)
qed

lemma pinned_pin_from:
  assumes "pinned s d"
  shows "pin_from d 0 (ns_Notifications s) = ns_Notifications s"
proof (rule nth_equalityI)
  fix k assume k: "k < length (pin_from d 0 (ns_Notifications s))"
  then have "n_IsDefault (ns_Notifications s ! k) = (k = d)" "\<not> n_TemplateFollowsGlobal (ns_Notifications s ! k)"
    "\<not> n_ScheduleFollowsGlobal (ns_Notifications s ! k)" using assms by (auto simp: pinned_def)
  with k show "pin_from d 0 (ns_Notifications s) ! k = ns_Notifications s ! k"
    by (cases "ns_Notifications s ! k") (simp add: nth_pin_from)
qed simp

lemma normalize_fixed:
  assumes "pinned s d"
  shows "normalizeNotificationSettings s = s"
proof -
  have "ns_Notifications s \<noteq> []" using assms by (auto simp: pinned_def)
  with pinned_default_index [OF assms] pinned_pin_from [OF assms] assms show ?thesis
    by (cases s) (simp add: normalizeNotificationSettings_def Let_def pinned_def)
qed

lemma pinned_default:
  assumes "pinned s d"
  shows "defaultGlobalNotification (Some s) = Some (ns_GlobalDefault s)"
proof (cases "find n_IsDefault (ns_Notifications s)")
  case None
  then have "\<not> n_IsDefault (ns_Notifications s ! d)" using assms by (simp add: find_None pinned_def)
  with assms show ?thesis by (simp add: pinned_def)
next
  case (Some n)
  then obtain k where "k < length (ns_Notifications s)" "n = ns_Notifications s ! k" "n_IsDefault n"
    using find_Some_in by (metis in_set_conv_nth)
  with assms Some show ?thesis by (auto simp: defaultGlobalNotification_def pinned_def)
qed

lemma short_list: "length xs < 2 \<Longrightarrow> xs = [] \<or> (\<exists>x. xs = [x])"
  by (cases xs; cases "tl xs") auto

lemma orderModulesByGroup_filters:
  "orderModulesByGroup ms =
     filter (\<lambda>m. moduleKindsWithPeriod (m_Kind m)) ms @ filter (\<lambda>m. \<not> moduleKindsWithPeriod (m_Kind m)) ms"
proof (cases "length ms < 2")
  case True
  with short_list [OF this] show ?thesis by (auto simp: orderModulesByGroup_def)
next
  case False
  let ?P = "\<lambda>m. moduleKindsWithPeriod (m_Kind m)"
  have w: "filter (\<lambda>m. \<not> ?P m) ms = ms" if "filter ?P ms = []"
    using that by (simp add: filter_empty_conv filter_id_conv)
  have s: "filter ?P ms = ms" if "filter (\<lambda>m. \<not> ?P m) ms = []"
    using that by (simp add: filter_empty_conv filter_id_conv)
  consider "filter ?P ms = []" | "filter ?P ms \<noteq> []" "filter (\<lambda>m. \<not> ?P m) ms = []"
    | "filter ?P ms \<noteq> []" "filter (\<lambda>m. \<not> ?P m) ms \<noteq> []" by blast
  then show ?thesis
  proof cases
    case 1
    with w [OF 1] False show ?thesis by (simp add: orderModulesByGroup_def)
  next
    case 2
    with s [OF 2(2)] False show ?thesis by (simp add: orderModulesByGroup_def)
  next
    case 3
    with False show ?thesis by (simp add: orderModulesByGroup_def)
  qed
qed

section \<open>Correctness\<close>

text \<open>C18. The validator of the global list accepts exactly the lists that are not empty, have valid
  entries, and repeat neither a name nor an ID, all read without the blanks around them.\<close>

theorem validateNotificationSettings_iff:
  "validateNotificationSettings s = None \<longleftrightarrow>
     ns_Notifications s \<noteq> [] \<and> (\<forall>n\<in>set (ns_Notifications s). entity_ok True n) \<and>
     distinct (map (trim_space \<circ> n_Name) (ns_Notifications s)) \<and>
     distinct (nonblank_ids (ns_Notifications s))"
  by (auto simp: validateNotificationSettings_def validateSettingsLoop_None)

definition sample_notification :: Notification where
  "sample_notification =
     \<lparr>n_ID = ''n1'', n_Name = ''daily'', n_Enabled = True, n_IsDefault = False,
      n_TemplateFollowsGlobal = True, n_ScheduleFollowsGlobal = True,
      n_Modules = [\<lparr>m_Kind = ModuleWindow5H, m_Period = []\<rparr>, \<lparr>m_Kind = ModuleDaily, m_Period = PeriodCurrent\<rparr>],
      n_Schedule = Some \<lparr>s_Kind = ScheduleMonthly, s_Interval = 0, s_MonthEnd = True, s_Month = 0,
        s_Day = 0, s_Time = ''08:30:00''\<rparr>,
      n_Platforms = [], n_NextFire = []\<rparr>"

theorem validateNotificationSettings_iff_witness:
  "validateNotificationSettings
     \<lparr>ns_Enabled = True, ns_GlobalDefault = sample_notification, ns_Notifications = [sample_notification]\<rparr> = None"
  unfolding validateNotificationSettings_iff
  by (simp add: sample_notification_def entity_ok_def module_ok_def nonblank_ids_def go_simps)

text \<open>The validator of a binding's own list accepts exactly the lists of valid entries whose
  names, without the blanks around them, differ.\<close>

theorem validateKeyNotificationsEntity_iff:
  "validateKeyNotificationsEntity b = None \<longleftrightarrow>
     list_all (entity_ok False) (kb_Notifications b) \<and>
     distinct (map (trim_space \<circ> n_Name) (kb_Notifications b))"
  by (auto simp: validateKeyNotificationsEntity_def validateKeyLoop_None list_all_iff)

text \<open>Normalising the global list keeps its entries in order, pins exactly one of them (the
  first flagged one, or else the first), clears every follow-global flag, keeps
  \<open>global_default\<close> equal to the pinned entry, turns a legacy single entry into the list, and
  changes nothing when done twice.\<close>

theorem normalizeNotificationSettings_pins:
  "let s' = normalizeNotificationSettings s;
       ns = (if ns_Notifications s = [] then [ns_GlobalDefault s] else ns_Notifications s);
       d = default_index_from 0 ns
   in pinned s' d \<and>
      map n_ID (ns_Notifications s') = map n_ID ns \<and>
      map n_Schedule (ns_Notifications s') = map n_Schedule ns \<and>
      defaultGlobalNotification (Some s') = Some (ns_GlobalDefault s') \<and>
      normalizeNotificationSettings s' = s'"
proof -
  let ?ns = "if ns_Notifications s = [] then [ns_GlobalDefault s] else ns_Notifications s"
  let ?d = "default_index_from 0 ?ns"
  have m: "map n_ID (pin_from d i ns) = map n_ID ns" "map n_Schedule (pin_from d i ns) = map n_Schedule ns" for d i ns
    by (induction d i ns rule: pin_from.induct) auto
  have "ns_Notifications (normalizeNotificationSettings s) = pin_from ?d 0 ?ns"
    by (simp add: normalizeNotificationSettings_def Let_def)
  with m [of ?d 0 ?ns] show ?thesis
    using normalize_pinned [of s] normalize_fixed pinned_default by (simp add: Let_def)
qed

text \<open>What a follower inherits after normalisation is the pinned entry, and entries that do not
  follow keep their own plan and template.\<close>

theorem effective_after_normalize:
  "let s' = normalizeNotificationSettings s; st' = st\<lparr>st_Notifications := Some s'\<rparr>
   in effectiveSchedule (Some st') n =
        (if n_ScheduleFollowsGlobal n then n_Schedule (ns_GlobalDefault s') else n_Schedule n) \<and>
      effectiveModules (Some st') n =
        orderModulesByGroup (if n_TemplateFollowsGlobal n then n_Modules (ns_GlobalDefault s') else n_Modules n)"
proof -
  from pinned_default [OF normalize_pinned [of s]] show ?thesis
    by (simp add: Let_def effectiveSchedule_def effectiveModules_def)
qed

text \<open>Ordering the modules for a message is a stable partition: statistics modules come first,
  both groups keep their order, no module is lost or added, and doing it again changes nothing.\<close>

theorem orderModulesByGroup_partition:
  "orderModulesByGroup mods =
     filter (\<lambda>m. moduleKindsWithPeriod (m_Kind m)) mods @ filter (\<lambda>m. \<not> moduleKindsWithPeriod (m_Kind m)) mods \<and>
   mset (orderModulesByGroup mods) = mset mods \<and>
   orderModulesByGroup (orderModulesByGroup mods) = orderModulesByGroup mods"
proof -
  note e = orderModulesByGroup_filters
  show ?thesis unfolding e by (simp add: filter_True filter_False)
qed

end
