(* ===== verification/State_Model.thy ===== *)
theory State_Model
  imports Rule_Roundtrip Notification_Types
begin

text \<open>
  Validation of the persisted state and the lookup of key bindings (\<open>state.go\<close>).  Errors keep
  the place the code writes into its message.  \<open>subtle.ConstantTimeCompare\<close> is equality of
  byte strings; only its timing differs.
\<close>

datatype state_error =
    KeyRequired nat
  | DuplicateKey nat
  | TargetValueRequired nat string nat
  | TargetDuplicate nat string nat
  | BindingNotification nat notif_error
  | SettingsError notif_error
  | BadSegment string rule_error

section \<open>Validation\<close>

text \<open>\<open>validateUniqueNonEmptyStrings\<close>: \<open>Inl True\<close> is a missing value, \<open>Inl False\<close> a duplicate.\<close>

datatype list_error = ValueRequired nat | DuplicateValue nat

fun uniqueNonEmpty_from :: "bool \<Rightarrow> nat \<Rightarrow> string set \<Rightarrow> string list \<Rightarrow> list_error option" where
  "uniqueNonEmpty_from foldCase i seen [] = None"
| "uniqueNonEmpty_from foldCase i seen (raw # vs) =
     (let value = trim_space raw; key = (if foldCase then to_lower value else value)
      in if value = [] then Some (ValueRequired i)
         else if key \<in> seen then Some (DuplicateValue i)
         else uniqueNonEmpty_from foldCase (Suc i) (insert key seen) vs)"

definition validateUniqueNonEmptyStrings :: "string list \<Rightarrow> bool \<Rightarrow> list_error option" where
  "validateUniqueNonEmptyStrings values foldCase = uniqueNonEmpty_from foldCase 0 {} values"

fun target_error :: "nat \<Rightarrow> string \<Rightarrow> list_error \<Rightarrow> state_error" where
  "target_error i field (ValueRequired j) = TargetValueRequired i field j"
| "target_error i field (DuplicateValue j) = TargetDuplicate i field j"

definition validateTarget :: "nat \<Rightarrow> ChannelTarget \<Rightarrow> state_error option" where
  "validateTarget i t =
     (case validateUniqueNonEmptyStrings (ct_Suppliers t) True of
        Some e \<Rightarrow> Some (target_error i ''suppliers'' e)
      | None \<Rightarrow>
        (case validateUniqueNonEmptyStrings (ct_AuthIDs t) False of
           Some e \<Rightarrow> Some (target_error i ''auth_ids'' e)
         | None \<Rightarrow> None))"

text \<open>The loop over the bindings, \<open>seen\<close> the trimmed keys before index \<open>i\<close>.\<close>

fun validateBindings :: "nat \<Rightarrow> string set \<Rightarrow> KeyBinding list \<Rightarrow> state_error option" where
  "validateBindings i seen [] = None"
| "validateBindings i seen (b # bs) =
     (let key = trim_space (kb_Key b)
      in if key = [] then Some (KeyRequired i)
         else if key \<in> seen then Some (DuplicateKey i)
         else case (case kb_ChannelTarget b of None \<Rightarrow> None | Some t \<Rightarrow> validateTarget i t) of
           Some e \<Rightarrow> Some e
         | None \<Rightarrow>
           (case validateKeyNotificationsEntity b of
              Some e \<Rightarrow> Some (BindingNotification i e)
            | None \<Rightarrow> validateBindings (Suc i) (insert key seen) bs))"

definition segments_of :: "string \<Rightarrow> RuleSet \<Rightarrow> (string \<times> string) list" where
  "segments_of p rs =
     [(p @ ''rules.global'', rs_Global rs), (p @ ''rules.claude'', rs_Claude rs),
      (p @ ''rules.codex'', rs_Codex rs), (p @ ''rules.openai'', rs_OpenAI rs)]"

fun binding_segments :: "nat \<Rightarrow> KeyBinding list \<Rightarrow> (string \<times> string) list" where
  "binding_segments i [] = []"
| "binding_segments i (b # bs) =
     segments_of (''key_bindings['' @ itoa i @ ''].'') (kb_Rules b) @ binding_segments (Suc i) bs"

fun validateSegments :: "(string \<times> string) list \<Rightarrow> state_error option" where
  "validateSegments [] = None"
| "validateSegments ((name, rules) # segs) =
     (if rules = [] then validateSegments segs
      else case parseRules rules of
        Inl e \<Rightarrow> Some (BadSegment name e)
      | Inr _ \<Rightarrow> validateSegments segs)"

text \<open>\<open>validateState\<close> normalises the notification settings behind the pointer it is given, so
  the accepted state is part of its result.\<close>

definition validateState :: "State \<Rightarrow> state_error + State" where
  "validateState st =
     (case validateBindings 0 {} (st_KeyBindings st) of
        Some e \<Rightarrow> Inl e
      | None \<Rightarrow>
        (let settings = map_option normalizeNotificationSettings (st_Notifications st)
         in case (case settings of None \<Rightarrow> None | Some s \<Rightarrow> validateNotificationSettings s) of
              Some e \<Rightarrow> Inl (SettingsError e)
            | None \<Rightarrow>
              (case validateSegments (segments_of [] (st_Rules st) @ binding_segments 0 (st_KeyBindings st)) of
                 Some e \<Rightarrow> Inl e
               | None \<Rightarrow> Inr (st\<lparr>st_Notifications := settings\<rparr>))))"

section \<open>Lookup\<close>

definition findKeyBindingByKey :: "KeyBinding list \<Rightarrow> string \<Rightarrow> KeyBinding option" where
  "findKeyBindingByKey bindings apiKey =
     (if apiKey = [] then None else find (\<lambda>b. kb_Key b = apiKey) bindings)"

definition findKeyBinding :: "KeyBinding list \<Rightarrow> string \<Rightarrow> KeyBinding option" where
  "findKeyBinding bindings apiKey =
     (case findKeyBindingByKey bindings apiKey of
        None \<Rightarrow> None | Some b \<Rightarrow> if kb_Enabled b then Some b else None)"

definition findActiveChannelTarget :: "KeyBinding list \<Rightarrow> string \<Rightarrow> (KeyBinding \<times> ChannelTarget) option" where
  "findActiveChannelTarget bindings apiKey =
     (case findKeyBindingByKey bindings apiKey of
        None \<Rightarrow> None
      | Some b \<Rightarrow>
        (case kb_ChannelTarget b of
           None \<Rightarrow> None
         | Some t \<Rightarrow> if ct_Enabled t then Some (b, t) else None))"

definition findBlockedKeyBinding :: "KeyBinding list \<Rightarrow> string \<Rightarrow> KeyBinding option" where
  "findBlockedKeyBinding bindings apiKey =
     (if apiKey = [] then None else find (\<lambda>b. kb_Blocked b \<and> kb_Key b = apiKey) bindings)"

lemmas [go_simps] =
  validateUniqueNonEmptyStrings_def validateTarget_def segments_of_def validateState_def
  findKeyBindingByKey_def findKeyBinding_def findActiveChannelTarget_def findBlockedKeyBinding_def

section \<open>What validation accepts\<close>

definition unique_values :: "bool \<Rightarrow> string list \<Rightarrow> bool" where
  "unique_values foldCase vs \<longleftrightarrow>
     list_all (\<lambda>v. trim_space v \<noteq> []) vs \<and>
     distinct (map (\<lambda>v. if foldCase then to_lower (trim_space v) else trim_space v) vs)"

definition binding_ok :: "KeyBinding \<Rightarrow> bool" where
  "binding_ok b \<longleftrightarrow> trim_space (kb_Key b) \<noteq> [] \<and>
     (case kb_ChannelTarget b of
        None \<Rightarrow> True | Some t \<Rightarrow> unique_values True (ct_Suppliers t) \<and> unique_values False (ct_AuthIDs t)) \<and>
     list_all (entity_ok False) (kb_Notifications b) \<and>
     distinct (map (trim_space \<circ> n_Name) (kb_Notifications b))"

definition segment_ok :: "string \<Rightarrow> bool" where
  "segment_ok rules \<longleftrightarrow> rules = [] \<or> (\<exists>rs. parseRules rules = Inr rs)"

definition ruleset_ok :: "RuleSet \<Rightarrow> bool" where
  "ruleset_ok rs \<longleftrightarrow>
     segment_ok (rs_Global rs) \<and> segment_ok (rs_Claude rs) \<and> segment_ok (rs_Codex rs) \<and> segment_ok (rs_OpenAI rs)"

definition settings_ok :: "NotificationSettings \<Rightarrow> bool" where
  "settings_ok s \<longleftrightarrow> ns_Notifications s \<noteq> [] \<and> list_all (entity_ok True) (ns_Notifications s) \<and>
     distinct (map (trim_space \<circ> n_Name) (ns_Notifications s)) \<and>
     distinct (nonblank_ids (ns_Notifications s))"

definition state_ok :: "State \<Rightarrow> bool" where
  "state_ok st \<longleftrightarrow>
     list_all binding_ok (st_KeyBindings st) \<and>
     distinct (map (trim_space \<circ> kb_Key) (st_KeyBindings st)) \<and>
     ruleset_ok (st_Rules st) \<and> list_all (ruleset_ok \<circ> kb_Rules) (st_KeyBindings st) \<and>
     (case st_Notifications st of None \<Rightarrow> True | Some s \<Rightarrow> settings_ok (normalizeNotificationSettings s))"

lemma uniqueNonEmpty_None:
  "uniqueNonEmpty_from f i seen vs = None \<longleftrightarrow>
     unique_values f vs \<and> set (map (\<lambda>v. if f then to_lower (trim_space v) else trim_space v) vs) \<inter> seen = {}"
  by (induction f i seen vs rule: uniqueNonEmpty_from.induct) (auto simp: unique_values_def Let_def)

lemma validateTarget_None:
  "validateTarget i t = None \<longleftrightarrow> unique_values True (ct_Suppliers t) \<and> unique_values False (ct_AuthIDs t)"
  by (auto simp: validateTarget_def validateUniqueNonEmptyStrings_def uniqueNonEmpty_None)

lemma entity_list_ok:
  "validateKeyNotificationsEntity b = None \<longleftrightarrow>
     list_all (entity_ok False) (kb_Notifications b) \<and> distinct (map (trim_space \<circ> n_Name) (kb_Notifications b))"
  by (auto simp: validateKeyNotificationsEntity_def validateKeyLoop_None list_all_iff)

lemma settings_check_ok: "validateNotificationSettings s = None \<longleftrightarrow> settings_ok s"
  by (auto simp: validateNotificationSettings_def validateSettingsLoop_None settings_ok_def list_all_iff)

lemma binding_checks:
  "binding_ok b \<longleftrightarrow> trim_space (kb_Key b) \<noteq> [] \<and>
     (case kb_ChannelTarget b of None \<Rightarrow> None | Some t \<Rightarrow> validateTarget i t) = None \<and>
     validateKeyNotificationsEntity b = None"
  by (auto simp: binding_ok_def validateTarget_None entity_list_ok split: option.splits)

lemma validateBindings_None:
  "validateBindings i seen bs = None \<longleftrightarrow>
     list_all binding_ok bs \<and> distinct (map (trim_space \<circ> kb_Key) bs) \<and>
     (trim_space \<circ> kb_Key) ` set bs \<inter> seen = {}"
proof (induction i seen bs rule: validateBindings.induct)
  case (2 i seen b bs)
  let ?key = "trim_space (kb_Key b)"
  show ?case
  proof (cases "binding_ok b \<and> ?key \<notin> seen")
    case True
    then have c: "?key \<noteq> []" "?key \<notin> seen" "(case kb_ChannelTarget b of None \<Rightarrow> None | Some t \<Rightarrow> validateTarget i t) = None"
      "validateKeyNotificationsEntity b = None"
      using binding_checks [of b i] by auto
    have step: "validateBindings i seen (b # bs) = validateBindings (Suc i) (insert ?key seen) bs"
      unfolding validateBindings.simps Let_def c(3,4) using c(1,2) by simp
    show ?thesis unfolding step "2.IH" [OF refl c] using True by (auto simp: comp_def)
  next
    case False
    then have "validateBindings i seen (b # bs) \<noteq> None"
      using binding_checks [of b i] by (auto simp: Let_def)
    with False show ?thesis by auto
  qed
qed simp

lemma validateSegments_None: "validateSegments segs = None \<longleftrightarrow> (\<forall>(name, rules)\<in>set segs. segment_ok rules)"
  by (induction segs rule: validateSegments.induct) (auto simp: segment_ok_def split: sum.splits)

lemma segments_ok: "(\<forall>(name, rules)\<in>set (segments_of p rs). segment_ok rules) \<longleftrightarrow> ruleset_ok rs"
  by (auto simp: segments_of_def ruleset_ok_def)

lemma binding_segments_ok:
  "(\<forall>(name, rules)\<in>set (binding_segments i bs). segment_ok rules) \<longleftrightarrow> list_all (ruleset_ok \<circ> kb_Rules) bs"
  by (induction i bs rule: binding_segments.induct) (auto simp: segments_ok ball_Un)

lemma validateState_Inr:
  "validateState st = Inr st' \<longleftrightarrow>
     state_ok st \<and> st' = st\<lparr>st_Notifications := map_option normalizeNotificationSettings (st_Notifications st)\<rparr>"
proof -
  have b: "validateBindings 0 {} (st_KeyBindings st) = None \<longleftrightarrow>
      list_all binding_ok (st_KeyBindings st) \<and> distinct (map (trim_space \<circ> kb_Key) (st_KeyBindings st))"
    by (simp add: validateBindings_None)
  have s: "validateSegments (segments_of [] (st_Rules st) @ binding_segments 0 (st_KeyBindings st)) = None \<longleftrightarrow>
      ruleset_ok (st_Rules st) \<and> list_all (ruleset_ok \<circ> kb_Rules) (st_KeyBindings st)"
    by (simp add: validateSegments_None ball_Un segments_ok binding_segments_ok)
  have n: "(case map_option normalizeNotificationSettings (st_Notifications st) of None \<Rightarrow> None
        | Some s \<Rightarrow> validateNotificationSettings s) = None \<longleftrightarrow>
      (case st_Notifications st of None \<Rightarrow> True | Some s \<Rightarrow> settings_ok (normalizeNotificationSettings s))"
    by (auto simp: settings_check_ok split: option.splits)
  show ?thesis
    unfolding validateState_def Let_def state_ok_def
    using b s n by (auto split: option.splits)
qed

lemma validateState_idem:
  assumes "validateState st = Inr st'"
  shows "validateState st' = Inr st'"
proof -
  from assms have ok: "state_ok st"
    and st': "st' = st\<lparr>st_Notifications := map_option normalizeNotificationSettings (st_Notifications st)\<rparr>"
    by (simp_all add: validateState_Inr)
  have idem: "normalizeNotificationSettings (normalizeNotificationSettings s) = normalizeNotificationSettings s" for s
    using normalize_fixed normalize_pinned by blast
  then have "map_option normalizeNotificationSettings (st_Notifications st') = st_Notifications st'"
    by (cases "st_Notifications st") (simp_all add: st')
  moreover have "state_ok st'"
    using ok idem by (cases "st_Notifications st") (simp_all add: state_ok_def st')
  ultimately show ?thesis unfolding validateState_Inr by simp
qed

lemma validateState_keeps:
  assumes "validateState st = Inr st'"
  shows "st_Version st' = st_Version st" "st_Rules st' = st_Rules st"
    "st_KeyBindings st' = st_KeyBindings st" "st_UpdatedAt st' = st_UpdatedAt st"
  using assms by (auto simp: validateState_Inr)

section \<open>Correctness of the state checks\<close>

text \<open>C17. \<open>validateState\<close> accepts exactly the states whose bindings have trimmed keys that are
  present and distinct, well-formed targets, notifications and rules; it changes nothing but the
  notification settings, which it normalises, and accepts its own result unchanged.\<close>

theorem validateState_iff:
  "(case validateState st of
      Inr st' \<Rightarrow> state_ok st \<and> st' = st\<lparr>st_Notifications := map_option normalizeNotificationSettings (st_Notifications st)\<rparr> \<and>
        validateState st' = Inr st'
    | Inl _ \<Rightarrow> \<not> state_ok st)"
proof (cases "validateState st")
  case (Inl e)
  then show ?thesis using validateState_Inr [of st] by auto
next
  case (Inr st')
  then show ?thesis using validateState_Inr [of st st'] validateState_idem [OF Inr] by simp
qed

end
