(* ===== verification/Routing.thy ===== *)
theory Routing
  imports State_Model
begin

text \<open>
  Routing of a request (\<open>main.go\<close>: \<open>apiKeyFromHeaders\<close>, \<open>selectRulesFrom\<close>, \<open>applyRuleSet\<close>,
  \<open>routeModel\<close>, \<open>routeModelForRequest\<close>, \<open>upstreamModelForRequest\<close>) and its dry run
  (\<open>management.go\<close>: \<open>previewRoute\<close>).  An \<open>http.Header\<close> is a map from canonical names to
  lists of values.  Decoding the reasoning effort from a JSON body is a parameter,
  \<open>effort_of\<close>, whose \<open>None\<close> is the decoding error.
\<close>

type_synonym header = "string \<rightharpoonup> string list"

definition header_values :: "header \<Rightarrow> string \<Rightarrow> string list" where
  "header_values h k = (case h k of None \<Rightarrow> [] | Some vs \<Rightarrow> vs)"

definition header_get :: "header \<Rightarrow> string \<Rightarrow> string" where
  "header_get h k = (case header_values h k of [] \<Rightarrow> [] | v # _ \<Rightarrow> v)"

definition apiKeyFromHeaders :: "header \<Rightarrow> string" where
  "apiKeyFromHeaders h =
     (let auth = trim_space (header_get h ''Authorization'');
          fallback = trim_space (header_get h ''X-Api-Key'')
      in if auth = [] then fallback
         else case cut_at (CHR '' '') auth of
           None \<Rightarrow> fallback
         | Some (scheme, tok) \<Rightarrow>
           if equal_fold scheme ''Bearer'' \<and> trim_space tok \<noteq> [] then trim_space tok else fallback)"

section \<open>Rule sets\<close>

text \<open>\<open>None\<close> is the pair \<open>("", false)\<close>.\<close>

definition selectRulesFrom :: "RuleSet \<Rightarrow> string \<Rightarrow> string option" where
  "selectRulesFrom rs format =
     (if format = ''claude'' \<and> rs_Claude rs \<noteq> [] then Some (rs_Claude rs)
      else if format = ''openai-response'' \<and> rs_Codex rs \<noteq> [] then Some (rs_Codex rs)
      else if format = ''openai'' \<and> rs_OpenAI rs \<noteq> [] then Some (rs_OpenAI rs)
      else if rs_Global rs \<noteq> [] then Some (rs_Global rs)
      else None)"

datatype route_error = RuleError rule_error | Panicked go_panic

definition applyRuleSet :: "RuleSet \<Rightarrow> string \<Rightarrow> string \<Rightarrow> route_error + string \<times> bool" where
  "applyRuleSet rs format model =
     (case selectRulesFrom rs format of
        None \<Rightarrow> Inr (model, False)
      | Some raw \<Rightarrow>
        (case parseRules raw of
           Inl e \<Rightarrow> Inl (RuleError e)
         | Inr rules \<Rightarrow>
           (case applyRules model rules of
              Inl p \<Rightarrow> Inl (Panicked p)
            | Inr (mapped, matched) \<Rightarrow> if matched then Inr (mapped, True) else Inr (model, False))))"

section \<open>Routing\<close>

record routeDecision =
  Handled :: bool
  OriginalModel :: string
  UpstreamModel :: string

definition not_handled :: routeDecision where
  "not_handled = \<lparr>Handled = False, OriginalModel = [], UpstreamModel = []\<rparr>"

text \<open>The second layer, the same lines in \<open>routeModel\<close> and \<open>previewRoute\<close>.\<close>

definition keyLayer :: "KeyBinding list \<Rightarrow> string \<Rightarrow> string \<Rightarrow> string \<Rightarrow> route_error + string" where
  "keyLayer bindings format apiKey current =
     (case findKeyBinding bindings apiKey of
        None \<Rightarrow> Inr current
      | Some b \<Rightarrow>
        sum_bind (applyRuleSet (kb_Rules b) format current)
          (\<lambda>(mapped, matched). Inr (if matched then mapped else current)))"

definition routeModel ::
    "Config \<Rightarrow> ruleSource \<Rightarrow> string \<Rightarrow> string \<Rightarrow> string \<Rightarrow> route_error + routeDecision" where
  "routeModel cfg src format model apiKey =
     (if \<not> cfg_Enabled cfg then Inr not_handled
      else if findActiveChannelTarget (src_KeyBindings src) apiKey \<noteq> None then Inr not_handled
      else sum_bind (applyRuleSet (src_Rules src) format model) (\<lambda>(mapped, matched).
        let current = (if matched then mapped else model)
        in sum_bind
             (keyLayer (src_KeyBindings src) format apiKey current)
             (\<lambda>current. Inr (if current = model then not_handled
                else \<lparr>Handled = True, OriginalModel = model, UpstreamModel = current\<rparr>))))"

definition hasModelSuffix :: "string \<Rightarrow> bool" where
  "hasModelSuffix model =
     (case last_index_byte model (CHR ''('') of
        None \<Rightarrow> False
      | Some i \<Rightarrow> 0 < i \<and> suffix '')'' model \<and>
          trim_space (take (length model - 1 - (i + 1)) (drop (i + 1) model)) \<noteq> [])"

definition efforts :: "string list" where
  "efforts = [''none'', ''auto'', ''minimal'', ''low'', ''medium'', ''high'', ''xhigh'', ''max'']"

definition codexReasoningEffort ::
    "(bytes \<Rightarrow> string option) \<Rightarrow> string \<Rightarrow> string \<Rightarrow> bytes \<Rightarrow> string" where
  "codexReasoningEffort effort_of format model body =
     (if format \<noteq> ''openai-response'' \<or> hasModelSuffix model \<or> body = [] then []
      else case effort_of body of
        None \<Rightarrow> []
      | Some e \<Rightarrow> (let effort = to_lower (trim_space e) in if effort \<in> set efforts then effort else []))"

definition qualifiedModel :: "string \<Rightarrow> string \<Rightarrow> string" where
  "qualifiedModel model effort = model @ ''('' @ effort @ '')''"

definition routeModelForRequest ::
    "(bytes \<Rightarrow> string option) \<Rightarrow> Config \<Rightarrow> ruleSource \<Rightarrow> string \<Rightarrow> string \<Rightarrow> string \<Rightarrow> bytes \<Rightarrow>
     route_error + routeDecision" where
  "routeModelForRequest effort_of cfg src format model apiKey body =
     (let effort = codexReasoningEffort effort_of format model body
      in if effort = [] then routeModel cfg src format model apiKey
         else sum_bind (routeModel cfg src format (qualifiedModel model effort) apiKey) (\<lambda>decision.
           if Handled decision then Inr (decision\<lparr>OriginalModel := model\<rparr>)
           else routeModel cfg src format model apiKey))"

text \<open>\<open>upstreamModelForRequest\<close>: an error or an unhandled request falls back to the model.\<close>

definition upstreamModelForRequest ::
    "(bytes \<Rightarrow> string option) \<Rightarrow> Config \<Rightarrow> ruleSource \<Rightarrow> string \<Rightarrow> string \<Rightarrow> header \<Rightarrow> bytes \<Rightarrow>
     go_panic + string \<times> string" where
  "upstreamModelForRequest effort_of cfg src format model headers body =
     (case routeModelForRequest effort_of cfg src format model (apiKeyFromHeaders headers) body of
        Inl (Panicked p) \<Rightarrow> Inl p
      | Inl (RuleError e) \<Rightarrow> Inr (model, model)
      | Inr d \<Rightarrow> Inr (if Handled d then (UpstreamModel d, OriginalModel d) else (model, model)))"

section \<open>The dry run\<close>

record previewResponse =
  M1 :: string
  M2 :: string
  Routed :: bool
  Final :: string
  PreviewTarget :: "(string list \<times> string list) option"
  MappingSkipped :: bool

definition previewRoute ::
    "Config \<Rightarrow> ruleSource \<Rightarrow> string \<Rightarrow> string \<Rightarrow> string \<Rightarrow> route_error + previewResponse" where
  "previewRoute cfg src format model apiKey =
     (if \<not> cfg_Enabled cfg then
        Inr \<lparr>M1 = model, M2 = model, Routed = False, Final = model, PreviewTarget = None, MappingSkipped = False\<rparr>
      else case findActiveChannelTarget (src_KeyBindings src) apiKey of
        Some (_, t) \<Rightarrow>
          Inr \<lparr>M1 = model, M2 = model, Routed = False, Final = model,
               PreviewTarget = Some (ct_Suppliers t, ct_AuthIDs t), MappingSkipped = True\<rparr>
      | None \<Rightarrow>
        sum_bind (applyRuleSet (src_Rules src) format model) (\<lambda>(mapped, matched).
          let m1 = (if matched then mapped else model)
          in sum_bind
               (keyLayer (src_KeyBindings src) format apiKey m1)
               (\<lambda>m2. Inr \<lparr>M1 = m1, M2 = m2, Routed = (m2 \<noteq> model), Final = m2,
                         PreviewTarget = None, MappingSkipped = False\<rparr>)))"

lemmas [go_simps] =
  header_values_def header_get_def apiKeyFromHeaders_def selectRulesFrom_def applyRuleSet_def
  not_handled_def keyLayer_def routeModel_def hasModelSuffix_def efforts_def codexReasoningEffort_def
  qualifiedModel_def routeModelForRequest_def upstreamModelForRequest_def previewRoute_def

section \<open>Routing never fails on a validated state\<close>

text \<open>The limits of the reference numbers, for every segment of a rule set.\<close>

definition ruleset_short :: "RuleSet \<Rightarrow> bool" where
  "ruleset_short rs \<longleftrightarrow>
     list_all (\<lambda>raw. short_runs raw \<and> length raw < 2 ^ 63) [rs_Global rs, rs_Claude rs, rs_Codex rs, rs_OpenAI rs]"

lemma selectRulesFrom_Some:
  "selectRulesFrom rs format = Some raw \<Longrightarrow>
     raw \<noteq> [] \<and> raw \<in> {rs_Global rs, rs_Claude rs, rs_Codex rs, rs_OpenAI rs}"
  by (auto simp: selectRulesFrom_def split: if_splits)

lemma applyRuleSet_total:
  assumes "ruleset_ok rs" and "ruleset_short rs"
  shows "\<exists>m b. applyRuleSet rs format model = Inr (m, b) \<and> (model \<noteq> [] \<longrightarrow> m \<noteq> [])"
proof (cases "selectRulesFrom rs format")
  case None
  then have "applyRuleSet rs format model = Inr (model, False)" by (simp add: applyRuleSet_def)
  then show ?thesis by blast
next
  case (Some raw)
  from selectRulesFrom_Some [OF Some] assms have raw: "raw \<noteq> []" "segment_ok raw" "short_runs raw" "length raw < 2 ^ 63"
    by (auto simp: ruleset_ok_def ruleset_short_def)
  then obtain rules where p: "parseRules raw = Inr rules" by (auto simp: segment_ok_def)
  from parseRules_ok [OF p raw(3,4)] applyRules_loop_total obtain m b where a: "applyRules model rules = Inr (m, b)"
    unfolding applyRules_def by (metis surj_pair)
  with applyRules_loop_shape [of model False rules m b] have "model \<noteq> [] \<longrightarrow> m \<noteq> []"
    by (simp add: applyRules_def)
  with Some p a show ?thesis by (auto simp: applyRuleSet_def)
qed

lemma findKeyBindingByKey_in: "findKeyBindingByKey bs k = Some b \<Longrightarrow> b \<in> set bs \<and> kb_Key b = k \<and> k \<noteq> []"
  by (auto simp: findKeyBindingByKey_def split: if_splits dest: find_Some_in)

lemma findKeyBinding_in: "findKeyBinding bs k = Some b \<Longrightarrow> b \<in> set bs"
  by (auto simp: findKeyBinding_def split: option.splits if_splits dest: findKeyBindingByKey_in)

definition decision_ok :: "string \<Rightarrow> routeDecision \<Rightarrow> bool" where
  "decision_ok model d \<longleftrightarrow>
     (if Handled d then OriginalModel d = model \<and> UpstreamModel d \<noteq> model \<and> (model \<noteq> [] \<longrightarrow> UpstreamModel d \<noteq> [])
      else d = not_handled)"

lemma routeModel_total:
  assumes "ruleset_ok (src_Rules src)" "ruleset_short (src_Rules src)"
    and "\<forall>b\<in>set (src_KeyBindings src). ruleset_ok (kb_Rules b) \<and> ruleset_short (kb_Rules b)"
  shows "\<exists>d. routeModel cfg src format model key = Inr d \<and> decision_ok model d"
proof (cases "\<not> cfg_Enabled cfg \<or> findActiveChannelTarget (src_KeyBindings src) key \<noteq> None")
  case True
  then show ?thesis by (auto simp: routeModel_def decision_ok_def not_handled_def)
next
  case False
  obtain m b where t: "applyRuleSet (src_Rules src) format model = Inr (m, b)" "model \<noteq> [] \<longrightarrow> m \<noteq> []"
    using applyRuleSet_total assms(1,2) by blast
  define cur where "cur = (if b then m else model)"
  have "\<exists>c. keyLayer (src_KeyBindings src) format key cur = Inr c \<and> (model \<noteq> [] \<longrightarrow> c \<noteq> [])"
  proof (cases "findKeyBinding (src_KeyBindings src) key")
    case None
    with t show ?thesis by (simp add: cur_def keyLayer_def)
  next
    case (Some kb)
    with assms(3) findKeyBinding_in have "ruleset_ok (kb_Rules kb)" "ruleset_short (kb_Rules kb)" by blast+
    from applyRuleSet_total [OF this] obtain m' b'
      where "applyRuleSet (kb_Rules kb) format cur = Inr (m', b')" "cur \<noteq> [] \<longrightarrow> m' \<noteq> []" by blast
    with Some t show ?thesis by (simp add: cur_def keyLayer_def)
  qed
  then obtain c where c: "keyLayer (src_KeyBindings src) format key cur = Inr c" "model \<noteq> [] \<longrightarrow> c \<noteq> []" by blast
  have "routeModel cfg src format model key = Inr (if c = model then not_handled
      else \<lparr>Handled = True, OriginalModel = model, UpstreamModel = c\<rparr>)"
    using False t c by (simp add: routeModel_def Let_def cur_def [symmetric])
  then show ?thesis using c by (auto simp: decision_ok_def not_handled_def)
qed

section \<open>Correctness of routing\<close>

text \<open>C39. On a validated state whose rules have no overlong numbers, routing any request returns a
  decision: no rule error and no panic, at either layer and for every reasoning effort.  A handled
  decision names the client's model as the original, and its upstream model is not empty.\<close>

theorem routeModelForRequest_total:
  assumes "validateState st = Inr st'" and "ruleset_short (st_Rules st)"
    and "list_all (ruleset_short \<circ> kb_Rules) (st_KeyBindings st)"
  shows "\<exists>d. routeModelForRequest effort_of cfg (ruleSourceFromState st') format model key body = Inr d \<and>
     (if Handled d then OriginalModel d = model \<and> (model = [] \<or> UpstreamModel d \<noteq> []) else d = not_handled)"
proof -
  let ?src = "ruleSourceFromState st'" and ?e = "codexReasoningEffort effort_of format model body"
  have "state_ok st" "st_Rules st' = st_Rules st" "st_KeyBindings st' = st_KeyBindings st"
    using assms(1) by (auto simp: validateState_Inr)
  then have src: "ruleset_ok (src_Rules ?src)" "ruleset_short (src_Rules ?src)"
    "\<forall>b\<in>set (src_KeyBindings ?src). ruleset_ok (kb_Rules b) \<and> ruleset_short (kb_Rules b)"
    using assms(2,3) by (auto simp: state_ok_def ruleSourceFromState_def list_all_iff)
  obtain d where d: "routeModel cfg ?src format model key = Inr d" "decision_ok model d"
    using routeModel_total [OF src] by blast
  obtain q where q: "routeModel cfg ?src format (qualifiedModel model ?e) key = Inr q" "decision_ok (qualifiedModel model ?e) q"
    using routeModel_total [OF src] by blast
  have "qualifiedModel model ?e \<noteq> []" by (simp add: qualifiedModel_def)
  with d q show ?thesis
    by (auto simp: routeModelForRequest_def Let_def decision_ok_def)
qed

definition sample_config :: Config where
  "sample_config =
     \<lparr>cfg_UsageKeeperURL = [], cfg_UsageKeeperPasswordEnv = [], cfg_CPAManagementURL = [],
      cfg_CPAManagementKeyEnv = [], cfg_Enabled = True, cfg_GlobalRules = [], cfg_ClaudeMessagesRules = [],
      cfg_CodexResponsesRules = [], cfg_OpenAICompletionsRules = [], cfg_StateFile = []\<rparr>"

definition sample_binding :: KeyBinding where
  "sample_binding =
     \<lparr>kb_Key = ''sk-1'', kb_Alias = [], kb_Enabled = True, kb_Blocked = False,
      kb_Rules = \<lparr>rs_Global = ''gpt-*=>$1'', rs_Claude = [], rs_Codex = [], rs_OpenAI = []\<rparr>,
      kb_ChannelTarget = None, kb_FastAllowed = None, kb_NotificationSlice = None\<rparr>"

definition sample_state :: State where
  "sample_state =
     \<lparr>st_Version = 1, st_Rules = \<lparr>rs_Global = ''a=>b'', rs_Claude = [], rs_Codex = [], rs_OpenAI = []\<rparr>,
      st_KeyBindings = [sample_binding], st_Notifications = None, st_UpdatedAt = []\<rparr>"

lemma sample_state_valid: "validateState sample_state = Inr sample_state"
  by (simp add: sample_state_def sample_binding_def go_simps)

lemma sample_state_short:
  "ruleset_short (st_Rules sample_state)" "list_all (ruleset_short \<circ> kb_Rules) (st_KeyBindings sample_state)"
  by (simp_all add: sample_state_def sample_binding_def ruleset_short_def short_runs_def go_simps)

theorem routeModelForRequest_total_witness:
  "\<exists>d. routeModelForRequest (\<lambda>_. Some ''high'') sample_config (ruleSourceFromState sample_state)
      ''openai-response'' ''gpt-x'' ''sk-1'' ''{}'' = Inr d"
  using routeModelForRequest_total [OF sample_state_valid sample_state_short] by blast

text \<open>The dry run shows what the router does: it fails with the router's error, and otherwise
  its final model and its routed flag are the decision.\<close>

theorem previewRoute_agrees:
  "routeModel cfg src format model key =
     sum_bind (previewRoute cfg src format model key) (\<lambda>p. Inr (if Routed p
       then \<lparr>Handled = True, OriginalModel = model, UpstreamModel = Final p\<rparr> else not_handled))"
proof (cases "\<not> cfg_Enabled cfg \<or> findActiveChannelTarget (src_KeyBindings src) key \<noteq> None")
  case True
  then show ?thesis by (auto simp: routeModel_def previewRoute_def)
next
  case False
  then have e: "cfg_Enabled cfg" "findActiveChannelTarget (src_KeyBindings src) key = None" by blast+
  show ?thesis
  proof (cases "applyRuleSet (src_Rules src) format model")
    case (Inr r)
    obtain m b where r: "r = (m, b)" by (cases r)
    show ?thesis
      by (cases "keyLayer (src_KeyBindings src) format key (if b then m else model)")
         (simp_all add: routeModel_def previewRoute_def e Inr r Let_def)
  qed (simp add: routeModel_def previewRoute_def e)
qed

text \<open>The dry run does not see the reasoning effort: for a Codex request with an effort the
  router may map the model although the dry run of the same key, format and model says it does
  not.\<close>

theorem previewRoute_misses_effort:
  "\<exists>cfg src. previewRoute cfg src ''openai-response'' ''gpt'' [] =
       Inr \<lparr>M1 = ''gpt'', M2 = ''gpt'', Routed = False, Final = ''gpt'', PreviewTarget = None, MappingSkipped = False\<rparr> \<and>
     routeModelForRequest (\<lambda>_. Some ''high'') cfg src ''openai-response'' ''gpt'' [] ''{}'' =
       Inr \<lparr>Handled = True, OriginalModel = ''gpt'', UpstreamModel = ''big''\<rparr>"
proof (intro exI conjI)
  let ?cfg = "sample_config\<lparr>cfg_CodexResponsesRules := ''gpt(high)=>big''\<rparr>"
  show "previewRoute ?cfg (ruleSourceFromConfig ?cfg) ''openai-response'' ''gpt'' [] =
       Inr \<lparr>M1 = ''gpt'', M2 = ''gpt'', Routed = False, Final = ''gpt'', PreviewTarget = None, MappingSkipped = False\<rparr>"
    by (simp add: sample_config_def go_simps Let_def)
  show "routeModelForRequest (\<lambda>_. Some ''high'') ?cfg (ruleSourceFromConfig ?cfg) ''openai-response'' ''gpt'' [] ''{}'' =
       Inr \<lparr>Handled = True, OriginalModel = ''gpt'', UpstreamModel = ''big''\<rparr>"
    by (simp add: sample_config_def go_simps)
qed

lemma apiKeyFromHeaders_trimmed: "trim_space (apiKeyFromHeaders h) = apiKeyFromHeaders h"
  by (auto simp: apiKeyFromHeaders_def Let_def split: option.splits prod.splits)

text \<open>The header lookup returns trimmed keys, so a binding whose stored key has blanks around it
  governs no request, although \<open>validateState\<close> accepts it from a state file.\<close>

theorem untrimmed_binding_unreachable:
  "(trim_space (kb_Key b) \<noteq> kb_Key b \<longrightarrow>
      findKeyBindingByKey bs (apiKeyFromHeaders h) \<noteq> Some b \<and>
      findBlockedKeyBinding bs (apiKeyFromHeaders h) \<noteq> Some b) \<and>
   validateState (sample_state\<lparr>st_KeyBindings := [sample_binding\<lparr>kb_Key := '' sk-1'', kb_Blocked := True\<rparr>]\<rparr>) =
     Inr (sample_state\<lparr>st_KeyBindings := [sample_binding\<lparr>kb_Key := '' sk-1'', kb_Blocked := True\<rparr>]\<rparr>)"
proof (intro conjI impI)
  assume t: "trim_space (kb_Key b) \<noteq> kb_Key b"
  show "findKeyBindingByKey bs (apiKeyFromHeaders h) \<noteq> Some b"
    using t apiKeyFromHeaders_trimmed [of h] by (auto dest: findKeyBindingByKey_in)
  show "findBlockedKeyBinding bs (apiKeyFromHeaders h) \<noteq> Some b"
    using t apiKeyFromHeaders_trimmed [of h] by (auto simp: findBlockedKeyBinding_def dest: find_Some_in)
next
  show "validateState (sample_state\<lparr>st_KeyBindings := [sample_binding\<lparr>kb_Key := '' sk-1'', kb_Blocked := True\<rparr>]\<rparr>) =
     Inr (sample_state\<lparr>st_KeyBindings := [sample_binding\<lparr>kb_Key := '' sk-1'', kb_Blocked := True\<rparr>]\<rparr>)"
    by (simp add: sample_state_def sample_binding_def go_simps)
qed

theorem untrimmed_binding_unreachable_witness:
  "findBlockedKeyBinding [sample_binding\<lparr>kb_Key := '' sk-1'', kb_Blocked := True\<rparr>]
     (apiKeyFromHeaders [''X-Api-Key'' \<mapsto> ['' sk-1'']]) \<noteq> Some (sample_binding\<lparr>kb_Key := '' sk-1'', kb_Blocked := True\<rparr>)"
  using untrimmed_binding_unreachable [where b = "sample_binding\<lparr>kb_Key := '' sk-1'', kb_Blocked := True\<rparr>"
    and bs = "[sample_binding\<lparr>kb_Key := '' sk-1'', kb_Blocked := True\<rparr>]" and h = "[''X-Api-Key'' \<mapsto> ['' sk-1'']]"]
  by (simp add: sample_binding_def go_simps)

end
