(* ===== verification/Json_Doc.thy ===== *)
theory Json_Doc
  imports Go_Strings "HOL-Library.AList"
begin

text \<open>
  JSON documents as \<open>json.Unmarshal\<close> builds them in a \<open>map[string]any\<close>, and the rewriting of
  model names in them (\<open>main.go\<close>: \<open>rewriteStringField\<close>, \<open>rewriteModelFields\<close>,
  \<open>rewriteTopLevelModel\<close>, \<open>rewriteResponseModelFields\<close>).  An object is an association list; the
  code reads it by key only.  The codec is a parameter: \<open>dec\<close> decodes bytes into an object
  (\<open>None\<close> is the error, also for a JSON value that is not an object), \<open>enc\<close> encodes one.
\<close>

datatype json =
    JNull
  | JBool bool
  | JNumber string
  | JString string
  | JArray "json list"
  | JObject "(string \<times> json) list"

type_synonym json_doc = "(string \<times> json) list"
type_synonym decoder = "bytes \<Rightarrow> json_doc option"
type_synonym encoder = "json_doc \<Rightarrow> bytes option"

definition rewriteStringField :: "json_doc \<Rightarrow> string \<Rightarrow> string \<Rightarrow> json_doc \<times> bool" where
  "rewriteStringField doc key model =
     (case map_of doc key of
        Some (JString _) \<Rightarrow> (AList.update key (JString model) doc, True)
      | _ \<Rightarrow> (doc, False))"

definition rewriteNestedModelFields :: "json_doc \<Rightarrow> string \<Rightarrow> string \<Rightarrow> json_doc \<times> bool" where
  "rewriteNestedModelFields doc key model =
     (case map_of doc key of
        Some (JObject nested) \<Rightarrow>
          (let (nested1, c1) = rewriteStringField nested ''model'' model;
               (nested2, c2) = rewriteStringField nested1 ''modelVersion'' model
           in (AList.update key (JObject nested2) doc, c2 \<or> c1))
      | _ \<Rightarrow> (doc, False))"

definition rewriteModelFields :: "json_doc \<Rightarrow> string \<Rightarrow> json_doc \<times> bool" where
  "rewriteModelFields doc model =
     (let (d1, c1) = rewriteStringField doc ''model'' model;
          (d2, c2) = rewriteStringField d1 ''modelVersion'' model;
          (d3, c3) = rewriteNestedModelFields d2 ''message'' model;
          (d4, c4) = rewriteNestedModelFields d3 ''response'' model
      in (d4, c4 \<or> c3 \<or> c2 \<or> c1))"

text \<open>The result and whether it changed; \<open>None\<close> is the encoding error.\<close>

definition rewriteTopLevelModel ::
    "decoder \<Rightarrow> encoder \<Rightarrow> bytes \<Rightarrow> string \<Rightarrow> (bytes \<times> bool) option" where
  "rewriteTopLevelModel dec enc body model =
     (case dec body of
        None \<Rightarrow> Some (body, False)
      | Some doc \<Rightarrow>
        (case rewriteStringField doc ''model'' model of
           (doc', changed) \<Rightarrow>
             if \<not> changed then Some (body, False)
             else map_option (\<lambda>out. (out, True)) (enc doc')))"

definition rewriteResponseModelFields ::
    "decoder \<Rightarrow> encoder \<Rightarrow> bytes \<Rightarrow> string \<Rightarrow> (bytes \<times> bool) option" where
  "rewriteResponseModelFields dec enc body model =
     (case dec body of
        None \<Rightarrow> Some (body, False)
      | Some doc \<Rightarrow>
        (case rewriteModelFields doc model of
           (doc', changed) \<Rightarrow>
             if \<not> changed then Some (body, False)
             else map_option (\<lambda>out. (out, True)) (enc doc')))"

definition rewriteRequestModel where "rewriteRequestModel = rewriteTopLevelModel"
definition restoreResponseModel where "restoreResponseModel = rewriteResponseModelFields"

lemmas [go_simps] =
  rewriteStringField_def rewriteNestedModelFields_def rewriteModelFields_def
  rewriteTopLevelModel_def rewriteResponseModelFields_def rewriteRequestModel_def
  restoreResponseModel_def

section \<open>The fields that carry a model name\<close>

text \<open>The value at a path of one or two keys.\<close>

fun json_at :: "json_doc \<Rightarrow> string list \<Rightarrow> json option" where
  "json_at doc [] = None"
| "json_at doc [k] = map_of doc k"
| "json_at doc (k # ks) = (case map_of doc k of Some (JObject nested) \<Rightarrow> json_at nested ks | _ \<Rightarrow> None)"

definition model_paths :: "string list list" where
  "model_paths = [[''model''], [''modelVersion''], [''message'', ''model''], [''message'', ''modelVersion''],
     [''response'', ''model''], [''response'', ''modelVersion'']]"

fun is_string :: "json option \<Rightarrow> bool" where
  "is_string (Some (JString _)) = True"
| "is_string _ = False"

lemma is_string_iff: "is_string v \<longleftrightarrow> (\<exists>s. v = Some (JString s))"
  by (cases v rule: is_string.cases) auto

lemma rewriteStringField_at:
  "map_of (fst (rewriteStringField doc key model)) k =
     (if k = key \<and> is_string (map_of doc k) then Some (JString model) else map_of doc k)"
  "snd (rewriteStringField doc key model) \<longleftrightarrow> is_string (map_of doc key)"
  by (auto simp: rewriteStringField_def update_conv' split: option.splits json.splits)

definition rewrite_nested :: "json option \<Rightarrow> string \<Rightarrow> json option" where
  "rewrite_nested v model =
     (case v of
        Some (JObject n) \<Rightarrow>
          Some (JObject (fst (rewriteStringField (fst (rewriteStringField n ''model'' model)) ''modelVersion'' model)))
      | _ \<Rightarrow> v)"

lemma rewriteNestedModelFields_cases:
  "rewriteNestedModelFields doc key model =
     (case map_of doc key of
        Some (JObject n) \<Rightarrow>
          (AList.update key (the (rewrite_nested (Some (JObject n)) model)) doc,
           is_string (map_of n ''modelVersion'') \<or> is_string (map_of n ''model''))
      | _ \<Rightarrow> (doc, False))"
  by (simp add: rewriteNestedModelFields_def rewrite_nested_def split_beta Let_def rewriteStringField_at
      split: option.split json.split)

lemma rewriteNestedModelFields_at:
  "map_of (fst (rewriteNestedModelFields doc key model)) k =
     (if k = key then rewrite_nested (map_of doc k) model else map_of doc k)"
  "snd (rewriteNestedModelFields doc key model) \<longleftrightarrow>
     is_string (json_at doc [key, ''model'']) \<or> is_string (json_at doc [key, ''modelVersion''])"
  unfolding rewriteNestedModelFields_cases
  by (cases "map_of doc key"; cases "the (map_of doc key)"; auto simp: rewrite_nested_def update_conv')+

lemma rewrite_nested_at:
  "rewrite_nested (Some (JObject n)) model = Some (JObject n') \<Longrightarrow>
     map_of n' k = (if (k = ''model'' \<or> k = ''modelVersion'') \<and> is_string (map_of n k) then Some (JString model) else map_of n k)"
  by (auto simp: rewrite_nested_def rewriteStringField_at)

lemma rewriteModelFields_top:
  "map_of (fst (rewriteModelFields doc model)) k =
     (if k = ''message'' \<or> k = ''response'' then rewrite_nested (map_of doc k) model
      else if (k = ''model'' \<or> k = ''modelVersion'') \<and> is_string (map_of doc k) then Some (JString model)
      else map_of doc k)"
  by (auto simp: rewriteModelFields_def split_beta Let_def rewriteNestedModelFields_at rewriteStringField_at)

lemma json_at_rewritten:
  assumes "p \<in> set model_paths"
  shows "json_at (fst (rewriteModelFields doc model)) p =
     (if is_string (json_at doc p) then Some (JString model) else json_at doc p)"
proof -
  have nested: "json_at (fst (rewriteModelFields doc model)) [k, f] =
     (if is_string (json_at doc [k, f]) then Some (JString model) else json_at doc [k, f])"
    if "k = ''message'' \<or> k = ''response''" "f = ''model'' \<or> f = ''modelVersion''" for k f
  proof (cases "map_of doc k")
    case (Some v)
    show ?thesis
    proof (cases v)
      case (JObject n)
      obtain n' where n': "rewrite_nested (Some (JObject n)) model = Some (JObject n')"
        by (simp add: rewrite_nested_def)
      with rewrite_nested_at [OF n', of f] that Some JObject show ?thesis
        by (auto simp: rewriteModelFields_top)
    qed (use that Some in \<open>auto simp: rewriteModelFields_top rewrite_nested_def\<close>)
  qed (use that in \<open>auto simp: rewriteModelFields_top rewrite_nested_def\<close>)
  show ?thesis
    using assms nested unfolding model_paths_def by (auto simp: rewriteModelFields_top)
qed

lemma rewriteModelFields_changed:
  "snd (rewriteModelFields doc model) \<longleftrightarrow> (\<exists>p\<in>set model_paths. is_string (json_at doc p))"
  by (auto simp: rewriteModelFields_def model_paths_def split_beta Let_def rewriteNestedModelFields_at rewriteStringField_at)

definition sample_dec :: decoder where
  "sample_dec b =
     (if b = ''up'' then Some [(''model'', JString ''up''), (''n'', JNull)]
      else if b = ''me'' then Some [(''model'', JString ''me''), (''n'', JNull)] else None)"

definition sample_enc :: encoder where
  "sample_enc d = (if d = [(''model'', JString ''me''), (''n'', JNull)] then Some ''me'' else None)"

section \<open>Correctness of the rewriting\<close>

text \<open>Restoring a response leaves no upstream name behind: read back, every model field that
  holds a string holds the client's model, every other key has the value it had, and a response
  without such a field is passed on byte for byte.\<close>

theorem restoreResponseModel_restores:
  assumes codec: "\<And>d b. enc d = Some b \<Longrightarrow> dec b = Some d"
    and run: "restoreResponseModel dec enc body model = Some (out, changed)" and doc: "dec body = Some doc"
  shows "\<exists>doc'. dec out = Some doc' \<and>
     list_all (\<lambda>p. json_at doc' p = (if is_string (json_at doc p) then Some (JString model) else json_at doc p)) model_paths \<and>
     (\<forall>k. k \<notin> {''model'', ''modelVersion'', ''message'', ''response''} \<longrightarrow> map_of doc' k = map_of doc k) \<and>
     (changed \<longleftrightarrow> list_ex (\<lambda>p. is_string (json_at doc p)) model_paths) \<and> (\<not> changed \<longrightarrow> out = body)"
proof -
  let ?d = "fst (rewriteModelFields doc model)"
  have c: "changed = snd (rewriteModelFields doc model)"
    using run doc by (auto simp: restoreResponseModel_def rewriteResponseModelFields_def split_beta split: if_splits)
  have fields: "list_all (\<lambda>p. json_at ?d p = (if is_string (json_at doc p) then Some (JString model) else json_at doc p)) model_paths"
    by (simp add: list_all_iff json_at_rewritten)
  have ex: "snd (rewriteModelFields doc model) \<longleftrightarrow> list_ex (\<lambda>p. is_string (json_at doc p)) model_paths"
    by (simp add: rewriteModelFields_changed list_ex_iff)
  show ?thesis
  proof (cases changed)
    case True
    with run doc c have "enc ?d = Some out"
      by (auto simp: restoreResponseModel_def rewriteResponseModelFields_def split_beta)
    from codec [OF this] fields ex c True show ?thesis
      by (intro exI [of _ ?d]) (simp add: rewriteModelFields_top)
  next
    case False
    with run doc c have "out = body"
      by (auto simp: restoreResponseModel_def rewriteResponseModelFields_def split_beta)
    with doc ex c False show ?thesis
      by (intro exI [of _ doc]) (auto simp: list_all_iff list_ex_iff)
  qed
qed

theorem restoreResponseModel_restores_witness:
  "restoreResponseModel sample_dec sample_enc ''up'' ''me'' = Some (''me'', True) \<and>
   (\<exists>doc'. sample_dec ''me'' = Some doc' \<and> json_at doc' [''model''] = Some (JString ''me''))"
proof -
  have run: "restoreResponseModel sample_dec sample_enc ''up'' ''me'' = Some (''me'', True)"
    by (simp add: sample_dec_def sample_enc_def go_simps)
  have doc: "sample_dec ''up'' = Some [(''model'', JString ''up''), (''n'', JNull)]" by (simp add: sample_dec_def)
  have "sample_dec b = Some d" if "sample_enc d = Some b" for d b
    using that by (auto simp: sample_dec_def sample_enc_def split: if_splits)
  from restoreResponseModel_restores [OF this run doc] run show ?thesis by (auto simp: model_paths_def)
qed

end
