(* ===== verification/Sse.thy ===== *)
theory Sse
  imports Json_Doc
begin

text \<open>
  The incremental rewriting of streamed responses (\<open>main.go\<close>: \<open>sseRewriter\<close>,
  \<open>streamChunkRewriter\<close> and their helpers).  A rewriter is a record; a method returns its
  chunks with the new record, and \<open>None\<close> is an encoding error, after which the stream is given
  up.  What the JSON library does is the parameter \<open>codec\<close>: decoding and encoding an object,
  reading a sequence of values (\<open>json.Decoder\<close>), and \<open>json.Valid\<close>.
\<close>

record codec =
  c_dec :: decoder
  c_enc :: encoder
  c_stream :: "bytes \<Rightarrow> bytes list option"
  c_valid :: "bytes \<Rightarrow> bool"

abbreviation LF :: char where "LF \<equiv> CHR 0x0A"
abbreviation CR :: char where "CR \<equiv> CHR 0x0D"

definition restore :: "codec \<Rightarrow> bytes \<Rightarrow> string \<Rightarrow> (bytes \<times> bool) option" where
  "restore c body model = restoreResponseModel (c_dec c) (c_enc c) body model"

record sseRewriter =
  sse_originalModel :: string
  sse_buf :: bytes
  sse_overflowed :: bool

definition maxSSEBufferBytes :: nat where
  "maxSSEBufferBytes = 8 * 2 ^ 20"

definition newSSERewriter :: "string \<Rightarrow> sseRewriter" where
  "newSSERewriter model = \<lparr>sse_originalModel = model, sse_buf = [], sse_overflowed = False\<rparr>"

section \<open>One event\<close>

text \<open>The length of the first event and of the delimiter after it, \<open>(0, 0)\<close> without one.\<close>

definition sseEventDelimiter :: "bytes \<Rightarrow> nat \<times> nat" where
  "sseEventDelimiter buf =
     (case (index_of buf [LF, LF], index_of buf [CR, LF, CR, LF]) of
        (None, None) \<Rightarrow> (0, 0)
      | (Some lf, None) \<Rightarrow> (lf, 2)
      | (None, Some crlf) \<Rightarrow> (crlf, 4)
      | (Some lf, Some crlf) \<Rightarrow> if lf < crlf then (lf, 2) else (crlf, 4))"

definition delimiterBytes :: "nat \<Rightarrow> bytes" where
  "delimiterBytes n = (if n = 4 then [CR, LF, CR, LF] else [LF, LF])"

definition joinChunks :: "bytes list \<Rightarrow> bytes \<Rightarrow> bytes" where
  "joinChunks parts delim = concat parts @ delim"

text \<open>One line of an event without its line break \<open>brk\<close>.\<close>

definition rewriteLine :: "codec \<Rightarrow> string \<Rightarrow> bytes \<Rightarrow> bytes \<Rightarrow> bytes option" where
  "rewriteLine c model line brk =
     (if prefix ''data:'' line then
        (let val = trim_space (drop 5 line)
         in if val = [] \<or> val = ''[DONE]'' then Some (line @ brk)
            else case restore c val model of
              None \<Rightarrow> None
            | Some (restored, changed) \<Rightarrow>
              if changed then Some (''data: '' @ restored @ brk) else Some (line @ brk))
      else Some (line @ brk))"

text \<open>The line and its break, a carriage return moved from the one to the other or dropped.\<close>

definition lineParts :: "bytes \<Rightarrow> bool \<Rightarrow> bytes \<times> bytes" where
  "lineParts line broken =
     (if line \<noteq> [] \<and> last line = CR then (butlast line, if broken then [CR, LF] else [])
      else (line, if broken then [LF] else []))"

function rewriteEvent :: "codec \<Rightarrow> string \<Rightarrow> bytes \<Rightarrow> bytes list option" where
  "rewriteEvent c model event =
     (if event = [] then Some []
      else case cut_at LF event of
        None \<Rightarrow>
          (case lineParts event False of
             (line, brk) \<Rightarrow> map_option (\<lambda>out. [out]) (rewriteLine c model line brk))
      | Some (raw, rest) \<Rightarrow>
          (case lineParts raw True of
             (line, brk) \<Rightarrow>
               (case rewriteLine c model line brk of
                  None \<Rightarrow> None
                | Some out \<Rightarrow> map_option (Cons out) (rewriteEvent c model rest))))"
  by pat_completeness auto
termination
  by (relation "measure (\<lambda>(c, model, event). length event)") (auto dest!: cut_at_Some)

declare rewriteEvent.simps [simp del]

section \<open>The buffer\<close>

text \<open>The loop of \<open>Write\<close>: every complete event of the buffer is rewritten.\<close>

lemma sseEventDelimiter_bound: "snd (sseEventDelimiter buf) \<noteq> 0 \<Longrightarrow> buf \<noteq> [] \<and> 0 < snd (sseEventDelimiter buf)"
  by (cases buf) (auto simp: sseEventDelimiter_def index_of.simps split: option.splits)

lemma sseEventDelimiter_shrinks:
  "(delim, n) = sseEventDelimiter buf \<Longrightarrow> n \<noteq> 0 \<Longrightarrow> length (drop (delim + n) buf) < length buf"
  using sseEventDelimiter_bound [of buf] by (cases "sseEventDelimiter buf"; cases buf) auto

function sse_drain :: "codec \<Rightarrow> string \<Rightarrow> bytes \<Rightarrow> (bytes list \<times> bytes) option" where
  "sse_drain c model buf =
     (case sseEventDelimiter buf of
        (delim, n) \<Rightarrow>
          if n = 0 then Some ([], buf)
          else case rewriteEvent c model (take delim buf) of
            None \<Rightarrow> None
          | Some rewritten \<Rightarrow>
            map_option (\<lambda>(out, rest). (joinChunks rewritten (delimiterBytes n) # out, rest))
              (sse_drain c model (drop (delim + n) buf)))"
  by pat_completeness auto
termination
  apply (relation "measure (\<lambda>(c, model, buf). length buf)")
   apply simp
  apply (metis (no_types, lifting) sseEventDelimiter_shrinks case_prod_conv in_measure)
  done

declare sse_drain.simps [simp del]

definition sseNeedsLineBreak :: "bytes \<Rightarrow> bytes \<Rightarrow> bool" where
  "sseNeedsLineBreak pending chunk =
     (if pending = [] \<or> chunk = [] then False
      else if last pending = LF \<or> last pending = CR then False
      else if hd chunk = LF \<or> hd chunk = CR then False
      else (let trimmed = trim_left_set {CHR '' '', CHR 0x09} chunk
            in list_ex (\<lambda>p. prefix p trimmed) [''data:'', ''event:'', ''id:'', ''retry:'', '':'']))"

definition sse_Write :: "codec \<Rightarrow> sseRewriter \<Rightarrow> bytes \<Rightarrow> (bytes list \<times> sseRewriter) option" where
  "sse_Write c r p =
     (if sse_overflowed r then Some ([p], r)
      else
        let buf = sse_buf r @ (if sseNeedsLineBreak (sse_buf r) p then [LF] else []) @ p
        in case sse_drain c (sse_originalModel r) buf of
             None \<Rightarrow> None
           | Some (out, rest) \<Rightarrow>
             if maxSSEBufferBytes < length rest
             then Some (out @ [rest], r\<lparr>sse_buf := [], sse_overflowed := True\<rparr>)
             else Some (out, r\<lparr>sse_buf := rest\<rparr>))"

definition sse_Flush :: "codec \<Rightarrow> sseRewriter \<Rightarrow> (bytes list \<times> sseRewriter) option" where
  "sse_Flush c r =
     (if sse_buf r = [] then Some ([], r)
      else if sse_overflowed r then Some ([sse_buf r], r\<lparr>sse_buf := []\<rparr>)
      else map_option (\<lambda>out. (out, r\<lparr>sse_buf := []\<rparr>)) (rewriteEvent c (sse_originalModel r) (sse_buf r)))"

section \<open>Chunks of either kind\<close>

record streamChunkRewriter =
  scr_originalModel :: string
  scr_frameRawJSONAsSSE :: bool
  scr_sse :: sseRewriter
  scr_pending :: bytes
  scr_sseMode :: bool

definition newStreamChunkRewriter :: "string \<Rightarrow> streamChunkRewriter" where
  "newStreamChunkRewriter model =
     \<lparr>scr_originalModel = model, scr_frameRawJSONAsSSE = False, scr_sse = newSSERewriter model,
      scr_pending = [], scr_sseMode = False\<rparr>"

definition blanks :: "char set" where
  "blanks = {CHR '' '', CHR 0x09, CR, LF}"

definition isSSEChunk :: "bytes \<Rightarrow> bool" where
  "isSSEChunk p =
     (let trimmed = trim_left_set blanks p
      in prefix ''data:'' trimmed \<or> prefix ''event:'' trimmed \<or> prefix '':'' trimmed \<or>
         contains p [LF, LF] \<or> contains p [CR, LF, CR, LF])"

definition isIncompleteSSEPrefix :: "bytes \<Rightarrow> bool" where
  "isIncompleteSSEPrefix p =
     (let trimmed = trim_left_set blanks p
      in if trimmed = [] \<or> CR \<in> set trimmed \<or> LF \<in> set trimmed then False
         else list_ex (\<lambda>field. prefix trimmed field \<and> length trimmed < length field) [''data:'', ''event:'', '':''])"

text \<open>\<open>bytes.Split\<close> at line feeds, with one \<open>data:\<close> line for every piece.\<close>

definition frameSSEData :: "bytes \<Rightarrow> bytes" where
  "frameSSEData p = concat (map (\<lambda>line. ''data: '' @ line @ [LF]) (split_on [LF] p)) @ [LF]"

definition splitJSONValues :: "codec \<Rightarrow> bytes \<Rightarrow> bytes list \<times> bool" where
  "splitJSONValues c p =
     (if trim_space p = [] then ([], True)
      else case c_stream c p of None \<Rightarrow> ([], False) | Some values \<Rightarrow> (values, values \<noteq> []))"

fun restoreAll :: "codec \<Rightarrow> bool \<Rightarrow> string \<Rightarrow> bytes list \<Rightarrow> bytes list option" where
  "restoreAll c framed model [] = Some []"
| "restoreAll c framed model (v # vs) =
     (case restore c v model of
        None \<Rightarrow> None
      | Some (restored, _) \<Rightarrow>
        map_option (Cons (if framed then frameSSEData restored else restored)) (restoreAll c framed model vs))"

definition rawJSONChunks :: "codec \<Rightarrow> streamChunkRewriter \<Rightarrow> bytes \<Rightarrow> bytes list option" where
  "rawJSONChunks c r p =
     (case splitJSONValues c p of
        (values, ok) \<Rightarrow>
          if \<not> ok then Some [if scr_frameRawJSONAsSSE r \<and> c_valid c p then frameSSEData p else p]
          else if values = [] then Some []
          else restoreAll c (scr_frameRawJSONAsSSE r) (scr_originalModel r) values)"

definition with_sse ::
    "streamChunkRewriter \<Rightarrow> (bytes list \<times> sseRewriter) option \<Rightarrow> (bytes list \<times> streamChunkRewriter) option" where
  "with_sse r res = map_option (\<lambda>(out, sse). (out, r\<lparr>scr_sse := sse\<rparr>)) res"

definition scr_Write ::
    "codec \<Rightarrow> streamChunkRewriter \<Rightarrow> bytes \<Rightarrow> (bytes list \<times> streamChunkRewriter) option" where
  "scr_Write c r0 p0 =
     (let p = scr_pending r0 @ p0; r = r0\<lparr>scr_pending := []\<rparr>
      in if scr_sseMode r \<or> sse_buf (scr_sse r) \<noteq> [] \<or> isSSEChunk p then
           with_sse (r\<lparr>scr_sseMode := True\<rparr>) (sse_Write c (scr_sse r) p)
         else if isIncompleteSSEPrefix p then Some ([], r\<lparr>scr_pending := p\<rparr>)
         else case restore c p (scr_originalModel r) of
           None \<Rightarrow> None
         | Some (restored, changed) \<Rightarrow>
           map_option (\<lambda>out. (out, r)) (rawJSONChunks c r (if changed then restored else p)))"

definition scr_Flush ::
    "codec \<Rightarrow> streamChunkRewriter \<Rightarrow> (bytes list \<times> streamChunkRewriter) option" where
  "scr_Flush c r =
     (if scr_pending r \<noteq> [] then
        (case sse_Write c (scr_sse r) (scr_pending r) of
           None \<Rightarrow> None
         | Some (chunks, sse) \<Rightarrow>
           (case sse_Flush c sse of
              None \<Rightarrow> None
            | Some (flushed, sse') \<Rightarrow> Some (chunks @ flushed, r\<lparr>scr_pending := [], scr_sse := sse'\<rparr>)))
      else with_sse r (sse_Flush c (scr_sse r)))"

lemmas [go_simps] =
  restore_def newSSERewriter_def sseEventDelimiter_def delimiterBytes_def joinChunks_def
  rewriteLine_def lineParts_def rewriteEvent.simps sse_drain.simps sseNeedsLineBreak_def
  sse_Write_def sse_Flush_def newStreamChunkRewriter_def blanks_def isSSEChunk_def
  isIncompleteSSEPrefix_def frameSSEData_def splitJSONValues_def rawJSONChunks_def with_sse_def
  scr_Write_def scr_Flush_def maxSSEBufferBytes_def

section \<open>Delimiters do not move\<close>

definition delim_at :: "bytes \<Rightarrow> nat \<Rightarrow> nat \<Rightarrow> bool" where
  "delim_at s k n \<longleftrightarrow>
     n = 2 \<and> prefix [LF, LF] (drop k s) \<or> n = 4 \<and> prefix [CR, LF, CR, LF] (drop k s)"

lemma delim_at_length: "delim_at s k n \<Longrightarrow> k + n \<le> length s \<and> 2 \<le> n"
  by (auto simp: delim_at_def dest!: prefix_length_le)

lemma delim_at_unique: "delim_at s k n \<Longrightarrow> delim_at s k m \<Longrightarrow> n = m"
  by (auto simp: delim_at_def prefix_def)

lemma sseEventDelimiter_iff:
  "n \<noteq> 0 \<Longrightarrow> sseEventDelimiter s = (k, n) \<longleftrightarrow> delim_at s k n \<and> (\<forall>j<k. \<forall>m. \<not> delim_at s j m)"
proof -
  assume n: "n \<noteq> 0"
  have lf: "index_of s [LF, LF] = None \<Longrightarrow> \<not> prefix [LF, LF] (drop j s)"
    and crlf: "index_of s [CR, LF, CR, LF] = None \<Longrightarrow> \<not> prefix [CR, LF, CR, LF] (drop j s)" for j
    by (erule index_of_None)+
  have found: "sseEventDelimiter s = (i, m) \<Longrightarrow> m \<noteq> 0 \<Longrightarrow> delim_at s i m \<and> (\<forall>j<i. \<forall>m. \<not> delim_at s j m)" for i m
    using lf crlf index_of_Some [of s "[LF, LF]"] index_of_Some [of s "[CR, LF, CR, LF]"]
    by (auto simp: sseEventDelimiter_def delim_at_def split: option.splits if_splits)
  have none: "snd (sseEventDelimiter s) = 0 \<Longrightarrow> \<not> delim_at s j m" for j m
    using lf crlf by (auto simp: sseEventDelimiter_def delim_at_def split: option.splits if_splits)
  show ?thesis
  proof
    assume "sseEventDelimiter s = (k, n)"
    with found n show "delim_at s k n \<and> (\<forall>j<k. \<forall>m. \<not> delim_at s j m)" by blast
  next
    assume a: "delim_at s k n \<and> (\<forall>j<k. \<forall>m. \<not> delim_at s j m)"
    obtain i m where im: "sseEventDelimiter s = (i, m)" by fastforce
    with none a have "m \<noteq> 0" by (metis snd_conv)
    with found [OF im] a delim_at_unique have "i = k \<and> m = n" by (metis linorder_neqE_nat)
    with im show "sseEventDelimiter s = (k, n)" by simp
  qed
qed

lemma drop_prefix_append: "j \<le> length s \<Longrightarrow> drop j (s @ x) = drop j s @ x"
  by simp

lemma delim_at_append: "delim_at s k n \<Longrightarrow> delim_at (s @ x) k n"
  using delim_at_length [of s k n] by (auto simp: delim_at_def)

lemma prefix_take: "prefix p t \<Longrightarrow> take (length p) t = p"
  by (auto simp: prefix_def)

lemma delim_at_shorten: "delim_at (s @ x) j m \<Longrightarrow> j + m \<le> length s \<Longrightarrow> delim_at s j m"
proof -
  assume d: "delim_at (s @ x) j m" and le: "j + m \<le> length s"
  have t: "take m (drop j (s @ x)) = take m (drop j s)" using le by simp
  have p: "prefix p (drop j s)" if "prefix p (drop j (s @ x))" "length p = m" for p
  proof -
    from that prefix_take [OF that(1)] have "take m (drop j (s @ x)) = p" by (simp only:)
    with t show ?thesis by (metis take_is_prefix)
  qed
  from d p [of "[LF, LF]"] p [of "[CR, LF, CR, LF]"] show ?thesis by (auto simp: delim_at_def)
qed

lemma delim_at_nth:
  "delim_at s k n \<Longrightarrow> s ! (k + n - 1) = LF \<and> (n = 2 \<longrightarrow> s ! k = LF) \<and> (n = 4 \<longrightarrow> s ! k = CR \<and> s ! Suc k = LF \<and> s ! Suc (Suc k) = CR)"
proof -
  assume "delim_at s k n"
  then obtain u where u: "drop k s = (if n = 2 then [LF, LF] else [CR, LF, CR, LF]) @ u" and n: "n = 2 \<or> n = 4"
    by (auto simp: delim_at_def prefix_def)
  have nth: "s ! (k + i) = drop k s ! i" if "i < 4" "i < length (drop k s)" for i
    using that by simp
  have "length (drop k s) \<ge> n" using u n by auto
  then have "s ! (k + 1) = drop k s ! 1" "s ! k = drop k s ! 0" "n = 4 \<Longrightarrow> s ! (k + 2) = drop k s ! 2" "n = 4 \<Longrightarrow> s ! (k + 3) = drop k s ! 3"
    using n by auto
  with u n show ?thesis by (auto simp: numeral_eq_Suc)
qed

text \<open>A delimiter found in a buffer stays the first one when bytes are appended.\<close>

lemma sseEventDelimiter_append:
  assumes "sseEventDelimiter s = (k, n)" and "n \<noteq> 0"
  shows "sseEventDelimiter (s @ x) = (k, n)"
proof -
  have d: "delim_at s k n" and first: "\<And>j m. j < k \<Longrightarrow> \<not> delim_at s j m"
    using assms sseEventDelimiter_iff by blast+
  note len = delim_at_length [OF d]
  have "\<not> delim_at (s @ x) j m" if "j < k" for j m
  proof
    assume dj: "delim_at (s @ x) j m"
    have m: "m = 2 \<or> m = 4" using dj by (auto simp: delim_at_def)
    have "\<not> j + m \<le> length s" using first [OF that] delim_at_shorten [OF dj] by blast
    with that m len have c: "m = 4" "n = 2" "k = Suc j" "Suc k < length s" by auto
    have "(s @ x) ! Suc (Suc j) = CR" using delim_at_nth [OF dj] c(1) by simp
    moreover have "s ! (k + n - 1) = LF" using delim_at_nth [OF d] by simp
    ultimately show False using c by (simp add: nth_append)
  qed
  with delim_at_append [OF d] assms(2) show ?thesis by (simp add: sseEventDelimiter_iff)
qed

lemma sse_drain_append:
  "sse_drain c model (a @ b) =
     (case sse_drain c model a of
        None \<Rightarrow> None
      | Some (out, rest) \<Rightarrow> map_option (\<lambda>(out', rest'). (out @ out', rest')) (sse_drain c model (rest @ b)))"
proof (induction c model a rule: sse_drain.induct)
  case (1 c model buf)
  obtain k n where kn: "sseEventDelimiter buf = (k, n)" by fastforce
  show ?case
  proof (cases "n = 0")
    case True
    with kn have "sse_drain c model buf = Some ([], buf)" by (simp add: sse_drain.simps [of c model buf])
    then show ?thesis by (simp add: option.map_id)
  next
    case False
    have kn': "sseEventDelimiter (buf @ b) = (k, n)" using sseEventDelimiter_append [OF kn False] .
    have "delim_at buf k n" using kn False by (simp add: sseEventDelimiter_iff)
    then have len: "k + n \<le> length buf" using delim_at_length by blast
    show ?thesis
    proof (cases "rewriteEvent c model (take k buf)")
      case None
      with kn kn' False len show ?thesis
        by (simp add: sse_drain.simps [of c model buf] sse_drain.simps [of c model "buf @ b"])
    next
      case (Some ev)
      from "1.IH" [OF kn [symmetric] False Some]
      show ?thesis using kn kn' False len Some
        by (cases "sse_drain c model (drop (k + n) buf)")
           (auto simp: sse_drain.simps [of c model buf] sse_drain.simps [of c model "buf @ b"]
             option.map_comp comp_def case_prod_unfold)
    qed
  qed
qed

lemma sse_drain_suffix: "sse_drain c model buf = Some (out, rest) \<Longrightarrow> suffix rest buf"
proof (induction c model buf arbitrary: out rule: sse_drain.induct)
  case (1 c model buf)
  obtain k n where kn: "sseEventDelimiter buf = (k, n)" by fastforce
  show ?case
  proof (cases "n = 0")
    case True
    with "1.prems" kn show ?thesis by (simp add: sse_drain.simps [of c model buf])
  next
    case False
    with "1.prems" kn obtain ev out' where ev: "rewriteEvent c model (take k buf) = Some ev"
      and d: "sse_drain c model (drop (k + n) buf) = Some (out', rest)"
      by (auto simp: sse_drain.simps [of c model buf] split: option.splits)
    from "1.IH" [OF kn [symmetric] False ev d] show ?thesis
      using suffix_drop suffix_order.trans by blast
  qed
qed

section \<open>A whole stream\<close>

text \<open>The bytes written to the client: every chunk through \<open>Write\<close>, then \<open>Flush\<close>.\<close>

fun sse_run :: "codec \<Rightarrow> sseRewriter \<Rightarrow> bytes list \<Rightarrow> bytes list option" where
  "sse_run c r [] = map_option fst (sse_Flush c r)"
| "sse_run c r (p # ps) =
     (case sse_Write c r p of
        None \<Rightarrow> None
      | Some (out, r') \<Rightarrow> map_option (append out) (sse_run c r' ps))"

text \<open>The same text in one piece, event by event.\<close>

definition rewrite_text :: "codec \<Rightarrow> string \<Rightarrow> bytes \<Rightarrow> bytes list option" where
  "rewrite_text c model text =
     (case sse_drain c model text of
        None \<Rightarrow> None
      | Some (out, rest) \<Rightarrow>
        if rest = [] then Some out else map_option (append out) (rewriteEvent c model rest))"

definition line_aligned :: "bytes \<Rightarrow> bool" where
  "line_aligned p \<longleftrightarrow> p = [] \<or> last p = LF"

lemma line_aligned_append: "line_aligned a \<Longrightarrow> line_aligned b \<Longrightarrow> line_aligned (a @ b)"
  by (auto simp: line_aligned_def last_append)

lemma line_aligned_suffix: "suffix rest s \<Longrightarrow> line_aligned s \<Longrightarrow> line_aligned rest"
  by (auto simp: line_aligned_def suffix_def last_append split: if_splits)

lemma no_break: "line_aligned buf \<Longrightarrow> \<not> sseNeedsLineBreak buf p"
  by (auto simp: line_aligned_def sseNeedsLineBreak_def)

lemma rewrite_text_append:
  "rewrite_text c model (a @ b) =
     (case sse_drain c model a of
        None \<Rightarrow> None
      | Some (out, rest) \<Rightarrow> map_option (append out) (rewrite_text c model (rest @ b)))"
proof (cases "sse_drain c model a")
  case None
  then show ?thesis by (simp add: rewrite_text_def sse_drain_append [of c model a b])
next
  case (Some res)
  obtain out rest where res: "res = (out, rest)" by (cases res)
  show ?thesis
    by (cases "sse_drain c model (rest @ b)")
       (auto simp: rewrite_text_def sse_drain_append [of c model a b] Some res)
qed

lemma sse_run_text:
  "sse_overflowed r = False \<Longrightarrow> line_aligned (sse_buf r) \<Longrightarrow> list_all line_aligned ps \<Longrightarrow>
     length (sse_buf r) + length (concat ps) \<le> maxSSEBufferBytes \<Longrightarrow>
     sse_drain c (sse_originalModel r) (sse_buf r) = Some ([], sse_buf r) \<Longrightarrow>
     sse_run c r ps = rewrite_text c (sse_originalModel r) (sse_buf r @ concat ps)"
proof (induction ps arbitrary: r)
  case Nil
  then show ?case by (auto simp: sse_Flush_def rewrite_text_def option.map_comp comp_def option.map_ident)
next
  case (Cons p ps)
  let ?m = "sse_originalModel r" and ?buf = "sse_buf r @ p"
  have nb: "\<not> sseNeedsLineBreak (sse_buf r) p" using Cons.prems(2) by (rule no_break)
  show ?case
  proof (cases "sse_drain c ?m ?buf")
    case None
    with rewrite_text_append [of c ?m ?buf "concat ps"] nb Cons.prems(1) show ?thesis
      by (simp add: sse_Write_def Let_def)
  next
    case (Some res)
    then obtain out rest where d: "sse_drain c ?m ?buf = Some (out, rest)" by (cases res) auto
    note suf = sse_drain_suffix [OF d]
    have len: "length rest \<le> length ?buf" using suf by (rule suffix_length_le)
    let ?r' = "r\<lparr>sse_buf := rest\<rparr>"
    have w: "sse_Write c r p = Some (out, ?r')"
      using nb Cons.prems(1,4) d len by (simp add: sse_Write_def Let_def)
    have al: "line_aligned rest"
      using suf Cons.prems(2,3) line_aligned_append line_aligned_suffix by fastforce
    have "sse_drain c ?m rest = Some ([], rest)"
      using sse_drain_append [of c ?m ?buf "[]"] d
      by (cases "sse_drain c ?m rest") auto
    then have "sse_run c ?r' ps = rewrite_text c ?m (rest @ concat ps)"
      using Cons.IH [of ?r'] Cons.prems al len by simp
    with w d rewrite_text_append [of c ?m ?buf "concat ps"] show ?thesis by simp
  qed
qed

section \<open>Streams without a model field\<close>

definition never_changes :: "codec \<Rightarrow> string \<Rightarrow> bool" where
  "never_changes c model \<longleftrightarrow> (\<forall>v. \<exists>v'. restore c v model = Some (v', False))"

lemma rewriteLine_keeps: "never_changes c model \<Longrightarrow> rewriteLine c model line brk = Some (line @ brk)"
proof -
  assume "never_changes c model"
  then obtain v' where "restore c (trim_space (drop 5 line)) model = Some (v', False)"
    unfolding never_changes_def by blast
  then show ?thesis by (simp add: rewriteLine_def Let_def)
qed

lemma lineParts_keeps: "CR \<notin> set line \<Longrightarrow> lineParts line broken = (line, if broken then [LF] else [])"
proof -
  assume "CR \<notin> set line"
  then have "\<not> (line \<noteq> [] \<and> last line = CR)" using last_in_set by metis
  then show ?thesis unfolding lineParts_def by auto
qed

lemma rewriteEvent_keeps:
  "never_changes c model \<Longrightarrow> CR \<notin> set ev \<Longrightarrow> \<exists>out. rewriteEvent c model ev = Some out \<and> concat out = ev"
proof (induction c model ev rule: rewriteEvent.induct)
  case (1 c model ev)
  show ?case
  proof (cases "cut_at LF ev")
    case None
    with 1 show ?thesis
      by (simp add: rewriteEvent.simps [of c model ev] lineParts_keeps rewriteLine_keeps)
  next
    case (Some lr)
    then obtain l r where lr: "cut_at LF ev = Some (l, r)" by (cases lr) auto
    from cut_at_Some [OF this] have ev: "ev = l @ LF # r" by simp
    then have ne: "ev \<noteq> []" and cr: "CR \<notin> set l" "CR \<notin> set r" using 1 by auto
    have parts: "(l, [LF]) = lineParts l True" using cr by (simp add: lineParts_keeps)
    from "1.IH" [OF ne lr refl parts rewriteLine_keeps [OF "1.prems"(1)]] "1.prems"(1) cr(2)
    obtain out where "rewriteEvent c model r = Some out" "concat out = r" by blast
    with lr ne parts [symmetric] "1.prems"(1) have "rewriteEvent c model ev = Some ((l @ [LF]) # out)"
      by (simp add: rewriteEvent.simps [of c model ev] rewriteLine_keeps)
    with ev \<open>concat out = r\<close> show ?thesis by simp
  qed
qed

lemma sse_drain_keeps:
  "never_changes c model \<Longrightarrow> CR \<notin> set buf \<Longrightarrow>
     \<exists>out rest. sse_drain c model buf = Some (out, rest) \<and> concat out @ rest = buf"
proof (induction c model buf rule: sse_drain.induct)
  case (1 c model buf)
  obtain k n where kn: "sseEventDelimiter buf = (k, n)" by fastforce
  show ?case
  proof (cases "n = 0")
    case True
    with kn show ?thesis by (simp add: sse_drain.simps [of c model buf])
  next
    case False
    then have d: "delim_at buf k n" using kn by (simp add: sseEventDelimiter_iff)
    have n: "n = 2" and p: "prefix [LF, LF] (drop k buf)"
    proof -
      have "CR \<notin> set (drop k buf)" using "1.prems"(2) by (auto dest: in_set_dropD)
      then have "\<not> prefix [CR, LF, CR, LF] (drop k buf)" by (auto simp: prefix_def)
      with d show "n = 2" "prefix [LF, LF] (drop k buf)" by (auto simp: delim_at_def)
    qed
    from "1.prems"(2) have cr: "CR \<notin> set (take k buf)" "CR \<notin> set (drop (k + n) buf)"
      by (auto dest: in_set_takeD in_set_dropD)
    obtain ev where ev: "rewriteEvent c model (take k buf) = Some ev" "concat ev = take k buf"
      using rewriteEvent_keeps [OF "1.prems"(1) cr(1)] by blast
    from "1.IH" [OF kn [symmetric] False ev(1) "1.prems"(1) cr(2)] obtain out rest where
      o: "sse_drain c model (drop (k + n) buf) = Some (out, rest)" "concat out @ rest = drop (k + n) buf" by blast
    have "buf = take k buf @ [LF, LF] @ drop (k + n) buf"
      using p n by (auto simp: prefix_def) (metis append_take_drop_id append_Cons append_Nil drop_append drop_drop drop_Suc_Cons drop0 numeral_2_eq_2 add.commute)
    with o ev kn False n show ?thesis
      by (auto simp: sse_drain.simps [of c model buf] joinChunks_def delimiterBytes_def)
  qed
qed

lemma rewrite_text_keeps:
  assumes "never_changes c model" and "CR \<notin> set text"
  shows "\<exists>out. rewrite_text c model text = Some out \<and> concat out = text"
proof -
  obtain out rest where d: "sse_drain c model text = Some (out, rest)" "concat out @ rest = text"
    using sse_drain_keeps [OF assms] by blast
  then have "CR \<notin> set rest" using assms(2) by auto
  from rewriteEvent_keeps [OF assms(1) this] d show ?thesis by (auto simp: rewrite_text_def)
qed

section \<open>Correctness of the stream rewriting\<close>

text \<open>C7. The rewriting of an event stream does not depend on how the network cut it: chunks that
  end at a line break, up to the buffer limit in all, give exactly the events the whole text gives
  in one piece.\<close>

theorem sse_chunking_irrelevant:
  "list_all line_aligned ps \<Longrightarrow> length (concat ps) \<le> maxSSEBufferBytes \<Longrightarrow>
     sse_run c (newSSERewriter model) ps = rewrite_text c model (concat ps)"
  using sse_run_text [of "newSSERewriter model" ps c]
  by (simp add: newSSERewriter_def line_aligned_def sse_drain.simps [of c model "[]"] sseEventDelimiter_def index_of.simps)

definition up_dec :: decoder where
  "up_dec b = (if b = ''up'' then Some [(''model'', JString ''up'')] else None)"

definition up_codec :: codec where
  "up_codec = \<lparr>c_dec = up_dec, c_enc = (\<lambda>_. Some ''me''), c_stream = (\<lambda>_. None), c_valid = (\<lambda>_. False)\<rparr>"

theorem sse_chunking_irrelevant_witness:
  "sse_run up_codec (newSSERewriter ''me'') [''event: a'' @ [LF], ''data: up'' @ [LF], [LF]] =
     Some [''event: a'' @ [LF] @ ''data: me'' @ [LF, LF]]"
proof -
  have "sse_run up_codec (newSSERewriter ''me'') [''event: a'' @ [LF], ''data: up'' @ [LF], [LF]] =
      rewrite_text up_codec ''me'' (concat [''event: a'' @ [LF], ''data: up'' @ [LF], [LF]])"
    by (rule sse_chunking_irrelevant) (simp_all add: line_aligned_def maxSSEBufferBytes_def)
  also have "\<dots> = Some [''event: a'' @ [LF] @ ''data: me'' @ [LF, LF]]"
    by (simp add: rewrite_text_def up_codec_def up_dec_def go_simps)
  finally show ?thesis .
qed

text \<open>A stream with line feeds only and no model field reaches the client byte for byte.\<close>

theorem sse_passthrough:
  "list_all line_aligned ps \<Longrightarrow> length (concat ps) \<le> maxSSEBufferBytes \<Longrightarrow> never_changes c model \<Longrightarrow>
     CR \<notin> set (concat ps) \<Longrightarrow>
     \<exists>out. sse_run c (newSSERewriter model) ps = Some out \<and> concat out = concat ps"
  using sse_run_text [of "newSSERewriter model" ps c] rewrite_text_keeps [of c model "concat ps"]
  by (simp add: newSSERewriter_def line_aligned_def sse_drain.simps [of c model "[]"] sseEventDelimiter_def index_of.simps)

theorem sse_passthrough_witness:
  "\<exists>out. sse_run (up_codec\<lparr>c_dec := (\<lambda>_. None)\<rparr>) (newSSERewriter ''me'') [''data: 1'' @ [LF], [LF]] = Some out \<and>
     concat out = ''data: 1'' @ [LF, LF]"
proof -
  have "never_changes (up_codec\<lparr>c_dec := (\<lambda>_. None)\<rparr>) ''me''"
    by (simp add: never_changes_def restore_def restoreResponseModel_def rewriteResponseModelFields_def)
  from sse_passthrough [OF _ _ this, of "[''data: 1'' @ [LF], [LF]]"] show ?thesis
    by (simp add: line_aligned_def maxSSEBufferBytes_def)
qed

text \<open>A chunk that begins with a colon is taken for a comment line: when the network cuts a JSON
  text before a colon, \<open>Write\<close> inserts a line break into it, and the client receives a broken
  event whose model name is not restored.\<close>

theorem sse_colon_split:
  "concat (the (sse_run up_codec (newSSERewriter ''me'') [''data: {model'', '':up}'' @ [LF, LF]])) =
     ''data: {model'' @ [LF] @ '':up}'' @ [LF, LF]"
  by (simp add: up_codec_def up_dec_def go_simps)

end
