(* ===== verification/Stream_Forward.thy ===== *)
theory Stream_Forward
  imports Routing Sse
begin

text \<open>
  The executor (\<open>main.go\<close>: \<open>runStreamForward\<close>, \<open>startExecutorStream\<close>, \<open>handleExecutorExecute\<close>).
  The host is a parameter: an answer may depend on everything that was called before it, so a host
  is a record of functions of the calls so far.  A run returns the calls it made, in order, and its
  error; the read loop has fuel, one unit for each read, and a run that has used it up is not
  finished (\<open>None\<close>).
\<close>

record executorRequest =
  er_SourceFormat :: string
  er_Format :: string
  er_Model :: string
  er_Headers :: header
  er_OriginalRequest :: bytes
  er_Query :: header
  er_Alt :: string
  er_StreamID :: string
  er_HostCallbackID :: string

record hostExecutePayload =
  hp_EntryProtocol :: string
  hp_ExitProtocol :: string
  hp_Model :: string
  hp_Stream :: bool
  hp_Body :: bytes
  hp_Headers :: header
  hp_Query :: header
  hp_Alt :: string
  hp_HostCallbackID :: string

datatype forward_error =
    RewriteRequestFailed
  | ExecuteFailed
  | DecodeHostResponse
  | ExecuteStatus int bytes
  | MissingHostStreamID
  | ReadFailed
  | DecodeChunk
  | FlushFailed
  | EmitFailed
  | RewriteChunk
  | CloseHostFailed
  | ClosePluginFailed

text \<open>The error text of a close, by where it comes from.\<close>

datatype close_reason = NoError | ChunkText string | ForwardText forward_error | PanicText go_panic

datatype host_call =
    Execute hostExecutePayload
  | ReadStream string
  | Emit string bytes
  | CloseHost string
  | ClosePlugin string close_reason

record hostStreamResponse =
  hr_StatusCode :: int
  hr_StreamID :: string
  hr_Headers :: header
  hr_Body :: bytes

record readResponse =
  rr_Error :: string
  rr_Done :: bool
  rr_Payload :: bytes

datatype 'a answer = CallFailed | BadAnswer | Answer 'a

text \<open>\<open>h_ok\<close>: whether a call to emit or to close succeeds.\<close>

record host =
  h_execute :: "hostExecutePayload \<Rightarrow> hostStreamResponse answer"
  h_read :: "host_call list \<Rightarrow> readResponse answer"
  h_ok :: "host_call list \<Rightarrow> host_call \<Rightarrow> bool"

type_synonym trace = "host_call list"
type_synonym outcome = "trace \<times> forward_error option"

text \<open>The loop that emits the chunks; it stops at the first failure.\<close>

fun emit_all :: "host \<Rightarrow> string \<Rightarrow> trace \<Rightarrow> bytes list \<Rightarrow> trace \<times> bool" where
  "emit_all h sid tr [] = (tr, True)"
| "emit_all h sid tr (p # ps) =
     (if h_ok h tr (Emit sid p) then emit_all h sid (tr @ [Emit sid p]) ps
      else (tr @ [Emit sid p], False))"

text \<open>\<open>closeHost\<close> and then \<open>closePlugin\<close>, as at the two regular ends of the loop.\<close>

definition close_both :: "host \<Rightarrow> string \<Rightarrow> string \<Rightarrow> close_reason \<Rightarrow> trace \<Rightarrow> outcome" where
  "close_both h hid sid why tr =
     (if \<not> h_ok h tr (CloseHost hid) then (tr @ [CloseHost hid], Some CloseHostFailed)
      else if \<not> h_ok h (tr @ [CloseHost hid]) (ClosePlugin sid why) then
        (tr @ [CloseHost hid, ClosePlugin sid why], Some ClosePluginFailed)
      else (tr @ [CloseHost hid, ClosePlugin sid why], None))"

definition abort :: "string \<Rightarrow> trace \<Rightarrow> forward_error \<Rightarrow> outcome" where
  "abort hid tr e = (tr @ [CloseHost hid], Some e)"

definition flush_and_close ::
    "codec \<Rightarrow> host \<Rightarrow> string \<Rightarrow> string \<Rightarrow> close_reason \<Rightarrow> streamChunkRewriter \<Rightarrow> trace \<Rightarrow> outcome" where
  "flush_and_close c h hid sid why r tr =
     (case scr_Flush c r of
        None \<Rightarrow> abort hid tr FlushFailed
      | Some (flushed, _) \<Rightarrow>
        (case emit_all h sid tr flushed of
           (tr', ok) \<Rightarrow> if ok then close_both h hid sid why tr' else abort hid tr' EmitFailed))"

fun forward_loop ::
    "nat \<Rightarrow> codec \<Rightarrow> host \<Rightarrow> string \<Rightarrow> string \<Rightarrow> streamChunkRewriter \<Rightarrow> trace \<Rightarrow> outcome option" where
  "forward_loop 0 c h hid sid r tr = None"
| "forward_loop (Suc fuel) c h hid sid r tr =
     (let tr1 = tr @ [ReadStream hid]
      in case h_read h tr of
           CallFailed \<Rightarrow> Some (abort hid tr1 ReadFailed)
         | BadAnswer \<Rightarrow> Some (abort hid tr1 DecodeChunk)
         | Answer chunk \<Rightarrow>
           if rr_Error chunk \<noteq> [] then Some (flush_and_close c h hid sid (ChunkText (rr_Error chunk)) r tr1)
           else if rr_Done chunk then Some (flush_and_close c h hid sid NoError r tr1)
           else (case scr_Write c r (rr_Payload chunk) of
               None \<Rightarrow> Some (abort hid tr1 RewriteChunk)
             | Some (chunks, r') \<Rightarrow>
               (case emit_all h sid tr1 chunks of
                  (tr2, ok) \<Rightarrow>
                    if ok then forward_loop fuel c h hid sid r' tr2
                    else Some (abort hid tr2 EmitFailed))))"

definition execute_payload :: "executorRequest \<Rightarrow> string \<Rightarrow> bool \<Rightarrow> bytes \<Rightarrow> hostExecutePayload" where
  "execute_payload req upstream stream body =
     \<lparr>hp_EntryProtocol = er_SourceFormat req, hp_ExitProtocol = er_Format req, hp_Model = upstream,
      hp_Stream = stream, hp_Body = body, hp_Headers = er_Headers req,
      hp_Query = er_Query req, hp_Alt = er_Alt req,
      hp_HostCallbackID = er_HostCallbackID req\<rparr>"

text \<open>\<open>runStreamForward\<close> after \<open>upstreamModelForRequest\<close> has returned the two models.\<close>

definition runStreamForward ::
    "nat \<Rightarrow> codec \<Rightarrow> host \<Rightarrow> executorRequest \<Rightarrow> string \<Rightarrow> string \<Rightarrow> outcome option" where
  "runStreamForward fuel c h req upstream original =
     (case rewriteRequestModel (c_dec c) (c_enc c) (er_OriginalRequest req) upstream of
        None \<Rightarrow> Some ([], Some RewriteRequestFailed)
      | Some (body, _) \<Rightarrow>
        (let p = execute_payload req upstream True body; tr = [Execute p]
         in case h_execute h p of
              CallFailed \<Rightarrow> Some (tr, Some ExecuteFailed)
            | BadAnswer \<Rightarrow> Some (tr, Some DecodeHostResponse)
            | Answer resp \<Rightarrow>
              if 400 \<le> hr_StatusCode resp then Some (tr, Some (ExecuteStatus (hr_StatusCode resp) (hr_Body resp)))
              else if hr_StreamID resp = [] then Some (tr, Some MissingHostStreamID)
              else forward_loop fuel c h (hr_StreamID resp) (er_StreamID req)
                ((newStreamChunkRewriter original)\<lparr>scr_frameRawJSONAsSSE :=
                   contains (to_lower (header_get (hr_Headers resp) ''Content-Type'')) ''text/event-stream''\<rparr>) tr))"

text \<open>The goroutine of \<open>startExecutorStream\<close>: an error of the forwarding, or a recovered panic,
  closes the plugin stream.\<close>

definition startExecutorStream ::
    "nat \<Rightarrow> (bytes \<Rightarrow> string option) \<Rightarrow> codec \<Rightarrow> host \<Rightarrow> Config \<Rightarrow> ruleSource \<Rightarrow> executorRequest \<Rightarrow> trace option" where
  "startExecutorStream fuel effort_of c h cfg src req =
     (case upstreamModelForRequest effort_of cfg src (er_SourceFormat req) (er_Model req) (er_Headers req)
         (er_OriginalRequest req) of
        Inl p \<Rightarrow> Some [ClosePlugin (er_StreamID req) (PanicText p)]
      | Inr (upstream, original) \<Rightarrow>
        map_option (\<lambda>(tr, err). case err of None \<Rightarrow> tr | Some e \<Rightarrow> tr @ [ClosePlugin (er_StreamID req) (ForwardText e)])
          (runStreamForward fuel c h req upstream original))"

section \<open>Execution without a stream\<close>

record hostModelResponse =
  hm_StatusCode :: int
  hm_Headers :: header
  hm_Body :: bytes

datatype execute_error = ExecRewrite | ExecCall | ExecDecode | ExecStatus int bytes | ExecRestore | ExecPanic go_panic

definition handleExecutorExecute ::
    "(bytes \<Rightarrow> string option) \<Rightarrow> codec \<Rightarrow> (hostExecutePayload \<Rightarrow> hostModelResponse answer) \<Rightarrow> Config \<Rightarrow> ruleSource \<Rightarrow>
     executorRequest \<Rightarrow> execute_error + bytes \<times> header" where
  "handleExecutorExecute effort_of c call cfg src req =
     (case upstreamModelForRequest effort_of cfg src (er_SourceFormat req) (er_Model req) (er_Headers req)
         (er_OriginalRequest req) of
        Inl p \<Rightarrow> Inl (ExecPanic p)
      | Inr (upstream, original) \<Rightarrow>
        (case rewriteRequestModel (c_dec c) (c_enc c) (er_OriginalRequest req) upstream of
           None \<Rightarrow> Inl ExecRewrite
         | Some (body, _) \<Rightarrow>
           (case call (execute_payload req upstream False body) of
              CallFailed \<Rightarrow> Inl ExecCall
            | BadAnswer \<Rightarrow> Inl ExecDecode
            | Answer resp \<Rightarrow>
              if 400 \<le> hm_StatusCode resp then Inl (ExecStatus (hm_StatusCode resp) (hm_Body resp))
              else (case restore c (hm_Body resp) original of
                  None \<Rightarrow> Inl ExecRestore
                | Some (payload, _) \<Rightarrow> Inr (payload, hm_Headers resp)))))"

lemmas [go_simps] =
  close_both_def abort_def flush_and_close_def execute_payload_def runStreamForward_def
  startExecutorStream_def handleExecutorExecute_def

section \<open>The shape of a run\<close>

definition reads_and_emits :: "string \<Rightarrow> string \<Rightarrow> trace \<Rightarrow> bool" where
  "reads_and_emits hid sid tr \<longleftrightarrow> list_all (\<lambda>call. call = ReadStream hid \<or> (\<exists>p. call = Emit sid p)) tr"

lemma emit_all_trace:
  "emit_all h sid tr ps = (tr', ok) \<Longrightarrow> \<exists>ms. tr' = tr @ ms \<and> reads_and_emits hid sid ms"
proof (induction ps arbitrary: tr)
  case Nil
  then show ?case by (auto simp: reads_and_emits_def)
next
  case (Cons p ps)
  show ?case
  proof (cases "h_ok h tr (Emit sid p)")
    case True
    with Cons obtain ms where "tr' = (tr @ [Emit sid p]) @ ms" "reads_and_emits hid sid ms" by fastforce
    then show ?thesis by (intro exI [of _ "Emit sid p # ms"]) (simp add: reads_and_emits_def)
  next
    case False
    with Cons.prems show ?thesis by (intro exI [of _ "[Emit sid p]"]) (auto simp: reads_and_emits_def)
  qed
qed

text \<open>How a run that has opened the host stream ends.\<close>

definition ends_well :: "host \<Rightarrow> string \<Rightarrow> string \<Rightarrow> trace \<Rightarrow> outcome \<Rightarrow> bool" where
  "ends_well h hid sid tr res \<longleftrightarrow>
     (case res of
        (tr', None) \<Rightarrow> \<exists>why. tr' = tr @ [CloseHost hid, ClosePlugin sid why]
      | (tr', Some ClosePluginFailed) \<Rightarrow>
          \<exists>why. tr' = tr @ [CloseHost hid, ClosePlugin sid why] \<and> \<not> h_ok h (tr @ [CloseHost hid]) (ClosePlugin sid why)
      | (tr', Some _) \<Rightarrow> tr' = tr @ [CloseHost hid])"

definition closed_well :: "host \<Rightarrow> string \<Rightarrow> string \<Rightarrow> trace \<Rightarrow> outcome \<Rightarrow> bool" where
  "closed_well h hid sid tr res \<longleftrightarrow> (\<exists>ms. reads_and_emits hid sid ms \<and> ends_well h hid sid (tr @ ms) res)"

lemma closed_well_extend:
  "reads_and_emits hid sid ms \<Longrightarrow> closed_well h hid sid (tr @ ms) res \<Longrightarrow> closed_well h hid sid tr res"
proof -
  assume m: "reads_and_emits hid sid ms" and "closed_well h hid sid (tr @ ms) res"
  then obtain ms' where a: "reads_and_emits hid sid ms'" and b: "ends_well h hid sid ((tr @ ms) @ ms') res"
    unfolding closed_well_def by blast
  from m a have "reads_and_emits hid sid (ms @ ms')" by (simp add: reads_and_emits_def)
  moreover have "ends_well h hid sid (tr @ (ms @ ms')) res" using b by (simp only: append_assoc)
  ultimately show ?thesis unfolding closed_well_def by blast
qed

lemma closed_wellI: "ends_well h hid sid tr res \<Longrightarrow> closed_well h hid sid tr res"
  unfolding closed_well_def reads_and_emits_def by (intro exI [of _ "[]"]) simp

lemma abort_closed: "e \<noteq> ClosePluginFailed \<Longrightarrow> closed_well h hid sid tr (abort hid tr e)"
  by (intro closed_wellI) (cases e; simp add: ends_well_def abort_def)

lemma close_both_closed: "closed_well h hid sid tr (close_both h hid sid why tr)"
  by (intro closed_wellI) (simp add: ends_well_def close_both_def)

lemma flush_closed: "closed_well h hid sid tr (flush_and_close c h hid sid why r tr)"
proof (cases "scr_Flush c r")
  case None
  then show ?thesis by (simp add: flush_and_close_def abort_closed)
next
  case (Some fr)
  obtain tr' ok where e: "emit_all h sid tr (fst fr) = (tr', ok)" by fastforce
  from emit_all_trace [OF this, of hid] obtain ms where ms: "tr' = tr @ ms" "reads_and_emits hid sid ms" by blast
  have "flush_and_close c h hid sid why r tr = (if ok then close_both h hid sid why tr' else abort hid tr' EmitFailed)"
    using Some e by (simp add: flush_and_close_def split_beta)
  with closed_well_extend [OF ms(2)] close_both_closed abort_closed ms(1) show ?thesis by simp
qed

lemma forward_loop_closed:
  "forward_loop fuel c h hid sid r tr = Some res \<Longrightarrow> closed_well h hid sid tr res"
proof (induction fuel arbitrary: r tr)
  case (Suc fuel)
  let ?tr1 = "tr @ [ReadStream hid]"
  have read: "reads_and_emits hid sid [ReadStream hid]" by (simp add: reads_and_emits_def)
  have "closed_well h hid sid ?tr1 res"
  proof (cases "h_read h tr")
    case (Answer chunk)
    show ?thesis
    proof (cases "rr_Error chunk \<noteq> [] \<or> rr_Done chunk")
      case True
      with Suc.prems Answer show ?thesis by (auto simp: Let_def flush_closed split: if_splits)
    next
      case False
      show ?thesis
      proof (cases "scr_Write c r (rr_Payload chunk)")
        case None
        with Suc.prems Answer False show ?thesis by (auto simp: Let_def abort_closed)
      next
        case (Some cr)
        obtain chunks r' where cr: "cr = (chunks, r')" by (cases cr)
        obtain tr2 ok where e: "emit_all h sid ?tr1 chunks = (tr2, ok)" by fastforce
        from emit_all_trace [OF this, of hid] obtain ms where ms: "tr2 = ?tr1 @ ms" "reads_and_emits hid sid ms" by blast
        have "closed_well h hid sid tr2 res"
          using Suc.prems Suc.IH [of r' tr2] Answer False Some cr e
          by (auto simp: Let_def abort_closed split: if_splits)
        with closed_well_extend [OF ms(2)] ms(1) show ?thesis by simp
      qed
    qed
  qed (use Suc.prems in \<open>auto simp: Let_def abort_closed\<close>)
  with closed_well_extend [OF read] show ?case by simp
qed simp

section \<open>A host that delivers a script\<close>

definition reads :: "trace \<Rightarrow> nat" where
  "reads tr = length (filter (\<lambda>call. case call of ReadStream _ \<Rightarrow> True | _ \<Rightarrow> False) tr)"

definition emitted :: "trace \<Rightarrow> bytes list" where
  "emitted tr = concat (map (\<lambda>call. case call of Emit _ p \<Rightarrow> [p] | _ \<Rightarrow> []) tr)"

lemma reads_simps [simp]:
  "reads [] = 0" "reads (tr @ us) = reads tr + reads us" "reads (ReadStream s # us) = Suc (reads us)" "reads (Emit s p # us) = reads us"
  "reads (Execute q # us) = reads us"
  by (simp_all add: reads_def)

lemma emitted_simps [simp]:
  "emitted [] = []" "emitted (tr @ us) = emitted tr @ emitted us" "emitted (ReadStream s # us) = emitted us"
  "emitted (Emit s p # us) = p # emitted us" "emitted (CloseHost s # us) = emitted us"
  "emitted (ClosePlugin s w # us) = emitted us" "emitted (Execute q # us) = emitted us"
  by (simp_all add: emitted_def)

text \<open>The read of \<open>ps\<close>, one payload each, and then the end; every other call succeeds.\<close>

definition delivers :: "host \<Rightarrow> bytes list \<Rightarrow> bool" where
  "delivers h ps \<longleftrightarrow>
     (\<forall>tr call. h_ok h tr call) \<and>
     (\<forall>tr. h_read h tr = Answer (if reads tr < length ps
        then \<lparr>rr_Error = [], rr_Done = False, rr_Payload = ps ! reads tr\<rparr>
        else \<lparr>rr_Error = [], rr_Done = True, rr_Payload = []\<rparr>))"

text \<open>What the client receives of a sequence of payloads.\<close>

fun scr_run :: "codec \<Rightarrow> streamChunkRewriter \<Rightarrow> bytes list \<Rightarrow> bytes list option" where
  "scr_run c r [] = map_option fst (scr_Flush c r)"
| "scr_run c r (p # ps) =
     (case scr_Write c r p of
        None \<Rightarrow> None
      | Some (out, r') \<Rightarrow> map_option (append out) (scr_run c r' ps))"

lemma emit_all_ok:
  "\<forall>tr call. h_ok h tr call \<Longrightarrow> emit_all h sid tr ps = (tr @ map (Emit sid) ps, True)"
  by (induction ps arbitrary: tr) auto

lemma reads_emits [simp]: "reads (map (Emit sid) ps) = 0" "emitted (map (Emit sid) ps) = ps"
  by (induction ps) auto

lemma forward_loop_delivers:
  "delivers h ps \<Longrightarrow> reads tr \<le> length ps \<Longrightarrow> length ps - reads tr < fuel \<Longrightarrow>
     (case scr_run c r (drop (reads tr) ps) of
        Some out \<Rightarrow> \<exists>tr'. forward_loop fuel c h hid sid r tr = Some (tr', None) \<and> emitted tr' = emitted tr @ out
      | None \<Rightarrow> \<exists>tr' e. forward_loop fuel c h hid sid r tr = Some (tr', Some e))"
proof (induction fuel arbitrary: r tr)
  case (Suc fuel)
  let ?tr1 = "tr @ [ReadStream hid]"
  have ok: "\<forall>tr call. h_ok h tr call" using Suc.prems(1) by (simp add: delivers_def)
  have read: "h_read h tr = Answer (if reads tr < length ps
        then \<lparr>rr_Error = [], rr_Done = False, rr_Payload = ps ! reads tr\<rparr>
        else \<lparr>rr_Error = [], rr_Done = True, rr_Payload = []\<rparr>)" using Suc.prems(1) by (simp add: delivers_def)
  show ?case
  proof (cases "reads tr < length ps")
    case True
    then have d: "drop (reads tr) ps = ps ! reads tr # drop (Suc (reads tr)) ps" by (simp add: Cons_nth_drop_Suc)
    show ?thesis
    proof (cases "scr_Write c r (ps ! reads tr)")
      case None
      with True read d show ?thesis by (simp add: Let_def abort_def)
    next
      case (Some cr)
      obtain out r' where cr: "cr = (out, r')" by (cases cr)
      let ?tr2 = "?tr1 @ map (Emit sid) out"
      have step: "forward_loop (Suc fuel) c h hid sid r tr = forward_loop fuel c h hid sid r' ?tr2"
        using True read Some cr by (simp add: Let_def emit_all_ok [OF ok])
      have "reads ?tr2 = Suc (reads tr)" by simp
      with Suc.IH [OF Suc.prems(1), of ?tr2 r'] Suc.prems True d Some cr step show ?thesis
        by (auto split: option.splits)
    qed
  next
    case False
    then have d: "drop (reads tr) ps = []" by simp
    show ?thesis
      using read False d ok
      by (cases "scr_Flush c r")
         (auto simp: Let_def flush_and_close_def abort_def emit_all_ok [OF ok] close_both_def)
  qed
qed simp

section \<open>Correctness of the executor\<close>

text \<open>The host stream is open under an ID once an answer below 400 has named it.\<close>

definition opened :: "host \<Rightarrow> hostExecutePayload \<Rightarrow> string \<Rightarrow> bool" where
  "opened h p hid \<longleftrightarrow>
     (case h_execute h p of
        Answer resp \<Rightarrow> hr_StatusCode resp < 400 \<and> hr_StreamID resp \<noteq> [] \<and> hid = hr_StreamID resp | _ \<Rightarrow> False)"

text \<open>C36. Whatever the host answers, a finished stream run leaves nothing open.  Either no host stream was opened, because
  the request was not sent or not answered with one, and the plugin stream is closed, once; or one was, and it is
  closed exactly once, nothing is read or emitted after that, and the plugin stream is closed last, once, or a
  second time when its first close failed.\<close>

theorem startExecutorStream_closes:
  "startExecutorStream fuel effort_of c h cfg src req = Some tr \<Longrightarrow>
     (\<exists>why pre. tr = pre @ [ClosePlugin (er_StreamID req) why] \<and>
        (pre = [] \<or> (\<exists>p. pre = [Execute p] \<and> (\<forall>hid. \<not> opened h p hid)))) \<or>
     (\<exists>p hid ms whys. tr = Execute p # ms @ [CloseHost hid] @ map (ClosePlugin (er_StreamID req)) whys \<and> opened h p hid \<and>
        reads_and_emits hid (er_StreamID req) ms \<and>
        (length whys = 1 \<or> length whys = 2 \<and> \<not> h_ok h (Execute p # ms @ [CloseHost hid]) (ClosePlugin (er_StreamID req) (hd whys))))"
proof -
  let ?sid = "er_StreamID req"
  assume run: "startExecutorStream fuel effort_of c h cfg src req = Some tr"
  show ?thesis
  proof (cases "upstreamModelForRequest effort_of cfg src (er_SourceFormat req) (er_Model req) (er_Headers req) (er_OriginalRequest req)")
    case (Inl p)
    with run show ?thesis by (auto simp: startExecutorStream_def)
  next
    case (Inr uo)
    obtain up orig where uo: "uo = (up, orig)" by (cases uo)
    from run Inr uo obtain tr' err where r: "runStreamForward fuel c h req up orig = Some (tr', err)"
      and tr: "tr = (case err of None \<Rightarrow> tr' | Some e \<Rightarrow> tr' @ [ClosePlugin ?sid (ForwardText e)])"
      by (auto simp: startExecutorStream_def)
    from r consider (early) "err \<noteq> None" "tr' = [] \<or> (\<exists>p. tr' = [Execute p] \<and> (\<forall>hid. \<not> opened h p hid))"
      | (loop) p hid sc where "forward_loop fuel c h hid ?sid sc [Execute p] = Some (tr', err)" "opened h p hid"
      by (auto simp: runStreamForward_def opened_def Let_def split: option.splits answer.splits if_splits)
    then show ?thesis
    proof cases
      case early
      with tr show ?thesis by (intro disjI1) auto
    next
      case loop
      from forward_loop_closed [OF loop(1)] obtain ms where ms: "reads_and_emits hid ?sid ms"
        and e: "ends_well h hid ?sid (Execute p # ms) (tr', err)" by (auto simp: closed_well_def)
      consider why where "err = None" "tr' = (Execute p # ms) @ [CloseHost hid, ClosePlugin ?sid why]"
        | why where "err = Some ClosePluginFailed" "tr' = (Execute p # ms) @ [CloseHost hid, ClosePlugin ?sid why]"
            "\<not> h_ok h ((Execute p # ms) @ [CloseHost hid]) (ClosePlugin ?sid why)"
        | e where "err = Some e" "tr' = (Execute p # ms) @ [CloseHost hid]"
        using e by (auto simp: ends_well_def split: option.splits forward_error.splits)
      then show ?thesis
      proof cases
        case (1 why)
        with tr ms loop(2) show ?thesis
          by (intro disjI2 exI [of _ p] exI [of _ hid] exI [of _ ms] exI [of _ "[why]"]) simp
      next
        case (2 why)
        with tr ms loop(2) show ?thesis
          by (intro disjI2 exI [of _ p] exI [of _ hid] exI [of _ ms] exI [of _ "[why, ForwardText ClosePluginFailed]"]) simp
      next
        case (3 e)
        with tr ms loop(2) show ?thesis
          by (intro disjI2 exI [of _ p] exI [of _ hid] exI [of _ ms] exI [of _ "[ForwardText e]"]) simp
      qed
    qed
  qed
qed

definition sample_request :: executorRequest where
  "sample_request =
     \<lparr>er_SourceFormat = ''openai'', er_Format = ''openai'', er_Model = ''me'', er_Headers = Map.empty,
      er_OriginalRequest = ''{}'', er_Query = Map.empty, er_Alt = [], er_StreamID = ''s'', er_HostCallbackID = []\<rparr>"

definition sample_host :: "bytes list \<Rightarrow> host" where
  "sample_host ps =
     \<lparr>h_execute = (\<lambda>_. Answer \<lparr>hr_StatusCode = 200, hr_StreamID = ''h'', hr_Headers = Map.empty, hr_Body = []\<rparr>),
      h_read = (\<lambda>tr. Answer (if reads tr < length ps
        then \<lparr>rr_Error = [], rr_Done = False, rr_Payload = ps ! reads tr\<rparr>
        else \<lparr>rr_Error = [], rr_Done = True, rr_Payload = []\<rparr>)),
      h_ok = (\<lambda>_ _. True)\<rparr>"

lemma sample_run:
  "startExecutorStream 1 (\<lambda>_. None) up_codec (sample_host []) sample_config (ruleSourceFromConfig sample_config) sample_request =
     Some [Execute (execute_payload sample_request ''me'' True ''{}''), ReadStream ''h'', CloseHost ''h'', ClosePlugin ''s'' NoError]"
  by (simp add: sample_request_def sample_host_def sample_config_def up_codec_def up_dec_def go_simps Let_def)

theorem startExecutorStream_closes_witness:
  "\<exists>p hid ms whys. [Execute (execute_payload sample_request ''me'' True ''{}''), ReadStream ''h'', CloseHost ''h'', ClosePlugin ''s'' NoError]
     = Execute p # ms @ [CloseHost hid] @ map (ClosePlugin ''s'') whys \<and> length whys \<le> 2"
  using startExecutorStream_closes [OF sample_run] by (fastforce simp: sample_request_def)

text \<open>C37. A host that delivers a finite stream is served to its end: with one unit of fuel more than
  payloads the run finishes without an error, and the client has been sent exactly what the chunk
  rewriter makes of the payloads, in their order.\<close>

theorem runStreamForward_delivers:
  assumes "delivers h ps" and "rewriteRequestModel (c_dec c) (c_enc c) (er_OriginalRequest req) upstream = Some (body, ch)"
    and "h_execute h (execute_payload req upstream True body) = Answer resp"
    and "hr_StatusCode resp < 400" and "hr_StreamID resp \<noteq> []"
    and "scr_run c ((newStreamChunkRewriter original)\<lparr>scr_frameRawJSONAsSSE :=
           contains (to_lower (header_get (hr_Headers resp) ''Content-Type'')) ''text/event-stream''\<rparr>) ps = Some out"
    and "length ps < fuel"
  shows "\<exists>tr. runStreamForward fuel c h req upstream original = Some (tr, None) \<and> emitted tr = out"
  using forward_loop_delivers [OF assms(1), where tr = "[Execute (execute_payload req upstream True body)]" and fuel = fuel
      and c = c and hid = "hr_StreamID resp" and sid = "er_StreamID req"
      and r = "(newStreamChunkRewriter original)\<lparr>scr_frameRawJSONAsSSE :=
           contains (to_lower (header_get (hr_Headers resp) ''Content-Type'')) ''text/event-stream''\<rparr>"] assms(2-7)
  by (simp add: runStreamForward_def Let_def)

theorem runStreamForward_delivers_witness:
  "\<exists>tr. runStreamForward 3 up_codec (sample_host [''data: up'' @ [LF], [LF]]) sample_request ''me'' ''me'' = Some (tr, None) \<and>
     emitted tr = [''data: me'' @ [LF, LF]]"
proof -
  let ?ps = "[''data: up'' @ [LF], [LF]]"
  let ?resp = "\<lparr>hr_StatusCode = 200, hr_StreamID = ''h'', hr_Headers = Map.empty, hr_Body = []\<rparr>"
  have 1: "delivers (sample_host ?ps) ?ps" by (simp add: delivers_def sample_host_def)
  have 2: "rewriteRequestModel (c_dec up_codec) (c_enc up_codec) (er_OriginalRequest sample_request) ''me'' = Some (''{}'', False)"
    by (simp add: sample_request_def up_codec_def up_dec_def go_simps)
  have 3: "h_execute (sample_host ?ps) (execute_payload sample_request ''me'' True ''{}'') = Answer ?resp"
    by (simp add: sample_host_def)
  have 6: "scr_run up_codec ((newStreamChunkRewriter ''me'')\<lparr>scr_frameRawJSONAsSSE :=
      contains (to_lower (header_get (hr_Headers ?resp) ''Content-Type'')) ''text/event-stream''\<rparr>) ?ps = Some [''data: me'' @ [LF, LF]]"
    by (simp add: up_codec_def up_dec_def go_simps Let_def)
  show ?thesis by (rule runStreamForward_delivers [OF 1 2 3 _ _ 6]) simp_all
qed

end
