(* ===== verification/Scheduler.thy ===== *)
theory Scheduler
  imports Routing Json_Doc "HOL-Library.Multiset"
begin

text \<open>
  The gates a request passes around routing (\<open>main.go\<close>): the interceptor before authentication
  with the fast-mode stripping, the scheduler that picks a credential of the channel target, and
  the interceptor that restores the model in a response.  A handler gets its request already
  decoded (\<open>json.Unmarshal\<close> fails before any of it runs) and returns the response before it is
  encoded.  \<open>gjson\<close> and \<open>sjson\<close> are parameters.
\<close>

section \<open>Interceptor before authentication\<close>

definition fastModeBeta :: string where "fastModeBeta = ''fast-mode-2026-02-01''"

text \<open>The tokens of all values, without blanks and without empty ones.\<close>

definition beta_tokens :: "string list \<Rightarrow> string list" where
  "beta_tokens values =
     concat (map (\<lambda>v. filter (\<lambda>t. t \<noteq> []) (map trim_space (split_on '','' v))) values)"

text \<open>The changed headers and the names to clear; an unset header map is empty.\<close>

definition stripFastBeta :: "header \<Rightarrow> header \<times> string list" where
  "stripFastBeta headers =
     (let values = header_values headers ''Anthropic-Beta'';
          tokens = beta_tokens values;
          kept = filter (\<lambda>t. t \<noteq> fastModeBeta) tokens
      in if values = [] then (Map.empty, [])
         else if fastModeBeta \<notin> set tokens then (Map.empty, [])
         else if kept = [] then (Map.empty, [''Anthropic-Beta''])
         else ([''Anthropic-Beta'' \<mapsto> [join '','' kept]], []))"

text \<open>\<open>gjson.GetBytes(body, "speed")\<close> is \<open>speed_of body\<close>, \<open>None\<close> when it does not exist;
  \<open>sjson.DeleteBytes\<close> is \<open>del_speed\<close>, \<open>None\<close> its error.\<close>

definition stripFastBody ::
    "(bytes \<Rightarrow> string option) \<Rightarrow> (bytes \<Rightarrow> bytes option) \<Rightarrow> bytes \<Rightarrow> (bytes option) option" where
  "stripFastBody speed_of del_speed body =
     (case speed_of body of
        None \<Rightarrow> Some None
      | Some v \<Rightarrow>
        if \<not> equal_fold v ''fast'' then Some None
        else map_option Some (del_speed body))"

record interceptRequest =
  ir_SourceFormat :: string
  ir_Headers :: header
  ir_Body :: bytes

record interceptResponse =
  is_Terminate :: bool
  is_StatusCode :: int
  is_ResponseHeaders :: header
  is_ResponseBody :: bytes
  is_Headers :: header
  is_ClearHeaders :: "string list"
  is_Body :: "bytes option"

definition no_interception :: interceptResponse where
  "no_interception =
     \<lparr>is_Terminate = False, is_StatusCode = 0, is_ResponseHeaders = Map.empty, is_ResponseBody = [],
      is_Headers = Map.empty, is_ClearHeaders = [], is_Body = None\<rparr>"

definition quota_response :: "bytes \<Rightarrow> interceptResponse" where
  "quota_response body =
     no_interception\<lparr>is_Terminate := True, is_StatusCode := 403,
       is_ResponseHeaders := [''Content-Type'' \<mapsto> [''application/json'']], is_ResponseBody := body\<rparr>"

text \<open>\<open>quota_body\<close> is the constant \<open>blockedQuotaExhaustedBody\<close>; \<open>None\<close> is \<open>stripFastBody\<close>'s
  error.\<close>

definition handleRequestInterceptBefore ::
    "(bytes \<Rightarrow> string option) \<Rightarrow> (bytes \<Rightarrow> bytes option) \<Rightarrow> bytes \<Rightarrow> Config \<Rightarrow> ruleSource \<Rightarrow>
     interceptRequest \<Rightarrow> interceptResponse option" where
  "handleRequestInterceptBefore speed_of del_speed quota_body cfg src req =
     (if \<not> cfg_Enabled cfg then Some no_interception
      else
        let apiKey = apiKeyFromHeaders (ir_Headers req)
        in if findBlockedKeyBinding (src_KeyBindings src) apiKey \<noteq> None then Some (quota_response quota_body)
           else case findKeyBindingByKey (src_KeyBindings src) apiKey of
             None \<Rightarrow> Some no_interception
           | Some b \<Rightarrow>
             if kb_FastAllowed b \<noteq> Some False \<or> \<not> equal_fold (ir_SourceFormat req) ''claude''
             then Some no_interception
             else (case stripFastBody speed_of del_speed (ir_Body req) of
                 None \<Rightarrow> None
               | Some body \<Rightarrow>
                 (case stripFastBeta (ir_Headers req) of
                    (headers, clear) \<Rightarrow>
                      Some (no_interception\<lparr>is_Headers := headers, is_ClearHeaders := clear, is_Body := body\<rparr>))))"

section \<open>Scheduler\<close>

record candidate =
  ca_ID :: string
  ca_Provider :: string
  ca_Status :: string

definition unavailableSchedulerStatuses :: "string list" where
  "unavailableSchedulerStatuses =
     [''disabled'', ''expired'', ''revoked'', ''invalid'', ''unavailable'', ''cooldown'', ''cooling_down'',
      ''quota_exhausted'', ''exhausted'', ''blocked'']"

definition schedulerCandidateUsable :: "candidate \<Rightarrow> bool" where
  "schedulerCandidateUsable c \<longleftrightarrow>
     trim_space (ca_ID c) \<noteq> [] \<and> to_lower (trim_space (ca_Status c)) \<notin> set unavailableSchedulerStatuses"

definition schedulerCandidateTargeted :: "candidate \<Rightarrow> ChannelTarget \<Rightarrow> bool" where
  "schedulerCandidateTargeted c t \<longleftrightarrow>
     list_ex (\<lambda>i. trim_space i = trim_space (ca_ID c)) (ct_AuthIDs t) \<or>
     list_ex (\<lambda>s. equal_fold (trim_space s) (trim_space (ca_Provider c))) (ct_Suppliers t)"

record roundRobinState =
  rr_signature :: string
  rr_next :: "64 word"

type_synonym roundRobin = "string \<rightharpoonup> roundRobinState"

definition rr_reset :: roundRobin where "rr_reset = Map.empty"

text \<open>\<open>pick\<close>, for a pool that is not empty (an empty one divides by zero); the zero state of a
  missing key has the empty signature.\<close>

definition pool_signature :: "string list \<Rightarrow> string" where
  "pool_signature ids = join [CHR 0x00] ids"

definition rr_pick :: "roundRobin \<Rightarrow> string \<Rightarrow> candidate list \<Rightarrow> string \<times> roundRobin" where
  "rr_pick r key candidates =
     (let ids = sort (map ca_ID candidates);
          sg = pool_signature ids;
          st0 = (case r key of None \<Rightarrow> \<lparr>rr_signature = [], rr_next = 0\<rparr> | Some s \<Rightarrow> s);
          st = (if rr_signature st0 \<noteq> sg then \<lparr>rr_signature = sg, rr_next = 0\<rparr> else st0)
      in (ids ! (unat (rr_next st) mod length ids),
          r(key \<mapsto> st\<lparr>rr_next := rr_next st + 1\<rparr>)))"

datatype schedule_answer =
    NotScheduled
  | Scheduled string
  | AuthNotFound nat nat nat

text \<open>\<open>AuthNotFound\<close> is the 429 error, its body the number of candidates, of suppliers and of
  credential IDs (\<open>channelTargetUnavailableBody\<close>).\<close>

definition handleSchedulerPick ::
    "Config \<Rightarrow> ruleSource \<Rightarrow> header \<Rightarrow> candidate list \<Rightarrow> roundRobin \<Rightarrow> schedule_answer \<times> roundRobin" where
  "handleSchedulerPick cfg src headers candidates r =
     (if \<not> cfg_Enabled cfg then (NotScheduled, r)
      else case findActiveChannelTarget (src_KeyBindings src) (apiKeyFromHeaders headers) of
        None \<Rightarrow> (NotScheduled, r)
      | Some (b, t) \<Rightarrow>
        (let pool = filter (\<lambda>c. schedulerCandidateUsable c \<and> schedulerCandidateTargeted c t) candidates
         in if pool = [] then
              (AuthNotFound (length candidates) (length (ct_Suppliers t)) (length (ct_AuthIDs t)), r)
            else case rr_pick r (kb_Key b) pool of (i, r') \<Rightarrow> (Scheduled i, r')))"

section \<open>Interceptor after the response\<close>

record responseInterceptRequest =
  ri_Stream :: bool
  ri_RequestedModel :: string
  ri_RequestHeaders :: header
  ri_Body :: bytes

text \<open>The new body, if any; the outer \<open>None\<close> is the encoding error.\<close>

definition handleResponseInterceptAfter ::
    "decoder \<Rightarrow> encoder \<Rightarrow> Config \<Rightarrow> ruleSource \<Rightarrow> responseInterceptRequest \<Rightarrow> (bytes option) option" where
  "handleResponseInterceptAfter dec enc cfg src req =
     (if \<not> cfg_Enabled cfg \<or> ri_Stream req \<or> trim_space (ri_RequestedModel req) = [] then Some None
      else if findActiveChannelTarget (src_KeyBindings src) (apiKeyFromHeaders (ri_RequestHeaders req)) = None
      then Some None
      else case rewriteResponseModelFields dec enc (ri_Body req) (ri_RequestedModel req) of
        None \<Rightarrow> None
      | Some (body, changed) \<Rightarrow> if changed then Some (Some body) else Some None)"

lemmas [go_simps] =
  fastModeBeta_def beta_tokens_def stripFastBeta_def stripFastBody_def no_interception_def
  quota_response_def handleRequestInterceptBefore_def unavailableSchedulerStatuses_def
  schedulerCandidateUsable_def schedulerCandidateTargeted_def rr_reset_def pool_signature_def
  rr_pick_def handleSchedulerPick_def handleResponseInterceptAfter_def

section \<open>Round robin\<close>

definition pool_ids :: "candidate list \<Rightarrow> string list" where
  "pool_ids cs = sort (map ca_ID cs)"

definition rr_ready :: "roundRobin \<Rightarrow> string \<Rightarrow> candidate list \<Rightarrow> 64 word \<Rightarrow> bool" where
  "rr_ready r key cs n \<longleftrightarrow> r key = Some \<lparr>rr_signature = pool_signature (pool_ids cs), rr_next = n\<rparr>"

text \<open>\<open>k\<close> picks in a row for the same key and pool.\<close>

fun rr_picks :: "nat \<Rightarrow> roundRobin \<Rightarrow> string \<Rightarrow> candidate list \<Rightarrow> string list \<times> roundRobin" where
  "rr_picks 0 r key cs = ([], r)"
| "rr_picks (Suc k) r key cs =
     (case rr_pick r key cs of (i, r') \<Rightarrow> (case rr_picks k r' key cs of (is, r'') \<Rightarrow> (i # is, r'')))"

lemma rr_pick_ready:
  "rr_ready r key cs n \<Longrightarrow>
     fst (rr_pick r key cs) = pool_ids cs ! (unat n mod length cs) \<and> rr_ready (snd (rr_pick r key cs)) key cs (n + 1)"
  by (simp add: rr_ready_def rr_pick_def pool_ids_def Let_def)

lemma rr_pick_makes_ready: "\<exists>n. rr_ready (snd (rr_pick r key cs)) key cs n"
proof -
  define st where "st = (case r key of None \<Rightarrow> \<lparr>rr_signature = [], rr_next = 0\<rparr> | Some s \<Rightarrow> s)"
  show ?thesis
    by (cases st) (auto simp: rr_ready_def rr_pick_def pool_ids_def Let_def st_def [symmetric])
qed

lemma unat_Suc: "unat (n :: 64 word) + 1 < 2 ^ 64 \<Longrightarrow> unat (n + 1) = unat n + 1"
  by (simp add: unat_word_ariths)

lemma rr_picks_ready:
  "rr_ready r key cs n \<Longrightarrow> unat n + k < 2 ^ 64 \<Longrightarrow>
     fst (rr_picks k r key cs) = map (\<lambda>i. pool_ids cs ! ((unat n + i) mod length cs)) [0..<k]"
proof (induction k arbitrary: r n)
  case (Suc k)
  obtain i r' where p: "rr_pick r key cs = (i, r')" by fastforce
  with rr_pick_ready [OF Suc.prems(1)] have i: "i = pool_ids cs ! (unat n mod length cs)" and r': "rr_ready r' key cs (n + 1)"
    by simp_all
  have u: "unat (n + 1) = unat n + 1" using Suc.prems(2) by (intro unat_Suc) simp
  with Suc.IH [OF r'] Suc.prems(2) have "fst (rr_picks k r' key cs) = map (\<lambda>i. pool_ids cs ! ((unat n + Suc i) mod length cs)) [0..<k]"
    by simp
  then show ?case using p i by (simp add: split_beta upt_conv_Cons map_Suc_upt [symmetric] comp_def del: upt_Suc)
qed simp

lemma rotation_once:
  assumes "xs \<noteq> []"
  shows "mset (map (\<lambda>i. xs ! ((m + i) mod length xs)) [0..<length xs]) = mset xs"
proof -
  have "map (\<lambda>i. xs ! ((m + i) mod length xs)) [0..<length xs] = rotate m xs"
    using assms by (intro nth_equalityI) (simp_all add: nth_rotate)
  moreover have "mset (rotate m xs) = mset xs"
    by (metis append_take_drop_id mset_append rotate_drop_take union_commute)
  ultimately show ?thesis by simp
qed

lemma pool_ids_perm: "mset cs = mset cs' \<Longrightarrow> pool_ids cs = pool_ids cs'"
  unfolding pool_ids_def by (rule properties_for_sort) (simp_all add: mset_map)

text \<open>The counter the next pick starts from.\<close>

definition rr_start :: "roundRobin \<Rightarrow> string \<Rightarrow> candidate list \<Rightarrow> 64 word" where
  "rr_start r key cs =
     (case r key of
        Some s \<Rightarrow> if rr_signature s = pool_signature (pool_ids cs) then rr_next s else 0
      | None \<Rightarrow> 0)"

lemma rr_pick_start:
  "rr_pick r key cs = rr_pick (r(key \<mapsto> \<lparr>rr_signature = pool_signature (pool_ids cs), rr_next = rr_start r key cs\<rparr>)) key cs"
proof (cases "r key")
  case None
  then show ?thesis by (simp add: rr_pick_def rr_start_def pool_ids_def Let_def)
next
  case (Some s)
  then show ?thesis by (cases s) (simp add: rr_pick_def rr_start_def pool_ids_def Let_def)
qed

lemma rr_picks_rotate:
  assumes "cs \<noteq> []" and "unat (rr_start r key cs) + length cs < 2 ^ 64"
  shows "mset (fst (rr_picks (length cs) r key cs)) = mset (map ca_ID cs)"
proof -
  let ?n = "rr_start r key cs"
  let ?r = "r(key \<mapsto> \<lparr>rr_signature = pool_signature (pool_ids cs), rr_next = ?n\<rparr>)"
  obtain k where k: "length cs = Suc k" using assms(1) by (cases cs) auto
  have "rr_picks (length cs) r key cs = rr_picks (length cs) ?r key cs"
    unfolding k using rr_pick_start [of r key cs] by simp
  moreover have "rr_ready ?r key cs ?n" by (simp add: rr_ready_def)
  ultimately have "fst (rr_picks (length cs) r key cs) = map (\<lambda>i. pool_ids cs ! ((unat ?n + i) mod length cs)) [0..<length cs]"
    using rr_picks_ready [of ?r key cs ?n "length cs"] assms(2) by simp
  moreover have "length (pool_ids cs) = length cs" "mset (pool_ids cs) = mset (map ca_ID cs)" "pool_ids cs \<noteq> []"
    using assms(1) by (auto simp: pool_ids_def dest: arg_cong [where f = length])
  ultimately show ?thesis using rotation_once [of "pool_ids cs" "unat ?n"] by simp
qed

section \<open>Header tokens\<close>

lemma set_trim_left: "set (trim_left s) \<subseteq> set s"
proof (induction s rule: trim_left.induct)
  case (1 s)
  then show ?case by (subst trim_left.simps) (auto dest: in_set_dropD)
qed

lemma split_on_pieces: "c \<in> set (split_on [x] s) \<Longrightarrow> x \<notin> set c"
proof (induction "[x]" s rule: split_on.induct)
  case (1 s)
  show ?case
  proof (cases "index_of s [x]")
    case None
    with "1.prems" have "c = s" by (simp add: split_on.simps [of "[x]" s])
    moreover have "x \<notin> set s"
    proof
      assume "x \<in> set s"
      then obtain u v where "s = u @ x # v" by (auto simp: in_set_conv_decomp)
      then have "prefix [x] (drop (length u) s)" by simp
      with index_of_None [OF None] show False by blast
    qed
    ultimately show ?thesis by simp
  next
    case (Some i)
    with "1.prems" have "c = take i s \<or> c \<in> set (split_on [x] (drop (i + 1) s))"
      by (simp add: split_on.simps [of "[x]" s])
    moreover have "x \<notin> set (take i s)"
    proof
      assume "x \<in> set (take i s)"
      then obtain j where j: "j < i" "j < length s" "s ! j = x" by (auto simp: in_set_conv_nth)
      then have "prefix [x] (drop j s)" by (simp add: Cons_nth_drop_Suc [symmetric])
      with index_of_Some [OF Some] j(1) show False by blast
    qed
    ultimately show ?thesis using "1.hyps" [OF Some] by auto
  qed
qed

lemma index_of_sep: "x \<notin> set u \<Longrightarrow> index_of (u @ x # v) [x] = Some (length u)"
  by (induction u) (auto simp: index_of.simps [of "_ # _" "[x]"])

lemma index_of_no_sep: "x \<notin> set u \<Longrightarrow> index_of u [x] = None"
  by (induction u) (auto simp: index_of.simps [of "_ # _" "[x]"] index_of.simps [of "[]" "[x]"])

lemma split_on_join: "ps \<noteq> [] \<Longrightarrow> \<forall>p\<in>set ps. x \<notin> set p \<Longrightarrow> split_on [x] (join [x] ps) = ps"
proof (induction ps rule: list_nonempty_induct)
  case (single p)
  then show ?case by (simp add: split_on.simps [of "[x]" p] index_of_no_sep)
next
  case (cons p ps)
  then show ?case
    by (simp add: join_Cons split_on.simps [of "[x]" "p @ x # join [x] ps"] index_of_sep)
qed

lemma set_trim_right: "set (trim_right s) \<subseteq> set s"
proof (induction s rule: trim_right.induct)
  case (1 s)
  then show ?case by (subst trim_right.simps) (auto dest: in_set_takeD)
qed

lemma set_trim_space: "set (trim_space s) \<subseteq> set s"
  unfolding trim_space_def using set_trim_left set_trim_right by blast

definition token_ok :: "string \<Rightarrow> bool" where
  "token_ok t \<longleftrightarrow> t \<noteq> [] \<and> CHR '','' \<notin> set t \<and> trim_space t = t"

lemma beta_tokens_ok: "t \<in> set (beta_tokens values) \<Longrightarrow> token_ok t"
  using split_on_pieces [of _ "CHR '',''"] set_trim_space by (fastforce simp: beta_tokens_def token_ok_def)

lemma beta_tokens_joined:
  assumes "ts \<noteq> []" and "\<forall>t\<in>set ts. token_ok t"
  shows "beta_tokens [join '','' ts] = ts"
proof -
  have "split_on '','' (join '','' ts) = ts" using assms by (intro split_on_join) (auto simp: token_ok_def)
  moreover have "map trim_space ts = ts" using assms(2) by (intro map_idI) (simp add: token_ok_def)
  moreover have "filter (\<lambda>t. t \<noteq> []) ts = ts" using assms(2) by (intro filter_True) (simp add: token_ok_def)
  ultimately show ?thesis by (simp add: beta_tokens_def)
qed

text \<open>The header the host goes on with: the response's headers replace, then the cleared names go.\<close>

definition effective_headers :: "header \<Rightarrow> header \<times> string list \<Rightarrow> header" where
  "effective_headers h change = (\<lambda>k. if k \<in> set (snd change) then None
     else case fst change k of Some v \<Rightarrow> Some v | None \<Rightarrow> h k)"

section \<open>Unique keys\<close>

lemma find_unique_key:
  assumes "distinct (map (trim_space \<circ> kb_Key) bs)"
  shows "findBlockedKeyBinding bs k = (case findKeyBindingByKey bs k of
     Some b \<Rightarrow> if kb_Blocked b then Some b else None | None \<Rightarrow> None)"
  using assms
proof (induction bs)
  case (Cons b bs)
  have rest: "find P bs = None" if "kb_Key b = k" "P = (\<lambda>b. kb_Blocked b \<and> kb_Key b = k)" for P
    using Cons.prems that by (auto simp: find_None image_iff)
  from Cons show ?case
    by (cases "kb_Key b = k") (auto simp: findBlockedKeyBinding_def findKeyBindingByKey_def rest split: if_splits)
qed (simp add: findBlockedKeyBinding_def findKeyBindingByKey_def)

section \<open>Correctness of the gates\<close>

text \<open>C16. Round robin is fair: whatever the state, one pick for every member of a pool picks each of
  them exactly once (as long as the 64-bit counter does not wrap in between), and the order in which
  the host lists the candidates makes no difference.\<close>

theorem rr_pick_fair:
  "cs \<noteq> [] \<Longrightarrow> unat (rr_start r key cs) + length cs < 2 ^ 64 \<Longrightarrow> mset cs = mset cs' \<Longrightarrow>
     mset (fst (rr_picks (length cs) r key cs)) = mset (map ca_ID cs) \<and> rr_pick r key cs = rr_pick r key cs'"
proof
  assume cs: "cs \<noteq> []" and start: "unat (rr_start r key cs) + length cs < 2 ^ 64" and perm: "mset cs = mset cs'"
  show "mset (fst (rr_picks (length cs) r key cs)) = mset (map ca_ID cs)"
    using rr_picks_rotate [OF cs start] .
  have "sort (map ca_ID cs) = sort (map ca_ID cs')" using pool_ids_perm [OF perm] by (simp add: pool_ids_def)
  then show "rr_pick r key cs = rr_pick r key cs'" by (simp add: rr_pick_def Let_def)
qed

definition sample_candidate :: "string \<Rightarrow> candidate" where
  "sample_candidate i = \<lparr>ca_ID = i, ca_Provider = [], ca_Status = []\<rparr>"

theorem rr_pick_fair_witness:
  "mset (fst (rr_picks (length [sample_candidate ''b'', sample_candidate ''a'']) rr_reset ''k''
     [sample_candidate ''b'', sample_candidate ''a''])) = mset (map ca_ID [sample_candidate ''b'', sample_candidate ''a'']) \<and>
   rr_pick rr_reset ''k'' [sample_candidate ''b'', sample_candidate ''a''] =
   rr_pick rr_reset ''k'' [sample_candidate ''a'', sample_candidate ''b'']"
  by (rule rr_pick_fair) (simp_all add: rr_start_def rr_reset_def)

text \<open>C15. A scheduled credential is a candidate that is usable and belongs to the enabled target of
  the key; the 429 error means that there is none; and only the counter of that binding moves.\<close>

theorem handleSchedulerPick_sound:
  "case handleSchedulerPick cfg src headers cs r of
     (Scheduled i, r') \<Rightarrow> \<exists>b t c. findActiveChannelTarget (src_KeyBindings src) (apiKeyFromHeaders headers) = Some (b, t) \<and>
        c \<in> set cs \<and> ca_ID c = i \<and> schedulerCandidateUsable c \<and> schedulerCandidateTargeted c t \<and>
        ct_Enabled t \<and> r' = r(kb_Key b := r' (kb_Key b))
   | (AuthNotFound n k m, r') \<Rightarrow> r' = r \<and> (\<exists>b t. findActiveChannelTarget (src_KeyBindings src) (apiKeyFromHeaders headers) = Some (b, t) \<and>
        \<not> (\<exists>c. c \<in> set cs \<and> schedulerCandidateUsable c \<and> schedulerCandidateTargeted c t))
   | (NotScheduled, r') \<Rightarrow> r' = r \<and> \<not> (cfg_Enabled cfg \<and> findActiveChannelTarget (src_KeyBindings src) (apiKeyFromHeaders headers) \<noteq> None)"
proof (cases "cfg_Enabled cfg")
  case False
  then show ?thesis by (simp add: handleSchedulerPick_def)
next
  case on: True
  show ?thesis
  proof (cases "findActiveChannelTarget (src_KeyBindings src) (apiKeyFromHeaders headers)")
    case None
    with on show ?thesis by (simp add: handleSchedulerPick_def)
  next
    case (Some bt)
    obtain b t where bt: "bt = (b, t)" by (cases bt)
    have en: "ct_Enabled t" using Some bt by (auto simp: findActiveChannelTarget_def split: option.splits if_splits)
    define pool where "pool = filter (\<lambda>c. schedulerCandidateUsable c \<and> schedulerCandidateTargeted c t) cs"
    show ?thesis
    proof (cases "pool = []")
      case True
      with on Some bt show ?thesis by (auto simp: handleSchedulerPick_def Let_def pool_def filter_empty_conv)
    next
      case False
      obtain i r' where p: "rr_pick r (kb_Key b) pool = (i, r')" by fastforce
      have run: "handleSchedulerPick cfg src headers cs r = (Scheduled i, r')"
        using on Some bt False p by (simp add: handleSchedulerPick_def Let_def pool_def)
      have r': "r' = r(kb_Key b := r' (kb_Key b))" using p by (auto simp: rr_pick_def Let_def)
      have "i \<in> set (sort (map ca_ID pool))"
        using p False by (auto simp: rr_pick_def Let_def simp del: set_sort intro!: nth_mem)
      then obtain c where "c \<in> set pool" "ca_ID c = i" by auto
      with run Some bt en r' show ?thesis by (auto simp: pool_def)
    qed
  qed
qed

text \<open>The fast-mode beta is removed and nothing else: the tokens of the header the host goes on
  with are the client's tokens without it, in their order.\<close>

theorem stripFastBeta_removes:
  "let h' = effective_headers h (stripFastBeta h)
   in beta_tokens (header_values h' ''Anthropic-Beta'') =
        filter (\<lambda>t. t \<noteq> fastModeBeta) (beta_tokens (header_values h ''Anthropic-Beta'')) \<and>
      h'(''Anthropic-Beta'' := None) = h(''Anthropic-Beta'' := None)"
proof -
  let ?vs = "header_values h ''Anthropic-Beta''"
  let ?kept = "filter (\<lambda>t. t \<noteq> fastModeBeta) (beta_tokens ?vs)"
  have keep: "?kept = beta_tokens ?vs" if "fastModeBeta \<notin> set (beta_tokens ?vs)"
    using that by (intro filter_True) auto
  have joined: "?kept \<noteq> [] \<Longrightarrow> beta_tokens [join '','' ?kept] = ?kept"
    using beta_tokens_ok by (intro beta_tokens_joined) auto
  consider "?vs = []" | "fastModeBeta \<notin> set (beta_tokens ?vs)"
    | "?vs \<noteq> []" "fastModeBeta \<in> set (beta_tokens ?vs)" "?kept = []"
    | "?vs \<noteq> []" "fastModeBeta \<in> set (beta_tokens ?vs)" "?kept \<noteq> []" by blast
  then show ?thesis
  proof cases
    case 1
    then have "beta_tokens ?vs = []" by (simp add: beta_tokens_def)
    with 1 show ?thesis by (simp add: stripFastBeta_def effective_headers_def header_values_def fun_eq_iff)
  next
    case 2
    with keep show ?thesis by (simp add: stripFastBeta_def Let_def effective_headers_def header_values_def fun_eq_iff)
  next
    case 3
    then show ?thesis
      by (simp add: stripFastBeta_def Let_def effective_headers_def header_values_def fun_eq_iff beta_tokens_def)
  next
    case 4
    with joined show ?thesis
      by (simp add: stripFastBeta_def Let_def effective_headers_def header_values_def fun_eq_iff)
  qed
qed

text \<open>On a validated state a request is refused exactly when the binding of its key is blocked,
  whatever its format, body and the other settings of the binding.\<close>

theorem intercept_blocks:
  "validateState st = Inr st' \<Longrightarrow> cfg_Enabled cfg \<Longrightarrow>
     (\<exists>resp. handleRequestInterceptBefore speed_of del_speed quota cfg (ruleSourceFromState st') req = Some resp \<and> is_Terminate resp) \<longleftrightarrow>
     (\<exists>b. findKeyBindingByKey (st_KeyBindings st) (apiKeyFromHeaders (ir_Headers req)) = Some b \<and> kb_Blocked b)"
proof -
  assume v: "validateState st = Inr st'" and on: "cfg_Enabled cfg"
  then have d: "distinct (map (trim_space \<circ> kb_Key) (st_KeyBindings st))" and same: "st_KeyBindings st' = st_KeyBindings st"
    by (auto simp: validateState_Inr state_ok_def)
  show ?thesis
    using find_unique_key [OF d, of "apiKeyFromHeaders (ir_Headers req)"] on same
    by (auto simp: handleRequestInterceptBefore_def ruleSourceFromState_def Let_def no_interception_def quota_response_def
        split: option.splits prod.splits)
qed

theorem intercept_blocks_witness:
  "\<not> (\<exists>resp. handleRequestInterceptBefore (\<lambda>_. None) (\<lambda>_. None) [] sample_config (ruleSourceFromState sample_state)
      \<lparr>ir_SourceFormat = ''claude'', ir_Headers = [''X-Api-Key'' \<mapsto> [''sk-1'']], ir_Body = []\<rparr> = Some resp \<and> is_Terminate resp)"
proof -
  have on: "cfg_Enabled sample_config" by (simp add: sample_config_def)
  show ?thesis
    unfolding intercept_blocks [OF sample_state_valid on]
    by (simp add: sample_state_def sample_binding_def go_simps)
qed

end
