(* ===== verification/State_Manager.thy ===== *)
theory State_Manager
  imports Routing
begin

text \<open>
  The state file and the loaded state (\<open>state.go\<close>, \<open>main.go\<close>): path resolution, reading and the
  atomic write, loading with its fallback and quarantine, the update of the loaded state and the
  reconfiguration of the plugin.

  The file system maps names to contents.  An environment gives what the operating system decides:
  the working directory, the clock, the suffix \<open>os.CreateTemp\<close> picks, and which calls fail.
  \<open>atomicWriteState\<close> returns every file system it goes through, so that a crash between two calls
  is a prefix of that list.  The JSON codec of the state is a parameter.
\<close>

section \<open>Names of files\<close>

text \<open>\<open>filepath.Clean\<close>, \<open>Dir\<close>, \<open>IsAbs\<close> and \<open>Abs\<close> of a Unix system.\<close>

fun clean_step :: "bool \<Rightarrow> string list \<Rightarrow> string \<Rightarrow> string list" where
  "clean_step rooted acc c =
     (if c = [] \<or> c = ''.'' then acc
      else if c = ''..'' then
        (if acc \<noteq> [] \<and> last acc \<noteq> ''..'' then butlast acc else if rooted then acc else acc @ [c])
      else acc @ [c])"

definition is_abs :: "string \<Rightarrow> bool" where
  "is_abs p \<longleftrightarrow> prefix ''/'' p"

definition clean_path :: "string \<Rightarrow> string" where
  "clean_path p =
     (let rooted = is_abs p; comps = foldl (clean_step rooted) [] (split_on ''/'' p)
      in if rooted then ''/'' @ join ''/'' comps else if comps = [] then ''.'' else join ''/'' comps)"

definition path_dir :: "string \<Rightarrow> string" where
  "path_dir p =
     clean_path (case last_index_byte p (CHR ''/'') of None \<Rightarrow> [] | Some i \<Rightarrow> take (Suc i) p)"

definition path_join :: "string \<Rightarrow> string \<Rightarrow> string" where
  "path_join dir name = (if suffix ''/'' dir then dir @ name else dir @ ''/'' @ name)"

definition ResolveStatePath :: "string option \<Rightarrow> string \<Rightarrow> string option" where
  "ResolveStatePath cwd path =
     (let path = trim_space path;
          path = (if path = [] then defaultStateFile else path)
      in if is_abs path then Some (clean_path path)
         else map_option (\<lambda>wd. clean_path (wd @ ''/'' @ path)) cwd)"

section \<open>The environment\<close>

type_synonym fs = "string \<Rightarrow> bytes option"

datatype fs_call =
  ReadFile | MkdirAll | CreateTemp | WriteTemp | SyncTemp | CloseTemp | ChmodTemp | RenameTemp | RemoveTemp | RenameAside

record osEnv =
  os_cwd :: "string option"
  os_now :: string
  os_rand :: string
  os_written :: nat
  os_fails :: "fs_call \<Rightarrow> bool"

record stateCodec =
  marshalState :: "State \<Rightarrow> bytes option"
  unmarshalState :: "bytes \<Rightarrow> State option"

section \<open>Reading and writing\<close>

datatype read_error = NotExist | ReadFailed | ParseFailed | UnsupportedVersion int

definition readStateFile :: "stateCodec \<Rightarrow> osEnv \<Rightarrow> fs \<Rightarrow> string \<Rightarrow> read_error + State" where
  "readStateFile C e fs path =
     (if os_fails e ReadFile then Inl ReadFailed
      else case fs path of
        None \<Rightarrow> Inl NotExist
      | Some raw \<Rightarrow>
        (case unmarshalState C raw of
           None \<Rightarrow> Inl ParseFailed
         | Some st \<Rightarrow>
           if st_Version st \<noteq> stateVersion then Inl (UnsupportedVersion (st_Version st)) else Inr st))"

datatype write_error = MarshalFailed | CallFailed fs_call

definition tempName :: "osEnv \<Rightarrow> string \<Rightarrow> string" where
  "tempName e path = path_join (path_dir path) (''.model-mapper-plus-state-'' @ os_rand e)"

text \<open>The deferred \<open>os.Remove\<close>, whose error is dropped.\<close>

definition removeTemp :: "osEnv \<Rightarrow> string \<Rightarrow> fs \<Rightarrow> fs" where
  "removeTemp e tmp fs = (if os_fails e RemoveTemp then fs else fs(tmp := None))"

definition atomicWriteState :: "stateCodec \<Rightarrow> osEnv \<Rightarrow> fs \<Rightarrow> string \<Rightarrow> State \<Rightarrow> write_error option \<times> fs list" where
  "atomicWriteState C e fs path st =
     (case marshalState C (st\<lparr>st_UpdatedAt := os_now e\<rparr>) of
        None \<Rightarrow> (Some MarshalFailed, [fs])
      | Some raw \<Rightarrow>
        (let tmp = tempName e path;
             fs1 = fs(tmp \<mapsto> []);
             fs2 = fs1(tmp \<mapsto> raw);
             fs3 = fs2(tmp := None, path \<mapsto> raw)
         in if path_dir path \<noteq> ''.'' \<and> os_fails e MkdirAll then (Some (CallFailed MkdirAll), [fs])
            else if os_fails e CreateTemp then (Some (CallFailed CreateTemp), [fs])
            else if os_fails e WriteTemp then
              (let fsw = fs1(tmp \<mapsto> take (os_written e) raw)
               in (Some (CallFailed WriteTemp), [fs, fs1, fsw, removeTemp e tmp fsw]))
            else if os_fails e SyncTemp then (Some (CallFailed SyncTemp), [fs, fs1, fs2, removeTemp e tmp fs2])
            else if os_fails e CloseTemp then (Some (CallFailed CloseTemp), [fs, fs1, fs2, removeTemp e tmp fs2])
            else if os_fails e ChmodTemp then (Some (CallFailed ChmodTemp), [fs, fs1, fs2, removeTemp e tmp fs2])
            else if os_fails e RenameTemp then (Some (CallFailed RenameTemp), [fs, fs1, fs2, removeTemp e tmp fs2])
            else (None, [fs, fs1, fs2, fs3, removeTemp e tmp fs3])))"

section \<open>Loading\<close>

datatype load_error =
  ResolveFailed | MovedAside state_error string | Invalid state_error | Unreadable read_error

record stateHolder =
  h_src :: ruleSource
  h_persisted :: bool
  h_state :: State
  h_loadError :: "load_error option"

definition seedHolder :: "Config \<Rightarrow> load_error option \<Rightarrow> stateHolder" where
  "seedHolder cfg err =
     (let seed = seedStateFromConfig cfg
      in \<lparr>h_src = ruleSourceFromState seed, h_persisted = False, h_state = seed, h_loadError = err\<rparr>)"

definition persistedHolder :: "State \<Rightarrow> stateHolder" where
  "persistedHolder st =
     \<lparr>h_src = ruleSourceFromState st, h_persisted = True, h_state = st, h_loadError = None\<rparr>"

definition corruptName :: "string \<Rightarrow> string" where
  "corruptName path = path @ ''.corrupt''"

definition resolveState :: "stateCodec \<Rightarrow> osEnv \<Rightarrow> fs \<Rightarrow> Config \<Rightarrow> stateHolder \<times> fs" where
  "resolveState C e fs cfg =
     (case ResolveStatePath (os_cwd e) (cfg_StateFile cfg) of
        None \<Rightarrow> (seedHolder cfg (Some ResolveFailed), fs)
      | Some path \<Rightarrow>
        (case readStateFile C e fs path of
           Inr st \<Rightarrow>
             (case validateState st of
                Inr st' \<Rightarrow> (persistedHolder st', fs)
              | Inl err \<Rightarrow>
                  if os_fails e RenameAside then (seedHolder cfg (Some (Invalid err)), fs)
                  else (seedHolder cfg (Some (MovedAside err (corruptName path))),
                        fs(path := None, corruptName path := fs path)))
         | Inl NotExist \<Rightarrow> (seedHolder cfg None, fs)
         | Inl err \<Rightarrow> (seedHolder cfg (Some (Unreadable err)), fs)))"

definition stateFilePathFrom :: "osEnv \<Rightarrow> Config \<Rightarrow> string" where
  "stateFilePathFrom e cfg =
     (case ResolveStatePath (os_cwd e) (cfg_StateFile cfg) of None \<Rightarrow> defaultStateFile | Some p \<Rightarrow> p)"

section \<open>The loaded state\<close>

text \<open>\<open>loadedCfg\<close>, \<open>loadedHolder\<close> and the disk.  The two locks are held one after the other, never
  both, so each operation is one step on this record.\<close>

record World =
  w_cfg :: Config
  w_holder :: stateHolder
  w_fs :: fs

definition initialHolder :: stateHolder where
  "initialHolder =
     \<lparr>h_src = ruleSourceFromConfig defaultConfig, h_persisted = False,
      h_state = \<lparr>st_Version = 0, st_Rules = \<lparr>rs_Global = [], rs_Claude = [], rs_Codex = [], rs_OpenAI = []\<rparr>,
                 st_KeyBindings = [], st_Notifications = None, st_UpdatedAt = []\<rparr>,
      h_loadError = None\<rparr>"

definition keyBindingExists :: "World \<Rightarrow> string \<Rightarrow> bool" where
  "keyBindingExists w key \<longleftrightarrow> list_ex (\<lambda>b. kb_Key b = key) (st_KeyBindings (h_state (w_holder w)))"

text \<open>What the callers' \<open>mutate\<close> functions return as errors.\<close>

datatype mutate_error = KeyBindingNotFound | SettingsInvalid notif_error

datatype update_error = MutateError mutate_error | InvalidState state_error | PersistError write_error

definition applyStateUpdate ::
    "stateCodec \<Rightarrow> osEnv \<Rightarrow> (State \<Rightarrow> mutate_error + State) \<Rightarrow> World \<Rightarrow> update_error option \<times> World" where
  "applyStateUpdate C e mutate w =
     (let path = stateFilePathFrom e (w_cfg w)
      in case mutate (h_state (w_holder w)) of
        Inl m \<Rightarrow> (Some (MutateError m), w)
      | Inr st \<Rightarrow>
        (case validateState st of
           Inl err \<Rightarrow> (Some (InvalidState err), w)
         | Inr st \<Rightarrow>
           (case atomicWriteState C e (w_fs w) path st of
              (Some err, tr) \<Rightarrow> (Some (PersistError err), w\<lparr>w_fs := last tr\<rparr>)
            | (None, tr) \<Rightarrow> (None, w\<lparr>w_fs := last tr, w_holder := persistedHolder st\<rparr>))))"

text \<open>\<open>handlePluginReconfigure\<close> after the configuration is decoded.  The disk is read, written and
  read again; each access has its own environment.\<close>

definition reconfigure :: "stateCodec \<Rightarrow> osEnv \<Rightarrow> osEnv \<Rightarrow> osEnv \<Rightarrow> Config \<Rightarrow> World \<Rightarrow> World" where
  "reconfigure C e1 e2 e3 cfg w =
     (let old = w_holder w;
          (holder, fs1) = resolveState C e1 (w_fs w) cfg;
          (holder, fs2) =
            (if \<not> h_persisted holder \<and> h_loadError holder = None \<and> h_persisted old then
               (case atomicWriteState C e2 fs1 (stateFilePathFrom e2 cfg) (h_state old) of
                  (Some _, tr) \<Rightarrow> (holder, last tr)
                | (None, tr) \<Rightarrow> resolveState C e3 (last tr) cfg)
             else (holder, fs1))
      in \<lparr>w_cfg = cfg, w_holder = holder, w_fs = fs2\<rparr>)"

section \<open>Decoding the configuration\<close>

datatype config_error = BadConfigJSON | BadConfigRules rule_error

fun checkConfigRules :: "string list \<Rightarrow> rule_error option" where
  "checkConfigRules [] = None"
| "checkConfigRules (rules # rest) =
     (if rules = [] then checkConfigRules rest
      else case parseRules rules of Inl e \<Rightarrow> Some e | Inr _ \<Rightarrow> checkConfigRules rest)"

definition decodeConfig :: "(Config \<Rightarrow> bytes \<Rightarrow> Config option) \<Rightarrow> bytes \<Rightarrow> config_error + Config" where
  "decodeConfig unmarshal raw =
     (let cfg = defaultConfig
      in if trim_space raw = [] \<or> trim_space raw = ''{}'' then Inr cfg
         else case unmarshal cfg raw of
           None \<Rightarrow> Inl BadConfigJSON
         | Some cfg \<Rightarrow>
           (let cfg = (if trim_space (cfg_UsageKeeperPasswordEnv cfg) = []
                       then cfg\<lparr>cfg_UsageKeeperPasswordEnv := cfg_UsageKeeperPasswordEnv defaultConfig\<rparr> else cfg)
            in case checkConfigRules [cfg_GlobalRules cfg, cfg_ClaudeMessagesRules cfg,
                                      cfg_CodexResponsesRules cfg, cfg_OpenAICompletionsRules cfg] of
                 Some e \<Rightarrow> Inl (BadConfigRules e)
               | None \<Rightarrow> Inr cfg))"


section \<open>The atomic write\<close>

definition tempFresh :: "osEnv \<Rightarrow> fs \<Rightarrow> string \<Rightarrow> bool" where
  "tempFresh e fs path \<longleftrightarrow> fs (tempName e path) = None \<and> tempName e path \<noteq> path"

text \<open>The content a write of \<open>st\<close> puts on the disk.\<close>

definition stamped :: "osEnv \<Rightarrow> State \<Rightarrow> State" where
  "stamped e st = st\<lparr>st_UpdatedAt := os_now e\<rparr>"

lemma removeTemp_other: "p \<noteq> tmp \<Longrightarrow> removeTemp e tmp fs p = fs p"
  by (simp add: removeTemp_def)

lemma removeTemp_gone: "fs tmp = None \<Longrightarrow> removeTemp e tmp fs = fs"
  by (auto simp: removeTemp_def)

lemma write_failed:
  assumes "atomicWriteState C e fs path st = (Some err, tr)" and "tempFresh e fs path" and "f \<in> set tr" and "p \<noteq> tempName e path"
  shows "f p = fs p"
  using assms
  by (auto simp: atomicWriteState_def Let_def removeTemp_other split: option.splits if_splits)

lemma write_done:
  assumes "atomicWriteState C e fs path st = (None, tr)" and "tempFresh e fs path"
  obtains raw where "marshalState C (stamped e st) = Some raw" "last tr = fs(path \<mapsto> raw)"
    "tr = [fs, fs(tempName e path \<mapsto> []), fs(tempName e path \<mapsto> raw), fs(path \<mapsto> raw), fs(path \<mapsto> raw)]"
proof -
  from assms(1) obtain raw where raw: "marshalState C (stamped e st) = Some raw"
    by (auto simp: atomicWriteState_def stamped_def split: option.splits)
  let ?tmp = "tempName e path"
  have f3: "fs(?tmp := None, path \<mapsto> raw) = fs(path \<mapsto> raw)"
    using assms(2) by (auto simp: tempFresh_def)
  have f4: "removeTemp e ?tmp (fs(path \<mapsto> raw)) = fs(path \<mapsto> raw)"
    using assms(2) by (intro removeTemp_gone) (simp add: tempFresh_def)
  have "tr = [fs, fs(?tmp \<mapsto> []), fs(?tmp \<mapsto> raw), fs(path \<mapsto> raw), fs(path \<mapsto> raw)]"
    using assms(1) raw f3 f4
    by (auto simp: atomicWriteState_def stamped_def Let_def split: if_splits)
  with raw that show thesis by simp
qed

lemma write_last_other:
  assumes "atomicWriteState C e fs path st = (Some err, tr)" and "tempFresh e fs path" and "p \<noteq> tempName e path"
  shows "last tr p = fs p"
proof -
  have "tr \<noteq> []" using assms(1) by (auto simp: atomicWriteState_def Let_def split: option.splits if_splits)
  then show ?thesis using write_failed [OF assms(1,2) _ assms(3)] last_in_set by blast
qed

text \<open>C6. The state file is replaced atomically: whatever call fails and wherever a crash stops the
  write, the file holds its old content or the complete new one, and no other file but the temporary
  one is touched.  An error means the old content, success the new one without the temporary file.\<close>

theorem atomicWriteState_atomic:
  assumes "atomicWriteState C e fs path st = (err, tr)" and "tempFresh e fs path"
  shows "list_all (\<lambda>f. (f path = fs path \<or> (\<exists>raw. marshalState C (stamped e st) = Some raw \<and> f path = Some raw)) \<and>
      (\<forall>p. p = path \<or> p = tempName e path \<or> f p = fs p)) tr \<and>
    (case err of
       Some _ \<Rightarrow> last tr path = fs path
     | None \<Rightarrow> (\<exists>raw. marshalState C (stamped e st) = Some raw \<and> last tr = fs(path \<mapsto> raw)))"
proof (cases err)
  case None
  from write_done [OF assms(1) [unfolded None] assms(2)] obtain raw
    where raw: "marshalState C (stamped e st) = Some raw" "last tr = fs(path \<mapsto> raw)"
      "tr = [fs, fs(tempName e path \<mapsto> []), fs(tempName e path \<mapsto> raw), fs(path \<mapsto> raw), fs(path \<mapsto> raw)]" .
  then show ?thesis using None assms(2) by (auto simp: tempFresh_def)
next
  case (Some x)
  note failed = write_failed [OF assms(1) [unfolded Some] assms(2)]
  have "path \<noteq> tempName e path" using assms(2) by (auto simp: tempFresh_def)
  with failed write_last_other [OF assms(1) [unfolded Some] assms(2)] Some show ?thesis
    by (simp add: list_all_iff) blast
qed


section \<open>The loaded state is always valid\<close>

definition holder_ok :: "stateHolder \<Rightarrow> bool" where
  "holder_ok h \<longleftrightarrow>
     h_src h = ruleSourceFromState (h_state h) \<and> validateState (h_state h) = Inr (h_state h) \<and>
     st_Version (h_state h) = stateVersion"

definition config_ok :: "Config \<Rightarrow> bool" where
  "config_ok cfg \<longleftrightarrow> ruleset_ok (ruleSetFromConfig cfg)"

lemma checkConfigRules_None: "checkConfigRules rs = None \<longleftrightarrow> list_all segment_ok rs"
  by (induction rs rule: checkConfigRules.induct) (auto simp: segment_ok_def split: sum.splits)

lemma defaultConfig_ok: "config_ok defaultConfig"
  by (simp add: config_ok_def ruleset_ok_def ruleSetFromConfig_def defaultConfig_def segment_ok_def)

lemma config_ok_iff:
  "config_ok cfg \<longleftrightarrow> checkConfigRules [cfg_GlobalRules cfg, cfg_ClaudeMessagesRules cfg,
     cfg_CodexResponsesRules cfg, cfg_OpenAICompletionsRules cfg] = None"
  unfolding checkConfigRules_None by (simp add: config_ok_def ruleset_ok_def ruleSetFromConfig_def)

lemma decodeConfig_ok: "decodeConfig unmarshal raw = Inr cfg \<Longrightarrow> config_ok cfg"
  using defaultConfig_ok
  by (auto simp: decodeConfig_def Let_def config_ok_iff simp del: checkConfigRules.simps
      split: if_splits option.splits)

lemma seed_valid: "config_ok cfg \<Longrightarrow> validateState (seedStateFromConfig cfg) = Inr (seedStateFromConfig cfg)"
  by (simp add: validateState_Inr state_ok_def seedStateFromConfig_def config_ok_def)

lemma seedHolder_ok [wf_intros]: "config_ok cfg \<Longrightarrow> holder_ok (seedHolder cfg err)"
  by (simp add: holder_ok_def seedHolder_def Let_def seed_valid) (simp add: seedStateFromConfig_def)

lemma persistedHolder_ok [wf_intros]:
  "validateState st = Inr st' \<Longrightarrow> st_Version st = stateVersion \<Longrightarrow> holder_ok (persistedHolder st')"
  using validateState_keeps validateState_idem by (auto simp: holder_ok_def persistedHolder_def)

lemma readStateFile_version: "readStateFile C e fs path = Inr st \<Longrightarrow> st_Version st = stateVersion"
  by (auto simp: readStateFile_def split: if_splits option.splits)

lemma resolveState_ok [wf_intros]: "config_ok cfg \<Longrightarrow> holder_ok (fst (resolveState C e fs cfg))"
  by (auto simp: resolveState_def split: option.splits sum.splits read_error.splits
      intro: wf_intros dest: readStateFile_version)

lemma reconfigure_ok:
  assumes "config_ok cfg"
  shows "holder_ok (w_holder (reconfigure C e1 e2 e3 cfg w))"
proof -
  have r: "holder_ok h" if "resolveState C e fs cfg = (h, f)" for e fs h f
    using resolveState_ok [OF assms, of C e fs] that by simp
  then show ?thesis
    by (auto simp: reconfigure_def Let_def split: prod.splits option.splits if_splits)
qed

lemma applyStateUpdate_ok:
  assumes "holder_ok (w_holder w)" and "\<And>st. mutate (h_state (w_holder w)) = Inr st \<Longrightarrow> st_Version st = stateVersion"
  shows "holder_ok (w_holder (snd (applyStateUpdate C e mutate w)))"
  using assms
  by (auto simp: applyStateUpdate_def Let_def split: sum.splits prod.splits option.splits intro: wf_intros)

text \<open>What can happen to a loaded plugin: the registration and later reconfigurations, updates that
  keep the version, and anything another program does to the disk.\<close>

inductive reachable :: "stateCodec \<Rightarrow> World \<Rightarrow> bool" for C where
  registered: "decodeConfig unmarshal raw = Inr cfg \<Longrightarrow>
     reachable C (reconfigure C e1 e2 e3 cfg \<lparr>w_cfg = defaultConfig, w_holder = initialHolder, w_fs = fs\<rparr>)"
| reconfigured: "reachable C w \<Longrightarrow> decodeConfig unmarshal raw = Inr cfg \<Longrightarrow> reachable C (reconfigure C e1 e2 e3 cfg w)"
| updated: "reachable C w \<Longrightarrow> (\<And>st st'. mutate st = Inr st' \<Longrightarrow> st_Version st' = st_Version st) \<Longrightarrow>
     reachable C (snd (applyStateUpdate C e mutate w))"
| disk_changed: "reachable C w \<Longrightarrow> reachable C (w\<lparr>w_fs := fs\<rparr>)"

text \<open>C4. In every reachable state of the plugin the loaded state is valid and normalised, has the
  version the reader accepts, and the router reads exactly it; so no file, configuration, failed
  write or sequence of updates makes the router work with rules that do not parse.\<close>

theorem reachable_valid:
  assumes "reachable C w"
  shows "holder_ok (w_holder w) \<and> state_ok (h_state (w_holder w))"
proof -
  have "holder_ok (w_holder w)"
    using assms
  proof (induction rule: reachable.induct)
    case (updated w mutate e)
    then show ?case by (intro applyStateUpdate_ok) (auto simp: holder_ok_def)
  qed (auto intro: reconfigure_ok decodeConfig_ok)
  then show ?thesis unfolding holder_ok_def using validateState_Inr by blast
qed


section \<open>Updates and restarts\<close>

text \<open>What \<open>omitempty\<close> does to a state that is written and read back: an empty list of a key's notifications comes
  back as an absent one.\<close>

definition omitEmpty :: "State \<Rightarrow> State" where
  "omitEmpty st = st\<lparr>st_KeyBindings :=
     map (\<lambda>b. if kb_NotificationSlice b = Some [] then b\<lparr>kb_NotificationSlice := None\<rparr> else b) (st_KeyBindings st)\<rparr>"

definition roundTrips :: "stateCodec \<Rightarrow> State \<Rightarrow> bool" where
  "roundTrips C st =
     (case marshalState C st of None \<Rightarrow> True | Some raw \<Rightarrow> unmarshalState C raw = Some (omitEmpty st))"

lemma stamped_valid: "validateState st = Inr st \<Longrightarrow> validateState (stamped e st) = Inr (stamped e st)"
  by (cases st) (auto simp: validateState_Inr state_ok_def stamped_def)

lemma resolveState_reads:
  assumes "ResolveStatePath (os_cwd e) (cfg_StateFile cfg) = Some path" and "\<not> os_fails e ReadFile"
    and "fs path = Some raw" and "unmarshalState C raw = Some st" and "st_Version st = stateVersion"
    and "validateState st = Inr st"
  shows "resolveState C e fs cfg = (persistedHolder st, fs)"
  using assms by (simp add: resolveState_def readStateFile_def)

lemma applyStateUpdate_done:
  assumes "applyStateUpdate C e mutate w = (None, w')" and "tempFresh e (w_fs w) (stateFilePathFrom e (w_cfg w))"
  obtains st st' raw where "mutate (h_state (w_holder w)) = Inr st" "validateState st = Inr st'"
    "marshalState C (stamped e st') = Some raw"
    "w' = w\<lparr>w_fs := (w_fs w)(stateFilePathFrom e (w_cfg w) \<mapsto> raw), w_holder := persistedHolder st'\<rparr>"
proof -
  let ?path = "stateFilePathFrom e (w_cfg w)"
  from assms(1) obtain st st' tr where u: "mutate (h_state (w_holder w)) = Inr st" "validateState st = Inr st'"
      "atomicWriteState C e (w_fs w) ?path st' = (None, tr)" "w' = w\<lparr>w_fs := last tr, w_holder := persistedHolder st'\<rparr>"
    by (auto simp: applyStateUpdate_def Let_def split: sum.splits prod.splits option.splits)
  from write_done [OF u(3) assms(2)] obtain raw
    where "marshalState C (stamped e st') = Some raw" "last tr = (w_fs w)(?path \<mapsto> raw)" by blast
  with u that show thesis by simp
qed

lemma applyStateUpdate_failed:
  assumes "applyStateUpdate C e mutate w = (Some err, w')" and "tempFresh e (w_fs w) (stateFilePathFrom e (w_cfg w))"
  shows "w_cfg w' = w_cfg w \<and> w_holder w' = w_holder w \<and>
    (\<forall>p. p = tempName e (stateFilePathFrom e (w_cfg w)) \<or> w_fs w' p = w_fs w p)"
  using assms
  by (auto simp: applyStateUpdate_def Let_def split: sum.splits prod.splits option.splits)
    (blast dest: write_last_other)

text \<open>C5. An update of the state is all or nothing: on any error, of the change itself, of its
  validation or of the disk, the configuration, the loaded state and every file but the temporary
  one are as before; on success memory holds the changed and validated state and the state file its
  encoding.\<close>

theorem applyStateUpdate_all_or_nothing:
  assumes "applyStateUpdate C e mutate w = (err, w')" and "tempFresh e (w_fs w) (stateFilePathFrom e (w_cfg w))"
  shows "w_cfg w' = w_cfg w \<and>
    (case err of
       Some _ \<Rightarrow> w_holder w' = w_holder w \<and>
         (\<forall>p. p = tempName e (stateFilePathFrom e (w_cfg w)) \<or> w_fs w' p = w_fs w p)
     | None \<Rightarrow> (\<exists>st st' raw. mutate (h_state (w_holder w)) = Inr st \<and> validateState st = Inr st' \<and>
         w_holder w' = persistedHolder st' \<and> marshalState C (stamped e st') = Some raw \<and>
         w_fs w' = (w_fs w)(stateFilePathFrom e (w_cfg w) \<mapsto> raw)))"
proof (cases err)
  case None
  from applyStateUpdate_done [OF assms(1) [unfolded None] assms(2)] obtain st st' raw
    where "mutate (h_state (w_holder w)) = Inr st" "validateState st = Inr st'" "marshalState C (stamped e st') = Some raw"
      "w' = w\<lparr>w_fs := (w_fs w)(stateFilePathFrom e (w_cfg w) \<mapsto> raw), w_holder := persistedHolder st'\<rparr>" .
  then show ?thesis by (simp add: None)
next
  case (Some x)
  with applyStateUpdate_failed [OF assms(1) [unfolded Some] assms(2)] show ?thesis by simp
qed

lemma omitEmpty_fixed: "(\<And>b. b \<in> set (st_KeyBindings st) \<Longrightarrow> kb_NotificationSlice b \<noteq> Some []) \<Longrightarrow> omitEmpty st = st"
  by (cases st) (simp add: omitEmpty_def map_idI)

lemma omitEmpty_ok: "state_ok (omitEmpty st) = state_ok st"
proof -
  let ?f = "\<lambda>b. if kb_NotificationSlice b = Some [] then b\<lparr>kb_NotificationSlice := None\<rparr> else b"
  have b: "binding_ok (?f b) = binding_ok b" "kb_Key (?f b) = kb_Key b" "kb_Rules (?f b) = kb_Rules b" for b
    by (simp_all add: binding_ok_def)
  show ?thesis unfolding state_ok_def omitEmpty_def by (simp add: list.pred_map comp_def b)
qed

lemma omitEmpty_valid: "validateState st = Inr st \<Longrightarrow> validateState (omitEmpty st) = Inr (omitEmpty st)"
  unfolding validateState_Inr omitEmpty_ok by (cases st) (simp add: omitEmpty_def)

lemma omitEmpty_version [simp]: "st_Version (omitEmpty st) = st_Version st"
  by (simp add: omitEmpty_def)

text \<open>C38. A saved state survives a restart: the next load of the same configuration reads it back,
  valid and complete, with the time of the save, an empty list of a key's notifications as an absent one.  Memory keeps the time of the save before: the
  writer stamps its own copy.\<close>

theorem saved_state_reloads:
  assumes "applyStateUpdate C e mutate w = (None, w')" and "tempFresh e (w_fs w) (stateFilePathFrom e (w_cfg w))"
    and "mutate (h_state (w_holder w)) = Inr st" and "st_Version st = stateVersion"
    and "roundTrips C (stamped e (h_state (w_holder w')))"
    and "ResolveStatePath (os_cwd e) (cfg_StateFile (w_cfg w)) = Some path"
    and "os_cwd e' = os_cwd e" and "\<not> os_fails e' ReadFile"
  shows "resolveState C e' (w_fs w') (w_cfg w') = (persistedHolder (omitEmpty (stamped e (h_state (w_holder w')))), w_fs w') \<and>
    st_UpdatedAt (h_state (w_holder w')) = st_UpdatedAt st"
proof -
  from applyStateUpdate_done [OF assms(1,2)] assms(3) obtain st' raw
    where u: "validateState st = Inr st'" "marshalState C (stamped e st') = Some raw"
      "w' = w\<lparr>w_fs := (w_fs w)(stateFilePathFrom e (w_cfg w) \<mapsto> raw), w_holder := persistedHolder st'\<rparr>"
    by (metis sum.inject(2))
  have path: "stateFilePathFrom e (w_cfg w) = path" using assms(6) by (simp add: stateFilePathFrom_def)
  have st': "h_state (w_holder w') = st'" by (simp add: u(3) persistedHolder_def)
  have v: "validateState st' = Inr st'" "st_Version st' = stateVersion" "st_UpdatedAt st' = st_UpdatedAt st"
    using u(1) assms(4) validateState_idem validateState_keeps by auto
  have "resolveState C e' (w_fs w') (w_cfg w') = (persistedHolder (omitEmpty (stamped e st')), w_fs w')"
  proof (rule resolveState_reads)
    show "unmarshalState C raw = Some (omitEmpty (stamped e st'))" using assms(5) u(2) st' by (simp add: roundTrips_def)
    show "w_fs w' path = Some raw" by (simp add: u(3) path)
    show "st_Version (omitEmpty (stamped e st')) = stateVersion" using v by (simp add: stamped_def)
  qed (use assms(6,7,8) u(3) omitEmpty_valid [OF stamped_valid [OF v(1)]] in simp_all)
  with st' v(3) show ?thesis by simp
qed


section \<open>Reconfiguration\<close>

lemma corruptName_other: "corruptName path \<noteq> path"
  by (simp add: corruptName_def)

lemma resolveState_unreadable:
  assumes "ResolveStatePath (os_cwd e) (cfg_StateFile cfg) = Some path"
    and "readStateFile C e fs path = Inl err" and "err \<noteq> NotExist"
  shows "resolveState C e fs cfg = (seedHolder cfg (Some (Unreadable err)), fs)"
  using assms by (cases err) (simp_all add: resolveState_def)

text \<open>The world after any number of updates, successful or not, on the same state file.\<close>

inductive updated :: "stateCodec \<Rightarrow> string option \<Rightarrow> World \<Rightarrow> World \<Rightarrow> bool" for C cwd where
  none: "updated C cwd w w"
| one_more: "updated C cwd w w1 \<Longrightarrow> os_cwd e = cwd \<Longrightarrow> tempFresh e (w_fs w1) (stateFilePathFrom e (w_cfg w1)) \<Longrightarrow>
    applyStateUpdate C e mutate w1 = (err, w2) \<Longrightarrow> updated C cwd w w2"

text \<open>An update leaves every file alone that is there and is not the state file.\<close>

lemma applyStateUpdate_other:
  assumes "applyStateUpdate C e mutate w = (err, w')" and "tempFresh e (w_fs w) (stateFilePathFrom e (w_cfg w))"
    and "p \<noteq> stateFilePathFrom e (w_cfg w)" and "w_fs w p = Some raw"
  shows "w_fs w' p = Some raw \<and> w_cfg w' = w_cfg w"
proof (cases err)
  case None
  from applyStateUpdate_done [OF assms(1) [unfolded None] assms(2)] obtain raw' st'
    where "w' = w\<lparr>w_fs := (w_fs w)(stateFilePathFrom e (w_cfg w) \<mapsto> raw'), w_holder := persistedHolder st'\<rparr>" by blast
  with assms(3,4) show ?thesis by simp
next
  case (Some er)
  have "p \<noteq> tempName e (stateFilePathFrom e (w_cfg w))" using assms(2,4) by (auto simp: tempFresh_def)
  with applyStateUpdate_failed [OF assms(1) [unfolded Some] assms(2)] assms(4) show ?thesis by auto
qed

lemma updated_other:
  assumes "updated C cwd w w'" and "\<And>e. os_cwd e = cwd \<Longrightarrow> p \<noteq> stateFilePathFrom e (w_cfg w)" and "w_fs w p = Some raw"
  shows "w_fs w' p = Some raw \<and> w_cfg w' = w_cfg w"
  using assms
proof (induction rule: updated.induct)
  case (one_more w w1 e mutate err w2)
  then have "w_fs w1 p = Some raw \<and> w_cfg w1 = w_cfg w" by blast
  with applyStateUpdate_other [OF one_more.hyps(4,3), of p raw] one_more.prems(1) [OF one_more.hyps(2)] show ?case by simp
qed simp

text \<open>A file that does not decode, or has another version, is left in place, so the first successful save of the
  seed replaces its bytes and keeps no copy of them.\<close>

lemma unreadable_overwritten:
  assumes "ResolveStatePath (os_cwd e1) (cfg_StateFile cfg) = Some path" and "os_cwd e = os_cwd e1"
    and "fs path = Some raw" and "readStateFile C e1 fs path = Inl err"
    and "w = reconfigure C e1 e2 e3 cfg \<lparr>w_cfg = cfg0, w_holder = h0, w_fs = fs\<rparr>"
    and "applyStateUpdate C e mutate w = (None, w')" and "tempFresh e fs path"
  shows "w = \<lparr>w_cfg = cfg, w_holder = seedHolder cfg (Some (Unreadable err)), w_fs = fs\<rparr> \<and>
    (\<exists>new. w_fs w' = fs(path \<mapsto> new) \<and> (\<exists>st. marshalState C (stamped e st) = Some new \<and> w_holder w' = persistedHolder st))"
proof -
  have "err \<noteq> NotExist" using assms(3,4) by (auto simp: readStateFile_def split: if_splits option.splits)
  from resolveState_unreadable [OF assms(1,4) this]
  have w: "w = \<lparr>w_cfg = cfg, w_holder = seedHolder cfg (Some (Unreadable err)), w_fs = fs\<rparr>"
    by (simp add: assms(5) reconfigure_def Let_def seedHolder_def)
  have path: "stateFilePathFrom e cfg = path" using assms(1,2) by (simp add: stateFilePathFrom_def)
  have "tempFresh e (w_fs w) (stateFilePathFrom e (w_cfg w))" using assms(7) path by (simp add: w)
  from applyStateUpdate_done [OF assms(6) this] obtain st st' raw'
    where "mutate (h_state (w_holder w)) = Inr st" "validateState st = Inr st'" "marshalState C (stamped e st') = Some raw'"
      "w' = w\<lparr>w_fs := (w_fs w)(stateFilePathFrom e (w_cfg w) \<mapsto> raw'), w_holder := persistedHolder st'\<rparr>" .
  then show ?thesis by (auto simp: w path)
qed

text \<open>C35. A state file that decodes but fails validation is not lost.  Loading moves it aside with its bytes, nothing is
  left under its own name, the configuration's seed is in force with the reason, and however many saves follow, the
  bytes stay where they were moved to.  This is for a rename that succeeds; a file that cannot be parsed is not moved
  (\<open>unreadable_overwritten\<close>).\<close>

theorem resolveState_quarantine:
  assumes "ResolveStatePath (os_cwd e1) (cfg_StateFile cfg) = Some path"
    and "fs path = Some raw" and "readStateFile C e1 fs path = Inr st" and "validateState st = Inl err"
    and "\<not> os_fails e1 RenameAside"
    and "w = reconfigure C e1 e2 e3 cfg \<lparr>w_cfg = cfg0, w_holder = h0, w_fs = fs\<rparr>"
    and "updated C (os_cwd e1) w w'"
  shows "w = \<lparr>w_cfg = cfg, w_holder = seedHolder cfg (Some (MovedAside err (corruptName path))),
         w_fs = fs(path := None, corruptName path \<mapsto> raw)\<rparr> \<and>
    w_fs w' (corruptName path) = Some raw"
proof -
  have w: "w = \<lparr>w_cfg = cfg, w_holder = seedHolder cfg (Some (MovedAside err (corruptName path))),
      w_fs = fs(path := None, corruptName path \<mapsto> raw)\<rparr>"
    using assms(1-5) by (simp add: assms(6) reconfigure_def resolveState_def seedHolder_def Let_def)
  have "corruptName path \<noteq> stateFilePathFrom e (w_cfg w)" if "os_cwd e = os_cwd e1" for e
    using assms(1) that corruptName_other by (simp add: w stateFilePathFrom_def)
  from updated_other [OF assms(7) this] show ?thesis by (simp add: w)
qed

text \<open>Moving the state file to a name that does not exist keeps the state: it is written to the
  new name, loaded from there, and the old file is untouched.  Only when that write fails does the
  plugin start from the configuration's seed.\<close>

theorem reconfigure_migrates:
  assumes "holder_ok (w_holder w)" and "h_persisted (w_holder w)"
    and "ResolveStatePath (os_cwd e1) (cfg_StateFile cfg) = Some path" and "os_cwd e2 = os_cwd e1" and "os_cwd e3 = os_cwd e1"
    and "\<not> os_fails e1 ReadFile" and "\<not> os_fails e3 ReadFile"
    and "w_fs w path = None" and "tempFresh e2 (w_fs w) path"
    and "roundTrips C (stamped e2 (h_state (w_holder w)))"
    and "atomicWriteState C e2 (w_fs w) path (h_state (w_holder w)) = (err, tr)"
  shows "case err of
      None \<Rightarrow> (\<exists>raw. reconfigure C e1 e2 e3 cfg w =
        \<lparr>w_cfg = cfg, w_holder = persistedHolder (omitEmpty (stamped e2 (h_state (w_holder w)))), w_fs = (w_fs w)(path \<mapsto> raw)\<rparr>)
    | Some _ \<Rightarrow> w_holder (reconfigure C e1 e2 e3 cfg w) = seedHolder cfg None \<and>
        (\<forall>p. p = tempName e2 path \<or> w_fs (reconfigure C e1 e2 e3 cfg w) p = w_fs w p)"
proof -
  let ?st = "h_state (w_holder w)"
  have r1: "resolveState C e1 (w_fs w) cfg = (seedHolder cfg None, w_fs w)"
    using assms(3,6,8) by (simp add: resolveState_def readStateFile_def)
  have p2: "stateFilePathFrom e2 cfg = path" using assms(3,4) by (simp add: stateFilePathFrom_def)
  have v: "validateState ?st = Inr ?st" "st_Version ?st = stateVersion" using assms(1) by (auto simp: holder_ok_def)
  show ?thesis
  proof (cases err)
    case (Some x)
    from write_last_other [OF assms(11) [unfolded Some] assms(9)] show ?thesis
      using assms(2,11) r1 p2 Some by (auto simp: reconfigure_def seedHolder_def Let_def)
  next
    case None
    from write_done [OF assms(11) [unfolded None] assms(9)] obtain raw
      where raw: "marshalState C (stamped e2 ?st) = Some raw" "last tr = (w_fs w)(path \<mapsto> raw)" by blast
    have "resolveState C e3 (last tr) cfg = (persistedHolder (omitEmpty (stamped e2 ?st)), last tr)"
    proof (rule resolveState_reads)
      show "unmarshalState C raw = Some (omitEmpty (stamped e2 ?st))" using assms(10) raw(1) by (simp add: roundTrips_def)
      show "last tr path = Some raw" by (simp add: raw(2))
      show "st_Version (omitEmpty (stamped e2 ?st)) = stateVersion" using v(2) by (simp add: stamped_def)
    qed (use assms(3,5,7) omitEmpty_valid [OF stamped_valid [OF v(1)]] in simp_all)
    then show ?thesis
      using assms(2,11) r1 p2 None raw(2) by (auto simp: reconfigure_def seedHolder_def Let_def)
  qed
qed

section \<open>Witnesses\<close>

definition sample_env :: osEnv where
  "sample_env = \<lparr>os_cwd = Some ''/w'', os_now = ''now'', os_rand = ''1'', os_written = 0, os_fails = \<lambda>_. False\<rparr>"

lemma sample_env_calls [simp]: "\<not> os_fails sample_env c"
  by (simp add: sample_env_def)

definition sample_saved :: State where
  "sample_saved = stamped sample_env sample_state"

definition sample_codec :: stateCodec where
  "sample_codec =
     \<lparr>marshalState = \<lambda>st. if st = sample_saved then Some ''S'' else None,
      unmarshalState = \<lambda>raw. if raw = ''S'' then Some sample_saved else None\<rparr>"

definition sample_world :: World where
  "sample_world =
     \<lparr>w_cfg = sample_config\<lparr>cfg_StateFile := ''/s''\<rparr>, w_holder = persistedHolder sample_state, w_fs = Map.empty\<rparr>"

lemma sample_path: "ResolveStatePath cwd ''/s'' = Some ''/s''"
  by (simp add: ResolveStatePath_def clean_path_def is_abs_def go_simps)

lemma sample_temp: "tempName sample_env ''/s'' = ''/.model-mapper-plus-state-1''"
  by (simp add: tempName_def path_dir_def path_join_def clean_path_def is_abs_def sample_env_def go_simps)

lemma sample_fresh: "tempFresh sample_env Map.empty ''/s''" "tempFresh sample_env [''/s'' \<mapsto> raw] ''/s''"
  by (simp_all add: tempFresh_def sample_temp)

lemma sample_world_path: "stateFilePathFrom sample_env (w_cfg sample_world) = ''/s''"
  by (simp add: stateFilePathFrom_def sample_world_def sample_path)

lemma sample_write:
  "\<exists>tr. atomicWriteState sample_codec sample_env Map.empty ''/s'' sample_state = (None, tr)"
  by (simp add: atomicWriteState_def sample_codec_def sample_saved_def stamped_def Let_def sample_env_def)

lemma sample_update: "\<exists>w'. applyStateUpdate sample_codec sample_env Inr sample_world = (None, w') \<and>
   h_state (w_holder w') = sample_state"
  using sample_write
  by (auto simp: applyStateUpdate_def sample_world_path sample_state_valid Let_def)
    (auto simp: sample_world_def persistedHolder_def sample_state_valid)


lemma applyStateUpdate_returns:
  "mutate (h_state (w_holder w)) = Inr st \<Longrightarrow> validateState st = Inr st' \<Longrightarrow>
   atomicWriteState C e (w_fs w) (stateFilePathFrom e (w_cfg w)) st' = (None, tr) \<Longrightarrow>
   fst (applyStateUpdate C e mutate w) = None"
  by (simp add: applyStateUpdate_def Let_def)

lemma sample_update_fresh: "tempFresh sample_env (w_fs sample_world) (stateFilePathFrom sample_env (w_cfg sample_world))"
  using sample_fresh by (simp add: sample_world_path) (simp add: sample_world_def)

lemma sample_saved_written [simp]: "omitEmpty sample_saved = sample_saved"
  by (rule omitEmpty_fixed) (auto simp: sample_saved_def stamped_def sample_state_def sample_binding_def)

lemma sample_round_trip: "roundTrips sample_codec (stamped sample_env sample_state)"
  using sample_saved_written by (simp add: roundTrips_def sample_codec_def sample_saved_def)

theorem atomicWriteState_atomic_witness:
  "\<exists>tr. atomicWriteState sample_codec sample_env Map.empty ''/s'' sample_state = (None, tr) \<and> last tr ''/s'' = Some ''S''"
proof -
  from sample_write obtain tr where w: "atomicWriteState sample_codec sample_env Map.empty ''/s'' sample_state = (None, tr)" by blast
  with atomicWriteState_atomic [OF w sample_fresh(1)] show ?thesis
    by (auto simp: sample_codec_def split: if_splits)
qed

theorem reachable_valid_witness:
  "holder_ok (w_holder (reconfigure sample_codec sample_env sample_env sample_env defaultConfig
     \<lparr>w_cfg = defaultConfig, w_holder = initialHolder, w_fs = Map.empty\<rparr>))"
proof -
  have "decodeConfig (\<lambda>_ _. None) [] = Inr defaultConfig" by (simp add: decodeConfig_def Let_def)
  from reachable_valid [OF registered [OF this]] show ?thesis by blast
qed

theorem applyStateUpdate_all_or_nothing_witness:
  "\<exists>w'. applyStateUpdate sample_codec sample_env Inr sample_world = (None, w') \<and>
     (\<exists>raw. w_fs w' = (w_fs sample_world)(''/s'' \<mapsto> raw))"
proof -
  from sample_update obtain w' where w: "applyStateUpdate sample_codec sample_env Inr sample_world = (None, w')" by blast
  with applyStateUpdate_all_or_nothing [OF w sample_update_fresh] show ?thesis
    by (auto simp: sample_world_path)
qed

theorem saved_state_reloads_witness:
  "\<exists>w'. applyStateUpdate sample_codec sample_env Inr sample_world = (None, w') \<and>
     resolveState sample_codec sample_env (w_fs w') (w_cfg w') = (persistedHolder sample_saved, w_fs w')"
proof -
  from sample_update obtain w'
    where w: "applyStateUpdate sample_codec sample_env Inr sample_world = (None, w')" "h_state (w_holder w') = sample_state" by blast
  have "resolveState sample_codec sample_env (w_fs w') (w_cfg w') =
      (persistedHolder (omitEmpty (stamped sample_env (h_state (w_holder w')))), w_fs w') \<and>
      st_UpdatedAt (h_state (w_holder w')) = st_UpdatedAt sample_state"
    by (rule saved_state_reloads [OF w(1) sample_update_fresh, where path = "''/s''"])
      (simp_all add: w(2) sample_round_trip sample_path sample_world_def persistedHolder_def,
        simp add: sample_state_def go_simps)
  with w sample_saved_written show ?thesis by (simp add: sample_saved_def)
qed

text \<open>A state that is read and refused, for a key that is blank.\<close>

definition blank_state :: State where
  "blank_state = sample_state\<lparr>st_KeyBindings := [sample_binding\<lparr>kb_Key := '' ''\<rparr>]\<rparr>"

definition blank_codec :: stateCodec where
  "blank_codec = \<lparr>marshalState = \<lambda>_. Some ''S'', unmarshalState = \<lambda>_. Some blank_state\<rparr>"

lemma blank_state_invalid: "\<exists>err. validateState blank_state = Inl err"
  by (simp add: blank_state_def sample_state_def sample_binding_def go_simps)

theorem resolveState_quarantine_witness:
  "\<exists>w'. snd (applyStateUpdate blank_codec sample_env (\<lambda>_. Inr sample_state)
      (reconfigure blank_codec sample_env sample_env sample_env (w_cfg sample_world)
        \<lparr>w_cfg = w_cfg sample_world, w_holder = w_holder sample_world, w_fs = [''/s'' \<mapsto> ''junk'']\<rparr>)) = w' \<and>
     w_fs w' ''/s'' = Some ''S'' \<and> w_fs w' ''/s.corrupt'' = Some ''junk''"
proof -
  let ?w0 = "\<lparr>w_cfg = w_cfg sample_world, w_holder = w_holder sample_world, w_fs = [''/s'' \<mapsto> ''junk'']\<rparr>"
  define w where "w = reconfigure blank_codec sample_env sample_env sample_env (w_cfg sample_world) ?w0"
  have r: "readStateFile blank_codec sample_env [''/s'' \<mapsto> ''junk''] ''/s'' = Inr blank_state"
    by (simp add: readStateFile_def sample_env_def blank_codec_def blank_state_def sample_state_def stateVersion_def)
  have p: "ResolveStatePath (os_cwd sample_env) (cfg_StateFile (w_cfg sample_world)) = Some ''/s''"
    by (simp add: sample_world_def sample_path)
  obtain err where v: "validateState blank_state = Inl err" using blank_state_invalid by blast
  note q = resolveState_quarantine [OF p _ r v _ w_def, of "''junk''"]
  have fs: "w_fs w = [''/s.corrupt'' \<mapsto> ''junk'']" "w_cfg w = w_cfg sample_world"
    using q [OF _ _ updated.none] by (simp_all add: corruptName_def fun_eq_iff)
  have fresh: "tempFresh sample_env (w_fs w) (stateFilePathFrom sample_env (w_cfg w))"
    by (simp add: fs sample_world_path tempFresh_def sample_temp)
  obtain err' w' where u: "applyStateUpdate blank_codec sample_env (\<lambda>_. Inr sample_state) w = (err', w')" by fastforce
  have "\<exists>tr. atomicWriteState blank_codec sample_env (w_fs w) ''/s'' sample_state = (None, tr)"
    by (simp add: atomicWriteState_def blank_codec_def Let_def sample_env_def)
  then obtain tr where "atomicWriteState blank_codec sample_env (w_fs w) ''/s'' sample_state = (None, tr)" by blast
  then have "fst (applyStateUpdate blank_codec sample_env (\<lambda>_. Inr sample_state) w) = None"
    by (intro applyStateUpdate_returns [OF refl sample_state_valid]) (simp only: fs(2) sample_world_path)
  then have "err' = None" by (simp only: u fst_conv)
  from applyStateUpdate_done [OF u [unfolded this] fresh] obtain st' raw'
    where d: "marshalState blank_codec (stamped sample_env st') = Some raw'"
      "w' = w\<lparr>w_fs := (w_fs w)(stateFilePathFrom sample_env (w_cfg w) \<mapsto> raw'), w_holder := persistedHolder st'\<rparr>" .
  have "raw' = ''S''" using d(1) by (simp add: blank_codec_def)
  then have "w_fs w' ''/s'' = Some ''S''" unfolding d(2) fs(2) sample_world_path by simp
  moreover have "w_fs w' ''/s.corrupt'' = Some ''junk''"
    using q [OF _ _ updated.one_more [OF updated.none refl fresh u]] by (simp add: corruptName_def)
  ultimately show ?thesis using u by (simp add: w_def)
qed

theorem reconfigure_migrates_witness:
  "w_holder (reconfigure sample_codec sample_env sample_env sample_env (w_cfg sample_world) sample_world) =
     persistedHolder sample_saved"
proof -
  from sample_write obtain tr
    where w: "atomicWriteState sample_codec sample_env (w_fs sample_world) ''/s'' (h_state (w_holder sample_world)) = (None, tr)"
    by (auto simp: sample_world_def persistedHolder_def)
  have h: "holder_ok (w_holder sample_world)" "h_persisted (w_holder sample_world)"
    using persistedHolder_ok [OF sample_state_valid]
    by (simp_all add: sample_world_def persistedHolder_def sample_state_def go_simps)
  have "\<exists>raw. reconfigure sample_codec sample_env sample_env sample_env (w_cfg sample_world) sample_world =
      \<lparr>w_cfg = w_cfg sample_world, w_holder = persistedHolder (omitEmpty (stamped sample_env (h_state (w_holder sample_world)))),
       w_fs = (w_fs sample_world)(''/s'' \<mapsto> raw)\<rparr>"
    using reconfigure_migrates [where cfg = "w_cfg sample_world" and ?e1.0 = sample_env and ?e3.0 = sample_env, OF h _ refl refl _ _ _ _ _ w]
      sample_fresh(1) sample_round_trip
    by (simp add: sample_path) (simp add: sample_world_def sample_path persistedHolder_def)
  then show ?thesis using sample_saved_written by (auto simp: sample_saved_def sample_world_def persistedHolder_def)
qed

end
