(* ===== verification/Calendar.thy ===== *)
theory Calendar
  imports Prelude
begin

text \<open>
  What the schedule uses of Go's \<open>time\<close> package: the proleptic Gregorian calendar, instants as
  nanoseconds since the Unix epoch, \<open>time.Date\<close> with its normalisation of months and days, and
  the accessors \<open>Year\<close>, \<open>Month\<close>, \<open>Day\<close>.  A location is a fixed offset in seconds, as
  \<open>time.FixedZone\<close> makes it; \<open>NotificationLocation\<close> is the only one the plugin uses.
\<close>

type_synonym instant = int
type_synonym location = int

definition NotificationLocation :: location where
  "NotificationLocation = 8 * 3600"

section \<open>Days and dates\<close>

text \<open>Day 0 is 1 January of the year 1.\<close>

definition leap :: "int \<Rightarrow> bool" where
  "leap y \<longleftrightarrow> y mod 4 = 0 \<and> (y mod 100 \<noteq> 0 \<or> y mod 400 = 0)"

definition days_before_year :: "int \<Rightarrow> int" where
  "days_before_year y = 365 * (y - 1) + (y - 1) div 4 - (y - 1) div 100 + (y - 1) div 400"

definition days_before_month :: "bool \<Rightarrow> int \<Rightarrow> int" where
  "days_before_month lp m =
     (if m \<le> 1 then 0 else if m = 2 then 31
      else (if lp then 1 else 0) +
        (if m = 3 then 59 else if m = 4 then 90 else if m = 5 then 120 else if m = 6 then 151
         else if m = 7 then 181 else if m = 8 then 212 else if m = 9 then 243 else if m = 10 then 273
         else if m = 11 then 304 else if m = 12 then 334 else 365))"

definition days_in_month :: "int \<Rightarrow> int \<Rightarrow> int" where
  "days_in_month y m = days_before_month (leap y) (m + 1) - days_before_month (leap y) m"

definition year_of :: "int \<Rightarrow> int" where
  "year_of n =
     (let y = (400 * n) div 146097 + 1 in if days_before_year (y + 1) \<le> n then y + 1 else y)"

definition yday_of :: "int \<Rightarrow> int" where
  "yday_of n = n - days_before_year (year_of n)"

definition month_of :: "int \<Rightarrow> int" where
  "month_of n =
     (let r = yday_of n; b = days_before_month (leap (year_of n))
      in if r < b 2 then 1 else if r < b 3 then 2 else if r < b 4 then 3 else if r < b 5 then 4
         else if r < b 6 then 5 else if r < b 7 then 6 else if r < b 8 then 7 else if r < b 9 then 8
         else if r < b 10 then 9 else if r < b 11 then 10 else if r < b 12 then 11 else 12)"

definition mday_of :: "int \<Rightarrow> int" where
  "mday_of n = yday_of n - days_before_month (leap (year_of n)) (month_of n) + 1"

text \<open>The day of a date, the month brought into its range first.\<close>

definition date_day :: "int \<Rightarrow> int \<Rightarrow> int \<Rightarrow> int" where
  "date_day y m d =
     (let y' = y + (m - 1) div 12; m' = (m - 1) mod 12 + 1
      in days_before_year y' + days_before_month (leap y') m' + (d - 1))"

section \<open>Instants\<close>

definition unix_epoch_day :: int where "unix_epoch_day = 719162"

abbreviation second :: int where "second \<equiv> 10 ^ 9"

definition time_Date :: "location \<Rightarrow> int \<Rightarrow> int \<Rightarrow> int \<Rightarrow> int \<Rightarrow> int \<Rightarrow> int \<Rightarrow> instant" where
  "time_Date loc y mo d h mi s =
     ((date_day y mo d - unix_epoch_day) * 86400 + h * 3600 + mi * 60 + s - loc) * second"

definition local_day :: "location \<Rightarrow> instant \<Rightarrow> int" where
  "local_day loc t = (t div second + loc) div 86400 + unix_epoch_day"

definition time_Year :: "location \<Rightarrow> instant \<Rightarrow> int" where "time_Year loc t = year_of (local_day loc t)"
definition time_Month :: "location \<Rightarrow> instant \<Rightarrow> int" where "time_Month loc t = month_of (local_day loc t)"
definition time_Day :: "location \<Rightarrow> instant \<Rightarrow> int" where "time_Day loc t = mday_of (local_day loc t)"

text \<open>The zero \<open>time.Time\<close>, midnight UTC of 1 January of the year 1.\<close>

definition zero_time :: instant where "zero_time = - (719162 * 86400 * second)"

lemmas [go_simps] =
  NotificationLocation_def leap_def days_before_year_def days_before_month_def days_in_month_def
  year_of_def yday_of_def month_of_def mday_of_def date_day_def unix_epoch_day_def time_Date_def
  local_day_def time_Year_def time_Month_def time_Day_def zero_time_def

section \<open>The calendar is consistent\<close>

lemma div_pred: "0 < (k :: int) \<Longrightarrow> (y - 1) div k = y div k - (if y mod k = 0 then 1 else 0)"
proof (cases "y mod k = 0")
  case True
  assume k: "0 < k"
  from True have "y - 1 = (y div k - 1) * k + (k - 1)" using mult_div_mod_eq [of k y] by (simp add: algebra_simps)
  then have "(y - 1) div k = (y div k - 1) + (k - 1) div k" using k by (simp only: div_mult_self3)
  with k True show ?thesis by (simp add: div_pos_pos_trivial)
next
  case False
  assume k: "0 < k"
  from False have m: "0 \<le> y mod k - 1" "y mod k - 1 < k" using k pos_mod_sign [of k y] pos_mod_bound [of k y] by linarith+
  have "y - 1 = y div k * k + (y mod k - 1)" using mult_div_mod_eq [of k y] by (simp add: algebra_simps)
  then have "(y - 1) div k = y div k + (y mod k - 1) div k" using k by (simp only: div_mult_self3)
  with m False show ?thesis by (simp add: div_pos_pos_trivial)
qed

lemma leap_arith:
  assumes "r \<longrightarrow> q" and "q \<longrightarrow> p"
  shows "365 * y + a - b + c = 365 * (y - 1) + (a - (if p then 1 else 0)) - (b - (if q then 1 else 0)) +
     (c - (if r then 1 else 0)) + (if if q then r else p then 366 else 365 :: int)"
  using assms by auto

lemma days_before_year_Suc:
  "days_before_year (y + 1) = days_before_year y + (if leap y then 366 else 365)"
proof -
  have c: "y mod 400 = 0 \<longrightarrow> y mod 100 = 0" "y mod 100 = 0 \<longrightarrow> y mod 4 = 0"
    unfolding mod_eq_0_iff_dvd by (auto intro: dvd_trans [of 100 400] dvd_trans [of 4 100])
  have l: "leap y \<longleftrightarrow> (if y mod 100 = 0 then y mod 400 = 0 else y mod 4 = 0)"
    using c by (auto simp: leap_def)
  have e: "days_before_year (y + 1) = 365 * y + y div 4 - y div 100 + y div 400"
    by (simp add: days_before_year_def)
  show ?thesis
    unfolding e unfolding days_before_year_def l
    unfolding div_pred [of 4 y, simplified] div_pred [of 100 y, simplified] div_pred [of 400 y, simplified]
    by (rule leap_arith [OF c])
qed

lemma days_before_year_le: "y \<le> z \<Longrightarrow> days_before_year y + 365 * (z - y) \<le> days_before_year z"
proof (induction z rule: int_ge_induct)
  case (step z)
  then show ?case using days_before_year_Suc [of z] by (simp split: if_splits)
qed simp

lemma days_before_year_less: "y < z \<Longrightarrow> days_before_year (y + 1) \<le> days_before_year z"
  using days_before_year_le [of "y + 1" z] by simp

lemma div_bounds: "0 < (k :: int) \<Longrightarrow> k * (z div k) \<le> z \<and> z < k * (z div k) + k"
  using pos_mod_bound [of k z] pos_mod_sign [of k z] mult_div_mod_eq [of k z] by linarith

lemma year_of_bounds: "days_before_year (year_of n) \<le> n \<and> n < days_before_year (year_of n + 1)"
proof -
  define z where "z = (400 * n) div 146097"
  have z: "146097 * z \<le> 400 * n" "400 * n < 146097 * z + 146097"
    using div_bounds [of 146097 "400 * n"] by (simp_all add: z_def)
  have lo: "days_before_year (z + 1) \<le> n"
    using div_bounds [of 4 z] div_bounds [of 100 z] div_bounds [of 400 z] z
    by (simp add: days_before_year_def)
  have hi: "n < days_before_year (z + 3)"
    using div_bounds [of 4 "z + 2"] div_bounds [of 100 "z + 2"] div_bounds [of 400 "z + 2"] z
    by (simp add: days_before_year_def)
  have "year_of n = (if days_before_year (z + 2) \<le> n then z + 2 else z + 1)"
    by (simp add: year_of_def z_def Let_def add.commute)
  with lo hi show ?thesis by (simp add: add.commute)
qed

lemma year_of_eq:
  assumes "days_before_year y \<le> n" and "n < days_before_year (y + 1)"
  shows "year_of n = y"
  using year_of_bounds [of n] assms days_before_year_less [of y "year_of n"]
    days_before_year_less [of "year_of n" y]
  by (cases "year_of n" y rule: linorder_cases) linarith+

definition valid_date :: "int \<Rightarrow> int \<Rightarrow> int \<Rightarrow> bool" where
  "valid_date y m d \<longleftrightarrow> 1 \<le> m \<and> m \<le> 12 \<and> 1 \<le> d \<and> d \<le> days_in_month y m"

lemma month_cases:
  fixes m :: int
  assumes "1 \<le> m" "m \<le> 12"
  shows "m = 1 \<or> m = 2 \<or> m = 3 \<or> m = 4 \<or> m = 5 \<or> m = 6 \<or> m = 7 \<or> m = 8 \<or> m = 9 \<or> m = 10 \<or> m = 11 \<or> m = 12"
  using assms by presburger

lemma date_day_valid:
  "1 \<le> m \<Longrightarrow> m \<le> 12 \<Longrightarrow> date_day y m d = days_before_year y + days_before_month (leap y) m + (d - 1)"
  by (simp add: date_day_def Let_def)

lemma civil_of_date:
  assumes "valid_date y m d"
  shows "year_of (date_day y m d) = y \<and> month_of (date_day y m d) = m \<and> mday_of (date_day y m d) = d"
proof -
  have m: "1 \<le> m" "m \<le> 12" and d: "1 \<le> d" "d \<le> days_in_month y m"
    using assms by (auto simp: valid_date_def)
  let ?r = "days_before_month (leap y) m + (d - 1)"
  have r: "0 \<le> ?r \<and> ?r < (if leap y then 366 else 365)"
    using month_cases [OF m] d by (auto simp: days_in_month_def days_before_month_def)
  have n: "date_day y m d = days_before_year y + ?r" using date_day_valid [OF m] by simp
  have y: "year_of (date_day y m d) = y"
    using r days_before_year_Suc [of y] unfolding n by (intro year_of_eq) auto
  have yd: "yday_of (date_day y m d) = ?r" by (simp only: yday_of_def y) (simp add: n)
  have mo: "month_of (date_day y m d) = m"
    using month_cases [OF m] d unfolding month_of_def yd y Let_def
    by (elim disjE) (auto simp: days_in_month_def days_before_month_def split: if_splits)
  show ?thesis by (simp add: y mo mday_of_def yd)
qed

lemma civil_valid:
  "valid_date (year_of n) (month_of n) (mday_of n) \<and> date_day (year_of n) (month_of n) (mday_of n) = n"
proof -
  have r: "0 \<le> yday_of n" "yday_of n < (if leap (year_of n) then 366 else 365)"
    using year_of_bounds [of n] days_before_year_Suc [of "year_of n"] by (auto simp: yday_of_def)
  have "valid_date (year_of n) (month_of n) (mday_of n)"
    using r by (auto simp: valid_date_def mday_of_def days_in_month_def month_of_def Let_def days_before_month_def)
  moreover from this have "date_day (year_of n) (month_of n) (mday_of n) = n"
    using date_day_valid by (simp add: valid_date_def mday_of_def yday_of_def)
  ultimately show ?thesis by simp
qed

section \<open>Months as a sequence\<close>

text \<open>\<open>month_day N\<close> is the first day of the \<open>N\<close>-th month, counted from January of the year 0.\<close>

definition month_day :: "int \<Rightarrow> int" where
  "month_day N = date_day (N div 12) (N mod 12 + 1) 1"

definition month_index :: "int \<Rightarrow> int" where
  "month_index n = 12 * year_of n + month_of n - 1"

lemma month_split:
  "(12 * y + m - 1) div 12 = y + (m - 1) div 12" "(12 * y + m - 1) mod 12 = (m - 1) mod (12 :: int)"
proof -
  have e: "12 * y + m - 1 = (m - 1) + y * 12" by simp
  show "(12 * y + m - 1) div 12 = y + (m - 1) div 12" unfolding e by simp
  show "(12 * y + m - 1) mod 12 = (m - 1) mod 12" unfolding e by (simp only: mod_mult_self1)
qed

lemma month_split_range:
  assumes "1 \<le> m" "m \<le> 12"
  shows "(12 * y + m - 1) div 12 = y" "(12 * y + m - 1) mod 12 + 1 = (m :: int)"
  using assms by (simp_all add: month_split)

lemma date_day_month: "date_day y m d = month_day (12 * y + m - 1) + d - 1"
  unfolding month_day_def date_day_def Let_def month_split by simp

lemma month_day_Suc:
  "month_day (N + 1) = month_day N + days_in_month (N div 12) (N mod 12 + 1)"
proof -
  let ?y = "N div 12" and ?m = "N mod 12 + 1"
  have m: "1 \<le> ?m" "?m \<le> 12" by auto
  have N: "12 * ?y + (?m + 1) - 1 = N + 1" by simp
  have s: "month_day N = days_before_year ?y + days_before_month (leap ?y) ?m"
    using date_day_valid [OF m, of ?y 1] by (simp add: month_day_def)
  show ?thesis
  proof (cases "?m = 12")
    case True
    then have "(N + 1) div 12 = ?y + 1" "(N + 1) mod 12 = 0"
      using month_split [of ?y "?m + 1"] unfolding N by simp_all
    then have "month_day (N + 1) = days_before_year (?y + 1)"
      by (simp add: month_day_def date_day_def days_before_month_def)
    with s True show ?thesis by (simp add: days_before_year_Suc days_in_month_def days_before_month_def)
  next
    case False
    with m have m': "1 \<le> ?m + 1" "?m + 1 \<le> 12" by linarith+
    moreover from month_split_range [OF this, of ?y] have "(N + 1) div 12 = ?y" "(N + 1) mod 12 = N mod 12 + 1"
      unfolding N by simp_all
    ultimately have "month_day (N + 1) = days_before_year ?y + days_before_month (leap ?y) (?m + 1)"
      using date_day_valid [of "?m + 1" ?y 1] by (simp add: month_day_def)
    with s show ?thesis by (simp add: days_in_month_def)
  qed
qed

lemma days_in_month_bounds:
  assumes "1 \<le> m" "m \<le> 12"
  shows "28 \<le> days_in_month y m \<and> days_in_month y m \<le> 31"
  using month_cases [OF assms] by (auto simp: days_in_month_def days_before_month_def)

lemma month_day_step: "month_day N + 28 \<le> month_day (N + 1) \<and> month_day (N + 1) \<le> month_day N + 31"
  using days_in_month_bounds [of "N mod 12 + 1" "N div 12"] by (simp add: month_day_Suc)

lemma month_day_mono: "M \<le> N \<Longrightarrow> month_day M + 28 * (N - M) \<le> month_day N"
proof (induction N rule: int_ge_induct)
  case (step N)
  then show ?case using month_day_step [of N] by simp
qed simp

lemma month_day_less: "M < N \<Longrightarrow> month_day (M + 1) \<le> month_day N"
  using month_day_mono [of "M + 1" N] by simp

lemma month_index_bounds: "month_day (month_index n) \<le> n \<and> n < month_day (month_index n + 1)"
proof -
  have m: "1 \<le> month_of n" "month_of n \<le> 12" and d: "1 \<le> mday_of n" "mday_of n \<le> days_in_month (year_of n) (month_of n)"
    using civil_valid [of n] by (auto simp: valid_date_def)
  have i: "month_index n div 12 = year_of n" "month_index n mod 12 + 1 = month_of n"
    using month_split_range [OF m] by (simp_all add: month_index_def)
  have n: "n = month_day (month_index n) + mday_of n - 1"
    using civil_valid [of n] date_day_month [of "year_of n" "month_of n" "mday_of n"] by (simp add: month_index_def)
  from n d month_day_Suc [of "month_index n", unfolded i] show ?thesis by linarith
qed

lemma month_index_eq:
  assumes "month_day N \<le> n" "n < month_day (N + 1)"
  shows "month_index n = N"
  using month_index_bounds [of n] assms month_day_less [of N "month_index n"] month_day_less [of "month_index n" N]
  by (cases "month_index n" N rule: linorder_cases) linarith+

text \<open>The day number tells whether \<open>time.Date\<close> had to normalise the day.\<close>

lemma mday_of_date:
  assumes "1 \<le> m" "m \<le> 12" "1 \<le> d" "d \<le> 31"
  shows "mday_of (date_day y m d) = d \<longleftrightarrow> valid_date y m d"
proof
  assume "valid_date y m d"
  then show "mday_of (date_day y m d) = d" using civil_of_date by blast
next
  assume e: "mday_of (date_day y m d) = d"
  show "valid_date y m d"
  proof (rule ccontr)
    assume "\<not> valid_date y m d"
    with assms have over: "days_in_month y m < d" by (simp add: valid_date_def)
    let ?N = "12 * y + m - 1"
    have N: "?N div 12 = y" "?N mod 12 + 1 = m" using month_split_range assms by simp_all
    have step: "month_day (?N + 1) = month_day ?N + days_in_month y m"
      using month_day_Suc [of ?N, unfolded N] .
    have n: "date_day y m d = month_day ?N + d - 1" by (rule date_day_month)
    have i: "month_index (date_day y m d) = ?N + 1"
      using n step over assms days_in_month_bounds [OF assms(1,2), of y] month_day_step [of "?N + 1"]
      by (intro month_index_eq) linarith+
    have "date_day y m d = month_day (?N + 1) + mday_of (date_day y m d) - 1"
      using civil_valid [of "date_day y m d"] i date_day_month
        [of "year_of (date_day y m d)" "month_of (date_day y m d)" "mday_of (date_day y m d)"]
      by (simp add: month_index_def)
    with e n step days_in_month_bounds [OF assms(1,2), of y] show False by linarith
  qed
qed

lemma year_of_date:
  assumes "valid_date y m d"
  shows "days_before_year y \<le> date_day y m d \<and> date_day y m d < days_before_year (y + 1)"
  using civil_of_date [OF assms] year_of_bounds [of "date_day y m d"] by simp

lemma leap_within: "\<exists>k. 1 \<le> k \<and> k \<le> 8 \<and> leap (y + k)"
proof -
  define z where "z = y + 4 - y mod 4"
  have z: "z mod 4 = 0" "y + 1 \<le> z" "z \<le> y + 4" unfolding z_def by presburger+
  have "(z + 4) mod 100 \<noteq> 0" if "z mod 100 = 0" using that by presburger
  then have "leap z \<or> leap (z + 4)" using z(1) by (auto simp: leap_def)
  then show ?thesis
  proof
    assume "leap z"
    with z show ?thesis by (intro exI [of _ "z - y"]) auto
  next
    assume "leap (z + 4)"
    with z show ?thesis by (intro exI [of _ "z + 4 - y"]) (auto simp: algebra_simps)
  qed
qed

section \<open>Instants and their local day\<close>

definition day_second :: "int \<Rightarrow> int \<Rightarrow> int \<Rightarrow> int" where
  "day_second h m s = h * 3600 + m * 60 + s"

definition clock_ok :: "int \<Rightarrow> int \<Rightarrow> int \<Rightarrow> bool" where
  "clock_ok h m s \<longleftrightarrow> 0 \<le> h \<and> h \<le> 23 \<and> 0 \<le> m \<and> m \<le> 59 \<and> 0 \<le> s \<and> s \<le> 59"

definition at_day :: "location \<Rightarrow> int \<Rightarrow> int \<Rightarrow> instant" where
  "at_day loc n ds = ((n - unix_epoch_day) * 86400 + ds - loc) * second"

lemma time_Date_at_day: "time_Date loc y mo d h m s = at_day loc (date_day y mo d) (day_second h m s)"
  by (simp add: time_Date_def at_day_def day_second_def)

lemma day_second_bounds: "clock_ok h m s \<Longrightarrow> 0 \<le> day_second h m s \<and> day_second h m s < 86400"
  by (auto simp: clock_ok_def day_second_def)

lemma local_day_at_day: "0 \<le> ds \<Longrightarrow> ds < 86400 \<Longrightarrow> local_day loc (at_day loc n ds) = n"
  by (simp add: local_day_def at_day_def)

lemma local_day_bounds: "at_day loc (local_day loc t) 0 \<le> t \<and> t < at_day loc (local_day loc t + 1) 0"
proof -
  let ?s = "t div second"
  have "86400 * ((?s + loc) div 86400) \<le> ?s + loc \<and> ?s + loc < 86400 * ((?s + loc) div 86400) + 86400"
    by (rule div_bounds) simp
  moreover have "second * ?s \<le> t \<and> t < second * ?s + second" by (rule div_bounds) simp
  ultimately show ?thesis by (simp add: at_day_def local_day_def)
qed

lemma at_day_mono: "n < n' \<Longrightarrow> ds < 86400 \<Longrightarrow> 0 \<le> ds' \<Longrightarrow> at_day loc n ds < at_day loc n' ds'"
  by (simp add: at_day_def)

lemma at_day_le: "n \<le> n' \<Longrightarrow> ds \<le> ds' \<Longrightarrow> at_day loc n ds \<le> at_day loc n' ds'"
  by (simp add: at_day_def)

lemma at_day_before: "n < local_day loc t \<Longrightarrow> ds < 86400 \<Longrightarrow> at_day loc n ds < t"
  using at_day_mono [of n "local_day loc t" ds 0 loc] local_day_bounds [of loc t] by linarith

lemma at_day_after: "local_day loc t < n \<Longrightarrow> 0 \<le> ds \<Longrightarrow> t < at_day loc n ds"
  using at_day_le [of "local_day loc t + 1" n 0 ds loc] local_day_bounds [of loc t] by linarith

end
