(* ===== verification/Notification_Schedule.thy ===== *)
theory Notification_Schedule
  imports Notification_Types Calendar
begin

text \<open>
  The pure scheduling helpers of \<open>notification_schedule.go\<close>: reading a send time, the next and
  the last occurrence of a plan, whether a plan is due, and the statistics periods.  Instants are
  nanoseconds; the zero time stands for "never", as \<open>time.Time\<close>'s zero value does.
\<close>

section \<open>Reading a send time\<close>

text \<open>\<open>SkipSpace\<close> of \<open>fmt.Sscanf\<close>; \<open>None\<close> is its error on a line break.\<close>

function scan_space :: "string \<Rightarrow> string option" where
  "scan_space s =
     (if s = [] then Some []
      else if hd s = CHR 0x0A then None
      else if hd s = CHR 0x0D \<and> prefix [CHR 0x0A] (tl s) then None
      else if is_space (fst (decode_rune s)) then scan_space (drop (snd (decode_rune s)) s)
      else Some s)"
  by pat_completeness auto
termination
  by (relation "measure length") auto

declare scan_space.simps [simp del]

text \<open>The verb \<open>%02d\<close>: a sign and digits, two characters together at most.\<close>

definition scan_02d :: "string \<Rightarrow> (int \<times> string) option" where
  "scan_02d s =
     (case scan_space s of
        None \<Rightarrow> None
      | Some s1 \<Rightarrow>
        if s1 = [] then None
        else let signed = (hd s1 = CHR ''+'' \<or> hd s1 = CHR ''-'');
                 rest = (if signed then tl s1 else s1);
                 ds = takeWhile is_digit (take (if signed then 1 else 2) rest)
             in if ds = [] then None
                else Some (if hd s1 = CHR ''-'' then - digits_value ds else digits_value ds,
                           drop (length ds) rest))"

definition scan_colon :: "string \<Rightarrow> string option" where
  "scan_colon s = (case s of c # t \<Rightarrow> if c = CHR '':'' then Some t else None | [] \<Rightarrow> None)"

definition sscanf_day_time :: "string \<Rightarrow> (int \<times> int \<times> int) option" where
  "sscanf_day_time s =
     Option.bind (scan_02d s) (\<lambda>(h, r1). Option.bind (scan_colon r1) (\<lambda>r2.
     Option.bind (scan_02d r2) (\<lambda>(m, r3). Option.bind (scan_colon r3) (\<lambda>r4.
     Option.bind (scan_02d r4) (\<lambda>(sec, _). Some (h, m, sec))))))"

text \<open>\<open>parseDayTime\<close>; \<open>None\<close> is \<open>ok == false\<close>.\<close>

definition parseDayTime :: "string \<Rightarrow> (int \<times> int \<times> int) option" where
  "parseDayTime s =
     (if length s \<noteq> 8 \<or> s ! 2 \<noteq> CHR '':'' \<or> s ! 5 \<noteq> CHR '':'' then None
      else case sscanf_day_time s of
        None \<Rightarrow> None
      | Some (h, m, sec) \<Rightarrow>
        if 0 \<le> h \<and> h \<le> 23 \<and> 0 \<le> m \<and> m \<le> 59 \<and> 0 \<le> sec \<and> sec \<le> 59 then Some (h, m, sec) else None)"

section \<open>Occurrences\<close>

definition monthBoundary :: "int \<Rightarrow> int \<Rightarrow> bool \<Rightarrow> int \<Rightarrow> int \<Rightarrow> int \<Rightarrow> location \<Rightarrow> instant" where
  "monthBoundary y mo monthEnd h m s loc =
     (if monthEnd then time_Date loc y (mo + 1) 0 h m s else time_Date loc y mo 1 h m s)"

definition nextMonth :: "location \<Rightarrow> instant \<Rightarrow> int \<times> int" where
  "nextMonth loc t =
     (let y = time_Year loc t; m = time_Month loc t + 1 in if 12 < m then (y + 1, 1) else (y, m))"

text \<open>The loop over the years of \<open>nextTrigger\<close>; \<open>None\<close> is \<open>ok == false\<close>.\<close>

definition nextYearly ::
    "NotificationSchedule \<Rightarrow> int \<Rightarrow> int \<Rightarrow> int \<Rightarrow> instant \<Rightarrow> location \<Rightarrow> instant option" where
  "nextYearly s h m sec a loc =
     map_option (\<lambda>y. time_Date loc y (s_Month s) (s_Day s) h m sec)
       (find (\<lambda>y. let t = time_Date loc y (s_Month s) (s_Day s) h m sec
                  in time_Day loc t = s_Day s \<and> a < t)
          [time_Year loc a .. time_Year loc a + 8])"

definition nextTrigger :: "NotificationSchedule \<Rightarrow> instant \<Rightarrow> location \<Rightarrow> instant option" where
  "nextTrigger s a loc =
     (if s_Kind s = ScheduleInterval then
        (if s_Interval s \<le> 0 then None else Some (a + wrap64 (s_Interval s * second)))
      else if s_Kind s = ScheduleMonthly then
        (case parseDayTime (s_Time s) of
           None \<Rightarrow> None
         | Some (h, m, sec) \<Rightarrow>
           (let candidate = monthBoundary (time_Year loc a) (time_Month loc a) (s_MonthEnd s) h m sec loc
            in if a < candidate then Some candidate
               else case nextMonth loc candidate of
                 (y, mo) \<Rightarrow> Some (monthBoundary y mo (s_MonthEnd s) h m sec loc)))
      else if s_Kind s = ScheduleYearly then
        (case parseDayTime (s_Time s) of
           None \<Rightarrow> None
         | Some (h, m, sec) \<Rightarrow>
           if s_Month s < 1 \<or> 12 < s_Month s \<or> s_Day s < 1 \<or> 31 < s_Day s then None
           else nextYearly s h m sec a loc)
      else None)"

definition lastYearly ::
    "NotificationSchedule \<Rightarrow> int \<Rightarrow> int \<Rightarrow> int \<Rightarrow> instant \<Rightarrow> location \<Rightarrow> instant option" where
  "lastYearly s h m sec n loc =
     map_option (\<lambda>y. time_Date loc y (s_Month s) (s_Day s) h m sec)
       (find (\<lambda>y. let t = time_Date loc y (s_Month s) (s_Day s) h m sec
                  in time_Day loc t = s_Day s \<and> t \<le> n)
          (rev [time_Year loc n - 8 .. time_Year loc n]))"

text \<open>\<open>lastOccurrence\<close>; \<open>None\<close> is the zero time it returns when there is none.\<close>

definition lastOccurrence :: "NotificationSchedule \<Rightarrow> instant \<Rightarrow> location \<Rightarrow> instant option" where
  "lastOccurrence s n loc =
     (if s_Kind s = ScheduleMonthly then
        (case parseDayTime (s_Time s) of
           None \<Rightarrow> None
         | Some (h, m, sec) \<Rightarrow>
           (let cand = monthBoundary (time_Year loc n) (time_Month loc n) (s_MonthEnd s) h m sec loc
            in if cand \<le> n then Some cand
               else let mo = time_Month loc n - 1
                    in if mo < 1 then Some (monthBoundary (time_Year loc n - 1) 12 (s_MonthEnd s) h m sec loc)
                       else Some (monthBoundary (time_Year loc n) mo (s_MonthEnd s) h m sec loc)))
      else if s_Kind s = ScheduleYearly then
        (case parseDayTime (s_Time s) of
           None \<Rightarrow> None
         | Some (h, m, sec) \<Rightarrow>
           if s_Month s < 1 \<or> 12 < s_Month s \<or> s_Day s < 1 \<or> 31 < s_Day s then None
           else lastYearly s h m sec n loc)
      else None)"

text \<open>\<open>dueAt\<close>: whether the plan is due, and the time that goes with the answer (\<open>None\<close> the zero
  time); \<open>lastSuccess\<close> is \<open>None\<close> when nothing was sent yet.\<close>

definition dueAt ::
    "NotificationSchedule \<Rightarrow> instant option \<Rightarrow> instant \<Rightarrow> location \<Rightarrow> bool \<times> instant option" where
  "dueAt s lastSuccess now loc =
     (if s_Kind s = ScheduleInterval then
        (if s_Interval s \<le> 0 then (False, None)
         else case lastSuccess of
           None \<Rightarrow> (True, Some now)
         | Some prev \<Rightarrow>
           (let nxt = prev + wrap64 (s_Interval s * second)
            in if nxt \<le> now then (True, Some now) else (False, Some nxt)))
      else if s_Kind s = ScheduleMonthly \<or> s_Kind s = ScheduleYearly then
        (case lastOccurrence s now loc of
           None \<Rightarrow> (False, None)
         | Some occ \<Rightarrow>
           if (case lastSuccess of None \<Rightarrow> True | Some prev \<Rightarrow> prev < occ) then (True, Some occ)
           else (case nextTrigger s now loc of
             None \<Rightarrow> (False, None)
           | Some n \<Rightarrow> (False, Some n)))
      else (False, None))"

section \<open>Statistics periods\<close>

definition periodRange ::
    "ModuleKind \<Rightarrow> PeriodKind \<Rightarrow> instant \<Rightarrow> location \<Rightarrow> (instant \<times> instant) option" where
  "periodRange kind period n loc =
     (let y = time_Year loc n; mo = time_Month loc n; d = time_Day loc n
      in if kind = ModuleDaily then
           (let dayStart = time_Date loc y mo d 0 0 0
            in if period = PeriodCurrent then Some (dayStart, n)
               else Some (time_Date loc y mo (d - 1) 0 0 0, dayStart - second))
         else if kind = ModuleMonthly then
           (let monthStart = time_Date loc y mo 1 0 0 0
            in if period = PeriodCurrent then Some (monthStart, n)
               else Some (time_Date loc y (mo - 1) 1 0 0 0, monthStart - second))
         else if kind = ModuleHalfYear then
           (let halfStart = (if 7 \<le> mo then time_Date loc y 7 1 0 0 0 else time_Date loc y 1 1 0 0 0)
            in if period = PeriodCurrent then Some (halfStart, n)
               else Some (if 7 \<le> mo then time_Date loc y 1 1 0 0 0 else time_Date loc (y - 1) 7 1 0 0 0,
                          halfStart - second))
         else if kind = ModuleYearly then
           (let yearStart = time_Date loc y 1 1 0 0 0
            in if period = PeriodCurrent then Some (yearStart, n)
               else Some (time_Date loc (y - 1) 1 1 0 0 0, yearStart - second))
         else None)"

lemmas [go_simps] =
  scan_space.simps scan_02d_def scan_colon_def sscanf_day_time_def parseDayTime_def monthBoundary_def
  nextMonth_def nextYearly_def nextTrigger_def lastYearly_def lastOccurrence_def dueAt_def
  periodRange_def

section \<open>The occurrences of a calendar plan\<close>

text \<open>The instants a plan names, without any search: the first or the last day of every month, or
  the given date of every year that has it.\<close>

definition occurs :: "NotificationSchedule \<Rightarrow> location \<Rightarrow> instant \<Rightarrow> bool" where
  "occurs s loc t \<longleftrightarrow>
     (case parseDayTime (s_Time s) of
        None \<Rightarrow> False
      | Some (h, m, sec) \<Rightarrow>
        if s_Kind s = ScheduleMonthly then
          \<exists>y mo. 1 \<le> mo \<and> mo \<le> 12 \<and>
             t = time_Date loc y mo (if s_MonthEnd s then days_in_month y mo else 1) h m sec
        else if s_Kind s = ScheduleYearly then
          \<exists>y. valid_date y (s_Month s) (s_Day s) \<and> t = time_Date loc y (s_Month s) (s_Day s) h m sec
        else False)"

lemma parseDayTime_clock: "parseDayTime s = Some (h, m, sec) \<Longrightarrow> clock_ok h m sec"
  by (auto simp: parseDayTime_def clock_ok_def split: if_splits option.splits)

definition boundary_day :: "bool \<Rightarrow> int \<Rightarrow> int" where
  "boundary_day monthEnd N = (if monthEnd then month_day (N + 1) - 1 else month_day N)"

lemma boundary_day_range: "month_day N \<le> boundary_day e N \<and> boundary_day e N < month_day (N + 1)"
  using month_day_step [of N] by (simp add: boundary_day_def)

lemma monthBoundary_at:
  "monthBoundary y mo e h m s loc = at_day loc (boundary_day e (12 * y + mo - 1)) (day_second h m s)"
  using date_day_month [of y "mo + 1" 0] date_day_month [of y mo 1]
  by (simp add: monthBoundary_def time_Date_at_day boundary_day_def)

lemma spec_boundary:
  assumes "1 \<le> mo" "mo \<le> 12"
  shows "time_Date loc y mo (if e then days_in_month y mo else 1) h m s =
     at_day loc (boundary_day e (12 * y + mo - 1)) (day_second h m s)"
  using date_day_month [of y mo] month_day_Suc [of "12 * y + mo - 1"] month_split_range [OF assms, of y]
  by (simp add: time_Date_at_day boundary_day_def)

lemma occurs_monthly:
  assumes "parseDayTime (s_Time s) = Some (h, m, sec)" and "s_Kind s = ScheduleMonthly"
  shows "occurs s loc t \<longleftrightarrow> (\<exists>N. t = at_day loc (boundary_day (s_MonthEnd s) N) (day_second h m sec))"
proof
  assume "occurs s loc t"
  then show "\<exists>N. t = at_day loc (boundary_day (s_MonthEnd s) N) (day_second h m sec)"
    using assms by (auto simp: occurs_def spec_boundary simp del: if_split)
next
  assume "\<exists>N. t = at_day loc (boundary_day (s_MonthEnd s) N) (day_second h m sec)"
  then obtain N where N: "t = at_day loc (boundary_day (s_MonthEnd s) N) (day_second h m sec)" by blast
  have r: "1 \<le> N mod 12 + 1" "N mod 12 + 1 \<le> 12" by auto
  have "t = time_Date loc (N div 12) (N mod 12 + 1) (if s_MonthEnd s then days_in_month (N div 12) (N mod 12 + 1) else 1) h m sec"
    unfolding spec_boundary [OF r] N by simp
  with r have "\<exists>y mo. 1 \<le> mo \<and> mo \<le> 12 \<and>
      t = time_Date loc y mo (if s_MonthEnd s then days_in_month y mo else 1) h m sec" by blast
  with assms show "occurs s loc t" by (simp add: occurs_def)
qed

lemma boundary_before:
  assumes "N < month_index (local_day loc a)" "ds < 86400"
  shows "at_day loc (boundary_day e N) ds < a"
proof (rule at_day_before [OF _ assms(2)])
  show "boundary_day e N < local_day loc a"
    using boundary_day_range [of N e] month_day_less [OF assms(1)] month_index_bounds [of "local_day loc a"] by linarith
qed

lemma boundary_after:
  assumes "month_index (local_day loc a) < N" "0 \<le> ds"
  shows "a < at_day loc (boundary_day e N) ds"
proof (rule at_day_after [OF _ assms(2)])
  show "local_day loc a < boundary_day e N"
    using boundary_day_range [of N e] month_day_less [OF assms(1)] month_index_bounds [of "local_day loc a"] by linarith
qed

lemma boundary_mono: "M \<le> N \<Longrightarrow> at_day loc (boundary_day e M) ds \<le> at_day loc (boundary_day e N) ds"
proof (cases "M = N")
  case False
  assume "M \<le> N"
  with False have "month_day (M + 1) \<le> month_day N" by (intro month_day_less) simp
  then have "boundary_day e M \<le> boundary_day e N"
    using boundary_day_range [of M e] boundary_day_range [of N e] by linarith
  then show ?thesis by (intro at_day_le) auto
qed simp

lemma month_index_at:
  "0 \<le> ds \<Longrightarrow> ds < 86400 \<Longrightarrow> month_index (local_day loc (at_day loc (boundary_day e N) ds)) = N"
  using boundary_day_range [of N e] by (simp add: local_day_at_day month_index_eq)

lemma current_boundary:
  "monthBoundary (time_Year loc a) (time_Month loc a) e h m s loc =
     at_day loc (boundary_day e (month_index (local_day loc a))) (day_second h m s)"
  by (simp add: monthBoundary_at month_index_def time_Year_def time_Month_def)

lemma next_boundary:
  "(case nextMonth loc a of (y, mo) \<Rightarrow> monthBoundary y mo e h m s loc) =
     at_day loc (boundary_day e (month_index (local_day loc a) + 1)) (day_second h m s)"
proof -
  have "month_of (local_day loc a) \<le> 12" using civil_valid by (simp add: valid_date_def)
  then show ?thesis
    by (auto simp: monthBoundary_at month_index_def time_Year_def time_Month_def nextMonth_def Let_def)
       (simp_all add: algebra_simps)
qed

section \<open>Yearly occurrences\<close>

lemma yearly_before:
  assumes "valid_date y mo d" "y < time_Year loc a" "ds < 86400"
  shows "at_day loc (date_day y mo d) ds < a"
proof (rule at_day_before [OF _ assms(3)])
  show "date_day y mo d < local_day loc a"
    using year_of_date [OF assms(1)] days_before_year_less [OF assms(2)] year_of_bounds [of "local_day loc a"]
    by (simp add: time_Year_def)
qed

lemma yearly_after:
  assumes "valid_date y mo d" "time_Year loc a < y" "0 \<le> ds"
  shows "a < at_day loc (date_day y mo d) ds"
proof (rule at_day_after [OF _ assms(3)])
  show "local_day loc a < date_day y mo d"
    using year_of_date [OF assms(1)] days_before_year_less [OF assms(2)] year_of_bounds [of "local_day loc a"]
    by (simp add: time_Year_def)
qed

lemma yearly_mono:
  assumes "valid_date y mo d" "valid_date z mo d" "y \<le> z"
  shows "at_day loc (date_day y mo d) ds \<le> at_day loc (date_day z mo d) ds"
proof (cases "y = z")
  case False
  with assms have "date_day y mo d < date_day z mo d"
    using year_of_date [OF assms(1)] year_of_date [OF assms(2)] days_before_year_less [of y z] by simp
  then show ?thesis by (intro at_day_le) auto
qed simp

lemma valid_date_in_leap: "valid_date y mo d \<Longrightarrow> leap z \<Longrightarrow> valid_date z mo d"
  using month_cases [of mo] by (auto simp: valid_date_def days_in_month_def days_before_month_def split: if_splits)

lemma valid_date_window:
  assumes "valid_date y0 mo d"
  shows "\<exists>y. Y + 1 \<le> y \<and> y \<le> Y + 8 \<and> valid_date y mo d" "\<exists>y. Y - 8 \<le> y \<and> y \<le> Y - 1 \<and> valid_date y mo d"
proof -
  obtain k where "1 \<le> k" "k \<le> 8" "leap (Y + k)" using leap_within by blast
  with valid_date_in_leap [OF assms] show "\<exists>y. Y + 1 \<le> y \<and> y \<le> Y + 8 \<and> valid_date y mo d"
    by (intro exI [of _ "Y + k"]) auto
  obtain j where "1 \<le> j" "j \<le> 8" "leap (Y - 9 + j)" using leap_within by blast
  with valid_date_in_leap [OF assms] show "\<exists>y. Y - 8 \<le> y \<and> y \<le> Y - 1 \<and> valid_date y mo d"
    by (intro exI [of _ "Y - 9 + j"]) auto
qed

lemma day_check:
  assumes "clock_ok h m sec" "1 \<le> mo" "mo \<le> 12" "1 \<le> d" "d \<le> 31"
  shows "time_Day loc (time_Date loc y mo d h m sec) = d \<longleftrightarrow> valid_date y mo d"
  using day_second_bounds [OF assms(1)] mday_of_date [OF assms(2-5)]
  by (simp add: time_Date_at_day time_Day_def local_day_at_day)

definition next_spec :: "NotificationSchedule \<Rightarrow> location \<Rightarrow> instant \<Rightarrow> instant option \<Rightarrow> bool" where
  "next_spec s loc a r \<longleftrightarrow>
     (case r of
        Some t \<Rightarrow> occurs s loc t \<and> a < t \<and> (\<forall>u. occurs s loc u \<longrightarrow> a < u \<longrightarrow> t \<le> u)
      | None \<Rightarrow> \<forall>u. occurs s loc u \<longrightarrow> u \<le> a)"

definition last_spec :: "NotificationSchedule \<Rightarrow> location \<Rightarrow> instant \<Rightarrow> instant option \<Rightarrow> bool" where
  "last_spec s loc n r \<longleftrightarrow>
     (case r of
        Some t \<Rightarrow> occurs s loc t \<and> t \<le> n \<and> (\<forall>u. occurs s loc u \<longrightarrow> u \<le> n \<longrightarrow> u \<le> t)
      | None \<Rightarrow> \<forall>u. occurs s loc u \<longrightarrow> n < u)"

lemma monthly_next:
  assumes p: "parseDayTime (s_Time s) = Some (h, m, sec)" and k: "s_Kind s = ScheduleMonthly"
  shows "next_spec s loc a (nextTrigger s a loc)"
proof -
  let ?M = "month_index (local_day loc a)" and ?ds = "day_second h m sec"
  let ?at = "\<lambda>N. at_day loc (boundary_day (s_MonthEnd s) N) ?ds"
  note ds = day_second_bounds [OF parseDayTime_clock [OF p]]
  have occ: "occurs s loc t \<longleftrightarrow> (\<exists>N. t = ?at N)" for t by (rule occurs_monthly [OF p k])
  have mi: "month_index (local_day loc (?at ?M)) = ?M" using ds by (simp add: month_index_at)
  have "nextTrigger s a loc = Some (if a < ?at ?M then ?at ?M else ?at (?M + 1))"
    using p k next_boundary [where loc = loc and a = "?at ?M" and e = "s_MonthEnd s" and h = h and m = m and s = sec, unfolded mi]
    by (simp add: nextTrigger_def Let_def current_boundary kind_defs split: prod.splits)
  moreover have "a < ?at (?M + 1)" using ds by (intro boundary_after) auto
  moreover have least: "?at ?M \<le> ?at N" if "a < ?at N" for N
  proof (rule ccontr)
    assume n: "\<not> ?at ?M \<le> ?at N"
    then have "N < ?M" using boundary_mono [of ?M N] by (meson not_le)
    then have "?at N < a" using ds by (intro boundary_before) auto
    with that show False by simp
  qed
  moreover have "?at (?M + 1) \<le> ?at N" if "a < ?at N" "\<not> a < ?at ?M" for N
  proof -
    have "\<not> N \<le> ?M" using that boundary_mono [where M = "N" and N = "?M" and loc = loc and e = "s_MonthEnd s" and ds = ?ds] by linarith
    then show ?thesis by (intro boundary_mono) simp
  qed
  ultimately show ?thesis by (auto simp: next_spec_def occ)
qed

lemma monthly_last:
  assumes p: "parseDayTime (s_Time s) = Some (h, m, sec)" and k: "s_Kind s = ScheduleMonthly"
  shows "last_spec s loc n (lastOccurrence s n loc)"
proof -
  let ?M = "month_index (local_day loc n)" and ?ds = "day_second h m sec"
  let ?at = "\<lambda>N. at_day loc (boundary_day (s_MonthEnd s) N) ?ds"
  note ds = day_second_bounds [OF parseDayTime_clock [OF p]]
  have occ: "occurs s loc t \<longleftrightarrow> (\<exists>N. t = ?at N)" for t by (rule occurs_monthly [OF p k])
  have mo: "1 \<le> month_of (local_day loc n)" using civil_valid by (simp add: valid_date_def)
  then have prev: "(if time_Month loc n - 1 < 1 then Some (monthBoundary (time_Year loc n - 1) 12 (s_MonthEnd s) h m sec loc)
      else Some (monthBoundary (time_Year loc n) (time_Month loc n - 1) (s_MonthEnd s) h m sec loc)) = Some (?at (?M - 1))"
    by (cases "month_of (local_day loc n) = 1")
       (auto simp: monthBoundary_at month_index_def time_Year_def time_Month_def algebra_simps)
  have "lastOccurrence s n loc = Some (if ?at ?M \<le> n then ?at ?M else ?at (?M - 1))"
    using p k prev by (simp add: lastOccurrence_def Let_def current_boundary)
  moreover have "?at (?M - 1) < n" using ds by (intro boundary_before) auto
  moreover have "?at N \<le> ?at ?M" if "?at N \<le> n" for N
  proof (rule ccontr)
    assume n: "\<not> ?at N \<le> ?at ?M"
    then have "?M < N" using boundary_mono [of N ?M] by (meson not_le)
    then have "n < ?at N" using ds by (intro boundary_after) auto
    with that show False by simp
  qed
  moreover have "?at N \<le> ?at (?M - 1)" if "?at N \<le> n" "\<not> ?at ?M \<le> n" for N
  proof -
    have "\<not> ?M \<le> N" using that boundary_mono [where M = "?M" and N = "N" and loc = loc and e = "s_MonthEnd s" and ds = ?ds] by linarith
    then show ?thesis by (intro boundary_mono) simp
  qed
  ultimately show ?thesis by (auto simp: last_spec_def occ)
qed

lemma occurs_yearly:
  assumes "parseDayTime (s_Time s) = Some (h, m, sec)" and "s_Kind s = ScheduleYearly"
  shows "occurs s loc t \<longleftrightarrow> (\<exists>y. valid_date y (s_Month s) (s_Day s) \<and>
     t = at_day loc (date_day y (s_Month s) (s_Day s)) (day_second h m sec))"
  using assms by (auto simp: occurs_def time_Date_at_day kind_defs)

lemma yearly_next:
  assumes p: "parseDayTime (s_Time s) = Some (h, m, sec)" and k: "s_Kind s = ScheduleYearly"
  shows "next_spec s loc a (nextTrigger s a loc)"
proof (cases "1 \<le> s_Month s \<and> s_Month s \<le> 12 \<and> 1 \<le> s_Day s \<and> s_Day s \<le> 31")
  case False
  then have "\<not> valid_date y (s_Month s) (s_Day s)" for y
    using days_in_month_bounds [of "s_Month s" y] by (auto simp: valid_date_def)
  moreover have "nextTrigger s a loc = None"
    using False p k by (auto simp: nextTrigger_def kind_defs)
  ultimately show ?thesis by (simp add: next_spec_def occurs_yearly [OF p k])
next
  case md: True
  let ?Y = "time_Year loc a" and ?ds = "day_second h m sec"
  let ?at = "\<lambda>y. at_day loc (date_day y (s_Month s) (s_Day s)) ?ds"
  let ?v = "\<lambda>y. valid_date y (s_Month s) (s_Day s)"
  note ds = day_second_bounds [OF parseDayTime_clock [OF p]]
  note occ = occurs_yearly [OF p k]
  have "(\<lambda>y. let t = time_Date loc y (s_Month s) (s_Day s) h m sec in time_Day loc t = s_Day s \<and> a < t)
      = (\<lambda>y. ?v y \<and> a < ?at y)"
    using day_check [OF parseDayTime_clock [OF p]] md by (simp add: time_Date_at_day Let_def)
  then have nt: "nextTrigger s a loc = map_option ?at (find (\<lambda>y. ?v y \<and> a < ?at y) [?Y .. ?Y + 8])"
    using p k md by (simp add: nextTrigger_def nextYearly_def kind_defs time_Date_at_day)
  have later: "?Y \<le> y" if "?v y" "a < ?at y" for y
  proof (rule ccontr)
    assume "\<not> ?Y \<le> y"
    then have "?at y < a" using ds that by (intro yearly_before) auto
    with that show False by simp
  qed
  show ?thesis
  proof (cases "find (\<lambda>y. ?v y \<and> a < ?at y) [?Y .. ?Y + 8]")
    case None
    have none: "\<not> (?v y \<and> a < ?at y)" if "?Y \<le> y" "y \<le> ?Y + 8" for y
      using None that by (simp add: find_None)
    have "\<not> ?v y" for y
    proof
      assume "?v y"
      from valid_date_window(1) [OF this, of ?Y] obtain z where z: "?Y + 1 \<le> z" "z \<le> ?Y + 8" "?v z" by blast
      then have "a < ?at z" using ds by (intro yearly_after) auto
      with none [of z] z show False by simp
    qed
    with None nt show ?thesis by (simp add: next_spec_def occ)
  next
    case (Some x)
    from find_upto [OF this] have x: "?v x" "a < ?at x" "\<forall>y. ?Y \<le> y \<longrightarrow> y < x \<longrightarrow> \<not> (?v y \<and> a < ?at y)"
      by auto
    have "?at x \<le> ?at y" if "?v y" "a < ?at y" for y
      using that x later [OF that] by (intro yearly_mono) (auto simp: not_less [symmetric])
    with x Some nt show ?thesis by (auto simp: next_spec_def occ)
  qed
qed

lemma yearly_last:
  assumes p: "parseDayTime (s_Time s) = Some (h, m, sec)" and k: "s_Kind s = ScheduleYearly"
  shows "last_spec s loc n (lastOccurrence s n loc)"
proof (cases "1 \<le> s_Month s \<and> s_Month s \<le> 12 \<and> 1 \<le> s_Day s \<and> s_Day s \<le> 31")
  case False
  then have "\<not> valid_date y (s_Month s) (s_Day s)" for y
    using days_in_month_bounds [of "s_Month s" y] by (auto simp: valid_date_def)
  moreover have "lastOccurrence s n loc = None"
    using False p k by (auto simp: lastOccurrence_def kind_defs)
  ultimately show ?thesis by (simp add: last_spec_def occurs_yearly [OF p k])
next
  case md: True
  let ?Y = "time_Year loc n" and ?ds = "day_second h m sec"
  let ?at = "\<lambda>y. at_day loc (date_day y (s_Month s) (s_Day s)) ?ds"
  let ?v = "\<lambda>y. valid_date y (s_Month s) (s_Day s)"
  note ds = day_second_bounds [OF parseDayTime_clock [OF p]]
  note occ = occurs_yearly [OF p k]
  have "(\<lambda>y. let t = time_Date loc y (s_Month s) (s_Day s) h m sec in time_Day loc t = s_Day s \<and> t \<le> n)
      = (\<lambda>y. ?v y \<and> ?at y \<le> n)"
    using day_check [OF parseDayTime_clock [OF p]] md by (simp add: time_Date_at_day Let_def)
  then have lo: "lastOccurrence s n loc = map_option ?at (find (\<lambda>y. ?v y \<and> ?at y \<le> n) (rev [?Y - 8 .. ?Y]))"
    using p k md by (simp add: lastOccurrence_def lastYearly_def kind_defs time_Date_at_day)
  have earlier: "y \<le> ?Y" if "?v y" "?at y \<le> n" for y
  proof (rule ccontr)
    assume "\<not> y \<le> ?Y"
    then have "n < ?at y" using ds that by (intro yearly_after) auto
    with that show False by simp
  qed
  show ?thesis
  proof (cases "find (\<lambda>y. ?v y \<and> ?at y \<le> n) (rev [?Y - 8 .. ?Y])")
    case None
    have none: "\<not> (?v y \<and> ?at y \<le> n)" if "?Y - 8 \<le> y" "y \<le> ?Y" for y
      using None that by (simp add: find_None)
    have "\<not> ?v y" for y
    proof
      assume "?v y"
      from valid_date_window(2) [OF this, of ?Y] obtain z where z: "?Y - 8 \<le> z" "z \<le> ?Y - 1" "?v z" by blast
      then have "?at z < n" using ds by (intro yearly_before) auto
      with none [of z] z show False by simp
    qed
    with None lo show ?thesis by (simp add: last_spec_def occ)
  next
    case (Some x)
    from find_rev_upto [OF this] have x: "?v x" "?at x \<le> n" "\<forall>y. x < y \<longrightarrow> y \<le> ?Y \<longrightarrow> \<not> (?v y \<and> ?at y \<le> n)"
      by auto
    have "?at y \<le> ?at x" if "?v y" "?at y \<le> n" for y
      using that x earlier [OF that] by (intro yearly_mono) (auto simp: not_less [symmetric])
    with x Some lo show ?thesis by (auto simp: last_spec_def occ)
  qed
qed

lemma no_occurrence:
  assumes "parseDayTime (s_Time s) = None \<or> s_Kind s \<noteq> ScheduleMonthly \<and> s_Kind s \<noteq> ScheduleYearly"
  shows "\<not> occurs s loc t"
  using assms by (auto simp: occurs_def split: option.splits)

lemma calendar_next:
  assumes "s_Kind s \<noteq> ScheduleInterval"
  shows "next_spec s loc a (nextTrigger s a loc)"
proof (cases "s_Kind s = ScheduleMonthly \<or> s_Kind s = ScheduleYearly")
  case True
  show ?thesis
  proof (cases "parseDayTime (s_Time s)")
    case None
    with True have "nextTrigger s a loc = None" by (auto simp: nextTrigger_def kind_defs)
    with None show ?thesis by (simp add: next_spec_def no_occurrence)
  next
    case (Some hms)
    then obtain h m sec where "parseDayTime (s_Time s) = Some (h, m, sec)" by (cases hms) auto
    with True monthly_next yearly_next show ?thesis by blast
  qed
next
  case False
  with assms show ?thesis by (simp add: nextTrigger_def next_spec_def no_occurrence)
qed

lemma calendar_last:
  "last_spec s loc n (lastOccurrence s n loc)"
proof (cases "s_Kind s = ScheduleMonthly \<or> s_Kind s = ScheduleYearly")
  case True
  show ?thesis
  proof (cases "parseDayTime (s_Time s)")
    case None
    with True have "lastOccurrence s n loc = None" by (auto simp: lastOccurrence_def kind_defs)
    with None show ?thesis by (simp add: last_spec_def no_occurrence)
  next
    case (Some hms)
    then obtain h m sec where "parseDayTime (s_Time s) = Some (h, m, sec)" by (cases hms) auto
    with True monthly_last yearly_last show ?thesis by blast
  qed
next
  case False
  then show ?thesis by (simp add: lastOccurrence_def last_spec_def no_occurrence)
qed

section \<open>A validated send time is read\<close>

lemma scan_space_sharp: "(of_char c :: nat) < 0x80 \<Longrightarrow> \<not> is_space (of_char c) \<Longrightarrow> scan_space (c # r) = Some (c # r)"
  by (subst scan_space.simps) (auto simp: decode_rune_ascii is_space_def)

lemma two_chars: "length p = 2 \<Longrightarrow> \<exists>a b. p = [a, b]"
  by (cases p; cases "tl p") auto

lemma digit_not_space: "is_digit c \<Longrightarrow> (of_char c :: nat) < 0x80 \<and> \<not> is_space (of_char c)"
  by (auto simp: is_digit_def is_space_def)

lemma scan_02d_field:
  assumes "length p = 2" and "atoi p = Some v"
  shows "scan_02d (p @ r) = Some (v, r)"
proof -
  obtain a b where p: "p = [a, b]" using two_chars [OF assms(1)] by blast
  show ?thesis
  proof (cases "a = CHR ''-'' \<or> a = CHR ''+''")
    case True
    then have "is_digit b" and v: "v = (if a = CHR ''-'' then - digits_value [b] else digits_value [b])"
      using assms(2) by (auto simp: p atoi_def Let_def split: if_splits)
    moreover have "scan_space (a # b # r) = Some (a # b # r)"
      using True by (intro scan_space_sharp) (auto simp: is_space_def)
    ultimately show ?thesis using True by (auto simp: p scan_02d_def Let_def)
  next
    case False
    then have d: "is_digit a" "is_digit b" and v: "v = digits_value [a, b]"
      using assms(2) by (auto simp: p atoi_def Let_def split: if_splits)
    moreover have "scan_space (a # b # r) = Some (a # b # r)"
      using digit_not_space [OF d(1)] by (intro scan_space_sharp) auto
    ultimately show ?thesis using False by (simp add: p scan_02d_def Let_def numeral_2_eq_2)
  qed
qed

lemma three_parts: "length ps = 3 \<Longrightarrow> \<exists>a b c. ps = [a, b, c]"
  by (cases ps; cases "tl ps"; cases "tl (tl ps)") auto

lemma dayTimeNums_Some:
  "dayTimeNums ps = Some ns \<longleftrightarrow> (\<forall>p\<in>set ps. length p = 2) \<and> list_all2 (\<lambda>p n. atoi p = Some n \<and> 0 \<le> n) ps ns"
  by (induction ps arbitrary: ns) (auto simp: list_all2_Cons1 split: option.splits)

lemma validDayTime_read:
  assumes "validDayTime s = None"
  shows "\<exists>h m sec. parseDayTime s = Some (h, m, sec) \<and> dayTimeNums (split_on '':'' s) = Some [h, m, sec]"
proof -
  have 3: "length (split_on '':'' s) = 3" using assms by (auto simp: validDayTime_def Let_def split: if_splits)
  then obtain a b c where parts: "split_on '':'' s = [a, b, c]" using three_parts by blast
  obtain ns where ns: "dayTimeNums [a, b, c] = Some ns"
    using assms parts by (auto simp: validDayTime_def Let_def split: if_splits option.splits)
  then obtain h m sec where n: "ns = [h, m, sec]" and len: "length a = 2" "length b = 2" "length c = 2"
    and at: "atoi a = Some h" "atoi b = Some m" "atoi c = Some sec" "0 \<le> h" "0 \<le> m" "0 \<le> sec"
    unfolding dayTimeNums_Some by (auto simp: list_all2_Cons1)
  have r: "h \<le> 23" "m \<le> 59" "sec \<le> 59"
    using assms ns parts n by (auto simp: validDayTime_def Let_def split: if_splits)
  have s: "s = a @ '':'' @ b @ '':'' @ c" using join_split_on [of "'':''" s] parts by simp
  have shape: "length s = 8" "s ! 2 = CHR '':''" "s ! 5 = CHR '':''"
    using len by (simp_all add: s nth_append)
  have "sscanf_day_time s = Some (h, m, sec)"
    using scan_02d_field [OF len(1) at(1)] scan_02d_field [OF len(2) at(2)] scan_02d_field [OF len(3) at(3), of "[]"]
    by (simp add: sscanf_day_time_def s scan_colon_def)
  then have "parseDayTime s = Some (h, m, sec)"
    unfolding parseDayTime_def using shape r at(4-6) by simp
  moreover have "dayTimeNums (split_on '':'' s) = Some [h, m, sec]" unfolding parts ns n ..
  ultimately show ?thesis by blast
qed

section \<open>The first day of a period\<close>

text \<open>\<open>block_start k n\<close>: the first day of the block of \<open>k\<close> months that holds day \<open>n\<close>.\<close>

definition block_start :: "int \<Rightarrow> int \<Rightarrow> int" where
  "block_start k n = month_day (k * (month_index n div k))"

definition period_start :: "ModuleKind \<Rightarrow> int \<Rightarrow> int" where
  "period_start kind n =
     (if kind = ModuleDaily then n else if kind = ModuleMonthly then block_start 1 n
      else if kind = ModuleHalfYear then block_start 6 n else block_start 12 n)"

lemma block_start_le: "0 < k \<Longrightarrow> block_start k n \<le> n"
  using month_index_bounds [of n] month_day_mono [of "k * (month_index n div k)" "month_index n"]
    div_bounds [of k "month_index n"] by (simp add: block_start_def)

lemma month_index_before: "month_index (month_day M - 1) = M - 1"
  using month_day_step [of "M - 1"] by (intro month_index_eq) auto

lemma div_before: "0 < k \<Longrightarrow> (k * q - 1) div k = q - (1 :: int)"
proof -
  assume k: "0 < k"
  have e: "k * q - 1 = (k - 1) + (q - 1) * k" by (simp add: algebra_simps)
  have "(k * q - 1) div k = (q - 1) + (k - 1) div k" unfolding e using k by (intro div_mult_self1) simp
  with k show ?thesis by (simp add: div_pos_pos_trivial)
qed

lemma block_start_before:
  "0 < k \<Longrightarrow> block_start k (block_start k n - 1) = month_day (k * (month_index n div k) - k)"
  by (simp add: block_start_def month_index_before div_before algebra_simps)

lemma at_day_minus_second: "at_day loc n 0 - second = at_day loc (n - 1) 86399"
  by (simp add: at_day_def algebra_simps)

lemma time_Date_midnight: "time_Date loc y mo d 0 0 0 = at_day loc (month_day (12 * y + mo - 1) + d - 1) 0"
  by (simp add: time_Date_at_day date_day_month day_second_def)

lemma civil_month_index:
  "time_Month loc t = month_index (local_day loc t) mod 12 + 1"
  "time_Year loc t = month_index (local_day loc t) div 12"
  "month_day (month_index (local_day loc t)) + time_Day loc t - 1 = local_day loc t"
proof -
  have m: "1 \<le> month_of (local_day loc t)" "month_of (local_day loc t) \<le> 12"
    using civil_valid by (simp_all add: valid_date_def)
  show "time_Month loc t = month_index (local_day loc t) mod 12 + 1"
    "time_Year loc t = month_index (local_day loc t) div 12"
    using month_split_range [OF m] by (simp_all add: month_index_def time_Month_def time_Year_def)
  show "month_day (month_index (local_day loc t)) + time_Day loc t - 1 = local_day loc t"
    using civil_valid [of "local_day loc t"] date_day_month [of "year_of (local_day loc t)" "month_of (local_day loc t)" "mday_of (local_day loc t)"]
    by (simp add: month_index_def time_Day_def)
qed

lemma half_year_block:
  fixes M :: int
  shows "7 \<le> M mod 12 + 1 \<Longrightarrow> 6 * (M div 6) = 6 + 12 * (M div 12)"
    "\<not> 7 \<le> M mod 12 + 1 \<Longrightarrow> 6 * (M div 6) = 12 * (M div 12)"
  by presburger+

lemma periodRange_start:
  assumes "moduleKindsWithPeriod kind"
  shows "periodRange kind PeriodCurrent n loc = Some (at_day loc (period_start kind (local_day loc n)) 0, n)"
    "periodRange kind PeriodPrevious n loc =
       Some (at_day loc (period_start kind (period_start kind (local_day loc n) - 1)) 0,
             at_day loc (period_start kind (local_day loc n)) 0 - second)"
proof -
  let ?M = "month_index (local_day loc n)"
  note c = civil_month_index [of loc n]
  have M: "12 * (?M div 12) + (?M mod 12 + 1) - 1 = ?M" by simp
  have d: "month_day ?M + (time_Day loc n - 1) - 1 = local_day loc n - 1" using c(3) by simp
  consider "kind = ModuleDaily" | "kind = ModuleMonthly" | "kind = ModuleHalfYear" | "kind = ModuleYearly"
    using assms by (auto simp: moduleKindsWithPeriod_def)
  then show "periodRange kind PeriodCurrent n loc = Some (at_day loc (period_start kind (local_day loc n)) 0, n)"
    by cases (use c(3) half_year_block [of ?M] in \<open>auto simp: periodRange_def Let_def kind_defs time_Date_midnight
        period_start_def block_start_def c(1,2) M\<close>)
  consider "kind = ModuleDaily" | "kind = ModuleMonthly" | "kind = ModuleHalfYear" | "kind = ModuleYearly"
    using assms by (auto simp: moduleKindsWithPeriod_def)
  then show "periodRange kind PeriodPrevious n loc =
       Some (at_day loc (period_start kind (period_start kind (local_day loc n) - 1)) 0,
             at_day loc (period_start kind (local_day loc n)) 0 - second)"
  proof cases
    case 1
    with d show ?thesis
      by (simp add: periodRange_def Let_def kind_defs time_Date_midnight period_start_def c(1,2) M)
  next
    case 2
    have "12 * (?M div 12) + ?M mod 12 - 1 = ?M - 1" by simp
    with 2 show ?thesis
      by (simp add: periodRange_def Let_def kind_defs time_Date_midnight period_start_def
          block_start_before c(1,2) M) (simp add: block_start_def)
  next
    case 3
    show ?thesis
    proof (cases "7 \<le> ?M mod 12 + 1")
      case True
      with half_year_block(1) [OF True] 3 show ?thesis
        by (simp add: periodRange_def Let_def kind_defs time_Date_midnight period_start_def
            block_start_before c(1,2)) (simp add: block_start_def)
    next
      case False
      have "12 * (?M div 12 - 1) + 6 = 12 * (?M div 12) - 6" by simp
      with half_year_block(2) [OF False] 3 False show ?thesis
        by (simp add: periodRange_def Let_def kind_defs time_Date_midnight period_start_def
            block_start_before c(1,2)) (simp add: block_start_def)
    qed
  next
    case 4
    have "12 * (?M div 12 - 1) = 12 * (?M div 12) - 12" by simp
    with 4 show ?thesis
      by (simp add: periodRange_def Let_def kind_defs time_Date_midnight period_start_def
          block_start_before c(1,2)) (simp add: block_start_def)
  qed
qed

section \<open>Correctness of the schedule\<close>

text \<open>A send time the validator accepts is read by the scheduler, and to the same hour, minute
  and second, although the one splits and calls \<open>Atoi\<close> and the other calls \<open>Sscanf\<close>.\<close>

theorem validDayTime_parseDayTime:
  "validDayTime s = None \<Longrightarrow>
     \<exists>h m sec. parseDayTime s = Some (h, m, sec) \<and> clock_ok h m sec \<and>
       dayTimeNums (split_on '':'' s) = Some [h, m, sec]"
  using validDayTime_read parseDayTime_clock by blast

theorem validDayTime_parseDayTime_witness:
  "\<exists>h m sec. parseDayTime ''23:05:09'' = Some (h, m, sec) \<and> clock_ok h m sec \<and>
       dayTimeNums (split_on '':'' ''23:05:09'') = Some [h, m, sec]"
  by (rule validDayTime_parseDayTime) (simp add: go_simps)

text \<open>Neither check is the documented format: signs are accepted by both, and a trailing
  character that is not a digit by the scheduler.\<close>

theorem validDayTime_signs:
  "validDayTime ''+8:-0:+5'' = None \<and> parseDayTime ''+8:-0:+5'' = Some (8, 0, 5) \<and>
   validDayTime ''08:30:5x'' = Some BadTimeFormat \<and> parseDayTime ''08:30:5x'' = Some (8, 30, 5)"
  by (simp add: go_simps)

text \<open>C27. \<open>nextTrigger\<close> of a calendar plan is the least occurrence strictly after the given instant,
  and it finds none only when the plan has none: the search over nine years is enough, also for
  29 February over the centuries that are not leap years.\<close>

theorem nextTrigger_least:
  "s_Kind s \<noteq> ScheduleInterval \<Longrightarrow>
     (case nextTrigger s a loc of
        Some t \<Rightarrow> occurs s loc t \<and> a < t \<and> (\<forall>u. occurs s loc u \<longrightarrow> a < u \<longrightarrow> t \<le> u)
      | None \<Rightarrow> \<forall>u. occurs s loc u \<longrightarrow> u \<le> a)"
  using calendar_next [of s loc a] unfolding next_spec_def .

definition month_end_plan :: NotificationSchedule where
  "month_end_plan = \<lparr>s_Kind = ScheduleMonthly, s_Interval = 0, s_MonthEnd = True, s_Month = 0, s_Day = 0,
     s_Time = ''09:00:00''\<rparr>"

theorem nextTrigger_least_witness:
  "nextTrigger month_end_plan (time_Date NotificationLocation 2024 1 31 9 0 0) NotificationLocation =
     Some (time_Date NotificationLocation 2024 2 29 9 0 0) \<and>
   occurs month_end_plan NotificationLocation (time_Date NotificationLocation 2024 2 29 9 0 0)"
proof -
  let ?a = "time_Date NotificationLocation 2024 1 31 9 0 0"
  have p: "parseDayTime ''09:00:00'' = Some (9, 0, 0)" by (simp add: go_simps)
  have a: "?a = 1706662800 * second" by (simp add: go_simps)
  have ym: "time_Year NotificationLocation ?a = 2024" "time_Month NotificationLocation ?a = 1"
    unfolding a by (simp_all add: go_simps)
  have b: "monthBoundary 2024 1 True 9 0 0 NotificationLocation = ?a" by (simp add: go_simps)
  have "nextMonth NotificationLocation ?a = (2024, 2)" by (simp add: nextMonth_def ym)
  moreover have "monthBoundary 2024 2 True 9 0 0 NotificationLocation = time_Date NotificationLocation 2024 2 29 9 0 0"
    by (simp add: go_simps)
  ultimately have n: "nextTrigger month_end_plan ?a NotificationLocation = Some (time_Date NotificationLocation 2024 2 29 9 0 0)"
    by (simp add: nextTrigger_def month_end_plan_def kind_defs p ym b Let_def)
  have "s_Kind month_end_plan \<noteq> ScheduleInterval" by (simp add: month_end_plan_def go_simps)
  from nextTrigger_least [OF this, where a = ?a and loc = NotificationLocation] n show ?thesis by simp
qed

text \<open>\<open>lastOccurrence\<close> is the latest occurrence that is not after the given instant, and is the
  zero time only when the plan has none.\<close>

theorem lastOccurrence_latest:
  "case lastOccurrence s n loc of
     Some t \<Rightarrow> occurs s loc t \<and> t \<le> n \<and> \<not> (\<exists>u. occurs s loc u \<and> t < u \<and> u \<le> n)
   | None \<Rightarrow> \<not> (\<exists>u. occurs s loc u \<and> u \<le> n)"
  using calendar_last [of s loc n] by (auto simp: last_spec_def not_less [symmetric] split: option.splits)

text \<open>A calendar plan is due exactly when some occurrence up to now has not been followed by a
  success; one success settles all of them, and otherwise the time reported is the next
  occurrence.\<close>

theorem dueAt_calendar:
  "s_Kind s \<noteq> ScheduleInterval \<Longrightarrow>
     fst (dueAt s lastSuccess now loc) =
       (\<exists>u. occurs s loc u \<and> u \<le> now \<and> (case lastSuccess of None \<Rightarrow> True | Some prev \<Rightarrow> prev < u)) \<and>
     \<not> fst (dueAt s (Some now) now loc) \<and>
     (case snd (dueAt s (Some now) now loc) of None \<Rightarrow> True | Some t \<Rightarrow> occurs s loc t \<and> now < t)"
proof -
  assume k: "s_Kind s \<noteq> ScheduleInterval"
  note l = calendar_last [of s loc now] and n = calendar_next [OF k, of loc now]
  show ?thesis
  proof (cases "s_Kind s = ScheduleMonthly \<or> s_Kind s = ScheduleYearly")
    case False
    then show ?thesis using k by (auto simp: dueAt_def no_occurrence)
  next
    case True
    show ?thesis
    proof (cases "lastOccurrence s now loc")
      case None
      with l have "\<not> (occurs s loc u \<and> u \<le> now)" for u by (auto simp: last_spec_def)
      with None k show ?thesis by (auto simp: dueAt_def)
    next
      case (Some t)
      with l have t: "occurs s loc t" "t \<le> now" "\<And>u. occurs s loc u \<Longrightarrow> u \<le> now \<Longrightarrow> u \<le> t"
        by (auto simp: last_spec_def)
      have "(\<exists>u. occurs s loc u \<and> u \<le> now \<and> (case lastSuccess of None \<Rightarrow> True | Some prev \<Rightarrow> prev < u)) \<longleftrightarrow>
          (case lastSuccess of None \<Rightarrow> True | Some prev \<Rightarrow> prev < t)"
        using t by (cases lastSuccess) force+
      moreover have "fst (dueAt s lastSuccess now loc) = (case lastSuccess of None \<Rightarrow> True | Some prev \<Rightarrow> prev < t)"
        using True k Some by (auto simp: dueAt_def split: option.splits)
      moreover have "dueAt s (Some now) now loc = (False, nextTrigger s now loc)"
        using True k Some t(2) by (auto simp: dueAt_def split: option.splits)
      moreover have "case nextTrigger s now loc of None \<Rightarrow> True | Some t \<Rightarrow> occurs s loc t \<and> now < t"
        using n by (cases "nextTrigger s now loc") (simp_all add: next_spec_def)
      ultimately show ?thesis by simp
    qed
  qed
qed

theorem dueAt_calendar_witness:
  "\<not> fst (dueAt month_end_plan (Some 0) 0 NotificationLocation)"
proof -
  have "s_Kind month_end_plan \<noteq> ScheduleInterval" by (simp add: month_end_plan_def go_simps)
  from dueAt_calendar [OF this, where lastSuccess = "Some 0" and now = 0 and loc = NotificationLocation] show ?thesis by simp
qed

text \<open>Every validated plan fires: \<open>nextTrigger\<close> returns a later instant, for a yearly plan as
  soon as its date exists in a leap year.  A yearly plan for 30 February is accepted as well, and
  never fires.\<close>

theorem validated_plan_fires:
  "(validateNotificationSchedule s = None \<longrightarrow> (s_Kind s = ScheduleYearly \<longrightarrow> valid_date 2000 (s_Month s) (s_Day s)) \<longrightarrow>
      (\<exists>t. nextTrigger s a loc = Some t \<and> a < t)) \<and>
   (let bad = \<lparr>s_Kind = ScheduleYearly, s_Interval = 0, s_MonthEnd = False, s_Month = 2, s_Day = 30,
              s_Time = ''09:00:00''\<rparr>
    in validateNotificationSchedule bad = None \<and> nextTrigger bad a loc = None)"
proof (intro conjI impI)
  assume v: "validateNotificationSchedule s = None"
    and d: "s_Kind s = ScheduleYearly \<longrightarrow> valid_date 2000 (s_Month s) (s_Day s)"
  consider (int) "s_Kind s = ScheduleInterval" | (mon) "s_Kind s = ScheduleMonthly" | (yr) "s_Kind s = ScheduleYearly"
    using v by (auto simp: validateNotificationSchedule_def split: if_splits)
  then show "\<exists>t. nextTrigger s a loc = Some t \<and> a < t"
  proof cases
    case int
    with v have "1 \<le> s_Interval s" "s_Interval s \<le> 2678400"
      by (auto simp: validateNotificationSchedule_def maxScheduleIntervalSeconds_def kind_defs split: if_splits)
    then show ?thesis using int by (simp add: nextTrigger_def wrap64_id)
  next
    case mon
    with v obtain h m sec where p: "parseDayTime (s_Time s) = Some (h, m, sec)"
      using validDayTime_read [of "s_Time s"] by (auto simp: validateNotificationSchedule_def kind_defs)
    have "month_day N \<le> boundary_day (s_MonthEnd s) N" for N using boundary_day_range by blast
    let ?t = "at_day loc (boundary_day (s_MonthEnd s) (month_index (local_day loc a) + 1)) (day_second h m sec)"
    have "a < ?t" using day_second_bounds [OF parseDayTime_clock [OF p]] by (intro boundary_after) auto
    moreover have "occurs s loc ?t" using occurs_monthly [OF p mon] by blast
    ultimately show ?thesis using monthly_next [OF p mon, of loc a]
      by (cases "nextTrigger s a loc") (auto simp: next_spec_def)
  next
    case yr
    with v obtain h m sec where p: "parseDayTime (s_Time s) = Some (h, m, sec)"
      using validDayTime_read [of "s_Time s"]
      by (auto simp: validateNotificationSchedule_def kind_defs split: if_splits)
    from valid_date_window(1) d yr obtain y where y: "time_Year loc a + 1 \<le> y" "valid_date y (s_Month s) (s_Day s)" by blast
    let ?t = "at_day loc (date_day y (s_Month s) (s_Day s)) (day_second h m sec)"
    have "a < ?t" using y day_second_bounds [OF parseDayTime_clock [OF p]] by (intro yearly_after) auto
    moreover have "occurs s loc ?t" using occurs_yearly [OF p yr] y by blast
    ultimately show ?thesis using yearly_next [OF p yr, of loc a]
      by (cases "nextTrigger s a loc") (auto simp: next_spec_def)
  qed
next
  let ?bad = "\<lparr>s_Kind = ScheduleYearly, s_Interval = 0, s_MonthEnd = False, s_Month = 2, s_Day = 30, s_Time = ''09:00:00''\<rparr>"
  have p: "parseDayTime (s_Time ?bad) = Some (9, 0, 0)" by (simp add: go_simps)
  have "validateNotificationSchedule ?bad = None" by (simp add: go_simps)
  moreover have "\<not> valid_date y 2 30" for y by (simp add: valid_date_def days_in_month_def days_before_month_def)
  then have "\<not> occurs ?bad loc t" for t using occurs_yearly [OF p] by simp
  then have "nextTrigger ?bad a loc = None"
    using yearly_next [OF p, of loc a] by (cases "nextTrigger ?bad a loc") (auto simp: next_spec_def)
  ultimately show "let bad = ?bad in validateNotificationSchedule bad = None \<and> nextTrigger bad a loc = None"
    by (simp add: Let_def)
qed

theorem validated_plan_fires_witness:
  "\<exists>t. nextTrigger month_end_plan 0 NotificationLocation = Some t \<and> 0 < t"
  using conjunct1 [OF validated_plan_fires [where s = month_end_plan and a = 0 and loc = NotificationLocation]]
  by (simp add: month_end_plan_def go_simps)

text \<open>The statistics periods tile the calendar: the current period begins no later than now, the
  previous one ends one second before it and is the current period as seen at that second.\<close>

theorem periodRange_contiguous:
  "moduleKindsWithPeriod kind \<Longrightarrow>
     \<exists>start pstart pend.
       periodRange kind PeriodCurrent n loc = Some (start, n) \<and> start \<le> n \<and>
       periodRange kind PeriodPrevious n loc = Some (pstart, pend) \<and> pstart \<le> pend \<and>
       pend + second = start \<and>
       periodRange kind PeriodCurrent pend loc = Some (pstart, pend)"
proof -
  assume k: "moduleKindsWithPeriod kind"
  let ?S = "period_start kind"
  have le: "?S d \<le> d" for d by (simp add: period_start_def block_start_le)
  let ?start = "at_day loc (?S (local_day loc n)) 0"
  let ?pend = "?start - second"
  have ld: "local_day loc ?pend = ?S (local_day loc n) - 1"
    by (simp only: at_day_minus_second) (simp add: local_day_at_day)
  have "?start \<le> n" using at_day_le [OF le, of 0 0 loc "local_day loc n"] local_day_bounds [of loc n] by simp
  moreover have "at_day loc (?S (local_day loc ?pend)) 0 \<le> ?pend"
    using at_day_le [OF le, of 0 0 loc "local_day loc ?pend"] local_day_bounds [of loc ?pend] by simp
  ultimately show ?thesis
    using periodRange_start [OF k, of n loc] periodRange_start(1) [OF k, of ?pend loc] unfolding ld by auto
qed

theorem periodRange_contiguous_witness:
  "\<exists>pstart pend. periodRange ModuleHalfYear PeriodPrevious 0 NotificationLocation = Some (pstart, pend) \<and> pstart \<le> pend"
proof -
  have "moduleKindsWithPeriod ModuleHalfYear" by (simp add: go_simps)
  from periodRange_contiguous [OF this, where n = 0 and loc = NotificationLocation] show ?thesis by blast
qed

end
