(* ===== verification/Key_Table.thy ===== *)
theory Key_Table
  imports Prelude
begin

text \<open>
  The interface the management handlers use of a table of rows with keys: look up, put, change and
  remove a row.  The laws say what each operation does to the table seen as a map, and the lemmas
  carry them to any sequence of commands.  \<open>Management\<close> interprets it on the key bindings.
\<close>

text \<open>The abstract table.\<close>

datatype ('k, 'v) table_cmd = Put 'v | Alter 'k "'v \<Rightarrow> 'v" | Remove 'k

fun cmd_key :: "('v \<Rightarrow> 'k) \<Rightarrow> ('k, 'v) table_cmd \<Rightarrow> 'k" where
  "cmd_key key_of (Put v) = key_of v"
| "cmd_key key_of (Alter k f) = k"
| "cmd_key key_of (Remove k) = k"

fun cmd_spec :: "('v \<Rightarrow> 'k) \<Rightarrow> ('k, 'v) table_cmd \<Rightarrow> ('k \<Rightarrow> 'v option) \<Rightarrow> ('k \<Rightarrow> 'v option) option" where
  "cmd_spec key_of (Put v) m = Some (m(key_of v \<mapsto> v))"
| "cmd_spec key_of (Alter k f) m = map_option (\<lambda>v. m(k \<mapsto> f v)) (m k)"
| "cmd_spec key_of (Remove k) m = map_option (\<lambda>v. m(k := None)) (m k)"

text \<open>A command that only changes what a row holds keeps its key.\<close>

fun cmd_ok :: "('v \<Rightarrow> 'k) \<Rightarrow> ('k, 'v) table_cmd \<Rightarrow> bool" where
  "cmd_ok key_of (Alter k f) \<longleftrightarrow> (\<forall>v. key_of (f v) = key_of v)"
| "cmd_ok key_of _ \<longleftrightarrow> True"

lemma cmd_spec_frame: "cmd_spec key_of c m = Some m' \<Longrightarrow> k \<noteq> cmd_key key_of c \<Longrightarrow> m' k = m k"
  by (cases c) (auto split: option.splits)

lemma cmd_spec_None: "cmd_spec key_of c m = None \<longleftrightarrow> (\<forall>v. c \<noteq> Put v) \<and> m (cmd_key key_of c) = None"
  by (cases c) (auto split: option.split)

locale table_lookup =
  fixes key_of :: "'v \<Rightarrow> 'k" and lookup :: "'t \<Rightarrow> 'k \<Rightarrow> 'v option" and inv :: "'t \<Rightarrow> bool"
  assumes lookup_key: "inv t \<Longrightarrow> lookup t k = Some v \<Longrightarrow> key_of v = k"
begin

lemma spec_key:
  assumes "inv t" and "cmd_ok key_of c" and "cmd_spec key_of c (lookup t) = Some m" and "m k = Some v"
  shows "key_of v = k"
  using assms lookup_key by (cases c) (auto split: option.splits if_splits)

end

locale keyed_table = table_lookup key_of lookup inv
  for key_of :: "'v \<Rightarrow> 'k" and lookup :: "'t \<Rightarrow> 'k \<Rightarrow> 'v option" and inv :: "'t \<Rightarrow> bool" +
  fixes put :: "'v \<Rightarrow> 't \<Rightarrow> 't" and alter :: "'k \<Rightarrow> ('v \<Rightarrow> 'v) \<Rightarrow> 't \<Rightarrow> 't option" and remove :: "'k \<Rightarrow> 't \<Rightarrow> 't option"
  assumes put_lookup: "inv t \<Longrightarrow> lookup (put v t) = (lookup t)(key_of v \<mapsto> v)"
    and put_inv: "inv t \<Longrightarrow> inv (put v t)"
    and alter_lookup: "inv t \<Longrightarrow> (\<And>v. key_of (f v) = key_of v) \<Longrightarrow>
      map_option lookup (alter k f t) = map_option (\<lambda>v. (lookup t)(k \<mapsto> f v)) (lookup t k)"
    and alter_inv: "inv t \<Longrightarrow> (\<And>v. key_of (f v) = key_of v) \<Longrightarrow> alter k f t = Some t' \<Longrightarrow> inv t'"
    and remove_lookup: "inv t \<Longrightarrow> map_option lookup (remove k t) = map_option (\<lambda>v. (lookup t)(k := None)) (lookup t k)"
    and remove_inv: "inv t \<Longrightarrow> remove k t = Some t' \<Longrightarrow> inv t'"
begin

fun exec :: "('k, 'v) table_cmd \<Rightarrow> 't \<Rightarrow> 't option" where
  "exec (Put v) t = Some (put v t)"
| "exec (Alter k f) t = alter k f t"
| "exec (Remove k) t = remove k t"

lemma exec_refines:
  assumes "inv t" and "cmd_ok key_of c"
  shows "map_option lookup (exec c t) = cmd_spec key_of c (lookup t)"
  using assms(2) by (cases c) (simp_all add: put_lookup alter_lookup remove_lookup assms(1))

lemma exec_inv: "inv t \<Longrightarrow> cmd_ok key_of c \<Longrightarrow> exec c t = Some t' \<Longrightarrow> inv t'"
  by (cases c) (auto intro: put_inv alter_inv remove_inv)

lemma exec_frame:
  assumes "inv t" and "cmd_ok key_of c" and "exec c t = Some t'" and "k \<noteq> cmd_key key_of c"
  shows "lookup t' k = lookup t k"
proof -
  from exec_refines [OF assms(1,2)] assms(3) have "cmd_spec key_of c (lookup t) = Some (lookup t')" by simp
  with assms(4) show ?thesis by (rule cmd_spec_frame [rotated])
qed

text \<open>A command fails exactly when it names a row that does not exist.\<close>

lemma exec_None:
  assumes "inv t" and "cmd_ok key_of c"
  shows "exec c t = None \<longleftrightarrow> (\<forall>v. c \<noteq> Put v) \<and> lookup t (cmd_key key_of c) = None"
proof -
  have "exec c t = None \<longleftrightarrow> cmd_spec key_of c (lookup t) = None"
    using exec_refines [OF assms] by (metis option.map_disc_iff)
  then show ?thesis by (simp only: cmd_spec_None)
qed

text \<open>A sequence of commands, each with the outside world's word on whether it is carried out.\<close>

fun run :: "(('k, 'v) table_cmd \<times> bool) list \<Rightarrow> 't \<Rightarrow> 't" where
  "run [] t = t"
| "run ((c, ok) # cs) t = run cs (case exec c t of Some t' \<Rightarrow> if ok then t' else t | None \<Rightarrow> t)"

lemma run_refines:
  assumes "inv t" and "list_all (\<lambda>(c, ok). cmd_ok key_of c) cs"
  shows "inv (run cs t) \<and> lookup (run cs t) =
    fold (\<lambda>(c, ok) m. case cmd_spec key_of c m of Some m' \<Rightarrow> if ok then m' else m | None \<Rightarrow> m) cs (lookup t)"
  using assms
proof (induction cs arbitrary: t)
  case (Cons x cs)
  obtain c ok where x: "x = (c, ok)" by (cases x)
  have c: "cmd_ok key_of c" using Cons.prems x by simp
  define t1 where "t1 = (case exec c t of Some t' \<Rightarrow> if ok then t' else t | None \<Rightarrow> t)"
  have "inv t1" using Cons.prems exec_inv [OF _ c] by (auto simp: t1_def split: option.split)
  moreover have "lookup t1 = (case cmd_spec key_of c (lookup t) of Some m' \<Rightarrow> if ok then m' else lookup t | None \<Rightarrow> lookup t)"
    using exec_refines [OF Cons.prems(1) c] by (auto simp: t1_def split: option.splits)
  ultimately show ?case using Cons.IH [of t1] Cons.prems by (simp add: x t1_def)
qed simp

end

end
