(* ===== verification/Time_Format.thy ===== *)
theory Time_Format
  imports Calendar Go_Strings
begin

text \<open>
  The texts the plugin writes times as and reads them from: \<open>time.Format\<close> with its RFC 3339
  layout and the layouts of the delivery keys and period keys, and \<open>time.Parse\<close> on the RFC 3339
  texts it wrote (without fractions of a second, which the layout does not write).  Years are
  0 to 9999.
\<close>

section \<open>Padded numbers\<close>

fun digits_of :: "nat \<Rightarrow> nat \<Rightarrow> string" where
  "digits_of 0 n = []"
| "digits_of (Suc k) n = digits_of k (n div 10) @ [digit_char (n mod 10)]"

definition pad :: "nat \<Rightarrow> int \<Rightarrow> string" where
  "pad k n = (if nat n < 10 ^ k then digits_of k (nat n) else itoa (nat n))"

lemma digits_of_length [simp]: "length (digits_of k n) = k"
  by (induction k arbitrary: n) simp_all

lemma digits_of_digits: "list_all is_digit (digits_of k n)"
  by (induction k arbitrary: n) simp_all

lemma digits_value_snoc: "digits_value (ds @ [d]) = digits_value ds * 10 + digit_val d"
  by (simp add: digits_value_def)

lemma digits_of_value: "n < 10 ^ k \<Longrightarrow> digits_value (digits_of k n) = int n"
proof (induction k arbitrary: n)
  case 0
  then show ?case by (simp add: digits_value_def)
next
  case (Suc k)
  then have "n div 10 < 10 ^ k" by (simp add: less_mult_imp_div_less mult.commute)
  from Suc.IH [OF this] have "digits_value (digits_of (Suc k) n) = int (n div 10) * 10 + int (n mod 10)"
    by (simp add: digits_value_snoc)
  also have "\<dots> = int n"
    using div_mult_mod_eq [of n 10] by (metis of_nat_add of_nat_mult of_nat_numeral)
  finally show ?case .
qed

lemma pad_length: "0 \<le> n \<Longrightarrow> n < 10 ^ k \<Longrightarrow> length (pad k n) = k"
  by (simp add: pad_def nat_less_iff)

lemma pad_read:
  assumes "0 \<le> n" "n < 10 ^ k"
  shows "list_all is_digit (pad k n) \<and> digits_value (pad k n) = n"
  using assms digits_of_value [of "nat n" k] digits_of_digits by (simp add: pad_def nat_less_iff)

section \<open>Texts of an instant\<close>

definition time_secs :: "location \<Rightarrow> instant \<Rightarrow> int" where
  "time_secs loc t = (t div second + loc) mod 86400"

definition format_date :: "location \<Rightarrow> instant \<Rightarrow> string" where
  "format_date loc t = pad 4 (time_Year loc t) @ ''-'' @ pad 2 (time_Month loc t) @ ''-'' @ pad 2 (time_Day loc t)"

definition format_clock :: "location \<Rightarrow> instant \<Rightarrow> string" where
  "format_clock loc t =
     (let s = time_secs loc t
      in pad 2 (s div 3600) @ '':'' @ pad 2 (s div 60 mod 60) @ '':'' @ pad 2 (s mod 60))"

definition format_zone :: "location \<Rightarrow> string" where
  "format_zone loc =
     (if loc = 0 then ''Z''
      else (if loc < 0 then ''-'' else ''+'') @ pad 2 (\<bar>loc\<bar> div 3600) @ '':'' @ pad 2 (\<bar>loc\<bar> div 60 mod 60))"

definition format_rfc3339 :: "location \<Rightarrow> instant \<Rightarrow> string" where
  "format_rfc3339 loc t = format_date loc t @ ''T'' @ format_clock loc t @ format_zone loc"

text \<open>The layout \<open>20060102150405.000000000\<close> of the delivery keys, in UTC.\<close>

definition format_stamp :: "instant \<Rightarrow> string" where
  "format_stamp t =
     pad 4 (time_Year 0 t) @ pad 2 (time_Month 0 t) @ pad 2 (time_Day 0 t) @
     (let s = time_secs 0 t in pad 2 (s div 3600) @ pad 2 (s div 60 mod 60) @ pad 2 (s mod 60)) @
     ''.'' @ pad 9 (t mod second)"

section \<open>Reading\<close>

definition number_at :: "nat \<Rightarrow> nat \<Rightarrow> string \<Rightarrow> int option" where
  "number_at i k s =
     (let w = take k (drop i s) in if length w = k \<and> list_all is_digit w then Some (digits_value w) else None)"

definition parse_zone :: "string \<Rightarrow> location option" where
  "parse_zone z =
     (if z = ''Z'' then Some 0
      else case (number_at 1 2 z, number_at 4 2 z) of
        (Some h, Some m) \<Rightarrow>
          if length z = 6 \<and> (hd z = CHR ''+'' \<or> hd z = CHR ''-'') \<and> z ! 3 = CHR '':'' \<and> h \<le> 24 \<and> m < 60
          then Some ((if hd z = CHR ''-'' then -1 else 1) * (h * 3600 + m * 60)) else None
      | _ \<Rightarrow> None)"

definition parse_rfc3339 :: "string \<Rightarrow> instant option" where
  "parse_rfc3339 s =
     (case (number_at 0 4 s, number_at 5 2 s, number_at 8 2 s, number_at 11 2 s, number_at 14 2 s,
            number_at 17 2 s, parse_zone (drop 19 s)) of
        (Some y, Some mo, Some d, Some h, Some mi, Some sec, Some loc) \<Rightarrow>
          if s ! 4 = CHR ''-'' \<and> s ! 7 = CHR ''-'' \<and> s ! 10 = CHR ''T'' \<and> s ! 13 = CHR '':'' \<and> s ! 16 = CHR '':'' \<and>
             valid_date y mo d \<and> clock_ok h mi sec
          then Some (time_Date loc y mo d h mi sec) else None
      | _ \<Rightarrow> None)"

lemmas [go_simps] =
  digits_of.simps pad_def time_secs_def format_date_def format_clock_def format_zone_def format_rfc3339_def
  format_stamp_def number_at_def parse_zone_def parse_rfc3339_def valid_date_def clock_ok_def

lemma digits_of_numeral [go_simps]:
  "digits_of (numeral k) n = digits_of (pred_numeral k) (n div 10) @ [digit_char (n mod 10)]"
  by (simp only: numeral_eq_Suc digits_of.simps)

section \<open>A written time is read back to the second\<close>

lemma number_at_here:
  assumes "length u = i" "length w = k" "list_all is_digit w"
  shows "number_at i k (u @ w @ v) = Some (digits_value w)"
  using assms by (simp add: number_at_def)

definition year_ok :: "location \<Rightarrow> instant \<Rightarrow> bool" where
  "year_ok loc t \<longleftrightarrow> 0 \<le> time_Year loc t \<and> time_Year loc t \<le> 9999"

lemma time_secs_split:
  fixes loc t
  defines "s \<equiv> time_secs loc t"
  shows "clock_ok (s div 3600) (s div 60 mod 60) (s mod 60)"
    "s div 3600 * 3600 + s div 60 mod 60 * 60 + s mod 60 = s"
proof -
  have s: "0 \<le> s" "s < 86400" by (simp_all add: s_def time_secs_def)
  then show "clock_ok (s div 3600) (s div 60 mod 60) (s mod 60)" by (auto simp: clock_ok_def)
  have "s div 60 = s div 3600 * 60 + s div 60 mod 60"
    using div_mult_mod_eq [of "s div 60" 60] by (simp add: div_mult2_eq [symmetric] flip: zdiv_zmult2_eq)
  moreover have "s = s div 60 * 60 + s mod 60" by simp
  ultimately show "s div 3600 * 3600 + s div 60 mod 60 * 60 + s mod 60 = s" by linarith
qed

lemma time_Date_civil:
  "time_Date loc (time_Year loc t) (time_Month loc t) (time_Day loc t)
     (time_secs loc t div 3600) (time_secs loc t div 60 mod 60) (time_secs loc t mod 60) = t div second * second"
proof -
  let ?n = "local_day loc t"
  have d: "date_day (time_Year loc t) (time_Month loc t) (time_Day loc t) = ?n"
    using civil_valid [of ?n] by (simp add: time_Year_def time_Month_def time_Day_def)
  have "(?n - unix_epoch_day) * 86400 + time_secs loc t = t div second + loc"
    by (simp add: local_day_def time_secs_def)
  with time_secs_split(2) [of loc t] d show ?thesis
    unfolding time_Date_def by (simp add: add.assoc)
qed

lemma civil_ranges:
  "valid_date (time_Year loc t) (time_Month loc t) (time_Day loc t)"
  "0 \<le> time_Month loc t" "time_Month loc t < 100" "0 \<le> time_Day loc t" "time_Day loc t < 100"
proof -
  show v: "valid_date (time_Year loc t) (time_Month loc t) (time_Day loc t)"
    using civil_valid by (simp add: time_Year_def time_Month_def time_Day_def)
  then show "0 \<le> time_Month loc t" "time_Month loc t < 100" "0 \<le> time_Day loc t" "time_Day loc t < 100"
    using days_in_month_bounds [of "time_Month loc t" "time_Year loc t"] by (auto simp: valid_date_def)
qed

lemma parse_format_rfc3339:
  assumes "year_ok loc t" and "parse_zone (format_zone loc) = Some loc"
  shows "parse_rfc3339 (format_rfc3339 loc t) = Some (t div second * second)"
proof -
  define y mo d where "y = time_Year loc t" and "mo = time_Month loc t" and "d = time_Day loc t"
  define s where "s = time_secs loc t"
  define h mi se where "h = s div 3600" and "mi = s div 60 mod 60" and "se = s mod 60"
  have ck: "clock_ok h mi se" using time_secs_split(1) [of loc t] by (simp add: h_def mi_def se_def s_def)
  then have r: "0 \<le> h" "h < 100" "0 \<le> mi" "mi < 100" "0 \<le> se" "se < 100" by (auto simp: clock_ok_def)
  have c: "0 \<le> y" "y < 10 ^ 4" "0 \<le> mo" "mo < 100" "0 \<le> d" "d < 100" "valid_date y mo d"
    using assms(1) civil_ranges [of loc t] by (auto simp: year_ok_def y_def mo_def d_def)
  let ?s = "format_rfc3339 loc t"
  have f: "?s = pad 4 y @ ''-'' @ pad 2 mo @ ''-'' @ pad 2 d @ ''T'' @ pad 2 h @ '':'' @ pad 2 mi @ '':'' @ pad 2 se @ format_zone loc"
    by (simp add: format_rfc3339_def format_date_def format_clock_def Let_def y_def mo_def d_def h_def mi_def se_def s_def)
  have l: "length (pad 4 y) = 4" "length (pad 2 mo) = 2" "length (pad 2 d) = 2" "length (pad 2 h) = 2"
    "length (pad 2 mi) = 2" "length (pad 2 se) = 2"
    using c r by (auto intro!: pad_length)
  have g: "list_all is_digit (pad 4 y) \<and> digits_value (pad 4 y) = y" "list_all is_digit (pad 2 mo) \<and> digits_value (pad 2 mo) = mo"
    "list_all is_digit (pad 2 d) \<and> digits_value (pad 2 d) = d" "list_all is_digit (pad 2 h) \<and> digits_value (pad 2 h) = h"
    "list_all is_digit (pad 2 mi) \<and> digits_value (pad 2 mi) = mi" "list_all is_digit (pad 2 se) \<and> digits_value (pad 2 se) = se"
    using c r by (auto intro!: pad_read)
  have n: "number_at 0 4 ?s = Some y" "number_at 5 2 ?s = Some mo" "number_at 8 2 ?s = Some d"
    "number_at 11 2 ?s = Some h" "number_at 14 2 ?s = Some mi" "number_at 17 2 ?s = Some se" "drop 19 ?s = format_zone loc"
    unfolding f by (simp_all add: number_at_def l g drop_Cons')
  have p: "?s ! 4 = CHR ''-''" "?s ! 7 = CHR ''-''" "?s ! 10 = CHR ''T''" "?s ! 13 = CHR '':''" "?s ! 16 = CHR '':''"
    unfolding f by (simp_all add: nth_append l)
  have "parse_rfc3339 ?s = Some (time_Date loc y mo d h mi se)"
    by (simp add: parse_rfc3339_def n p assms(2) ck c)
  also have "time_Date loc y mo d h mi se = t div second * second"
    using time_Date_civil [of loc t] by (simp add: y_def mo_def d_def h_def mi_def se_def s_def)
  finally show ?thesis .
qed

lemma zone_CST: "parse_zone (format_zone NotificationLocation) = Some NotificationLocation"
  by (simp add: go_simps)

end
