(* ===== verification/Notification_Store.thy ===== *)
theory Notification_Store
  imports Time_Format State_Types "HOL-Library.List_Lexorder" "HOL-Library.Char_ord"
begin

text \<open>
  The run-state store of the notifications (\<open>notification_store.go\<close>, with the store operations of
  \<open>notification_service.go\<close> and \<open>notification_management.go\<close>): the config revision, the jobs, the
  delivery records, the snapshots and the clocks, each a bucket of a bbolt file.

  bbolt is a parameter: a bucket is a value of any type with \<open>Get\<close>, \<open>Put\<close>, which may fail, and the
  entries its cursor visits.  \<open>bolt_ok\<close> states what bbolt documents of them.  \<open>openNotificationStore\<close>
  creates the five buckets and nothing deletes one, so the buckets are fields and the checks
  for a missing bucket have no counterpart.  \<open>json.Marshal\<close> and \<open>json.Unmarshal\<close> of the stored
  records are parameters too.  A write transaction is applied or not applied as a whole.
\<close>

section \<open>The key-value store\<close>

record 'b bolt =
  bk_get :: "'b \<Rightarrow> string \<Rightarrow> bytes option"
  bk_put :: "'b \<Rightarrow> string \<Rightarrow> bytes \<Rightarrow> 'b option"
  bk_entries :: "'b \<Rightarrow> (string \<times> bytes) list"

definition bolt_ok :: "'b bolt \<Rightarrow> bool" where
  "bolt_ok B \<longleftrightarrow>
     (\<forall>b. sorted_wrt (<) (map fst (bk_entries B b))) \<and>
     (\<forall>b k. bk_get B b k = map_of (bk_entries B b) k) \<and>
     (\<forall>b k v b'. bk_put B b k v = Some b' \<longrightarrow> map_of (bk_entries B b') = (map_of (bk_entries B b))(k \<mapsto> v))"

record 'b db =
  db_revision :: 'b
  db_jobs :: 'b
  db_deliveries :: 'b
  db_snapshots :: 'b
  db_clock :: 'b

section \<open>The records\<close>

definition jobPending :: string where "jobPending = ''pending''"
definition jobSending :: string where "jobSending = ''sending''"
definition jobSent :: string where "jobSent = ''sent''"
definition jobFailed :: string where "jobFailed = ''failed''"
definition jobUnknown :: string where "jobUnknown = ''unknown''"
definition jobSuperseded :: string where "jobSuperseded = ''superseded''"

definition deliveryAccepted :: string where "deliveryAccepted = ''accepted''"
definition deliveryFailed :: string where "deliveryFailed = ''failed''"
definition deliveryUnknown :: string where "deliveryUnknown = ''unknown''"

lemmas job_states [go_simps] =
  jobPending_def jobSending_def jobSent_def jobFailed_def jobUnknown_def jobSuperseded_def
lemmas outcomes [go_simps] = deliveryAccepted_def deliveryFailed_def deliveryUnknown_def

record notificationJob =
  j_ID :: string
  j_KeyFingerprint :: string
  j_NotificationID :: string
  j_Platform :: PlatformKind
  j_Channel :: string
  j_PeriodKey :: string
  j_State :: string
  j_Payload :: bytes
  j_MergedCount :: int
  j_Attempts :: int
  j_Revision :: "64 word"
  j_NextAttempt :: instant
  j_CreatedAt :: instant
  j_UpdatedAt :: instant

record deliveryRecord =
  d_ID :: string
  d_JobID :: string
  d_KeyFingerprint :: string
  d_NotificationID :: string
  d_Platform :: PlatformKind
  d_PeriodKey :: string
  d_Outcome :: string
  d_ErrorCode :: string
  d_Detail :: string
  d_CreatedAt :: instant

record DeliveryFilter =
  f_KeyFingerprint :: string
  f_NotificationID :: string
  f_Platform :: PlatformKind
  f_Outcome :: string
  f_Limit :: int

record storeCodec =
  encJob :: "notificationJob \<Rightarrow> bytes option"
  decJob :: "bytes \<Rightarrow> notificationJob option"
  encDelivery :: "deliveryRecord \<Rightarrow> bytes option"
  decDelivery :: "bytes \<Rightarrow> deliveryRecord option"

text \<open>What is written is read back: the law of the codec.\<close>

definition codec_ok :: "storeCodec \<Rightarrow> bool" where
  "codec_ok S \<longleftrightarrow>
     (\<forall>j v. encJob S j = Some v \<longrightarrow> decJob S v = Some j) \<and>
     (\<forall>r v. encDelivery S r = Some v \<longrightarrow> decDelivery S v = Some r)"

text \<open>One operation's environment: bbolt, the codec, the clock, and whether the transaction commits.\<close>

record 'b storeEnv =
  se_bolt :: "'b bolt"
  se_codec :: storeCodec
  se_now :: instant
  se_commits :: bool

datatype store_error = EncodeFailed | PutFailed | CommitFailed | JobNotFound string | UnknownOutcome string

definition db_Update :: "'b storeEnv \<Rightarrow> ('b db \<Rightarrow> store_error + 'r \<times> 'b db) \<Rightarrow> 'b db \<Rightarrow> (store_error + 'r) \<times> 'b db" where
  "db_Update e f db =
     (case f db of
        Inl err \<Rightarrow> (Inl err, db)
      | Inr (r, db') \<Rightarrow> if se_commits e then (Inr r, db') else (Inl CommitFailed, db))"

definition put_in :: "'b storeEnv \<Rightarrow> 'b \<Rightarrow> string \<Rightarrow> bytes \<Rightarrow> store_error + 'b" where
  "put_in e b k v = (case bk_put (se_bolt e) b k v of None \<Rightarrow> Inl PutFailed | Some b' \<Rightarrow> Inr b')"

definition put_job :: "'b storeEnv \<Rightarrow> 'b \<Rightarrow> string \<Rightarrow> notificationJob \<Rightarrow> store_error + 'b" where
  "put_job e b k j = (case encJob (se_codec e) j of None \<Rightarrow> Inl EncodeFailed | Some v \<Rightarrow> put_in e b k v)"

text \<open>The entries a cursor loop decodes, undecodable ones skipped.\<close>

definition jobs_of :: "'b storeEnv \<Rightarrow> 'b \<Rightarrow> (string \<times> notificationJob) list" where
  "jobs_of e b =
     List.map_filter (\<lambda>(k, v). map_option (Pair k) (decJob (se_codec e) v)) (bk_entries (se_bolt e) b)"

definition job_at :: "'b storeEnv \<Rightarrow> 'b \<Rightarrow> string \<Rightarrow> notificationJob option" where
  "job_at e b k =
     (case bk_get (se_bolt e) b k of None \<Rightarrow> None | Some v \<Rightarrow> decJob (se_codec e) v)"

section \<open>The revision\<close>

text \<open>\<open>binary.BigEndian\<close> on eight bytes.\<close>

definition putUint64 :: "64 word \<Rightarrow> bytes" where
  "putUint64 w = map (\<lambda>i. char_of (unat (drop_bit (8 * i) w) mod 256)) [7, 6, 5, 4, 3, 2, 1, 0]"

definition uint64_of :: "bytes \<Rightarrow> 64 word" where
  "uint64_of raw = fold (\<lambda>c n. n * 256 + of_nat (of_char c)) raw 0"

definition revisionStoreKey :: string where "revisionStoreKey = ''revision''"

definition readRevision :: "'b storeEnv \<Rightarrow> 'b db \<Rightarrow> 64 word" where
  "readRevision e db =
     (case bk_get (se_bolt e) (db_revision db) revisionStoreKey of
        None \<Rightarrow> 0 | Some raw \<Rightarrow> if length raw \<noteq> 8 then 0 else uint64_of raw)"

definition BumpRevision :: "'b storeEnv \<Rightarrow> 'b db \<Rightarrow> (store_error + 64 word) \<times> 'b db" where
  "BumpRevision e db =
     db_Update e (\<lambda>db.
       let rev = readRevision e db + 1
       in sum_bind (put_in e (db_revision db) revisionStoreKey (putUint64 rev))
            (\<lambda>b. Inr (rev, db\<lparr>db_revision := b\<rparr>))) db"

section \<open>Keys\<close>

definition jobKey :: "notificationJob \<Rightarrow> string" where
  "jobKey j =
     (let ch = (if j_Channel j = [] then ''-'' else j_Channel j)
      in j_KeyFingerprint j @ ''/'' @ j_NotificationID j @ ''/'' @ ch @ ''/'' @ j_Platform j @ ''/'' @ j_PeriodKey j)"

definition clockKey :: "string \<Rightarrow> string \<Rightarrow> string \<Rightarrow> string" where
  "clockKey notificationID scope channel =
     (let channel = (if channel = [] then ''-'' else channel)
      in notificationID @ ''/'' @ scope @ ''/'' @ channel)"

section \<open>Clocks\<close>

definition Clock :: "'b storeEnv \<Rightarrow> string \<Rightarrow> string \<Rightarrow> string \<Rightarrow> 'b db \<Rightarrow> instant option" where
  "Clock e notificationID scope channel db =
     (case bk_get (se_bolt e) (db_clock db) (clockKey notificationID scope channel) of
        None \<Rightarrow> None | Some raw \<Rightarrow> if raw = [] then None else parse_rfc3339 raw)"

definition SetClock :: "'b storeEnv \<Rightarrow> string \<Rightarrow> string \<Rightarrow> string \<Rightarrow> instant \<Rightarrow> 'b db \<Rightarrow> (store_error + unit) \<times> 'b db" where
  "SetClock e notificationID scope channel t db =
     db_Update e (\<lambda>db.
       sum_bind (put_in e (db_clock db) (clockKey notificationID scope channel)
                   (format_rfc3339 NotificationLocation t))
         (\<lambda>b. Inr ((), db\<lparr>db_clock := b\<rparr>))) db"

section \<open>Jobs\<close>

definition mergeJob :: "'b storeEnv \<Rightarrow> notificationJob \<Rightarrow> notificationJob \<Rightarrow> notificationJob" where
  "mergeJob e existing j =
     existing\<lparr>j_Payload := j_Payload j, j_NextAttempt := j_NextAttempt j, j_Revision := j_Revision j,
       j_MergedCount := wrap64 (j_MergedCount existing + 1), j_UpdatedAt := se_now e\<rparr>"

definition freshJob :: "'b storeEnv \<Rightarrow> 'b db \<Rightarrow> notificationJob \<Rightarrow> notificationJob" where
  "freshJob e db j =
     j\<lparr>j_MergedCount := 1, j_UpdatedAt := se_now e, j_Revision := readRevision e db,
       j_CreatedAt := (if j_CreatedAt j = zero_time then se_now e else j_CreatedAt j)\<rparr>"

definition UpsertJob :: "'b storeEnv \<Rightarrow> notificationJob \<Rightarrow> 'b db \<Rightarrow> (store_error + int) \<times> 'b db" where
  "UpsertJob e j db =
     db_Update e (\<lambda>db.
       let key = jobKey j;
           stored = (case job_at e (db_jobs db) key of
             Some existing \<Rightarrow> if j_State existing = jobPending then mergeJob e existing j else freshJob e db j
           | None \<Rightarrow> freshJob e db j)
       in sum_bind (put_job e (db_jobs db) key stored)
            (\<lambda>b. Inr (j_MergedCount stored, db\<lparr>db_jobs := b\<rparr>))) db"

definition due_keys :: "'b storeEnv \<Rightarrow> instant \<Rightarrow> int \<Rightarrow> 'b \<Rightarrow> string list" where
  "due_keys e now limit b =
     (let ks = map fst (filter (\<lambda>(k, j). j_State j = jobPending \<and> j_NextAttempt j \<le> now) (jobs_of e b))
      in if 0 < limit then take (nat limit) ks else ks)"

fun claim_loop :: "'b storeEnv \<Rightarrow> string list \<Rightarrow> 'b \<Rightarrow> store_error + notificationJob list \<times> 'b" where
  "claim_loop e [] b = Inr ([], b)"
| "claim_loop e (k # ks) b =
     (case job_at e b k of
        None \<Rightarrow> claim_loop e ks b
      | Some j \<Rightarrow>
        (let j = j\<lparr>j_State := jobSending, j_UpdatedAt := se_now e\<rparr>
         in sum_bind (put_job e b k j) (\<lambda>b.
              sum_bind (claim_loop e ks b) (\<lambda>(claimed, b). Inr (j # claimed, b)))))"

definition ClaimDueJobs :: "'b storeEnv \<Rightarrow> instant \<Rightarrow> int \<Rightarrow> 'b db \<Rightarrow> (store_error + notificationJob list) \<times> 'b db" where
  "ClaimDueJobs e now limit db =
     db_Update e (\<lambda>db.
       sum_bind (claim_loop e (due_keys e now limit (db_jobs db)) (db_jobs db))
         (\<lambda>(claimed, b). Inr (claimed, db\<lparr>db_jobs := b\<rparr>))) db"

definition jobStateForOutcome :: "string \<Rightarrow> store_error + string" where
  "jobStateForOutcome outcome =
     (if outcome = deliveryAccepted then Inr jobSent
      else if outcome = deliveryFailed then Inr jobFailed
      else if outcome = deliveryUnknown then Inr jobUnknown
      else Inl (UnknownOutcome outcome))"

definition appendDelivery :: "'b storeEnv \<Rightarrow> deliveryRecord \<Rightarrow> 'b \<Rightarrow> store_error + 'b" where
  "appendDelivery e rec b =
     (case encDelivery (se_codec e) rec of
        None \<Rightarrow> Inl EncodeFailed
      | Some v \<Rightarrow> put_in e b (format_stamp (d_CreatedAt rec) @ ''/'' @ d_ID rec) v)"

definition delivery_for :: "notificationJob \<Rightarrow> string \<Rightarrow> string \<Rightarrow> string \<Rightarrow> string \<Rightarrow> instant \<Rightarrow> deliveryRecord" where
  "delivery_for j rid outcome errCode detail now =
     \<lparr>d_ID = rid, d_JobID = j_ID j, d_KeyFingerprint = j_KeyFingerprint j, d_NotificationID = j_NotificationID j,
      d_Platform = j_Platform j, d_PeriodKey = j_PeriodKey j, d_Outcome = outcome, d_ErrorCode = errCode,
      d_Detail = detail, d_CreatedAt = now\<rparr>"

definition FinishJob :: "'b storeEnv \<Rightarrow> string \<Rightarrow> string \<Rightarrow> string \<Rightarrow> string \<Rightarrow> 'b db \<Rightarrow> (store_error + unit) \<times> 'b db" where
  "FinishJob e i outcome errCode detail db =
     db_Update e (\<lambda>db.
       case find (\<lambda>(k, j). j_ID j = i) (jobs_of e (db_jobs db)) of
         None \<Rightarrow> Inl (JobNotFound i)
       | Some (key, j) \<Rightarrow>
         sum_bind (jobStateForOutcome outcome) (\<lambda>st.
         sum_bind (put_job e (db_jobs db) key (j\<lparr>j_State := st, j_UpdatedAt := se_now e\<rparr>)) (\<lambda>jb.
         sum_bind (appendDelivery e
             (delivery_for j (itoa (nat (se_now e)) @ ''-'' @ i) outcome errCode detail (se_now e)) (db_deliveries db))
           (\<lambda>b. Inr ((), db\<lparr>db_jobs := jb, db_deliveries := b\<rparr>))))) db"

fun recover_loop :: "'b storeEnv \<Rightarrow> (string \<times> notificationJob) list \<Rightarrow> 'b \<times> 'b \<Rightarrow> store_error + 'b \<times> 'b" where
  "recover_loop e [] bs = Inr bs"
| "recover_loop e ((k, j) # rest) (jb, b) =
     sum_bind (put_job e jb k (j\<lparr>j_State := jobUnknown, j_UpdatedAt := se_now e\<rparr>)) (\<lambda>jb.
     sum_bind (appendDelivery e
         (delivery_for j (''recover-'' @ j_ID j) deliveryUnknown ''restart_during_send''
            ''plugin restart interrupted in-flight delivery'' (se_now e)) b) (\<lambda>b.
     recover_loop e rest (jb, b)))"

definition RecoverOnBoot :: "'b storeEnv \<Rightarrow> 'b db \<Rightarrow> (store_error + unit) \<times> 'b db" where
  "RecoverOnBoot e db =
     db_Update e (\<lambda>db.
       sum_bind (recover_loop e (filter (\<lambda>(k, j). j_State j = jobSending) (jobs_of e (db_jobs db)))
                   (db_jobs db, db_deliveries db))
         (\<lambda>(jb, b). Inr ((), db\<lparr>db_jobs := jb, db_deliveries := b\<rparr>))) db"

text \<open>\<open>supersededStaleJobs\<close> of \<open>notification_service.go\<close>.\<close>

fun supersede_loop :: "'b storeEnv \<Rightarrow> (string \<times> notificationJob) list \<Rightarrow> 'b \<Rightarrow> store_error + 'b" where
  "supersede_loop e [] b = Inr b"
| "supersede_loop e ((k, j) # rest) b =
     sum_bind (put_job e b k (j\<lparr>j_State := jobSuperseded, j_UpdatedAt := se_now e\<rparr>)) (supersede_loop e rest)"

definition supersededStaleJobs :: "'b storeEnv \<Rightarrow> 64 word \<Rightarrow> 'b db \<Rightarrow> (store_error + int) \<times> 'b db" where
  "supersededStaleJobs e cur db =
     db_Update e (\<lambda>db.
       let stale = filter (\<lambda>(k, j). j_State j = jobPending \<and> j_Revision j < cur) (jobs_of e (db_jobs db))
       in sum_bind (supersede_loop e stale (db_jobs db)) (\<lambda>b. Inr (int (length stale), db\<lparr>db_jobs := b\<rparr>))) db"

text \<open>The read-only searches over the jobs.\<close>

definition pendingJobExists :: "'b storeEnv \<Rightarrow> string \<Rightarrow> string \<Rightarrow> PlatformKind \<Rightarrow> string \<Rightarrow> 'b db \<Rightarrow> bool" where
  "pendingJobExists e fingerprint notificationID platform channel db \<longleftrightarrow>
     list_ex (\<lambda>(k, j). (j_State j = jobPending \<or> j_State j = jobSending) \<and> j_KeyFingerprint j = fingerprint \<and>
        j_NotificationID j = notificationID \<and> j_Platform j = platform \<and> j_Channel j = channel) (jobs_of e (db_jobs db))"

definition pendingJobIDFor :: "'b storeEnv \<Rightarrow> string \<Rightarrow> string \<Rightarrow> PlatformKind \<Rightarrow> string \<Rightarrow> 'b db \<Rightarrow> string" where
  "pendingJobIDFor e fingerprint notificationID platform periodKey db =
     (case find (\<lambda>(k, j). j_State j = jobPending \<and> j_KeyFingerprint j = fingerprint \<and>
          j_NotificationID j = notificationID \<and> j_Platform j = platform \<and> j_PeriodKey j = periodKey)
        (jobs_of e (db_jobs db)) of None \<Rightarrow> [] | Some (k, j) \<Rightarrow> j_ID j)"

definition jobByID :: "'b storeEnv \<Rightarrow> string \<Rightarrow> 'b db \<Rightarrow> notificationJob option" where
  "jobByID e i db = map_option snd (find (\<lambda>(k, j). j_ID j = i) (jobs_of e (db_jobs db)))"

section \<open>Deliveries\<close>

definition deliveries_of :: "'b storeEnv \<Rightarrow> 'b \<Rightarrow> deliveryRecord list" where
  "deliveries_of e b =
     List.map_filter (\<lambda>(k, v). decDelivery (se_codec e) v) (bk_entries (se_bolt e) b)"

definition matchesFilter :: "DeliveryFilter \<Rightarrow> deliveryRecord \<Rightarrow> bool" where
  "matchesFilter f r \<longleftrightarrow>
     (f_KeyFingerprint f = [] \<or> d_KeyFingerprint r = f_KeyFingerprint f) \<and>
     (f_NotificationID f = [] \<or> d_NotificationID r = f_NotificationID f) \<and>
     (f_Platform f = [] \<or> d_Platform r = f_Platform f) \<and>
     (f_Outcome f = [] \<or> d_Outcome r = f_Outcome f)"

definition Deliveries :: "'b storeEnv \<Rightarrow> DeliveryFilter \<Rightarrow> 'b db \<Rightarrow> deliveryRecord list" where
  "Deliveries e f db =
     (let rows = filter (matchesFilter f) (rev (deliveries_of e (db_deliveries db)))
      in if 0 < f_Limit f then take (nat (f_Limit f)) rows else rows)"

definition deliveryByID :: "'b storeEnv \<Rightarrow> string \<Rightarrow> 'b db \<Rightarrow> deliveryRecord option" where
  "deliveryByID e i db = find (\<lambda>r. d_ID r = i) (deliveries_of e (db_deliveries db))"

definition latestDeliveryIDFor :: "'b storeEnv \<Rightarrow> string \<Rightarrow> string \<Rightarrow> PlatformKind \<Rightarrow> string \<Rightarrow> 'b db \<Rightarrow> string" where
  "latestDeliveryIDFor e fingerprint notificationID platform jobID db =
     (case find (\<lambda>r. d_JobID r = jobID)
        (Deliveries e \<lparr>f_KeyFingerprint = fingerprint, f_NotificationID = notificationID,
            f_Platform = platform, f_Outcome = [], f_Limit = 100\<rparr> db) of
        None \<Rightarrow> [] | Some r \<Rightarrow> d_ID r)"

section \<open>Snapshots\<close>

text \<open>\<open>sn_CostUSD\<close> is the float's bits; nothing here computes with it.  \<open>hash\<close> is \<open>sha256.Sum256\<close>.\<close>

record snapshotRecord =
  sn_KeyFingerprint :: string
  sn_AuthIndex :: string
  sn_Channel :: string
  sn_PeriodKey :: string
  sn_Tokens :: int
  sn_CostUSD :: "64 word"
  sn_CostAvailable :: bool
  sn_Plan :: string
  sn_ResetCards :: "int option"
  sn_CoverageStart :: string
  sn_CoverageEnd :: string
  sn_FetchedAt :: string
  sn_Incomplete :: bool

definition hex_digit :: "nat \<Rightarrow> char" where
  "hex_digit n = (if n < 10 then digit_char n else char_of (87 + n))"

definition hex_encode :: "bytes \<Rightarrow> string" where
  "hex_encode raw = concat (map (\<lambda>c. [hex_digit (of_char c div 16), hex_digit (of_char c mod 16)]) raw)"

definition keyFingerprint :: "(bytes \<Rightarrow> bytes) \<Rightarrow> string \<Rightarrow> string" where
  "keyFingerprint hash key = take 16 (hex_encode (hash key))"

fun put_rows :: "'b storeEnv \<Rightarrow> (snapshotRecord \<Rightarrow> bytes option) \<Rightarrow> string \<Rightarrow> int \<Rightarrow> snapshotRecord list \<Rightarrow> 'b \<Rightarrow> store_error + 'b" where
  "put_rows e enc fp seq [] b = Inr b"
| "put_rows e enc fp seq (row # rows) b =
     (let row = row\<lparr>sn_KeyFingerprint := fp\<rparr>
      in case enc row of
        None \<Rightarrow> Inl EncodeFailed
      | Some v \<Rightarrow>
        sum_bind (put_in e b (fp @ ''/'' @ sn_PeriodKey row @ ''/'' @ itoa (nat seq)) v)
          (put_rows e enc fp (seq + 1) rows))"

definition PutSnapshots ::
    "'b storeEnv \<Rightarrow> (bytes \<Rightarrow> bytes) \<Rightarrow> (snapshotRecord \<Rightarrow> bytes option) \<Rightarrow> string \<Rightarrow> snapshotRecord list \<Rightarrow> 'b db \<Rightarrow>
     (store_error + unit) \<times> 'b db" where
  "PutSnapshots e hash enc key rows db =
     db_Update e (\<lambda>db.
       sum_bind (put_rows e enc (keyFingerprint hash key) (se_now e) rows (db_snapshots db))
         (\<lambda>b. Inr ((), db\<lparr>db_snapshots := b\<rparr>))) db"

definition SnapshotsFor ::
    "'b storeEnv \<Rightarrow> (bytes \<Rightarrow> snapshotRecord option) \<Rightarrow> string \<Rightarrow> string \<Rightarrow> 'b db \<Rightarrow> snapshotRecord list" where
  "SnapshotsFor e dec fingerprint periodKeyPrefix db =
     List.map_filter (\<lambda>(k, v). if prefix (fingerprint @ ''/'' @ periodKeyPrefix) k then dec v else None)
       (rev (bk_entries (se_bolt e) (db_snapshots db)))"

section \<open>The jobs as a map\<close>

text \<open>What an operation's environment must satisfy.\<close>

definition env_ok :: "'b storeEnv \<Rightarrow> bool" where
  "env_ok e \<longleftrightarrow> bolt_ok (se_bolt e) \<and> codec_ok (se_codec e)"

lemma bolt_keys_distinct: "bolt_ok B \<Longrightarrow> distinct (map fst (bk_entries B b))"
  unfolding bolt_ok_def by (meson strict_sorted_iff)

lemma entries_get: "bolt_ok B \<Longrightarrow> (k, v) \<in> set (bk_entries B b) \<longleftrightarrow> bk_get B b k = Some v"
  using bolt_keys_distinct [of B b] by (simp add: bolt_ok_def)

lemma jobs_of_set:
  assumes "env_ok e"
  shows "(k, j) \<in> set (jobs_of e b) \<longleftrightarrow> job_at e b k = Some j"
proof -
  have "(k, j) \<in> set (jobs_of e b) \<longleftrightarrow>
      (\<exists>v. (k, v) \<in> set (bk_entries (se_bolt e) b) \<and> decJob (se_codec e) v = Some j)"
    unfolding jobs_of_def map_filter_mem by force
  also have "\<dots> \<longleftrightarrow> job_at e b k = Some j"
    using assms by (auto simp: env_ok_def entries_get job_at_def split: option.splits)
  finally show ?thesis .
qed

lemma jobs_of_distinct: "env_ok e \<Longrightarrow> distinct (map fst (jobs_of e b))"
  unfolding jobs_of_def env_ok_def by (intro map_filter_keys bolt_keys_distinct) simp

lemma put_in_get: "bolt_ok (se_bolt e) \<Longrightarrow> put_in e b k v = Inr b' \<Longrightarrow>
    bk_get (se_bolt e) b' = (bk_get (se_bolt e) b)(k \<mapsto> v)"
  by (auto simp: put_in_def bolt_ok_def split: option.splits)

lemma put_job_at:
  assumes "env_ok e" and "put_job e b k j = Inr b'"
  shows "job_at e b' = (job_at e b)(k \<mapsto> j)"
proof -
  from assms(2) obtain v where v: "encJob (se_codec e) j = Some v" "put_in e b k v = Inr b'"
    by (auto simp: put_job_def split: option.splits)
  with assms(1) have "bk_get (se_bolt e) b' = (bk_get (se_bolt e) b)(k \<mapsto> v)" "decJob (se_codec e) v = Some j"
    using put_in_get by (auto simp: env_ok_def codec_ok_def)
  then show ?thesis by (auto simp: job_at_def fun_eq_iff)
qed

text \<open>Every job is stored under its own key.\<close>

definition keyed :: "'b storeEnv \<Rightarrow> 'b db \<Rightarrow> bool" where
  "keyed e db \<longleftrightarrow> (\<forall>k j. job_at e (db_jobs db) k = Some j \<longrightarrow> jobKey j = k)"

lemma jobKey_state [simp]:
  "jobKey (j\<lparr>j_State := s\<rparr>) = jobKey j" "jobKey (j\<lparr>j_UpdatedAt := t\<rparr>) = jobKey j"
  by (simp_all add: jobKey_def)

lemma jobKey_stored [simp]: "jobKey (mergeJob e ex j) = jobKey ex" "jobKey (freshJob e db j) = jobKey j"
  by (simp_all add: mergeJob_def freshJob_def jobKey_def)

lemma mergeJob_sel:
  "j_State (mergeJob e ex j) = j_State ex" "j_ID (mergeJob e ex j) = j_ID ex"
  "j_MergedCount (mergeJob e ex j) = wrap64 (j_MergedCount ex + 1)" "j_Revision (mergeJob e ex j) = j_Revision j"
  by (simp_all add: mergeJob_def)

lemma freshJob_sel:
  "j_State (freshJob e db j) = j_State j" "j_ID (freshJob e db j) = j_ID j"
  "j_MergedCount (freshJob e db j) = 1" "j_Revision (freshJob e db j) = readRevision e db"
  by (simp_all add: freshJob_def)

lemma db_Update_Inr:
  "db_Update e f db = (Inr r, db') \<longleftrightarrow> f db = Inr (r, db') \<and> se_commits e"
  by (auto simp: db_Update_def split: sum.splits if_splits)

lemma db_Update_Inl: "db_Update e f db = (Inl err, db') \<Longrightarrow> db' = db"
  by (auto simp: db_Update_def split: sum.splits if_splits)

section \<open>The operations on that map\<close>

abbreviation claimed :: "'b storeEnv \<Rightarrow> notificationJob \<Rightarrow> notificationJob" where
  "claimed e j \<equiv> j\<lparr>j_State := jobSending, j_UpdatedAt := se_now e\<rparr>"

abbreviation moved :: "'b storeEnv \<Rightarrow> string \<Rightarrow> notificationJob \<Rightarrow> notificationJob" where
  "moved e st j \<equiv> j\<lparr>j_State := st, j_UpdatedAt := se_now e\<rparr>"

lemma claim_loop_spec:
  assumes "env_ok e" and "distinct ks" and "claim_loop e ks b = Inr (cl, b')"
  shows "job_at e b' = (\<lambda>k. if k \<in> set ks then map_option (claimed e) (job_at e b k) else job_at e b k) \<and>
    cl = List.map_filter (\<lambda>k. map_option (claimed e) (job_at e b k)) ks"
  using assms(2,3)
proof (induction ks arbitrary: b cl)
  case Nil
  then show ?case by (simp add: List.map_filter_simps)
next
  case (Cons k ks)
  show ?case
  proof (cases "job_at e b k")
    case None
    with Cons show ?thesis by (auto simp: List.map_filter_simps fun_eq_iff)
  next
    case (Some j)
    with Cons.prems(2) obtain b1 cl1
      where p: "put_job e b k (claimed e j) = Inr b1" "claim_loop e ks b1 = Inr (cl1, b')" "cl = claimed e j # cl1"
      by (auto simp: Let_def sum_bind_Inr)
    note at = put_job_at [OF assms(1) p(1)]
    from Cons.IH [OF _ p(2)] Cons.prems(1)
    have IH: "job_at e b' = (\<lambda>x. if x \<in> set ks then map_option (claimed e) (job_at e b1 x) else job_at e b1 x)"
      "cl1 = List.map_filter (\<lambda>x. map_option (claimed e) (job_at e b1 x)) ks" by auto
    have "List.map_filter (\<lambda>x. map_option (claimed e) (job_at e b1 x)) ks =
        List.map_filter (\<lambda>x. map_option (claimed e) (job_at e b x)) ks"
      using Cons.prems(1) unfolding at by (intro map_filter_cong) auto
    with IH p(3) Some Cons.prems(1) show ?thesis
      by (auto simp: at List.map_filter_simps fun_eq_iff)
  qed
qed

lemma supersede_loop_spec:
  assumes "env_ok e" and "distinct (map fst xs)" and "\<forall>(k, j)\<in>set xs. job_at e b k = Some j"
    and "supersede_loop e xs b = Inr b'"
  shows "job_at e b' = (\<lambda>k. if k \<in> fst ` set xs then map_option (moved e jobSuperseded) (job_at e b k) else job_at e b k)"
  using assms(2-4)
proof (induction xs arbitrary: b)
  case (Cons x xs)
  obtain k j where x: "x = (k, j)" by (cases x)
  with Cons.prems(3) obtain b1 where p: "put_job e b k (moved e jobSuperseded j) = Inr b1" "supersede_loop e xs b1 = Inr b'"
    by (auto simp: sum_bind_Inr)
  note at = put_job_at [OF assms(1) p(1)]
  have "\<forall>(k', j')\<in>set xs. job_at e b1 k' = Some j'"
    using Cons.prems(1,2) by (force simp: at x)
  from Cons.IH [OF _ this p(2)] Cons.prems(1)
  have "job_at e b' = (\<lambda>k. if k \<in> fst ` set xs then map_option (moved e jobSuperseded) (job_at e b1 k) else job_at e b1 k)"
    by (simp add: x)
  then show ?case using Cons.prems(1,2) by (force simp: at x fun_eq_iff)
qed auto

lemma appendDelivery_get:
  assumes "env_ok e" and "appendDelivery e r b = Inr b'"
  shows "\<exists>k v. decDelivery (se_codec e) v = Some r \<and> bk_get (se_bolt e) b' = (bk_get (se_bolt e) b)(k \<mapsto> v)"
  using assms put_in_get
  by (fastforce simp: appendDelivery_def env_ok_def codec_ok_def split: option.splits)

lemma deliveries_of_set:
  assumes "env_ok e"
  shows "r \<in> set (deliveries_of e b) \<longleftrightarrow>
    (\<exists>k v. bk_get (se_bolt e) b k = Some v \<and> decDelivery (se_codec e) v = Some r)"
proof -
  have "r \<in> set (deliveries_of e b) \<longleftrightarrow>
      (\<exists>k v. (k, v) \<in> set (bk_entries (se_bolt e) b) \<and> decDelivery (se_codec e) v = Some r)"
    unfolding deliveries_of_def map_filter_mem by force
  then show ?thesis using assms by (simp add: env_ok_def entries_get)
qed

lemma appendDelivery_recorded:
  "env_ok e \<Longrightarrow> appendDelivery e r b = Inr b' \<Longrightarrow> r \<in> set (deliveries_of e b')"
  using appendDelivery_get [of e r b b'] by (auto simp: deliveries_of_set)

text \<open>The record a recovery writes, by its key.\<close>

definition recovery_key :: "'b storeEnv \<Rightarrow> notificationJob \<Rightarrow> string" where
  "recovery_key e j = format_stamp (se_now e) @ ''/'' @ ''recover-'' @ j_ID j"

definition recovery_recorded :: "'b storeEnv \<Rightarrow> 'b \<Rightarrow> notificationJob \<Rightarrow> bool" where
  "recovery_recorded e b j \<longleftrightarrow>
     (\<exists>v r. bk_get (se_bolt e) b (recovery_key e j) = Some v \<and> decDelivery (se_codec e) v = Some r \<and>
        d_JobID r = j_ID j \<and> d_Outcome r = deliveryUnknown \<and> d_ErrorCode r = ''restart_during_send'')"

lemma recovery_append:
  assumes "env_ok e"
    and "appendDelivery e (delivery_for j (''recover-'' @ j_ID j) deliveryUnknown ''restart_during_send''
       ''plugin restart interrupted in-flight delivery'' (se_now e)) b = Inr b'"
  shows "recovery_recorded e b' j \<and> (\<forall>j'. recovery_recorded e b j' \<longrightarrow> recovery_recorded e b' j')"
proof -
  let ?r = "delivery_for j (''recover-'' @ j_ID j) deliveryUnknown ''restart_during_send''
       ''plugin restart interrupted in-flight delivery'' (se_now e)"
  from assms(2) obtain v where v: "encDelivery (se_codec e) ?r = Some v" "put_in e b (recovery_key e j) v = Inr b'"
    by (auto simp: appendDelivery_def recovery_key_def delivery_for_def split: option.splits)
  with assms(1) have "bk_get (se_bolt e) b' = (bk_get (se_bolt e) b)(recovery_key e j \<mapsto> v)" "decDelivery (se_codec e) v = Some ?r"
    using put_in_get by (auto simp: env_ok_def codec_ok_def)
  then show ?thesis
    by (auto simp: recovery_recorded_def delivery_for_def recovery_key_def)
qed

lemma recover_loop_spec:
  assumes "env_ok e" and "distinct (map fst xs)" and "\<forall>(k, j)\<in>set xs. job_at e jb k = Some j"
    and "recover_loop e xs (jb, b) = Inr (jb', b')"
  shows "job_at e jb' = (\<lambda>k. if k \<in> fst ` set xs then map_option (moved e jobUnknown) (job_at e jb k) else job_at e jb k) \<and>
    (\<forall>(k, j)\<in>set xs. recovery_recorded e b' j) \<and> (\<forall>j. recovery_recorded e b j \<longrightarrow> recovery_recorded e b' j)"
  using assms(2-4)
proof (induction xs arbitrary: jb b)
  case (Cons x xs)
  obtain k j where x: "x = (k, j)" by (cases x)
  with Cons.prems(3) obtain jb1 b1 where p: "put_job e jb k (moved e jobUnknown j) = Inr jb1"
    "appendDelivery e (delivery_for j (''recover-'' @ j_ID j) deliveryUnknown ''restart_during_send''
       ''plugin restart interrupted in-flight delivery'' (se_now e)) b = Inr b1" "recover_loop e xs (jb1, b1) = Inr (jb', b')"
    by (auto simp: sum_bind_Inr)
  note at = put_job_at [OF assms(1) p(1)] and rc = recovery_append [OF assms(1) p(2)]
  have "\<forall>(k', j')\<in>set xs. job_at e jb1 k' = Some j'"
    using Cons.prems(1,2) by (force simp: at x)
  from Cons.IH [OF _ this p(3)] Cons.prems(1)
  have IH: "job_at e jb' = (\<lambda>k. if k \<in> fst ` set xs then map_option (moved e jobUnknown) (job_at e jb1 k) else job_at e jb1 k)"
    "\<forall>(k, j)\<in>set xs. recovery_recorded e b' j" "\<forall>j. recovery_recorded e b1 j \<longrightarrow> recovery_recorded e b' j"
    by (simp_all add: x)
  have "job_at e jb' = (\<lambda>k. if k \<in> fst ` set (x # xs) then map_option (moved e jobUnknown) (job_at e jb k) else job_at e jb k)"
    unfolding IH(1) using Cons.prems(1,2) by (force simp: at x fun_eq_iff)
  with IH(2,3) rc show ?case by (simp add: x)
qed auto

lemma jobs_filter_keys:
  assumes "env_ok e"
  shows "k \<in> fst ` set (filter (\<lambda>(k, j). P j) (jobs_of e b)) \<longleftrightarrow> (\<exists>j. job_at e b k = Some j \<and> P j)"
  using jobs_of_set [OF assms] by force

lemma jobs_filter_at:
  assumes "env_ok e"
  shows "\<forall>(k, j)\<in>set (filter (\<lambda>(k, j). P j) (jobs_of e b)). job_at e b k = Some j"
    "distinct (map fst (filter (\<lambda>(k, j). P j) (jobs_of e b)))"
  using jobs_of_set [OF assms] jobs_of_distinct [OF assms] by (auto simp: distinct_map_filter)

section \<open>What each operation does to the jobs\<close>

lemma UpsertJob_at:
  assumes "env_ok e" and "UpsertJob e j db = (Inr n, db')"
  shows "db_deliveries db' = db_deliveries db \<and> (\<exists>stored. job_at e (db_jobs db') = (job_at e (db_jobs db))(jobKey j \<mapsto> stored) \<and>
    n = j_MergedCount stored \<and>
    stored = (case job_at e (db_jobs db) (jobKey j) of
       Some ex \<Rightarrow> if j_State ex = jobPending then mergeJob e ex j else freshJob e db j
     | None \<Rightarrow> freshJob e db j))"
  using assms(2) put_job_at [OF assms(1)]
  by (auto simp: UpsertJob_def db_Update_Inr Let_def sum_bind_Inr)

lemma ClaimDueJobs_at:
  assumes "env_ok e" and "ClaimDueJobs e now limit db = (Inr cl, db')"
  shows "db_deliveries db' = db_deliveries db \<and>
    job_at e (db_jobs db') = (\<lambda>k. if k \<in> set (due_keys e now limit (db_jobs db))
       then map_option (claimed e) (job_at e (db_jobs db) k) else job_at e (db_jobs db) k) \<and>
    cl = List.map_filter (\<lambda>k. map_option (claimed e) (job_at e (db_jobs db) k)) (due_keys e now limit (db_jobs db))"
proof -
  have "distinct (due_keys e now limit (db_jobs db))"
    using jobs_filter_at(2) [OF assms(1), where P = "\<lambda>j. j_State j = jobPending \<and> j_NextAttempt j \<le> now"]
    by (simp add: due_keys_def Let_def distinct_take)
  from claim_loop_spec [OF assms(1) this] assms(2) show ?thesis
    by (auto simp: ClaimDueJobs_def db_Update_Inr sum_bind_Inr)
qed

lemma due_keys_at:
  assumes "env_ok e" and "k \<in> set (due_keys e now limit b)"
  shows "\<exists>j. job_at e b k = Some j \<and> j_State j = jobPending \<and> j_NextAttempt j \<le> now"
proof -
  have "k \<in> fst ` set (filter (\<lambda>(k, j). j_State j = jobPending \<and> j_NextAttempt j \<le> now) (jobs_of e b))"
    using assms(2) by (auto simp: due_keys_def Let_def simp del: set_filter dest: in_set_takeD split: if_splits)
  then show ?thesis by (simp only: jobs_filter_keys [OF assms(1)])
qed

lemma superseded_at:
  assumes "env_ok e" and "supersededStaleJobs e cur db = (Inr n, db')"
  shows "job_at e (db_jobs db') = (\<lambda>k. case job_at e (db_jobs db) k of
      Some j \<Rightarrow> Some (if j_State j = jobPending \<and> j_Revision j < cur then moved e jobSuperseded j else j)
    | None \<Rightarrow> None)"
proof -
  let ?P = "\<lambda>j. j_State j = jobPending \<and> j_Revision j < cur"
  let ?xs = "filter (\<lambda>(k, j). ?P j) (jobs_of e (db_jobs db))"
  from assms(2) obtain b where "supersede_loop e ?xs (db_jobs db) = Inr b" "db_jobs db' = b"
    by (auto simp: supersededStaleJobs_def db_Update_Inr Let_def sum_bind_Inr)
  with supersede_loop_spec [OF assms(1) jobs_filter_at(2) [OF assms(1)] jobs_filter_at(1) [OF assms(1)]]
  have "job_at e (db_jobs db') = (\<lambda>k. if k \<in> fst ` set ?xs
      then map_option (moved e jobSuperseded) (job_at e (db_jobs db) k) else job_at e (db_jobs db) k)" by blast
  then show ?thesis unfolding jobs_filter_keys [OF assms(1)]
    by (auto simp: fun_eq_iff split: option.split)
qed

lemma FinishJob_at:
  assumes "env_ok e" and "FinishJob e i outcome errCode detail db = (Inr u, db')"
  shows "\<exists>k j st. job_at e (db_jobs db) k = Some j \<and> j_ID j = i \<and> jobStateForOutcome outcome = Inr st \<and>
    job_at e (db_jobs db') = (job_at e (db_jobs db))(k \<mapsto> moved e st j) \<and>
    (\<exists>r\<in>set (deliveries_of e (db_deliveries db')).
       d_JobID r = i \<and> d_Outcome r = outcome \<and> d_KeyFingerprint r = j_KeyFingerprint j \<and>
       d_NotificationID r = j_NotificationID j \<and> d_Platform r = j_Platform j)"
proof -
  from assms(2) obtain k j st jb b where f: "find (\<lambda>(k, j). j_ID j = i) (jobs_of e (db_jobs db)) = Some (k, j)"
      "jobStateForOutcome outcome = Inr st" "put_job e (db_jobs db) k (moved e st j) = Inr jb"
      "appendDelivery e (delivery_for j (itoa (nat (se_now e)) @ ''-'' @ i) outcome errCode detail (se_now e)) (db_deliveries db) = Inr b"
      "db' = db\<lparr>db_jobs := jb, db_deliveries := b\<rparr>"
    by (auto simp: FinishJob_def db_Update_Inr sum_bind_Inr split: option.splits)
  from find_Some_in [OF f(1)] have "job_at e (db_jobs db) k = Some j" "j_ID j = i"
    using jobs_of_set [OF assms(1)] by auto
  moreover note put_job_at [OF assms(1) f(3)] appendDelivery_recorded [OF assms(1) f(4)]
  ultimately show ?thesis using f(2,5)
    by (intro exI [of _ k] exI [of _ j] exI [of _ st]) (force simp: delivery_for_def)
qed

lemma RecoverOnBoot_at:
  assumes "env_ok e" and "RecoverOnBoot e db = (Inr u, db')"
  shows "job_at e (db_jobs db') = (\<lambda>k. case job_at e (db_jobs db) k of
      Some j \<Rightarrow> Some (if j_State j = jobSending then moved e jobUnknown j else j) | None \<Rightarrow> None) \<and>
    (\<forall>k j. job_at e (db_jobs db) k = Some j \<longrightarrow> j_State j = jobSending \<longrightarrow> recovery_recorded e (db_deliveries db') j)"
proof -
  let ?P = "\<lambda>j. j_State j = jobSending"
  let ?xs = "filter (\<lambda>(k, j). ?P j) (jobs_of e (db_jobs db))"
  from assms(2) obtain jb b where r: "recover_loop e ?xs (db_jobs db, db_deliveries db) = Inr (jb, b)"
      "db' = db\<lparr>db_jobs := jb, db_deliveries := b\<rparr>"
    by (auto simp: RecoverOnBoot_def db_Update_Inr sum_bind_Inr)
  from recover_loop_spec [OF assms(1) jobs_filter_at(2) [OF assms(1)] jobs_filter_at(1) [OF assms(1)] r(1)]
  have s: "job_at e jb = (\<lambda>k. if k \<in> fst ` set ?xs then map_option (moved e jobUnknown) (job_at e (db_jobs db) k)
       else job_at e (db_jobs db) k)"
    "\<forall>(k, j)\<in>set ?xs. recovery_recorded e b j" by blast+
  have "job_at e jb = (\<lambda>k. case job_at e (db_jobs db) k of
      Some j \<Rightarrow> Some (if j_State j = jobSending then moved e jobUnknown j else j) | None \<Rightarrow> None)"
    unfolding s(1) jobs_filter_keys [OF assms(1)] by (auto simp: fun_eq_iff split: option.split)
  moreover have "recovery_recorded e b j" if "job_at e (db_jobs db) k = Some j" "?P j" for k j
    using s(2) that jobs_of_set [OF assms(1)] by fastforce
  ultimately show ?thesis using r(2) by simp
qed

end
