(* ===== verification/Notification_Jobs.thy ===== *)
theory Notification_Jobs
  imports Notification_Store "HOL-Library.Finite_Map"
begin

text \<open>
  What the store guarantees of its jobs: the steps a job can take, as a relation that every
  operation of the store refines, recovery after a restart, exclusive claims, the guard against
  jobs of an old configuration, and the clocks.  The witnesses run the operations on a bucket that
  is a finite map, visited in the order of its keys.
\<close>

section \<open>The life of a job\<close>

text \<open>One key of the job bucket across one operation.\<close>

inductive job_step :: "string \<Rightarrow> notificationJob option \<Rightarrow> notificationJob option \<Rightarrow> bool" for k where
  unchanged: "job_step k x x"
| enqueued: "jobKey j = k \<Longrightarrow> j_State j = jobPending \<Longrightarrow> j_MergedCount j = 1 \<Longrightarrow>
     (\<And>old. x = Some old \<Longrightarrow> j_State old \<noteq> jobPending) \<Longrightarrow> job_step k x (Some j)"
| merged: "j_State old = jobPending \<Longrightarrow> j_State j = jobPending \<Longrightarrow> j_ID j = j_ID old \<Longrightarrow> jobKey j = jobKey old \<Longrightarrow>
     j_MergedCount j = wrap64 (j_MergedCount old + 1) \<Longrightarrow> job_step k (Some old) (Some j)"
| sent_out: "j_State old = jobPending \<Longrightarrow> job_step k (Some old) (Some (old\<lparr>j_State := jobSending, j_UpdatedAt := t\<rparr>))"
| finished: "st \<in> {jobSent, jobFailed, jobUnknown} \<Longrightarrow> job_step k (Some old) (Some (old\<lparr>j_State := st, j_UpdatedAt := t\<rparr>))"
| stale: "j_State old = jobPending \<Longrightarrow> job_step k (Some old) (Some (old\<lparr>j_State := jobSuperseded, j_UpdatedAt := t\<rparr>))"

text \<open>The operations of the store, in any order and with any outcome; \<open>e\<close> is the store, each
  operation has its own clock and its own commit.\<close>

abbreviation at_time :: "'b storeEnv \<Rightarrow> instant \<Rightarrow> bool \<Rightarrow> 'b storeEnv" where
  "at_time e t c \<equiv> e\<lparr>se_now := t, se_commits := c\<rparr>"

inductive store_step :: "'b storeEnv \<Rightarrow> 'b db \<Rightarrow> 'b db \<Rightarrow> bool" for e where
  bump: "store_step e db (snd (BumpRevision (at_time e t c) db))"
| clock: "store_step e db (snd (SetClock (at_time e t c) n sc ch tm db))"
| upsert: "j_State j = jobPending \<Longrightarrow> store_step e db (snd (UpsertJob (at_time e t c) j db))"
| claim: "store_step e db (snd (ClaimDueJobs (at_time e t c) now limit db))"
| finish: "store_step e db (snd (FinishJob (at_time e t c) i outcome errCode detail db))"
| recover: "store_step e db (snd (RecoverOnBoot (at_time e t c) db))"
| supersede: "store_step e db (snd (supersededStaleJobs (at_time e t c) cur db))"
| snapshots: "store_step e db (snd (PutSnapshots (at_time e t c) hash enc key rows db))"

lemma at_time_simps [simp]:
  "job_at (at_time e t c) = job_at e" "env_ok (at_time e t c) = env_ok e"
  "jobs_of (at_time e t c) = jobs_of e" "keyed (at_time e t c) = keyed e"
  "deliveries_of (at_time e t c) = deliveries_of e" "due_keys (at_time e t c) = due_keys e"
  by (simp_all add: fun_eq_iff job_at_def env_ok_def jobs_of_def keyed_def deliveries_of_def due_keys_def
      cong: option.case_cong)

definition jobs_evolve :: "'b storeEnv \<Rightarrow> 'b db \<Rightarrow> 'b db \<Rightarrow> bool" where
  "jobs_evolve e db db' \<longleftrightarrow>
     (keyed e db \<longrightarrow> keyed e db' \<and> (\<forall>k. job_step k (job_at e (db_jobs db) k) (job_at e (db_jobs db') k)))"

lemma evolve_same: "db_jobs db' = db_jobs db \<Longrightarrow> jobs_evolve e db db'"
  by (simp add: jobs_evolve_def keyed_def unchanged)

text \<open>An operation whose failures change nothing evolves the jobs if its successes do.\<close>

lemma evolve_update:
  assumes "\<And>r db'. db_Update e f db = (Inr r, db') \<Longrightarrow> jobs_evolve e0 db db'"
  shows "jobs_evolve e0 db (snd (db_Update e f db))"
proof (cases "db_Update e f db")
  case (Pair r db')
  then show ?thesis using assms evolve_same db_Update_Inl by (cases r) fastforce+
qed

lemma evolve_pointwise:
  assumes "\<And>k. job_at e (db_jobs db') k = g k (job_at e (db_jobs db) k)"
    and "\<And>k. g k None = None" and "\<And>k j. job_step k (Some j) (g k (Some j))"
    and "\<And>k j j'. g k (Some j) = Some j' \<Longrightarrow> jobKey j' = jobKey j"
  shows "jobs_evolve e db db'"
proof -
  have "job_step k x (g k x)" for k x
    using assms(2,3) by (cases x) (auto intro: unchanged)
  moreover have "jobKey j' = k" if "keyed e db" "g k (job_at e (db_jobs db) k) = Some j'" for k j'
    using that assms(2,4) by (cases "job_at e (db_jobs db) k") (auto simp: keyed_def)
  ultimately show ?thesis unfolding jobs_evolve_def keyed_def assms(1) by blast
qed

lemma upsert_evolves:
  assumes "env_ok e" and "j_State j = jobPending"
  shows "jobs_evolve e db (snd (UpsertJob (at_time e t c) j db))"
  unfolding UpsertJob_def
proof (rule evolve_update, fold UpsertJob_def)
  fix n db'
  assume u: "UpsertJob (at_time e t c) j db = (Inr n, db')"
  from UpsertJob_at [OF _ u] assms(1) obtain stored
    where s: "job_at e (db_jobs db') = (job_at e (db_jobs db))(jobKey j \<mapsto> stored)"
      "stored = (case job_at e (db_jobs db) (jobKey j) of
         Some ex \<Rightarrow> if j_State ex = jobPending then mergeJob (at_time e t c) ex j else freshJob (at_time e t c) db j
       | None \<Rightarrow> freshJob (at_time e t c) db j)" by auto
  have step: "job_step (jobKey j) (job_at e (db_jobs db) (jobKey j)) (Some stored) \<and> jobKey stored = jobKey j" if "keyed e db"
  proof (cases "\<exists>ex. job_at e (db_jobs db) (jobKey j) = Some ex \<and> j_State ex = jobPending")
    case True
    then obtain ex where ex: "job_at e (db_jobs db) (jobKey j) = Some ex" "j_State ex = jobPending" by blast
    then have "jobKey ex = jobKey j" using that by (simp add: keyed_def)
    with ex have "job_step (jobKey j) (Some ex) (Some (mergeJob (at_time e t c) ex j))"
      by (intro merged) (simp_all add: mergeJob_sel)
    with ex s(2) \<open>jobKey ex = jobKey j\<close> show ?thesis by simp
  next
    case False
    then have "stored = freshJob (at_time e t c) db j" using s(2) by (auto split: option.splits)
    moreover have "job_step (jobKey j) (job_at e (db_jobs db) (jobKey j)) (Some (freshJob (at_time e t c) db j))"
      using False assms(2) by (intro enqueued) (auto simp: freshJob_sel)
    ultimately show ?thesis by simp
  qed
  show "jobs_evolve e db db'"
    using step by (auto simp: jobs_evolve_def keyed_def s(1) intro: unchanged)
qed

lemma claim_evolves:
  assumes "env_ok e"
  shows "jobs_evolve e db (snd (ClaimDueJobs (at_time e t c) now limit db))"
  unfolding ClaimDueJobs_def
proof (rule evolve_update, fold ClaimDueJobs_def)
  fix cl db'
  assume u: "ClaimDueJobs (at_time e t c) now limit db = (Inr cl, db')"
  let ?due = "set (due_keys e now limit (db_jobs db))"
  have at: "job_at e (db_jobs db') = (\<lambda>k. if k \<in> ?due then map_option (claimed (at_time e t c)) (job_at e (db_jobs db) k)
      else job_at e (db_jobs db) k)"
    using ClaimDueJobs_at [OF _ u, unfolded at_time_simps, OF assms] by blast
  have "job_step k (job_at e (db_jobs db) k) (job_at e (db_jobs db') k)" for k
    using due_keys_at [OF assms, of k now limit "db_jobs db"] unfolding at by (auto intro: unchanged intro!: sent_out)
  moreover have "keyed e db'" if "keyed e db"
    using that unfolding keyed_def at by (auto simp: split: if_splits)
  ultimately show "jobs_evolve e db db'" by (simp add: jobs_evolve_def)
qed

lemma finish_evolves:
  assumes "env_ok e"
  shows "jobs_evolve e db (snd (FinishJob (at_time e t c) i outcome errCode detail db))"
  unfolding FinishJob_def
proof (rule evolve_update, fold FinishJob_def)
  fix u db'
  assume "FinishJob (at_time e t c) i outcome errCode detail db = (Inr u, db')"
  from FinishJob_at [OF _ this] assms obtain k j st
    where f: "job_at e (db_jobs db) k = Some j" "jobStateForOutcome outcome = Inr st"
      "job_at e (db_jobs db') = (job_at e (db_jobs db))(k \<mapsto> moved (at_time e t c) st j)" by auto
  have "st \<in> {jobSent, jobFailed, jobUnknown}"
    using f(2) by (auto simp: jobStateForOutcome_def split: if_splits)
  then show "jobs_evolve e db db'"
    using f by (auto simp: jobs_evolve_def keyed_def intro: unchanged finished)
qed

lemma supersede_evolves:
  assumes "env_ok e"
  shows "jobs_evolve e db (snd (supersededStaleJobs (at_time e t c) cur db))"
  unfolding supersededStaleJobs_def
proof (rule evolve_update, fold supersededStaleJobs_def)
  fix n db'
  assume u: "supersededStaleJobs (at_time e t c) cur db = (Inr n, db')"
  show "jobs_evolve e db db'"
    using superseded_at [OF _ u] assms
    by (intro evolve_pointwise [where g = "\<lambda>k x. case x of Some j \<Rightarrow>
        Some (if j_State j = jobPending \<and> j_Revision j < cur then moved (at_time e t c) jobSuperseded j else j) | None \<Rightarrow> None"])
      (auto intro: unchanged stale)
qed

lemma recover_evolves:
  assumes "env_ok e"
  shows "jobs_evolve e db (snd (RecoverOnBoot (at_time e t c) db))"
  unfolding RecoverOnBoot_def
proof (rule evolve_update, fold RecoverOnBoot_def)
  fix u db'
  assume u: "RecoverOnBoot (at_time e t c) db = (Inr u, db')"
  show "jobs_evolve e db db'"
    using RecoverOnBoot_at [OF _ u] assms
    by (intro evolve_pointwise [where g = "\<lambda>k x. case x of Some j \<Rightarrow>
        Some (if j_State j = jobSending then moved (at_time e t c) jobUnknown j else j) | None \<Rightarrow> None"])
      (auto intro: unchanged finished)
qed

lemma other_bucket_evolves:
  "jobs_evolve e db (snd (BumpRevision (at_time e t c) db))"
  "jobs_evolve e db (snd (SetClock (at_time e t c) n sc ch tm db))"
  "jobs_evolve e db (snd (PutSnapshots (at_time e t c) hash enc key rows db))"
  unfolding BumpRevision_def SetClock_def PutSnapshots_def
  by (rule evolve_update; auto simp: db_Update_Inr Let_def sum_bind_Inr intro: evolve_same)+

lemmas store_evolves =
  upsert_evolves claim_evolves finish_evolves supersede_evolves recover_evolves other_bucket_evolves

section \<open>Correctness of the store\<close>

text \<open>C9. Whatever operation runs, with whatever failure, every stored job stays under its merge
  key, and a job only moves as the store promises: a new pending job replaces one that is not
  pending, a pending one is merged into, sent out or superseded, and a finished one ends as sent,
  failed or unknown.\<close>

theorem store_step_jobs:
  assumes "env_ok e" and "store_step e db db'" and "keyed e db"
  shows "keyed e db' \<and> (\<forall>k. job_step k (job_at e (db_jobs db) k) (job_at e (db_jobs db') k))"
proof -
  from assms(2) have "jobs_evolve e db db'"
    using assms(1) by cases (auto intro: store_evolves)
  with assms(3) show ?thesis by (simp add: jobs_evolve_def)
qed

text \<open>C25. After a restart no job is left in flight: \<open>RecoverOnBoot\<close> turns every job that was being
  sent into one of unknown outcome, with a delivery record that says so, and leaves all others as
  they are; if it fails it changes nothing.\<close>

theorem RecoverOnBoot_recovers:
  assumes "env_ok e"
  shows "case RecoverOnBoot e db of
      (Inl _, db') \<Rightarrow> db' = db
    | (Inr _, db') \<Rightarrow>
        (\<forall>k. (case job_at e (db_jobs db) k of
           None \<Rightarrow> job_at e (db_jobs db') k = None
         | Some j \<Rightarrow>
             if j_State j = jobSending
             then job_at e (db_jobs db') k = Some (moved e jobUnknown j) \<and>
               (\<exists>r\<in>set (deliveries_of e (db_deliveries db')). d_JobID r = j_ID j \<and> d_Outcome r = deliveryUnknown)
             else job_at e (db_jobs db') k = Some j))"
proof (cases "RecoverOnBoot e db")
  case (Pair res db')
  show ?thesis
  proof (cases res)
    case (Inl err)
    with Pair show ?thesis using db_Update_Inl by (auto simp: RecoverOnBoot_def)
  next
    case (Inr u)
    from RecoverOnBoot_at [OF assms Pair [unfolded Inr]] have r:
      "job_at e (db_jobs db') = (\<lambda>k. case job_at e (db_jobs db) k of
        Some j \<Rightarrow> Some (if j_State j = jobSending then moved e jobUnknown j else j) | None \<Rightarrow> None)"
      "\<And>k j. job_at e (db_jobs db) k = Some j \<Longrightarrow> j_State j = jobSending \<Longrightarrow> recovery_recorded e (db_deliveries db') j"
      by blast+
    then show ?thesis
      unfolding Pair Inr by (fastforce simp: deliveries_of_set [OF assms] recovery_recorded_def split: option.split)
  qed
qed

text \<open>The jobs of a bucket come in the order of their keys, and so do the due ones.\<close>

lemma map_filter_sorted:
  fixes xs :: "(string \<times> bytes) list"
  shows "sorted_wrt (<) (map fst xs) \<Longrightarrow> sorted_wrt (<) (map fst (List.map_filter (\<lambda>(k, v). map_option (Pair k) (f v)) xs))"
proof (induction xs)
  case (Cons x xs)
  have "fst ` set (List.map_filter (\<lambda>(k, v). map_option (Pair k) (f v)) xs) \<subseteq> fst ` set xs" by (force simp: map_filter_mem)
  then show ?case using Cons by (cases x; cases "f (snd x)") (force simp: List.map_filter_simps)+
qed (simp add: List.map_filter_simps)

lemma jobs_of_sorted:
  assumes "env_ok e"
  shows "sorted_wrt (<) (map fst (jobs_of e b))"
  unfolding jobs_of_def using assms by (intro map_filter_sorted) (simp add: env_ok_def bolt_ok_def)

lemma due_keys_sorted:
  assumes "env_ok e"
  shows "sorted_wrt (<) (due_keys e now limit b)"
proof -
  have "sorted_wrt (<) (map fst (filter P kvs))" if "sorted_wrt (<) (map fst kvs)" for P and kvs :: "(string \<times> notificationJob) list"
    using that by (simp add: sorted_wrt_map sorted_wrt_filter)
  from this [OF jobs_of_sorted [OF assms]] show ?thesis by (simp add: due_keys_def Let_def sorted_wrt_take)
qed

lemma due_keys_first:
  assumes "env_ok e" and "job_at e b k = Some j" and "j_State j = jobPending" and "j_NextAttempt j \<le> now"
  shows "k \<in> set (due_keys e now limit b) \<or>
    0 < limit \<and> int (length (due_keys e now limit b)) = limit \<and> list_all (\<lambda>k'. k' < k) (due_keys e now limit b)"
proof -
  let ?ks = "due_keys e now 0 b" and ?n = "nat limit"
  have "k \<in> fst ` set (filter (\<lambda>(k, j). j_State j = jobPending \<and> j_NextAttempt j \<le> now) (jobs_of e b))"
    unfolding jobs_filter_keys [OF assms(1)] using assms(2-4) by simp
  then have k: "k \<in> set ?ks" by (simp add: due_keys_def image_iff)
  have due: "due_keys e now limit b = (if 0 < limit then take ?n ?ks else ?ks)" by (simp add: due_keys_def Let_def)
  have split: "sorted_wrt (<) (take ?n ?ks @ drop ?n ?ks)" using due_keys_sorted [OF assms(1)] by simp
  show ?thesis
  proof (cases "k \<in> set (take ?n ?ks)")
    case True
    then show ?thesis using k by (simp add: due)
  next
    case False
    with k have "k \<in> set (drop ?n ?ks)" by (metis Un_iff append_take_drop_id set_append)
    moreover from this have "?n \<le> length ?ks" by (metis drop_all empty_iff empty_set nat_le_linear)
    ultimately show ?thesis using k split by (auto simp: due list_all_iff sorted_wrt_append simp del: append_take_drop_id)
  qed
qed

text \<open>C26. A claim that succeeds takes exactly the pending jobs that are due, in key order, or the first of them
  when there are more than asked for, and marks them as being sent, leaving every other job as it was; so no later
  claim takes one of them again.\<close>

theorem ClaimDueJobs_exclusive:
  assumes "env_ok e" and "ClaimDueJobs e now limit db = (Inr cl, db')"
  shows "\<exists>ks. sorted_wrt (<) ks \<and> cl = map (\<lambda>k. claimed e (the (job_at e (db_jobs db) k))) ks \<and>
    (\<forall>k\<in>set ks. \<exists>j. job_at e (db_jobs db) k = Some j \<and> j_State j = jobPending \<and> j_NextAttempt j \<le> now) \<and>
    (\<forall>k j. job_at e (db_jobs db) k = Some j \<and> j_State j = jobPending \<and> j_NextAttempt j \<le> now \<longrightarrow>
       k \<in> set ks \<or> 0 < limit \<and> int (length ks) = limit \<and> list_all (\<lambda>k'. k' < k) ks) \<and>
    (limit \<le> 0 \<or> int (length ks) \<le> limit) \<and>
    job_at e (db_jobs db') = (\<lambda>k. if k \<in> set ks then map_option (claimed e) (job_at e (db_jobs db) k) else job_at e (db_jobs db) k) \<and>
    set (due_keys e now' limit' (db_jobs db')) \<inter> set ks = {}"
proof (intro exI [of _ "due_keys e now limit (db_jobs db)"] conjI)
  let ?due = "due_keys e now limit (db_jobs db)"
  note at = ClaimDueJobs_at [OF assms]
  show some: "\<forall>k\<in>set ?due. \<exists>j. job_at e (db_jobs db) k = Some j \<and> j_State j = jobPending \<and> j_NextAttempt j \<le> now"
    using due_keys_at [OF assms(1)] by blast
  have "cl = map (\<lambda>k. the (map_option (claimed e) (job_at e (db_jobs db) k))) ?due"
    using at some by (subst map_filter_total [symmetric]) fastforce+
  then show "cl = map (\<lambda>k. claimed e (the (job_at e (db_jobs db) k))) ?due"
    using some by (force simp: option.map_sel)
  show "limit \<le> 0 \<or> int (length ?due) \<le> limit"
    by (auto simp: due_keys_def Let_def)
  show "job_at e (db_jobs db') =
      (\<lambda>k. if k \<in> set ?due then map_option (claimed e) (job_at e (db_jobs db) k) else job_at e (db_jobs db) k)"
    using at by (simp add: fun_eq_iff)
  have "k \<notin> set ?due" if "k \<in> set (due_keys e now' limit' (db_jobs db'))" for k
  proof
    assume "k \<in> set ?due"
    with at some obtain j where "job_at e (db_jobs db') k = Some (claimed e j)" by fastforce
    with due_keys_at [OF assms(1) that] show False by (simp add: job_states)
  qed
  then show "set (due_keys e now' limit' (db_jobs db')) \<inter> set ?due = {}" by blast
  show "sorted_wrt (<) ?due" by (rule due_keys_sorted [OF assms(1)])
  show "\<forall>k j. job_at e (db_jobs db) k = Some j \<and> j_State j = jobPending \<and> j_NextAttempt j \<le> now \<longrightarrow>
      k \<in> set ?due \<or> 0 < limit \<and> int (length ?due) = limit \<and> list_all (\<lambda>k'. k' < k) ?due"
    using due_keys_first [OF assms(1)] by blast
qed

text \<open>The clock keeps the last success to the second: what \<open>SetClock\<close> stores for an instant
  of the years 0 to 9999, \<open>Clock\<close> returns with the fraction of the second cut off, under any other
  key the clocks are as before, and an empty channel is the channel \<open>-\<close>.\<close>

theorem Clock_SetClock:
  assumes "env_ok e" and "year_ok NotificationLocation t"
    and "SetClock e nid scope ch t db = (Inr u, db')"
  shows "Clock e nid scope ch db' = Some (t div second * second) \<and>
    Clock e nid scope (if ch = [] then ''-'' else ch) db' = Some (t div second * second) \<and>
    (\<forall>n s c. clockKey n s c = clockKey nid scope ch \<or> Clock e n s c db' = Clock e n s c db)"
proof -
  from assms(3) obtain b where b: "put_in e (db_clock db) (clockKey nid scope ch) (format_rfc3339 NotificationLocation t) = Inr b"
    "db' = db\<lparr>db_clock := b\<rparr>"
    by (auto simp: SetClock_def db_Update_Inr sum_bind_Inr)
  have get: "bk_get (se_bolt e) b = (bk_get (se_bolt e) (db_clock db))(clockKey nid scope ch \<mapsto> format_rfc3339 NotificationLocation t)"
    using assms(1) put_in_get [OF _ b(1)] by (simp add: env_ok_def)
  have ne: "format_rfc3339 NotificationLocation t \<noteq> []" by (simp add: format_rfc3339_def)
  note p = parse_format_rfc3339 [OF assms(2) zone_CST]
  have k: "clockKey nid scope (if ch = [] then ''-'' else ch) = clockKey nid scope ch" by (simp add: clockKey_def)
  show ?thesis using b(2) get ne p by (auto simp: Clock_def k)
qed

section \<open>The revision\<close>

lemma byte_step: "(of_nat (n div 2 ^ (k + 8)) :: 64 word) * 256 + of_nat (n div 2 ^ k mod 256) = of_nat (n div 2 ^ k)"
proof -
  have "n div 2 ^ (k + 8) = n div 2 ^ k div 256" by (simp add: power_add div_mult2_eq)
  then have "(of_nat (n div 2 ^ (k + 8)) :: 64 word) * 256 + of_nat (n div 2 ^ k mod 256) =
      of_nat (n div 2 ^ k div 256 * 256 + n div 2 ^ k mod 256)"
    by (simp only: of_nat_add of_nat_mult of_nat_numeral)
  then show ?thesis by (simp only: div_mult_mod_eq)
qed

lemma uint64_of_putUint64: "uint64_of (putUint64 w) = w"
proof -
  define n where "n = unat w"
  have c: "of_nat (of_char (char_of (unat (drop_bit k w) mod 256) :: char) :: nat) = (of_nat (n div 2 ^ k mod 256) :: 64 word)" for k
    unfolding n_def by (simp add: unat_drop_bit_eq) (simp add: drop_bit_eq_div)
  have "unat w < 2 ^ LENGTH(64)" by (rule unsigned_less)
  then have z: "n div 2 ^ 64 = 0" by (simp add: n_def)
  have "uint64_of (putUint64 w) = of_nat (n div 2 ^ 0)"
    unfolding putUint64_def uint64_of_def
    using byte_step [of n 56] byte_step [of n 48] byte_step [of n 40] byte_step [of n 32] byte_step [of n 24]
      byte_step [of n 16] byte_step [of n 8] byte_step [of n 0] z c c [of 0]
    by simp
  then show ?thesis by (simp add: n_def)
qed

lemma BumpRevision_reads:
  assumes "env_ok e" and "BumpRevision (at_time e t c) db = (Inr r, db')"
  shows "r = readRevision e db + 1 \<and> readRevision e db' = r \<and> db_jobs db' = db_jobs db"
proof -
  from assms(2) obtain b where b: "put_in e (db_revision db) revisionStoreKey (putUint64 (readRevision e db + 1)) = Inr b"
      "r = readRevision e db + 1" "db' = db\<lparr>db_revision := b\<rparr>"
    by (auto simp: BumpRevision_def db_Update_Inr Let_def sum_bind_Inr readRevision_def put_in_def)
  have "length (putUint64 v) = 8" for v by (simp add: putUint64_def)
  with put_in_get [OF _ b(1)] assms(1) b show ?thesis
    by (simp add: readRevision_def env_ok_def uint64_of_putUint64)
qed

section \<open>Witnesses\<close>

definition sample_bolt :: "(string, bytes) fmap bolt" where
  "sample_bolt =
     \<lparr>bk_get = fmlookup, bk_put = \<lambda>b k v. Some (fmupd k v b),
      bk_entries = \<lambda>b. map (\<lambda>k. (k, the (fmlookup b k))) (sorted_list_of_fset (fmdom b))\<rparr>"

lemma sample_entries_get:
  "map_of (map (\<lambda>k. (k, the (fmlookup b k))) (sorted_list_of_fset (fmdom b))) k = fmlookup b k"
  by (simp add: map_of_map_restrict restrict_map_def fmdom_notD) (metis fmdom_notI option.exhaust_sel)

lemma sample_bolt_ok: "bolt_ok sample_bolt"
proof -
  have "sorted_wrt (<) (map fst (bk_entries sample_bolt b))" for b
    by (simp add: sample_bolt_def comp_def sorted_list_of_fset.rep_eq)
  then show ?thesis
    unfolding bolt_ok_def by (simp add: sample_bolt_def sample_entries_get fun_eq_iff)
qed

definition sample_job :: notificationJob where
  "sample_job =
     \<lparr>j_ID = ''1'', j_KeyFingerprint = ''global'', j_NotificationID = ''n'', j_Platform = ''wecom'',
      j_Channel = [], j_PeriodKey = ''p'', j_State = jobPending, j_Payload = [], j_MergedCount = 1,
      j_Attempts = 0, j_Revision = 0, j_NextAttempt = 0, j_CreatedAt = 0, j_UpdatedAt = 0\<rparr>"

definition sample_delivery :: deliveryRecord where
  "sample_delivery = delivery_for (sample_job\<lparr>j_State := jobSending\<rparr>) (''recover-1'') deliveryUnknown
     ''restart_during_send'' ''plugin restart interrupted in-flight delivery'' 0"

definition sample_store_codec :: storeCodec where
  "sample_store_codec =
     \<lparr>encJob = \<lambda>j. if j = sample_job\<lparr>j_State := j_State j\<rparr> then Some (j_State j) else None,
      decJob = \<lambda>v. Some (sample_job\<lparr>j_State := v\<rparr>),
      encDelivery = \<lambda>r. if r = sample_delivery then Some [] else None,
      decDelivery = \<lambda>_. Some sample_delivery\<rparr>"

definition sample_store :: "(string, bytes) fmap storeEnv" where
  "sample_store = \<lparr>se_bolt = sample_bolt, se_codec = sample_store_codec, se_now = 0, se_commits = True\<rparr>"

lemma sample_store_ok: "env_ok sample_store"
  using sample_bolt_ok by (simp add: env_ok_def sample_store_def codec_ok_def sample_store_codec_def)

text \<open>A store with the sample job in the given state.\<close>

definition sample_db :: "string option \<Rightarrow> (string, bytes) fmap db" where
  "sample_db st =
     \<lparr>db_revision = fmempty,
      db_jobs = (case st of None \<Rightarrow> fmempty | Some v \<Rightarrow> fmupd (jobKey sample_job) v fmempty),
      db_deliveries = fmempty, db_snapshots = fmempty, db_clock = fmempty\<rparr>"

lemma sample_job_at: "job_at sample_store (db_jobs (sample_db st)) k = (case st of None \<Rightarrow> None
   | Some v \<Rightarrow> if k = jobKey sample_job then Some (sample_job\<lparr>j_State := v\<rparr>) else None)"
  by (simp add: job_at_def sample_store_def sample_bolt_def sample_store_codec_def sample_db_def split: option.split)

lemma sample_jobs_of: "jobs_of sample_store (db_jobs (sample_db (Some v))) = [(jobKey sample_job, sample_job\<lparr>j_State := v\<rparr>)]"
  by (simp add: jobs_of_def sample_store_def sample_bolt_def sample_store_codec_def sample_db_def sorted_list_of_fset.rep_eq List.map_filter_simps)

lemma sample_put: "put_job sample_store (db_jobs (sample_db x)) (jobKey sample_job) (sample_job\<lparr>j_State := v\<rparr>) =
   Inr (db_jobs (sample_db (Some v)))"
  by (simp add: put_job_def put_in_def sample_store_def sample_bolt_def sample_store_codec_def sample_db_def split: option.split)


lemma sample_moved: "sample_job\<lparr>j_State := v, j_UpdatedAt := se_now sample_store\<rparr> = sample_job\<lparr>j_State := v\<rparr>"
  "sample_job\<lparr>j_State := v, j_UpdatedAt := 0\<rparr> = sample_job\<lparr>j_State := v\<rparr>"
  by (simp_all add: sample_job_def sample_store_def)

lemma sample_upsert: "UpsertJob sample_store sample_job (sample_db None) = (Inr 1, sample_db (Some jobPending))"
proof -
  have "freshJob sample_store (sample_db None) sample_job = sample_job\<lparr>j_State := jobPending\<rparr>"
    by (simp add: freshJob_def sample_job_def sample_store_def readRevision_def sample_bolt_def sample_db_def zero_time_def)
  then show ?thesis
    by (simp add: UpsertJob_def db_Update_def Let_def sample_job_at sample_put)
      (simp add: sample_store_def sample_job_def sample_db_def)
qed

lemma sample_due: "due_keys sample_store 0 10 (db_jobs (sample_db (Some jobPending))) = [jobKey sample_job]"
  by (simp add: due_keys_def sample_jobs_of) (simp add: sample_job_def)

lemma sample_claim: "ClaimDueJobs sample_store 0 10 (sample_db (Some jobPending)) =
   (Inr [sample_job\<lparr>j_State := jobSending\<rparr>], sample_db (Some jobSending))"
proof -
  show ?thesis
    unfolding ClaimDueJobs_def db_Update_def sample_due
    by (simp add: Let_def sample_job_at sample_moved sample_put) (simp add: sample_store_def sample_db_def)
qed

theorem store_step_jobs_witness:
  "keyed sample_store (sample_db (Some jobPending)) \<and>
   job_step (jobKey sample_job) None (job_at sample_store (db_jobs (sample_db (Some jobPending))) (jobKey sample_job))"
proof -
  have e: "at_time sample_store 0 True = sample_store" by (simp add: sample_store_def)
  have "j_State sample_job = jobPending" by (simp add: sample_job_def)
  from store_step.upsert [OF this, where e = sample_store and db = "sample_db None" and t = 0 and c = True]
  have step: "store_step sample_store (sample_db None) (sample_db (Some jobPending))" by (simp add: e sample_upsert)
  have "keyed sample_store (sample_db None)" by (simp add: keyed_def sample_job_at)
  from store_step_jobs [OF sample_store_ok step this] show ?thesis
    by (metis sample_job_at option.case(1))
qed

theorem RecoverOnBoot_recovers_witness:
  "\<exists>db'. RecoverOnBoot sample_store (sample_db (Some jobSending)) = (Inr (), db') \<and>
     job_at sample_store (db_jobs db') (jobKey sample_job) = Some (sample_job\<lparr>j_State := jobUnknown\<rparr>)"
proof -
  have d: "\<exists>b. appendDelivery sample_store sample_delivery fmempty = Inr b"
    by (simp add: appendDelivery_def put_in_def sample_store_def sample_bolt_def sample_store_codec_def)
  have "se_now sample_store = 0" "j_ID (sample_job\<lparr>j_State := jobSending\<rparr>) = ''1''" "se_commits sample_store"
    by (simp_all add: sample_store_def sample_job_def)
  then have "\<exists>db'. RecoverOnBoot sample_store (sample_db (Some jobSending)) = (Inr (), db')"
    using d by (auto simp: RecoverOnBoot_def db_Update_def sample_jobs_of sample_moved sample_put sample_delivery_def)
      (simp_all add: sample_db_def)
  then obtain db' where r: "RecoverOnBoot sample_store (sample_db (Some jobSending)) = (Inr (), db')" by blast
  have "case job_at sample_store (db_jobs (sample_db (Some jobSending))) (jobKey sample_job) of
      None \<Rightarrow> job_at sample_store (db_jobs db') (jobKey sample_job) = None
    | Some j \<Rightarrow> (if j_State j = jobSending
        then job_at sample_store (db_jobs db') (jobKey sample_job) = Some (moved sample_store jobUnknown j) \<and>
          (\<exists>r\<in>set (deliveries_of sample_store (db_deliveries db')). d_JobID r = j_ID j \<and> d_Outcome r = deliveryUnknown)
        else job_at sample_store (db_jobs db') (jobKey sample_job) = Some j)"
    using RecoverOnBoot_recovers [OF sample_store_ok, of "sample_db (Some jobSending)"] unfolding r by simp
  then show ?thesis using r by (simp add: sample_job_at sample_moved)
qed

theorem ClaimDueJobs_exclusive_witness:
  "\<exists>ks. ClaimDueJobs sample_store 0 10 (sample_db (Some jobPending)) =
      (Inr (map (\<lambda>k. claimed sample_store (the (job_at sample_store (db_jobs (sample_db (Some jobPending))) k))) ks),
       sample_db (Some jobSending)) \<and>
    jobKey sample_job \<in> set ks \<and> jobKey sample_job \<notin> set (due_keys sample_store 0 10 (db_jobs (sample_db (Some jobSending))))"
proof -
  have j: "job_at sample_store (db_jobs (sample_db (Some jobPending))) (jobKey sample_job) = Some (sample_job\<lparr>j_State := jobPending\<rparr>)"
    "j_NextAttempt (sample_job\<lparr>j_State := jobPending\<rparr>) \<le> 0"
    by (simp_all add: sample_job_at) (simp add: sample_job_def)
  from ClaimDueJobs_exclusive [OF sample_store_ok sample_claim, of 0 10] obtain ks where ks:
    "[sample_job\<lparr>j_State := jobSending\<rparr>] =
      map (\<lambda>k. claimed sample_store (the (job_at sample_store (db_jobs (sample_db (Some jobPending))) k))) ks"
    "\<forall>k j. job_at sample_store (db_jobs (sample_db (Some jobPending))) k = Some j \<and> j_State j = jobPending \<and> j_NextAttempt j \<le> 0 \<longrightarrow>
      k \<in> set ks \<or> (0::int) < 10 \<and> int (length ks) = 10 \<and> list_all (\<lambda>k'. k' < k) ks"
    "set (due_keys sample_store 0 10 (db_jobs (sample_db (Some jobSending)))) \<inter> set ks = {}"
    by (elim exE conjE)
  have "length ks = 1" using arg_cong [OF ks(1), of length] by simp
  moreover have "j_State (sample_job\<lparr>j_State := jobPending\<rparr>) = jobPending" by simp
  ultimately have k: "jobKey sample_job \<in> set ks" using ks(2) j by force
  show ?thesis
    by (intro exI [of _ ks] conjI k, simp only: sample_claim ks(1)) (use ks(3) k in blast)
qed

theorem Clock_SetClock_witness:
  "\<exists>db'. SetClock sample_store ''n'' ''global'' [] 5000000001 (sample_db None) = (Inr (), db') \<and>
     Clock sample_store ''n'' ''global'' ''-'' db' = Some 5000000000"
proof -
  have y: "year_ok NotificationLocation 5000000001"
    by (simp add: year_ok_def go_simps)
  have "\<exists>db'. SetClock sample_store ''n'' ''global'' [] 5000000001 (sample_db None) = (Inr (), db')"
    by (simp add: SetClock_def db_Update_def put_in_def sample_store_def sample_bolt_def)
  then obtain db' where d: "SetClock sample_store ''n'' ''global'' [] 5000000001 (sample_db None) = (Inr (), db')" by blast
  from Clock_SetClock [OF sample_store_ok y d] d show ?thesis by simp
qed

end
