(* ===== verification/Notification_Service.thy ===== *)
theory Notification_Service
  imports Notification_Jobs Notification_Schedule Notification_Types Routing
begin

text \<open>
  The notification service (\<open>notification_service.go\<close>): which notifications are due, the throttle
  in front of the store, delivery with its guards, and the projection of the next send time that
  \<open>notification_management.go\<close> shows.  Collecting statistics from Keeper and rendering them
  (\<open>collectStats\<close>, \<open>filterStatsToChannel\<close>, \<open>renderMessage\<close>) is one parameter, sending over HTTP
  (\<open>adapter.send\<close>) another, \<open>sha256.Sum256\<close> and the JSON of a message two more.  Every store
  transaction of a tick may fail to commit on its own, and the context may be cancelled at any of
  the checks of the delivery loop.
\<close>

section \<open>Errors, messages, results\<close>

datatype go_error = KeeperError string | OtherError

fun controlled :: "go_error \<Rightarrow> string" where
  "controlled (KeeperError code) = code"
| "controlled OtherError = ''connection_failed''"

record outboundMessage =
  om_Title :: string
  om_Body :: string
  om_UserIDs :: "string list"

record deliveryResult =
  r_Outcome :: string
  r_ErrorCode :: string
  r_Detail :: string
  r_RetryAfter :: int

definition delivery_result :: "string \<Rightarrow> string \<Rightarrow> string \<Rightarrow> deliveryResult" where
  "delivery_result outcome code detail =
     \<lparr>r_Outcome = outcome, r_ErrorCode = code, r_Detail = detail, r_RetryAfter = 0\<rparr>"

definition transportUnknownResult :: deliveryResult where
  "transportUnknownResult = delivery_result deliveryUnknown ''transport_unknown'' []"

definition nonEmptyIDs :: "string list \<Rightarrow> string list" where
  "nonEmptyIDs ids = filter (\<lambda>i. trim_space i \<noteq> []) ids"

text \<open>\<open>mergeDeliveryResults\<close>, the loop over the parts with the result so far.\<close>

fun merge_parts :: "deliveryResult \<Rightarrow> deliveryResult list \<Rightarrow> deliveryResult" where
  "merge_parts merged [] = merged"
| "merge_parts merged (r # parts) =
     (if r_Outcome r = deliveryUnknown then delivery_result deliveryUnknown (r_ErrorCode r) (r_Detail r)
      else if r_Outcome r = deliveryFailed then
        (if r_Outcome merged \<noteq> deliveryFailed then
           merge_parts \<lparr>r_Outcome = deliveryFailed, r_ErrorCode = r_ErrorCode r, r_Detail = r_Detail r,
                        r_RetryAfter = r_RetryAfter r\<rparr> parts
         else
           (let merged = (if r_RetryAfter merged < r_RetryAfter r then merged\<lparr>r_RetryAfter := r_RetryAfter r\<rparr> else merged);
                merged = (if r_ErrorCode merged = [] then merged\<lparr>r_ErrorCode := r_ErrorCode r\<rparr> else merged)
            in merge_parts merged parts))
      else merge_parts merged parts)"

definition mergeDeliveryResults :: "deliveryResult list \<Rightarrow> deliveryResult" where
  "mergeDeliveryResults parts = merge_parts (delivery_result deliveryAccepted [] []) parts"

section \<open>Texts\<close>

definition formatNextFire :: "instant option \<Rightarrow> string" where
  "formatNextFire t =
     (case t of None \<Rightarrow> []
      | Some t \<Rightarrow> format_date NotificationLocation t @ '' '' @ format_clock NotificationLocation t)"

text \<open>\<open>periodKeyOf\<close> of \<open>notification_keeper.go\<close>.\<close>

definition periodKeyOf :: "ModuleKind \<Rightarrow> PeriodKind \<Rightarrow> instant \<Rightarrow> string" where
  "periodKeyOf kind period now =
     (let loc = NotificationLocation;
          key =
            (if kind = ModuleDaily then ''daily:'' @ format_date loc now
             else if kind = ModuleMonthly then
               ''monthly:'' @ pad 4 (time_Year loc now) @ ''-'' @ pad 2 (time_Month loc now)
             else if kind = ModuleHalfYear then
               ''half:'' @ itoa (nat (time_Year loc now)) @ (if 7 \<le> time_Month loc now then ''H2'' else ''H1'')
             else if kind = ModuleYearly then ''yearly:'' @ itoa (nat (time_Year loc now))
             else [])
      in if key = [] then [] else if period = PeriodPrevious then key @ '':prev'' else key)"

fun first_period_key :: "ModuleConfig list \<Rightarrow> instant \<Rightarrow> string" where
  "first_period_key [] now = ''unanchored''"
| "first_period_key (m # ms) now =
     (let key = periodKeyOf (m_Kind m) (m_Period m) now
      in if key \<noteq> [] then key else first_period_key ms now)"

definition notificationPeriodKey :: "Notification \<Rightarrow> instant \<Rightarrow> string" where
  "notificationPeriodKey n now =
     (case n_Schedule n of
        Some s \<Rightarrow>
          if s_Kind s = ScheduleInterval then ''interval:'' @ format_rfc3339 NotificationLocation now
          else first_period_key (n_Modules n) now
      | None \<Rightarrow> first_period_key (n_Modules n) now)"

definition notificationStorePath :: "string \<Rightarrow> string" where
  "notificationStorePath statePath =
     (if suffix ''.json'' statePath then take (length statePath - 5) statePath else statePath) @ ''-notifications.db''"

section \<open>Targets\<close>

definition globalNotificationList :: "State \<Rightarrow> Notification list" where
  "globalNotificationList st =
     (case st_Notifications st of
        None \<Rightarrow> []
      | Some s \<Rightarrow> if ns_Notifications s \<noteq> [] then ns_Notifications s else [ns_GlobalDefault s])"

definition clockScope :: "string \<Rightarrow> string" where
  "clockScope fp = (if fp = [] \<or> fp = ''global'' then ''global'' else fp)"

definition pick_identity :: "string \<Rightarrow> PlatformKind \<Rightarrow> Notification \<Rightarrow> PlatformIdentity option" where
  "pick_identity nid kind n =
     (if n_ID n \<noteq> nid then None else find (\<lambda>p. p_Kind p = kind \<and> p_Enabled p) (n_Platforms n))"

fun first_identity :: "string \<Rightarrow> PlatformKind \<Rightarrow> Notification list \<Rightarrow> PlatformIdentity option" where
  "first_identity nid kind [] = None"
| "first_identity nid kind (n # ns) =
     (case pick_identity nid kind n of Some p \<Rightarrow> Some p | None \<Rightarrow> first_identity nid kind ns)"

definition identityForJob ::
    "(bytes \<Rightarrow> bytes) \<Rightarrow> State \<Rightarrow> string \<Rightarrow> string \<Rightarrow> PlatformKind \<Rightarrow> PlatformIdentity option" where
  "identityForJob hash st nid fingerprint kind =
     (if clockScope fingerprint = ''global'' then first_identity nid kind (globalNotificationList st)
      else first_identity nid kind
        (concat (map kb_Notifications
          (filter (\<lambda>b. keyFingerprint hash (kb_Key b) = fingerprint) (st_KeyBindings st)))))"

section \<open>The service\<close>

record notificationStatus =
  ss_Running :: bool
  ss_ErrorCode :: string
  ss_Revision :: "64 word"
  ss_PendingJobs :: int
  ss_NextFire :: string

record 'b service =
  sv_db :: "'b db"
  sv_status :: notificationStatus

datatype svc_call =
  CallSupersede | CallClaim | CallFinish string | CallSetClock string | CallRequeue string | CallEnqueue string

record 'b svcEnv =
  sx_store :: "'b storeEnv"
  sx_commits :: "svc_call \<Rightarrow> bool"
  sx_now :: instant
  sx_state :: State
  sx_channels :: "go_error + string list"
  sx_compose :: "KeyBinding option \<Rightarrow> Notification \<Rightarrow> string \<Rightarrow> go_error + string"
  sx_send :: "PlatformIdentity \<Rightarrow> outboundMessage \<Rightarrow> deliveryResult list option"
  sx_cancelled :: "nat \<Rightarrow> bool"
  sx_newID :: "string \<Rightarrow> string"
  sx_hash :: "bytes \<Rightarrow> bytes"
  sx_encMsg :: "outboundMessage \<Rightarrow> bytes option"
  sx_decMsg :: "bytes \<Rightarrow> outboundMessage option"

text \<open>The environment of one store call.\<close>

definition store_env :: "'b svcEnv \<Rightarrow> svc_call \<Rightarrow> 'b storeEnv" where
  "store_env x c = at_time (sx_store x) (sx_now x) (sx_commits x c)"

definition setStatusError :: "string \<Rightarrow> 'b service \<Rightarrow> 'b service" where
  "setStatusError code s = s\<lparr>sv_status := (sv_status s)\<lparr>ss_ErrorCode := code\<rparr>\<rparr>"

definition addPending :: "'b service \<Rightarrow> 'b service" where
  "addPending s = s\<lparr>sv_status := (sv_status s)\<lparr>ss_PendingJobs := ss_PendingJobs (sv_status s) + 1\<rparr>\<rparr>"

definition dropPending :: "int \<Rightarrow> 'b service \<Rightarrow> 'b service" where
  "dropPending d s =
     s\<lparr>sv_status := (sv_status s)\<lparr>ss_PendingJobs := max 0 (ss_PendingJobs (sv_status s) - d)\<rparr>\<rparr>"

section \<open>Generation\<close>

fun enqueue_targets ::
    "'b svcEnv \<Rightarrow> string \<Rightarrow> Notification \<Rightarrow> string \<Rightarrow> string \<Rightarrow> string \<Rightarrow> PlatformIdentity list \<Rightarrow> 'b service \<Rightarrow>
     go_error option \<times> 'b service" where
  "enqueue_targets x fp n channel body periodKey [] s = (None, s)"
| "enqueue_targets x fp n channel body periodKey (p # ps) s =
     (if pendingJobExists (sx_store x) fp (n_ID n) (p_Kind p) channel (sv_db s)
      then enqueue_targets x fp n channel body periodKey ps s
      else case sx_encMsg x \<lparr>om_Title = n_Name n, om_Body = body, om_UserIDs = nonEmptyIDs (p_UserIDs p)\<rparr> of
        None \<Rightarrow> (Some (KeeperError ''invalid_response''), s)
      | Some payload \<Rightarrow>
        (let job = \<lparr>j_ID = [], j_KeyFingerprint = fp, j_NotificationID = n_ID n, j_Platform = p_Kind p,
               j_Channel = channel, j_PeriodKey = periodKey, j_State = jobPending, j_Payload = payload,
               j_MergedCount = 0, j_Attempts = 0, j_Revision = readRevision (sx_store x) (sv_db s),
               j_NextAttempt = sx_now x, j_CreatedAt = sx_now x, j_UpdatedAt = zero_time\<rparr>;
             job = job\<lparr>j_ID := sx_newID x (jobKey job)\<rparr>
         in case UpsertJob (store_env x (CallEnqueue (jobKey job))) job (sv_db s) of
              (Inl _, db) \<Rightarrow> (Some (KeeperError ''store_write_failed''), s\<lparr>sv_db := db\<rparr>)
            | (Inr _, db) \<Rightarrow>
              enqueue_targets x fp n channel body periodKey ps (addPending (s\<lparr>sv_db := db\<rparr>))))"

definition enqueueForPeriod ::
    "'b svcEnv \<Rightarrow> KeyBinding option \<Rightarrow> Notification \<Rightarrow> string \<Rightarrow> 'b service \<Rightarrow> go_error option \<times> 'b service" where
  "enqueueForPeriod x binding n channel s =
     (let fp = (case binding of None \<Rightarrow> ''global'' | Some b \<Rightarrow> keyFingerprint (sx_hash x) (kb_Key b));
          targets = filter p_Enabled (n_Platforms n)
      in if targets = [] then (None, s)
         else if list_all (\<lambda>p. pendingJobExists (sx_store x) fp (n_ID n) (p_Kind p) channel (sv_db s)) targets then (None, s)
         else
           (let renderN = n\<lparr>n_Modules := effectiveModules (Some (sx_state x)) n\<rparr>
            in case sx_compose x binding renderN channel of
                 Inl e \<Rightarrow> (Some (KeeperError (controlled e)), s)
               | Inr body \<Rightarrow>
                 enqueue_targets x fp n channel body (notificationPeriodKey renderN (sx_now x)) targets s))"

text \<open>The earliest of the next send times, \<open>note\<close> in \<open>scheduleTick\<close>.\<close>

definition earlier :: "instant option \<Rightarrow> instant option \<Rightarrow> instant option" where
  "earlier a b =
     (case a of None \<Rightarrow> b | Some x \<Rightarrow> (case b of None \<Rightarrow> a | Some y \<Rightarrow> if y < x then b else a))"

definition tick_one ::
    "'b svcEnv \<Rightarrow> KeyBinding option \<Rightarrow> Notification \<Rightarrow> NotificationSchedule \<Rightarrow> string \<Rightarrow> string \<Rightarrow> string \<Rightarrow>
     instant option \<times> 'b service \<Rightarrow> instant option \<times> 'b service" where
  "tick_one x binding n sched scope clockChannel channel acc =
     (let (nextFire, s) = acc;
          last = Clock (sx_store x) (n_ID n) scope clockChannel (sv_db s);
          (due, nxt) = dueAt sched last (sx_now x) NotificationLocation
      in if due then
           (let (err, s) = enqueueForPeriod x binding n channel s;
                s = (case err of None \<Rightarrow> s | Some e \<Rightarrow> setStatusError (controlled e) s)
            in (earlier nextFire (snd (dueAt sched (Some (sx_now x)) (sx_now x) NotificationLocation)), s))
         else (earlier nextFire nxt, s))"

definition tick_global :: "'b svcEnv \<Rightarrow> string list \<Rightarrow> instant option \<times> 'b service \<Rightarrow> instant option \<times> 'b service" where
  "tick_global x channels acc =
     fold (\<lambda>n acc.
       case n_Schedule n of
         None \<Rightarrow> acc
       | Some sched \<Rightarrow>
         if \<not> n_Enabled n then acc
         else fold (\<lambda>ch acc. tick_one x None n sched ''global'' ch ch acc) channels acc)
       (globalNotificationList (sx_state x)) acc"

definition tick_bindings :: "'b svcEnv \<Rightarrow> instant option \<times> 'b service \<Rightarrow> instant option \<times> 'b service" where
  "tick_bindings x acc =
     fold (\<lambda>b acc.
       if \<not> kb_Enabled b \<or> kb_Notifications b = [] then acc
       else fold (\<lambda>n acc.
         if \<not> n_Enabled n then acc
         else case effectiveSchedule (Some (sx_state x)) n of
           None \<Rightarrow> acc
         | Some sched \<Rightarrow> tick_one x (Some b) n sched (keyFingerprint (sx_hash x) (kb_Key b)) ''-'' [] acc)
         (kb_Notifications b) acc)
       (st_KeyBindings (sx_state x)) acc"

definition scheduleTick :: "'b svcEnv \<Rightarrow> 'b service \<Rightarrow> 'b service" where
  "scheduleTick x s =
     (case st_Notifications (sx_state x) of
        None \<Rightarrow> s\<lparr>sv_status := (sv_status s)\<lparr>ss_NextFire := []\<rparr>\<rparr>
      | Some settings \<Rightarrow>
        if \<not> ns_Enabled settings then s\<lparr>sv_status := (sv_status s)\<lparr>ss_NextFire := []\<rparr>\<rparr>
        else
          (let (channels, s) = (case sx_channels x of
                 Inl e \<Rightarrow> ([], setStatusError (controlled e) s) | Inr ids \<Rightarrow> (ids, s));
               (nextFire, s) = tick_bindings x (tick_global x channels (None, s))
           in s\<lparr>sv_status := (sv_status s)\<lparr>ss_NextFire := formatNextFire nextFire\<rparr>\<rparr>))"

section \<open>Delivery\<close>

definition buildAdapter :: "PlatformIdentity \<Rightarrow> go_error option" where
  "buildAdapter p =
     (if p_Kind p = PlatformWeCom \<or> p_Kind p = PlatformFeishu \<or> p_Kind p = PlatformDingTalk then None
      else Some (KeeperError ''configuration_error''))"

definition deliverOne :: "'b svcEnv \<Rightarrow> notificationJob \<Rightarrow> deliveryResult" where
  "deliverOne x j =
     (case sx_decMsg x (j_Payload j) of
        None \<Rightarrow> delivery_result deliveryUnknown ''invalid_payload'' ''job payload unreadable''
      | Some msg \<Rightarrow>
        (case identityForJob (sx_hash x) (sx_state x) (j_NotificationID j) (j_KeyFingerprint j) (j_Platform j) of
           None \<Rightarrow> delivery_result deliveryUnknown ''target_unavailable'' ''no enabled platform identity for job''
         | Some identity \<Rightarrow>
           (case buildAdapter identity of
              Some e \<Rightarrow> delivery_result deliveryFailed (controlled e) ''adapter unavailable''
            | None \<Rightarrow>
              (case sx_send x identity msg of
                 None \<Rightarrow> transportUnknownResult
               | Some parts \<Rightarrow> mergeDeliveryResults parts))))"

text \<open>The job \<open>requeueForRetry\<close> builds: it leaves the revision at zero.\<close>

definition retry_job :: "'b svcEnv \<Rightarrow> notificationJob \<Rightarrow> instant \<Rightarrow> notificationJob" where
  "retry_job x j nextt =
     \<lparr>j_ID = sx_newID x (jobKey j), j_KeyFingerprint = j_KeyFingerprint j, j_NotificationID = j_NotificationID j,
      j_Platform = j_Platform j, j_Channel = j_Channel j, j_PeriodKey = j_PeriodKey j, j_State = jobPending,
      j_Payload = j_Payload j, j_MergedCount = 0, j_Attempts = 0, j_Revision = 0, j_NextAttempt = nextt,
      j_CreatedAt = nextt, j_UpdatedAt = zero_time\<rparr>"

definition requeueForRetry :: "'b svcEnv \<Rightarrow> notificationJob \<Rightarrow> instant \<Rightarrow> 'b service \<Rightarrow> 'b service" where
  "requeueForRetry x j nextt s =
     (case UpsertJob (store_env x (CallRequeue (j_ID j))) (retry_job x j nextt) (sv_db s) of
        (Inl _, db) \<Rightarrow> setStatusError ''store_write_failed'' (s\<lparr>sv_db := db\<rparr>)
      | (Inr _, db) \<Rightarrow> addPending (s\<lparr>sv_db := db\<rparr>))"

text \<open>What follows a result: the terminal record, then the clock or the retry.\<close>

definition settle :: "'b svcEnv \<Rightarrow> notificationJob \<Rightarrow> deliveryResult \<Rightarrow> 'b service \<Rightarrow> 'b service" where
  "settle x j res s =
     (case FinishJob (store_env x (CallFinish (j_ID j))) (j_ID j) (r_Outcome res) (r_ErrorCode res) (r_Detail res) (sv_db s) of
        (Inl _, db) \<Rightarrow> setStatusError ''store_write_failed'' (s\<lparr>sv_db := db\<rparr>)
      | (Inr _, db) \<Rightarrow>
        (let s = s\<lparr>sv_db := db\<rparr>;
             s = (if r_Outcome res = deliveryAccepted then
                    (case SetClock (store_env x (CallSetClock (j_ID j))) (j_NotificationID j)
                        (clockScope (j_KeyFingerprint j)) (j_Channel j) (sx_now x) (sv_db s) of
                       (Inl _, db) \<Rightarrow> setStatusError ''store_write_failed'' (s\<lparr>sv_db := db\<rparr>)
                     | (Inr _, db) \<Rightarrow> s\<lparr>sv_db := db\<rparr>)
                  else s)
         in if r_Outcome res = deliveryFailed \<and> 0 < r_RetryAfter res
            then requeueForRetry x j (sx_now x + r_RetryAfter res) s else s))"

text \<open>The loop over the claimed jobs; \<open>n\<close> counts the looks at the context.  The list is the jobs
  whose message was handed to a platform, for the statements below.\<close>

fun send_loop :: "'b svcEnv \<Rightarrow> nat \<Rightarrow> notificationJob list \<Rightarrow> 'b service \<Rightarrow> notificationJob list \<times> 'b service" where
  "send_loop x n [] s = ([], s)"
| "send_loop x n (j # js) s =
     (if sx_cancelled x n then ([], s)
      else
        (let res = deliverOne x j
         in if sx_cancelled x (n + 1) then ([j], s)
            else (let (sent, s) = send_loop x (n + 2) js (settle x j res s) in (j # sent, s))))"

definition sendTick :: "'b svcEnv \<Rightarrow> 'b service \<Rightarrow> notificationJob list \<times> 'b service" where
  "sendTick x s =
     (let cur = readRevision (sx_store x) (sv_db s);
          s = (case supersededStaleJobs (store_env x CallSupersede) cur (sv_db s) of
                 (Inl _, db) \<Rightarrow> setStatusError ''store_write_failed'' (s\<lparr>sv_db := db\<rparr>)
               | (Inr n, db) \<Rightarrow> if 0 < n then dropPending n (s\<lparr>sv_db := db\<rparr>) else s\<lparr>sv_db := db\<rparr>)
      in case ClaimDueJobs (store_env x CallClaim) (sx_now x) 10 (sv_db s) of
           (Inl _, db) \<Rightarrow> ([], setStatusError ''store_write_failed'' (s\<lparr>sv_db := db\<rparr>))
         | (Inr jobs, db) \<Rightarrow>
           (let s = s\<lparr>sv_db := db, sv_status := (sv_status s)\<lparr>ss_Revision := cur\<rparr>\<rparr>
            in send_loop x 0 jobs (dropPending (int (length jobs)) s)))"

section \<open>The next send time\<close>

text \<open>\<open>projectNotificationNextFire\<close> of \<open>notification_management.go\<close>; the store is \<open>None\<close> when it cannot be
  opened.\<close>

definition projectNotificationNextFire ::
    "'b svcEnv \<Rightarrow> 'b db option \<Rightarrow> string \<Rightarrow> string list \<Rightarrow> Notification \<Rightarrow> Notification" where
  "projectNotificationNextFire x store scope channels n =
     (case (n_Schedule n, store) of
        (Some sched, Some db) \<Rightarrow>
          (let channels = (if channels = [] then [''-''] else channels);
               earliest = fold (\<lambda>ch acc.
                 earlier acc (snd (dueAt sched (Clock (sx_store x) (n_ID n) scope ch db) (sx_now x) NotificationLocation)))
                 channels None
           in n\<lparr>n_NextFire := formatNextFire earliest\<rparr>)
      | _ \<Rightarrow> n)"

definition projectSettingsNextFire ::
    "'b svcEnv \<Rightarrow> 'b db option \<Rightarrow> string list \<Rightarrow> NotificationSettings \<Rightarrow> NotificationSettings" where
  "projectSettingsNextFire x store channels settings =
     (case store of
        None \<Rightarrow> settings
      | Some db \<Rightarrow>
        (let channels = (if channels = [] then [''-''] else channels)
         in settings\<lparr>
              ns_Notifications := map (projectNotificationNextFire x store ''global'' channels) (ns_Notifications settings),
              ns_GlobalDefault := projectNotificationNextFire x store ''global'' channels (ns_GlobalDefault settings)\<rparr>))"

section \<open>Start\<close>

definition unavailableCode :: "go_error \<Rightarrow> string" where
  "unavailableCode e =
     (case e of KeeperError code \<Rightarrow> if code \<noteq> [] then code else ''store_unavailable'' | OtherError \<Rightarrow> ''store_unavailable'')"

text \<open>\<open>startNotificationService\<close>: \<open>source\<close> is the code with which the Keeper source cannot be made.
  The two loops go on with ticks of the same kind.\<close>

definition startNotificationService ::
    "'b svcEnv \<Rightarrow> string \<Rightarrow> bool \<Rightarrow> 'b db option \<Rightarrow> go_error + (notificationJob list \<times> 'b service)" where
  "startNotificationService x source recoverCommits store =
     (case store of
        None \<Rightarrow> Inl (KeeperError ''store_unavailable'')
      | Some db \<Rightarrow>
        if source \<noteq> [] then Inl (KeeperError source)
        else case RecoverOnBoot (at_time (sx_store x) (sx_now x) recoverCommits) db of
          (Inl _, _) \<Rightarrow> Inl (KeeperError ''store_unavailable'')
        | (Inr _, db) \<Rightarrow>
          Inr (sendTick x (scheduleTick x
            \<lparr>sv_db = db, sv_status = \<lparr>ss_Running = True, ss_ErrorCode = [], ss_Revision = readRevision (sx_store x) db,
               ss_PendingJobs = 0, ss_NextFire = []\<rparr>\<rparr>)))"

lemmas [go_simps] =
  delivery_result_def transportUnknownResult_def nonEmptyIDs_def mergeDeliveryResults_def formatNextFire_def
  periodKeyOf_def notificationPeriodKey_def notificationStorePath_def globalNotificationList_def clockScope_def
  pick_identity_def identityForJob_def

section \<open>Folding the parts\<close>

definition failed_waits :: "deliveryResult list \<Rightarrow> int list" where
  "failed_waits parts = map r_RetryAfter (filter (\<lambda>r. r_Outcome r = deliveryFailed) parts)"

lemma Max_two: "finite A \<Longrightarrow> Max (insert (max a b) A) = Max (insert a (insert b A))"
  for a :: int by (cases "A = {}") (simp_all add: max.assoc)

lemma merge_parts_spec:
  assumes "r_Outcome m \<in> {deliveryAccepted, deliveryFailed}"
  shows "r_Outcome (merge_parts m parts) =
      (if deliveryUnknown \<in> r_Outcome ` set parts then deliveryUnknown
       else if r_Outcome m = deliveryFailed \<or> deliveryFailed \<in> r_Outcome ` set parts then deliveryFailed
       else deliveryAccepted) \<and>
    r_RetryAfter (merge_parts m parts) =
      (if deliveryUnknown \<in> r_Outcome ` set parts then 0
       else if r_Outcome m = deliveryFailed then Max (set (r_RetryAfter m # failed_waits parts))
       else if failed_waits parts = [] then r_RetryAfter m else Max (set (failed_waits parts)))"
  using assms
proof (induction m parts rule: merge_parts.induct)
  case (1 m)
  then show ?case by (auto simp: failed_waits_def outcomes)
next
  case (2 m r parts)
  show ?case
  proof (cases "r_Outcome r = deliveryUnknown")
    case True
    then show ?thesis by (simp add: delivery_result_def)
  next
    case u: False
    show ?thesis
    proof (cases "r_Outcome r = deliveryFailed")
      case False
      with u 2 show ?thesis by (simp add: failed_waits_def)
    next
      case f: True
      show ?thesis
      proof (cases "r_Outcome m = deliveryFailed")
        case False
        with u f 2 show ?thesis by (simp add: failed_waits_def)
      next
        case True
        define m1 where "m1 = (if r_RetryAfter m < r_RetryAfter r then m\<lparr>r_RetryAfter := r_RetryAfter r\<rparr> else m)"
        define m2 where "m2 = (if r_ErrorCode m1 = [] then m1\<lparr>r_ErrorCode := r_ErrorCode r\<rparr> else m1)"
        have m2: "r_Outcome m2 = deliveryFailed" "r_RetryAfter m2 = max (r_RetryAfter m) (r_RetryAfter r)"
          using True by (auto simp: m1_def m2_def)
        have "merge_parts m (r # parts) = merge_parts m2 parts"
          using u f True by (simp add: m1_def m2_def Let_def)
        moreover have "r_Outcome (merge_parts m2 parts) = (if deliveryUnknown \<in> r_Outcome ` set parts then deliveryUnknown else deliveryFailed) \<and>
            r_RetryAfter (merge_parts m2 parts) = (if deliveryUnknown \<in> r_Outcome ` set parts then 0
              else Max (set (r_RetryAfter m2 # failed_waits parts)))"
          using 2(2)[OF u f _ m1_def m2_def] True m2(1) by simp
        moreover have "Max (set (r_RetryAfter m2 # failed_waits parts)) = Max (set (r_RetryAfter m # failed_waits (r # parts)))"
          unfolding m2(2) using f by (simp add: failed_waits_def Max_two del: Max_insert)
        ultimately show ?thesis using u f True by simp
      qed
    qed
  qed
qed


text \<open>The parts of one delivery fold into one result: an unknown part makes it unknown without a
  retry, otherwise a failed part makes it failed with the longest wait any failed part asked for, and
  only a delivery all of whose parts were accepted is accepted.\<close>

theorem mergeDeliveryResults_spec:
  "r_Outcome (mergeDeliveryResults parts) =
      (if deliveryUnknown \<in> r_Outcome ` set parts then deliveryUnknown
       else if deliveryFailed \<in> r_Outcome ` set parts then deliveryFailed else deliveryAccepted) \<and>
   r_RetryAfter (mergeDeliveryResults parts) =
      (if deliveryUnknown \<in> r_Outcome ` set parts \<or> failed_waits parts = [] then 0 else Max (set (failed_waits parts)))"
  using merge_parts_spec [of "delivery_result deliveryAccepted [] []" parts]
  by (simp add: mergeDeliveryResults_def delivery_result_def outcomes)

section \<open>Period keys\<close>

lemma append_eq_same_length: "length u = length u' \<Longrightarrow> u @ v = u' @ v' \<longleftrightarrow> u = u' \<and> v = v'"
  by simp

lemma pad_inj:
  assumes "0 \<le> a" "a < 10 ^ k" "0 \<le> b" "b < 10 ^ k"
  shows "pad k a = pad k b \<longleftrightarrow> a = b"
  using pad_read [of a k] pad_read [of b k] assms by metis

lemma itoa_step: "10 \<le> n \<Longrightarrow> itoa n = itoa (n div 10) @ [digit_char (n mod 10)]"
  by (subst itoa.simps) simp

lemma itoa_value: "digits_value (itoa n) = int n"
proof (induction n rule: itoa.induct)
  case (1 n)
  show ?case
  proof (cases "n < 10")
    case True
    then show ?thesis by (subst itoa.simps) (simp add: digits_value_def)
  next
    case False
    then have "digits_value (itoa n) = 10 * int (n div 10) + int (n mod 10)"
      using 1 by (simp add: itoa_step digits_value_snoc)
    also have "\<dots> = int (10 * (n div 10) + n mod 10)" by (simp only: of_nat_add of_nat_mult of_nat_numeral)
    also have "\<dots> = int n" by (simp only: mult_div_mod_eq)
    finally show ?thesis .
  qed
qed

lemma itoa_inj: "itoa a = itoa b \<longleftrightarrow> a = b"
  by (metis itoa_value of_nat_eq_iff)

definition calendar_kinds :: "ModuleKind list" where
  "calendar_kinds = [ModuleDaily, ModuleMonthly, ModuleHalfYear, ModuleYearly]"

lemma time_Date_inj:
  assumes "valid_date y m d" "valid_date y' m' d'"
  shows "time_Date loc y m d 0 0 0 = time_Date loc y' m' d' 0 0 0 \<longleftrightarrow> y = y' \<and> m = m' \<and> d = d'"
proof -
  have "time_Date loc y m d 0 0 0 = time_Date loc y' m' d' 0 0 0 \<longleftrightarrow> date_day y m d = date_day y' m' d'"
    by (simp add: time_Date_def)
  with civil_of_date [OF assms(1)] civil_of_date [OF assms(2)] show ?thesis by metis
qed

lemma first_of_month: "1 \<le> m \<Longrightarrow> m \<le> 12 \<Longrightarrow> valid_date y m 1"
  using days_in_month_bounds [of m y] by (simp add: valid_date_def)


lemma kinds_distinct [simp]:
  "ModuleDaily \<noteq> ModuleMonthly" "ModuleDaily \<noteq> ModuleHalfYear" "ModuleDaily \<noteq> ModuleYearly"
  "ModuleMonthly \<noteq> ModuleHalfYear" "ModuleMonthly \<noteq> ModuleYearly" "ModuleHalfYear \<noteq> ModuleYearly"
  by (simp_all add: kind_defs)

lemmas kinds_distinct_sym [simp] = kinds_distinct [symmetric]

text \<open>The period key without the mark of the previous period, and the civil time it is read from.\<close>

lemma period_prev_inj:
  "(if k = [] then [] else if P then k @ v else k) = (if k' = [] then [] else if P then k' @ v else k') \<longleftrightarrow> k = k'"
  if "v \<noteq> []" for k k' v :: string
  using that by auto

lemma date_inj:
  assumes "year_ok loc t" "year_ok loc t'"
  shows "format_date loc t = format_date loc t' \<longleftrightarrow>
    time_Year loc t = time_Year loc t' \<and> time_Month loc t = time_Month loc t' \<and> time_Day loc t = time_Day loc t'"
proof -
  have y: "0 \<le> time_Year loc t" "time_Year loc t < 10 ^ 4" "0 \<le> time_Year loc t'" "time_Year loc t' < 10 ^ 4"
    using assms by (auto simp: year_ok_def)
  note c = civil_ranges [of loc t] civil_ranges [of loc t']
  show ?thesis
    using y c by (simp add: format_date_def append_eq_same_length pad_length pad_inj)
qed

text \<open>A period key names its statistics period: two instants get the same key of a module kind exactly
  when the period of that kind containing them begins at the same instant, so jobs merge within a
  period and never across two.\<close>

theorem periodKeyOf_identifies:
  assumes "kind \<in> set calendar_kinds" and "year_ok NotificationLocation t" and "year_ok NotificationLocation t'"
  shows "periodKeyOf kind period t = periodKeyOf kind period t' \<longleftrightarrow>
    map_option fst (periodRange kind PeriodCurrent t NotificationLocation) =
    map_option fst (periodRange kind PeriodCurrent t' NotificationLocation)"
proof -
  let ?L = NotificationLocation
  define y m d y' m' d' where "y = time_Year ?L t" and "m = time_Month ?L t" and "d = time_Day ?L t"
    and "y' = time_Year ?L t'" and "m' = time_Month ?L t'" and "d' = time_Day ?L t'"
  have v: "valid_date y m d" "valid_date y' m' d'"
    using civil_ranges(1) by (auto simp: y_def m_def d_def y'_def m'_def d'_def)
  then have r: "1 \<le> m" "m \<le> 12" "1 \<le> m'" "m' \<le> 12" by (auto simp: valid_date_def)
  have yr: "0 \<le> y" "y < 10 ^ 4" "0 \<le> y'" "y' < 10 ^ 4"
    using assms(2,3) by (auto simp: year_ok_def y_def y'_def)
  note f = first_of_month [OF r(1,2)] first_of_month [OF r(3,4)]
  from assms(1) consider "kind = ModuleDaily" | "kind = ModuleMonthly" | "kind = ModuleHalfYear" | "kind = ModuleYearly"
    by (auto simp: calendar_kinds_def)
  then show ?thesis
  proof cases
    case 1
    then show ?thesis
      using date_inj [OF assms(2,3)] time_Date_inj [OF v]
      by (simp add: periodKeyOf_def periodRange_def Let_def y_def m_def d_def y'_def m'_def d'_def)
  next
    case 2
    have "pad 4 y @ ''-'' @ pad 2 m = pad 4 y' @ ''-'' @ pad 2 m' \<longleftrightarrow> y = y' \<and> m = m'"
      using yr r by (simp add: append_eq_same_length pad_length pad_inj)
    with 2 show ?thesis
      using time_Date_inj [OF f]
      by (simp add: periodKeyOf_def periodRange_def Let_def y_def m_def y'_def m'_def)
  next
    case 3
    have "itoa (nat y) @ h = itoa (nat y') @ h' \<longleftrightarrow> y = y' \<and> h = h'" if "length h = length h'" for h h'
      using that yr by (auto simp: itoa_inj)
    then have "periodKeyOf kind period t = periodKeyOf kind period t' \<longleftrightarrow> y = y' \<and> (7 \<le> m) = (7 \<le> m')"
      using 3 by (simp add: periodKeyOf_def Let_def y_def m_def y'_def m'_def)
    moreover have "map_option fst (periodRange kind PeriodCurrent t ?L) = map_option fst (periodRange kind PeriodCurrent t' ?L) \<longleftrightarrow>
        y = y' \<and> (7 \<le> m) = (7 \<le> m')"
      using 3 time_Date_inj [OF first_of_month first_of_month, of 7 7] time_Date_inj [OF first_of_month first_of_month, of 1 1]
        time_Date_inj [OF first_of_month first_of_month, of 7 1] time_Date_inj [OF first_of_month first_of_month, of 1 7]
      by (simp add: periodRange_def Let_def y_def m_def y'_def m'_def)
    ultimately show ?thesis by simp
  next
    case 4
    have "nat y = nat y' \<longleftrightarrow> y = y'" using yr by auto
    then have "periodKeyOf kind period t = periodKeyOf kind period t' \<longleftrightarrow> y = y'"
      using 4 by (simp add: periodKeyOf_def Let_def itoa_inj y_def y'_def)
    moreover have "map_option fst (periodRange kind PeriodCurrent t ?L) = map_option fst (periodRange kind PeriodCurrent t' ?L) \<longleftrightarrow>
        y = y'"
      using 4 time_Date_inj [OF first_of_month first_of_month, of 1 1]
      by (simp add: periodRange_def Let_def y_def y'_def)
    ultimately show ?thesis by simp
  qed
qed


theorem periodKeyOf_identifies_witness:
  "periodKeyOf ModuleDaily PeriodCurrent 0 \<noteq> periodKeyOf ModuleDaily PeriodCurrent (86400 * second)"
proof -
  have y: "ModuleDaily \<in> set calendar_kinds" "year_ok NotificationLocation 0" "year_ok NotificationLocation (86400 * second)"
    by (simp_all add: year_ok_def go_simps calendar_kinds_def)
  show ?thesis unfolding periodKeyOf_identifies [OF y] by (simp add: go_simps)
qed

section \<open>Sending\<close>

lemma store_env_simps [simp]:
  "job_at (store_env x c) = job_at (sx_store x)" "env_ok (store_env x c) = env_ok (sx_store x)"
  "keyed (store_env x c) = keyed (sx_store x)" "deliveries_of (store_env x c) = deliveries_of (sx_store x)"
  "due_keys (store_env x c) = due_keys (sx_store x)" "se_now (store_env x c) = sx_now x"
  by (simp_all add: store_env_def)

lemma setStatusError_sel [simp]:
  "sv_db (setStatusError code s) = sv_db s" "ss_ErrorCode (sv_status (setStatusError code s)) = code"
  by (simp_all add: setStatusError_def)

lemma pending_sel [simp]:
  "sv_db (addPending s) = sv_db s" "sv_db (dropPending n s) = sv_db s"
  "ss_ErrorCode (sv_status (addPending s)) = ss_ErrorCode (sv_status s)"
  by (simp_all add: addPending_def dropPending_def)

lemma send_loop_prefix: "send_loop x n js s = (sent, s') \<Longrightarrow> prefix sent js"
proof (induction x n js s arbitrary: sent s' rule: send_loop.induct)
  case (2 x n j js s)
  then show ?case by (auto simp: Let_def split: if_splits prod.splits)
qed simp

text \<open>What a pending job was before the stale ones were superseded.  A transaction that failed has changed nothing.\<close>

lemma superseded_pending:
  assumes "env_ok (sx_store x)" and "supersededStaleJobs (store_env x CallSupersede) cur db = (r, db1)"
    and "job_at (sx_store x) (db_jobs db1) k = Some p" and "j_State p = jobPending"
  shows "job_at (sx_store x) (db_jobs db) k = Some p \<and> (case r of Inl _ \<Rightarrow> True | Inr _ \<Rightarrow> cur \<le> j_Revision p)"
proof (cases r)
  case (Inl e)
  then have "db1 = db" using assms(2) by (auto simp: supersededStaleJobs_def db_Update_def split: sum.splits if_splits)
  with Inl assms(3) show ?thesis by simp
next
  case (Inr n)
  note at1 = superseded_at [OF _ assms(2) [unfolded Inr], unfolded store_env_simps, OF assms(1)]
  from assms(3,4) Inr show ?thesis unfolding at1
    by (fastforce simp: job_states split: option.splits if_splits)
qed

text \<open>What a tick hands out, as a lemma for the statements about restarts too.\<close>

lemma sendTick_hands:
  assumes "env_ok (sx_store x)" and "keyed (sx_store x) (sv_db s)" and "sendTick x s = (sent, s')"
  shows "length sent \<le> 10 \<and> distinct (map jobKey sent) \<and>
    list_all (\<lambda>j. case job_at (sx_store x) (db_jobs (sv_db s)) (jobKey j) of
        None \<Rightarrow> False
      | Some p \<Rightarrow> j = p\<lparr>j_State := jobSending, j_UpdatedAt := sx_now x\<rparr> \<and> j_State p = jobPending \<and>
          j_NextAttempt p \<le> sx_now x \<and>
          (case fst (supersededStaleJobs (store_env x CallSupersede) (readRevision (sx_store x) (sv_db s)) (sv_db s)) of
             Inl _ \<Rightarrow> True | Inr _ \<Rightarrow> readRevision (sx_store x) (sv_db s) \<le> j_Revision p)) sent"
proof -
  let ?e = "sx_store x" and ?cur = "readRevision (sx_store x) (sv_db s)" and ?x = "store_env x CallClaim"
  obtain r0 db1 where sup: "supersededStaleJobs (store_env x CallSupersede) ?cur (sv_db s) = (r0, db1)" by fastforce
  let ?new = "\<lambda>p. case r0 of Inl _ \<Rightarrow> True | Inr _ \<Rightarrow> ?cur \<le> j_Revision p"
  obtain r db2 where claim: "ClaimDueJobs ?x (sx_now x) 10 db1 = (r, db2)" by fastforce
  have "length sent \<le> 10 \<and> distinct (map jobKey sent) \<and>
    list_all (\<lambda>j. case job_at ?e (db_jobs (sv_db s)) (jobKey j) of
        None \<Rightarrow> False
      | Some p \<Rightarrow> j = p\<lparr>j_State := jobSending, j_UpdatedAt := sx_now x\<rparr> \<and> j_State p = jobPending \<and>
          j_NextAttempt p \<le> sx_now x \<and> ?new p) sent"
  proof (cases r)
    case (Inl err)
    then have "sent = []" using assms(3) sup claim by (cases r0) (auto simp: sendTick_def Let_def split: if_splits)
    then show ?thesis by simp
  next
    case (Inr jobs)
    have "prefix sent jobs"
      using assms(3) sup claim Inr by (cases r0) (auto simp: sendTick_def Let_def dest: send_loop_prefix split: if_splits)
    then obtain rest where jobs: "jobs = sent @ rest" by (auto simp: prefix_def)
    let ?due = "due_keys ?e (sx_now x) 10 (db_jobs db1)"
    have cl: "jobs = List.map_filter (\<lambda>k. map_option (claimed ?x) (job_at ?e (db_jobs db1) k)) ?due"
      using ClaimDueJobs_at [OF _ claim [unfolded Inr], unfolded store_env_simps, OF assms(1)] by simp
    have due: "\<exists>p. job_at ?e (db_jobs db1) k = Some p \<and> job_at ?e (db_jobs (sv_db s)) k = Some p \<and> jobKey p = k \<and>
        j_State p = jobPending \<and> j_NextAttempt p \<le> sx_now x \<and> ?new p" if "k \<in> set ?due" for k
      using due_keys_at [OF assms(1) that] superseded_pending [OF assms(1) sup] assms(2) unfolding keyed_def by metis
    have m: "jobs = map (\<lambda>k. claimed ?x (the (job_at ?e (db_jobs (sv_db s)) k))) ?due"
      unfolding cl using due by (subst map_filter_total) (fastforce simp: option.map_sel)+
    have keys: "map jobKey jobs = ?due"
      unfolding m using due by (fastforce simp: comp_def intro: map_idI)
    have "distinct ?due"
      using jobs_filter_at(2) [OF assms(1), where P = "\<lambda>j. j_State j = jobPending \<and> j_NextAttempt j \<le> sx_now x"]
      by (simp add: due_keys_def Let_def distinct_take)
    then have "distinct (map jobKey sent)" using keys jobs by (metis distinct_append map_append)
    moreover have "length ?due \<le> 10" by (simp add: due_keys_def Let_def)
    then have "length sent \<le> 10" using keys jobs by (metis length_append length_map le_add1 order_trans)
    moreover have "case job_at ?e (db_jobs (sv_db s)) (jobKey j) of None \<Rightarrow> False
      | Some p \<Rightarrow> j = p\<lparr>j_State := jobSending, j_UpdatedAt := sx_now x\<rparr> \<and> j_State p = jobPending \<and>
          j_NextAttempt p \<le> sx_now x \<and> ?new p" if "j \<in> set sent" for j
    proof -
      from that have "j \<in> set jobs" by (simp add: jobs)
      then obtain k where k: "k \<in> set ?due" "j = claimed ?x (the (job_at ?e (db_jobs (sv_db s)) k))"
        unfolding m by auto
      with due [OF k(1)] show ?thesis by auto
    qed
    ultimately show ?thesis by (simp add: list_all_iff)
  qed
  then show ?thesis by (simp only: sup fst_conv)
qed

text \<open>A tick that could not supersede says so in its status.\<close>

lemma settle_error: "ss_ErrorCode (sv_status s) = ''store_write_failed'' \<Longrightarrow> ss_ErrorCode (sv_status (settle x j res s)) = ''store_write_failed''"
  by (auto simp: settle_def requeueForRetry_def setStatusError_def Let_def split: prod.split sum.split)

lemma send_loop_error: "send_loop x n js s = (sent, s') \<Longrightarrow> ss_ErrorCode (sv_status s) = ''store_write_failed'' \<Longrightarrow>
    ss_ErrorCode (sv_status s') = ''store_write_failed''"
  by (induction x n js s arbitrary: sent s' rule: send_loop.induct)
    (auto simp: Let_def settle_error split: if_splits prod.splits)

lemma sendTick_reports:
  assumes "supersededStaleJobs (store_env x CallSupersede) (readRevision (sx_store x) (sv_db s)) (sv_db s) = (Inl e, db1)"
    and "sendTick x s = (sent, s')"
  shows "ss_ErrorCode (sv_status s') = ''store_write_failed''"
  using assms
  by (auto simp: sendTick_def setStatusError_def dropPending_def Let_def dest!: send_loop_error split: prod.splits sum.splits)

text \<open>C10. What a tick hands to the platforms: at most ten jobs under different keys, each of which was pending and due,
  with its payload as stored.  None of them was enqueued under an older configuration when the stale jobs
  could be superseded; when that failed the tick goes on, and an old job may be sent.\<close>

theorem sendTick_sends:
  assumes "env_ok (sx_store x)" and "keyed (sx_store x) (sv_db s)" and "sendTick x s = (sent, s')"
  shows "length sent \<le> 10 \<and> distinct (map jobKey sent) \<and>
    list_all (\<lambda>j. case job_at (sx_store x) (db_jobs (sv_db s)) (jobKey j) of
        None \<Rightarrow> False
      | Some p \<Rightarrow> j = p\<lparr>j_State := jobSending, j_UpdatedAt := sx_now x\<rparr> \<and> j_State p = jobPending \<and>
          j_NextAttempt p \<le> sx_now x \<and>
          (case fst (supersededStaleJobs (store_env x CallSupersede) (readRevision (sx_store x) (sv_db s)) (sv_db s)) of
             Inl _ \<Rightarrow> True | Inr _ \<Rightarrow> readRevision (sx_store x) (sv_db s) \<le> j_Revision p)) sent"
  by (rule sendTick_hands [OF assms])

text \<open>The steps of a settling whose writes succeed: the finish, the clock of an accepted message, the requeue.\<close>

lemma settle_steps:
  assumes "settle x j res s = s'" and "ss_ErrorCode (sv_status s') \<noteq> ''store_write_failed''"
  obtains db1 s1 where
    "FinishJob (store_env x (CallFinish (j_ID j))) (j_ID j) (r_Outcome res) (r_ErrorCode res) (r_Detail res) (sv_db s) = (Inr (), db1)"
    "s1 = (if r_Outcome res = deliveryAccepted then
             (case SetClock (store_env x (CallSetClock (j_ID j))) (j_NotificationID j)
                 (clockScope (j_KeyFingerprint j)) (j_Channel j) (sx_now x) db1 of
                (Inl _, db) \<Rightarrow> setStatusError ''store_write_failed'' (s\<lparr>sv_db := db\<rparr>)
              | (Inr _, db) \<Rightarrow> s\<lparr>sv_db := db\<rparr>)
           else s\<lparr>sv_db := db1\<rparr>)"
    "s' = (if r_Outcome res = deliveryFailed \<and> 0 < r_RetryAfter res
        then requeueForRetry x j (sx_now x + r_RetryAfter res) s1 else s1)"
proof -
  obtain f db1 where f: "FinishJob (store_env x (CallFinish (j_ID j))) (j_ID j) (r_Outcome res) (r_ErrorCode res) (r_Detail res) (sv_db s) = (f, db1)"
    by fastforce
  with assms obtain u where u: "f = Inr u" by (cases f) (auto simp: settle_def)
  show thesis
    by (rule that [OF _ refl]) (use f u assms(1) in \<open>auto simp: settle_def Let_def split: prod.split sum.split\<close>)
qed

lemma settle_clock:
  assumes "env_ok (sx_store x)" and "year_ok NotificationLocation (sx_now x)"
    and "settle x j res s = s'" and "ss_ErrorCode (sv_status s') \<noteq> ''store_write_failed''"
  shows "if r_Outcome res = deliveryAccepted
     then Clock (sx_store x) (j_NotificationID j) (clockScope (j_KeyFingerprint j)) (j_Channel j) (sv_db s') =
       Some (sx_now x div second * second)
     else db_clock (sv_db s') = db_clock (sv_db s)"
  using assms(3,4)
proof (cases rule: settle_steps)
  case (1 db1 s1)
  show ?thesis
  proof (cases "r_Outcome res = deliveryAccepted")
    case True
    obtain r2 db2 where c: "SetClock (store_env x (CallSetClock (j_ID j))) (j_NotificationID j)
        (clockScope (j_KeyFingerprint j)) (j_Channel j) (sx_now x) db1 = (r2, db2)" by fastforce
    have "s' = s1" using True 1(3) by (simp add: outcomes)
    with True c assms(4) 1(2) obtain v where "r2 = Inr v" "sv_db s' = db2" by (cases r2) auto
    with Clock_SetClock [OF _ assms(2) c [unfolded \<open>r2 = Inr v\<close>]] assms(1) True show ?thesis
      by (simp add: Clock_def store_env_def)
  next
    case False
    have "db_clock db1 = db_clock (sv_db s)"
      using 1(1) by (auto simp: FinishJob_def db_Update_Inr sum_bind_Inr split: option.splits)
    then have "db_clock (sv_db s1) = db_clock (sv_db s)" using False 1(2) by simp
    then have "db_clock (sv_db s') = db_clock (sv_db s)" unfolding 1(3)
      by (auto simp: requeueForRetry_def UpsertJob_def db_Update_def Let_def sum_bind_def split: prod.split sum.split)
    with False show ?thesis by simp
  qed
qed

text \<open>A requeue puts the same payload back as pending, under the revision of the store.\<close>

lemma requeue_fresh:
  assumes "env_ok (sx_store x)" and "requeueForRetry x j t s = s'" and "ss_ErrorCode (sv_status s') \<noteq> ''store_write_failed''"
    and "job_at (sx_store x) (db_jobs (sv_db s)) (jobKey j) = Some j1" and "j_State j1 = jobFailed"
  obtains j' where "job_at (sx_store x) (db_jobs (sv_db s')) (jobKey j) = Some j'" "j_State j' = jobPending"
    "j_NextAttempt j' = t" "j_Payload j' = j_Payload j" "j_Revision j' = readRevision (sx_store x) (sv_db s)"
    "db_deliveries (sv_db s') = db_deliveries (sv_db s)"
proof -
  let ?n = "retry_job x j t" and ?y = "store_env x (CallRequeue (j_ID j))"
  obtain m db2 where up: "UpsertJob ?y ?n (sv_db s) = (m, db2)" by fastforce
  with assms(2,3) obtain i where i: "m = Inr i" by (cases m) (auto simp: requeueForRetry_def)
  have key: "jobKey ?n = jobKey j" by (simp add: retry_job_def jobKey_def)
  note at = UpsertJob_at [OF _ up [unfolded i], unfolded store_env_simps, OF assms(1), unfolded key]
  with assms(4,5) have at2: "db_deliveries db2 = db_deliveries (sv_db s)"
    "job_at (sx_store x) (db_jobs db2) (jobKey j) = Some (freshJob ?y (sv_db s) ?n)"
    by (auto simp: job_states)
  moreover have "readRevision ?y (sv_db s) = readRevision (sx_store x) (sv_db s)" by (simp add: readRevision_def store_env_def)
  ultimately show thesis using up i assms(2)
    by (intro that [of "freshJob ?y (sv_db s) ?n"]) (auto simp: requeueForRetry_def freshJob_def retry_job_def)
qed

text \<open>C11. A delivery whose store writes succeed is settled completely: there is a record of its outcome; a
  failure for which the platform asked to wait leaves the same payload pending under the current
  revision until the wait is over, any other outcome is the job's final state; and the clock of the
  schedule moves exactly when the message was accepted.\<close>

theorem settle_records:
  assumes "env_ok (sx_store x)" and "keyed (sx_store x) (sv_db s)"
    and "\<And>k j'. job_at (sx_store x) (db_jobs (sv_db s)) k = Some j' \<Longrightarrow> j_ID j' = j_ID j \<Longrightarrow> j' = j"
    and "year_ok NotificationLocation (sx_now x)" and "settle x j res s = s'" and "ss_ErrorCode (sv_status s') \<noteq> ''store_write_failed''"
  shows "(\<exists>r\<in>set (deliveries_of (sx_store x) (db_deliveries (sv_db s'))). d_JobID r = j_ID j \<and> d_Outcome r = r_Outcome res) \<and>
    (case job_at (sx_store x) (db_jobs (sv_db s')) (jobKey j) of
       None \<Rightarrow> False
     | Some j' \<Rightarrow>
       if r_Outcome res = deliveryFailed \<and> 0 < r_RetryAfter res
       then j_State j' = jobPending \<and> j_NextAttempt j' = sx_now x + r_RetryAfter res \<and> j_Payload j' = j_Payload j \<and>
         j_Revision j' = readRevision (sx_store x) (sv_db s)
       else jobStateForOutcome (r_Outcome res) = Inr (j_State j') \<and> j_Payload j' = j_Payload j) \<and>
    (if r_Outcome res = deliveryAccepted
     then Clock (sx_store x) (j_NotificationID j) (clockScope (j_KeyFingerprint j)) (j_Channel j) (sv_db s') =
       Some (sx_now x div second * second)
     else db_clock (sv_db s') = db_clock (sv_db s))"
  using assms(5,6)
proof (cases rule: settle_steps)
  case (1 db1 s1)
  let ?e = "sx_store x"
  from FinishJob_at [OF _ 1(1), unfolded store_env_simps, OF assms(1)] obtain k j0 st r
    where j0: "job_at ?e (db_jobs (sv_db s)) k = Some j0" "j_ID j0 = j_ID j" "jobStateForOutcome (r_Outcome res) = Inr st"
      "job_at ?e (db_jobs db1) = (job_at ?e (db_jobs (sv_db s)))(k \<mapsto> j0\<lparr>j_State := st, j_UpdatedAt := sx_now x\<rparr>)"
      "r \<in> set (deliveries_of ?e (db_deliveries db1))" "d_JobID r = j_ID j" "d_Outcome r = r_Outcome res"
    by blast
  from assms(3) [OF j0(1,2)] have eq: "j0 = j" .
  with j0(1) assms(2) have k: "k = jobKey j" by (auto simp: keyed_def)
  have s1: "db_jobs (sv_db s1) = db_jobs db1 \<and> db_deliveries (sv_db s1) = db_deliveries db1 \<and> db_revision (sv_db s1) = db_revision db1"
    unfolding 1(2) by (auto simp: SetClock_def db_Update_def Let_def sum_bind_def split: prod.split sum.split)
  have rev: "db_revision db1 = db_revision (sv_db s)"
    using 1(1) by (auto simp: FinishJob_def db_Update_Inr sum_bind_Inr split: option.splits)
  note clock = settle_clock [OF assms(1,4-6)]
  show ?thesis
  proof (cases "r_Outcome res = deliveryFailed \<and> 0 < r_RetryAfter res")
    case False
    with clock 1(3) s1 j0 k eq show ?thesis by auto
  next
    case True
    then have st: "st = jobFailed" using j0(3) by (simp add: jobStateForOutcome_def outcomes)
    from True 1(3) have s'': "requeueForRetry x j (sx_now x + r_RetryAfter res) s1 = s'" by simp
    have "job_at ?e (db_jobs (sv_db s1)) (jobKey j) = Some (j\<lparr>j_State := jobFailed, j_UpdatedAt := sx_now x\<rparr>)"
      using s1 j0(4) k eq st by simp
    from requeue_fresh [OF assms(1) s'' assms(6) this] obtain j' where j':
      "job_at ?e (db_jobs (sv_db s')) (jobKey j) = Some j'" "j_State j' = jobPending" "j_NextAttempt j' = sx_now x + r_RetryAfter res"
      "j_Payload j' = j_Payload j" "j_Revision j' = readRevision ?e (sv_db s1)" "db_deliveries (sv_db s') = db_deliveries (sv_db s1)"
      by auto
    have "readRevision ?e (sv_db s1) = readRevision ?e (sv_db s)" using s1 rev by (simp add: readRevision_def)
    with clock True j' s1 j0(5-7) show ?thesis by auto
  qed
qed


section \<open>Witnesses\<close>

text \<open>The record \<open>FinishJob\<close> writes for an accepted delivery of the sample job.\<close>

definition sample_sent :: deliveryRecord where
  "sample_sent = delivery_for (sample_job\<lparr>j_State := jobSending\<rparr>) (''0-1'') deliveryAccepted [] [] 0"

definition sample_sending_store :: "(string, bytes) fmap storeEnv" where
  "sample_sending_store = sample_store\<lparr>se_codec := sample_store_codec
     \<lparr>encDelivery := (\<lambda>r. if r = sample_sent then Some [] else None), decDelivery := (\<lambda>_. Some sample_sent)\<rparr>\<rparr>"

lemma sample_sending_ok: "env_ok sample_sending_store"
proof -
  have "codec_ok (se_codec sample_sending_store)"
    by (simp add: codec_ok_def sample_sending_store_def sample_store_codec_def)
  with sample_bolt_ok show ?thesis
    by (simp add: env_ok_def) (simp add: sample_sending_store_def sample_store_def)
qed

lemma sample_sending_sel:
  "se_bolt sample_sending_store = se_bolt sample_store" "se_now sample_sending_store = 0" "se_now sample_store = 0"
  "decJob (se_codec sample_sending_store) = decJob (se_codec sample_store)"
  "encJob (se_codec sample_sending_store) = encJob (se_codec sample_store)"
  "se_commits sample_sending_store = True" "se_commits sample_store = True"
  by (simp_all add: sample_sending_store_def sample_store_def)

lemma sample_sending_jobs:
  "job_at sample_sending_store = job_at sample_store" "jobs_of sample_sending_store = jobs_of sample_store"
  "put_job sample_sending_store = put_job sample_store"
  by (intro ext; simp only: job_at_def jobs_of_def put_job_def put_in_def sample_sending_sel)+

definition sample_svc :: "(string, bytes) fmap svcEnv" where
  "sample_svc =
     \<lparr>sx_store = sample_sending_store, sx_commits = \<lambda>_. True, sx_now = 0, sx_state = sample_state, sx_channels = Inr [],
      sx_compose = \<lambda>_ _ _. Inr [], sx_send = \<lambda>_ _. Some [], sx_cancelled = \<lambda>n. n = 1, sx_newID = id,
      sx_hash = id, sx_encMsg = \<lambda>_. Some [], sx_decMsg = \<lambda>_. None\<rparr>"

definition sample_service :: "string option \<Rightarrow> (string, bytes) fmap service" where
  "sample_service st = \<lparr>sv_db = sample_db st,
     sv_status = \<lparr>ss_Running = True, ss_ErrorCode = [], ss_Revision = 0, ss_PendingJobs = 0, ss_NextFire = []\<rparr>\<rparr>"

lemma sample_svc_env: "store_env sample_svc c = sample_sending_store" "sx_store sample_svc = sample_sending_store"
  "sx_now sample_svc = 0"
  by (simp_all add: sample_svc_def store_env_def sample_sending_store_def sample_store_def)

theorem sendTick_sends_witness:
  "\<exists>s'. sendTick sample_svc (sample_service (Some jobPending)) = ([sample_job\<lparr>j_State := jobSending\<rparr>], s') \<and>
     (case job_at sample_store (db_jobs (sample_db (Some jobPending))) (jobKey sample_job) of
        None \<Rightarrow> False | Some p \<Rightarrow> j_State p = jobPending)"
proof -
  let ?s = "sample_service (Some jobPending)"
  have c: "se_commits sample_sending_store" "se_commits sample_store"
    by (simp_all add: sample_sending_store_def sample_store_def)
  have rev: "readRevision sample_sending_store (sample_db st) = 0" for st
    by (simp add: readRevision_def sample_sending_store_def sample_store_def sample_bolt_def sample_db_def)
  have sup: "supersededStaleJobs sample_sending_store 0 (sample_db st) = (Inr 0, sample_db st)" for st
    by (simp add: supersededStaleJobs_def db_Update_def c)
  have "due_keys sample_sending_store = due_keys sample_store" by (simp add: fun_eq_iff due_keys_def sample_sending_jobs)
  moreover have "claim_loop sample_sending_store ks b = claim_loop sample_store ks b" for ks b
  proof (induction ks arbitrary: b)
    case (Cons k ks)
    then show ?case
      by (cases "job_at sample_store b k") (simp_all add: sample_sending_jobs sample_sending_sel)
  qed simp
  ultimately have claim: "ClaimDueJobs sample_sending_store 0 10 (sample_db (Some jobPending)) =
      (Inr [sample_job\<lparr>j_State := jobSending\<rparr>], sample_db (Some jobSending))"
    using sample_claim unfolding ClaimDueJobs_def db_Update_def sample_sending_sel if_True by simp
  have "\<exists>s'. sendTick sample_svc ?s = ([sample_job\<lparr>j_State := jobSending\<rparr>], s')"
    by (simp add: sendTick_def sample_svc_env rev sup claim sample_service_def Let_def)
      (simp add: sample_svc_def)
  then obtain s' where s': "sendTick sample_svc ?s = ([sample_job\<lparr>j_State := jobSending\<rparr>], s')" by blast
  have k: "keyed (sx_store sample_svc) (sv_db ?s)"
    by (simp add: keyed_def sample_svc_env sample_sending_jobs sample_service_def sample_job_at)
  have e: "env_ok (sx_store sample_svc)" by (simp add: sample_svc_env sample_sending_ok)
  have sup': "fst (supersededStaleJobs (store_env sample_svc CallSupersede)
      (readRevision (sx_store sample_svc) (sv_db ?s)) (sv_db ?s)) = Inr 0"
    by (simp add: sample_svc_env rev sup sample_service_def)
  from sendTick_sends [OF e k s', unfolded sup'] s' show ?thesis
    by (auto simp: sample_svc_env sample_sending_jobs sample_service_def split: option.splits)
qed

lemma sample_finish: "\<exists>b. FinishJob sample_sending_store ''1'' deliveryAccepted [] [] (sample_db (Some v)) =
    (Inr (), (sample_db (Some jobSent))\<lparr>db_deliveries := b\<rparr>)"
proof -
  have "\<exists>b. appendDelivery sample_sending_store sample_sent fmempty = Inr b"
    by (simp add: appendDelivery_def put_in_def sample_sending_store_def sample_store_def sample_bolt_def)
  then obtain b where b: "appendDelivery sample_sending_store sample_sent fmempty = Inr b" by blast
  have c: "se_commits sample_sending_store" "se_now sample_sending_store = 0" "j_ID (sample_job\<lparr>j_State := v\<rparr>) = ''1''"
    by (simp_all add: sample_sending_store_def sample_store_def sample_job_def)
  have id: "itoa (nat 0) @ ''-'' @ ''1'' = ''0-1''" by (simp add: go_simps)
  have d: "delivery_for (sample_job\<lparr>j_State := v\<rparr>) = delivery_for (sample_job\<lparr>j_State := jobSending\<rparr>)"
    by (simp add: fun_eq_iff delivery_for_def)
  have "FinishJob sample_sending_store ''1'' deliveryAccepted [] [] (sample_db (Some v)) =
      (Inr (), (sample_db (Some jobSent))\<lparr>db_deliveries := b\<rparr>)"
    unfolding FinishJob_def db_Update_def sample_sending_jobs sample_jobs_of sample_sending_sel if_True
    using b id by (simp add: c jobStateForOutcome_def sample_moved sample_put d sample_sent_def) (simp add: sample_db_def c(1))
  then show ?thesis by blast
qed

theorem settle_records_witness:
  "\<exists>s'. settle sample_svc (sample_job\<lparr>j_State := jobSending\<rparr>) (delivery_result deliveryAccepted [] [])
       (sample_service (Some jobSending)) = s' \<and> ss_ErrorCode (sv_status s') = [] \<and>
     Clock sample_store ''n'' ''global'' [] (sv_db s') = Some 0"
proof -
  let ?s = "sample_service (Some jobSending)" and ?j = "sample_job\<lparr>j_State := jobSending\<rparr>"
    and ?r = "delivery_result deliveryAccepted [] []"
  have c: "se_commits sample_sending_store" "se_now sample_sending_store = 0" "j_ID ?j = ''1''"
    by (simp_all add: sample_sending_store_def sample_store_def sample_job_def)
  have cm: "se_commits sample_sending_store" by (simp add: sample_sending_sel)
  from sample_finish obtain b where f: "FinishJob sample_sending_store ''1'' deliveryAccepted [] [] (sample_db (Some jobSending)) =
      (Inr (), (sample_db (Some jobSent))\<lparr>db_deliveries := b\<rparr>)" by blast
  obtain s' where s': "settle sample_svc ?j ?r ?s = s'" by blast
  have id: "j_ID j' = j_ID ?j \<Longrightarrow> j' = ?j" if "job_at (sx_store sample_svc) (db_jobs (sv_db ?s)) k = Some j'" for k j'
    using that by (simp add: sample_svc_env sample_sending_jobs sample_service_def sample_job_at split: if_splits)
  have k: "keyed (sx_store sample_svc) (sv_db ?s)"
    by (simp add: keyed_def sample_svc_env sample_sending_jobs sample_service_def sample_job_at)
  have y: "year_ok NotificationLocation (sx_now sample_svc)" by (simp add: sample_svc_env year_ok_def go_simps)
  have "ss_ErrorCode (sv_status s') = []"
    unfolding s' [symmetric] settle_def
    by (simp add: sample_svc_env c f sample_service_def Let_def SetClock_def db_Update_def put_in_def sample_sending_sel delivery_result_def)
      (simp add: outcomes cm sample_store_def sample_bolt_def)
  with settle_records [OF _ k id y s'] sample_sending_ok have "Clock (sx_store sample_svc) (j_NotificationID ?j)
      (clockScope (j_KeyFingerprint ?j)) (j_Channel ?j) (sv_db s') = Some (sx_now sample_svc div second * second)"
    by (simp add: sample_svc_env delivery_result_def)
  moreover have "Clock sample_sending_store = Clock sample_store"
    by (intro ext) (simp only: Clock_def sample_sending_sel)
  ultimately show ?thesis using s' \<open>ss_ErrorCode (sv_status s') = []\<close>
    by (auto simp: sample_svc_env sample_job_def clockScope_def)
qed


end
