(* ===== verification/Management.thy ===== *)
theory Management
  imports Key_Table State_Manager Notification_Service
begin

text \<open>
  The management API of the state (\<open>management.go\<close>): the routing table, the requests that replace
  the rules, write, patch and delete a key binding, and the dry run.  Decoding a request body is a
  parameter, one function per payload type; encoding plain data as JSON does not fail, so a response
  is a status and the value it encodes.  The audit around the writing requests is in \<open>Audit\<close>, the
  notification routes in \<open>Notification_Management\<close>.
\<close>

section \<open>Requests and responses\<close>

record managementRequest =
  rq_Method :: string
  rq_Path :: string
  rq_Query :: "string \<rightharpoonup> string list"
  rq_Body :: bytes

definition query_get :: "managementRequest \<Rightarrow> string \<Rightarrow> string" where
  "query_get req k = (case rq_Query req k of Some (v # _) \<Rightarrow> v | _ \<Rightarrow> [])"

text \<open>The payload of a patch; a field that is absent is \<open>None\<close>.\<close>

record bindingPatch =
  pt_Alias :: "string option"
  pt_Enabled :: "bool option"
  pt_Blocked :: "bool option"
  pt_Rules :: "RuleSet option"
  pt_ChannelTarget :: "ChannelTarget option"
  pt_FastAllowed :: "bool option"

record previewRequest =
  pr_Key :: string
  pr_Format :: string
  pr_Model :: string

text \<open>\<open>decKey\<close> reads the \<open>key\<close> field of a body, \<open>""\<close> when there is none: its error is ignored.\<close>

record requestCodec =
  decRules :: "bytes \<Rightarrow> RuleSet option"
  decBinding :: "bytes \<Rightarrow> KeyBinding option"
  decPatch :: "bytes \<Rightarrow> bindingPatch option"
  decKey :: "bytes \<Rightarrow> string"
  decPreview :: "bytes \<Rightarrow> previewRequest option"

record stateResponse =
  sr_Version :: int
  sr_Rules :: RuleSet
  sr_KeyBindings :: "KeyBinding list"
  sr_UpdatedAt :: string
  sr_Persisted :: bool
  sr_StateFile :: string
  sr_LoadError :: "load_error option"

datatype management_error =
    InvalidPayload | KeyMissing | BindingNotFound | UpdateFailed update_error
  | FormatAndModelRequired | RoutingFailed rule_error | UnknownRoute

datatype 'a response_body = ErrorBody management_error | StateBody stateResponse | PreviewBody previewResponse | OtherBody 'a

record 'a managementResponse =
  rs_Status :: int
  rs_Body :: "'a response_body"

definition managementJSON :: "int \<Rightarrow> 'a response_body \<Rightarrow> 'a managementResponse" where
  "managementJSON status v = \<lparr>rs_Status = status, rs_Body = v\<rparr>"

definition managementError :: "int \<Rightarrow> management_error \<Rightarrow> 'a managementResponse" where
  "managementError status e = managementJSON status (ErrorBody e)"

text \<open>What a handler needs besides the loaded state: the codecs, the disk, and the run-state store for
  the next send times, \<open>None\<close> when it cannot be opened.\<close>

record 'b managementEnv =
  mx_codec :: stateCodec
  mx_os :: osEnv
  mx_decode :: requestCodec
  mx_svc :: "'b svcEnv"
  mx_store :: "'b db option"

section \<open>Reading the state\<close>

definition managementGetState :: "'b managementEnv \<Rightarrow> World \<Rightarrow> 'a managementResponse" where
  "managementGetState x w =
     (let st = h_state (w_holder w);
          project = (\<lambda>b. b\<lparr>kb_NotificationSlice := map_option
            (map (projectNotificationNextFire (mx_svc x) (mx_store x) (keyFingerprint (sx_hash (mx_svc x)) (kb_Key b)) [''-'']))
              (kb_NotificationSlice b)\<rparr>)
      in managementJSON 200 (StateBody
           \<lparr>sr_Version = (if st_Version st = 0 then stateVersion else st_Version st), sr_Rules = st_Rules st,
            sr_KeyBindings = map project (st_KeyBindings st), sr_UpdatedAt = st_UpdatedAt st,
            sr_Persisted = h_persisted (w_holder w), sr_StateFile = stateFilePathFrom (mx_os x) (w_cfg w),
            sr_LoadError = h_loadError (w_holder w)\<rparr>))"

text \<open>A failed write is a server error, everything else the client's.\<close>

definition managementStateError :: "update_error \<Rightarrow> 'a managementResponse" where
  "managementStateError e =
     (case e of PersistError _ \<Rightarrow> managementError 500 (UpdateFailed e) | _ \<Rightarrow> managementError 400 (UpdateFailed e))"

section \<open>Writing the state\<close>

definition managementPutRules ::
    "'b managementEnv \<Rightarrow> managementRequest \<Rightarrow> World \<Rightarrow> 'a managementResponse \<times> World" where
  "managementPutRules x req w =
     (case decRules (mx_decode x) (rq_Body req) of
        None \<Rightarrow> (managementError 400 InvalidPayload, w)
      | Some body \<Rightarrow>
        (case applyStateUpdate (mx_codec x) (mx_os x) (\<lambda>st. Inr (st\<lparr>st_Rules := body\<rparr>)) w of
           (Some e, w) \<Rightarrow> (managementStateError e, w)
         | (None, w) \<Rightarrow> (managementGetState x w, w)))"

text \<open>The three loops over the bindings.\<close>

fun put_binding :: "KeyBinding \<Rightarrow> KeyBinding list \<Rightarrow> KeyBinding list" where
  "put_binding binding [] = [binding]"
| "put_binding binding (b # bs) =
     (if kb_Key b = kb_Key binding then binding # bs else b # put_binding binding bs)"

fun alter_binding :: "string \<Rightarrow> (KeyBinding \<Rightarrow> KeyBinding) \<Rightarrow> KeyBinding list \<Rightarrow> KeyBinding list option" where
  "alter_binding target f [] = None"
| "alter_binding target f (b # bs) =
     (if kb_Key b = target then Some (f b # bs) else map_option ((#) b) (alter_binding target f bs))"

fun remove_binding :: "string \<Rightarrow> KeyBinding list \<Rightarrow> KeyBinding list option" where
  "remove_binding target [] = None"
| "remove_binding target (b # bs) =
     (if kb_Key b = target then Some bs else map_option ((#) b) (remove_binding target bs))"

definition cleanBinding :: "KeyBinding \<Rightarrow> KeyBinding" where
  "cleanBinding b = stripKeyNotificationAtAll (b\<lparr>kb_Key := trim_space (kb_Key b)\<rparr>)"

definition managementPostKey ::
    "'b managementEnv \<Rightarrow> managementRequest \<Rightarrow> World \<Rightarrow> 'a managementResponse \<times> World" where
  "managementPostKey x req w =
     (case decBinding (mx_decode x) (rq_Body req) of
        None \<Rightarrow> (managementError 400 InvalidPayload, w)
      | Some binding \<Rightarrow>
        (let binding = cleanBinding binding
         in case applyStateUpdate (mx_codec x) (mx_os x)
               (\<lambda>st. Inr (st\<lparr>st_KeyBindings := put_binding binding (st_KeyBindings st)\<rparr>)) w of
              (Some e, w) \<Rightarrow> (managementStateError e, w)
            | (None, w) \<Rightarrow> (managementGetState x w, w)))"

definition keyFromRequest :: "'b managementEnv \<Rightarrow> managementRequest \<Rightarrow> string" where
  "keyFromRequest x req =
     (let key = trim_space (query_get req ''key'')
      in if key \<noteq> [] then key else trim_space (decKey (mx_decode x) (rq_Body req)))"

definition applyPatch :: "bindingPatch \<Rightarrow> KeyBinding \<Rightarrow> KeyBinding" where
  "applyPatch p b =
     b\<lparr>kb_Alias := (case pt_Alias p of None \<Rightarrow> kb_Alias b | Some v \<Rightarrow> v),
       kb_Enabled := (case pt_Enabled p of None \<Rightarrow> kb_Enabled b | Some v \<Rightarrow> v),
       kb_Blocked := (case pt_Blocked p of None \<Rightarrow> kb_Blocked b | Some v \<Rightarrow> v),
       kb_Rules := (case pt_Rules p of None \<Rightarrow> kb_Rules b | Some v \<Rightarrow> v),
       kb_ChannelTarget := (case pt_ChannelTarget p of None \<Rightarrow> kb_ChannelTarget b | Some t \<Rightarrow> Some t),
       kb_FastAllowed := (case pt_FastAllowed p of None \<Rightarrow> kb_FastAllowed b | Some v \<Rightarrow> Some v)\<rparr>"

text \<open>The update both \<open>PATCH\<close> and \<open>DELETE\<close> run, with \<open>change\<close> the loop over the bindings.\<close>

definition update_existing ::
    "'b managementEnv \<Rightarrow> string \<Rightarrow> (KeyBinding list \<Rightarrow> KeyBinding list option) \<Rightarrow> World \<Rightarrow> 'a managementResponse \<times> World" where
  "update_existing x target change w =
     (if \<not> keyBindingExists w target then (managementError 404 BindingNotFound, w)
      else case applyStateUpdate (mx_codec x) (mx_os x)
          (\<lambda>st. case change (st_KeyBindings st) of
             None \<Rightarrow> Inl KeyBindingNotFound | Some bs \<Rightarrow> Inr (st\<lparr>st_KeyBindings := bs\<rparr>)) w of
        (Some (MutateError KeyBindingNotFound), w) \<Rightarrow> (managementError 404 BindingNotFound, w)
      | (Some e, w) \<Rightarrow> (managementStateError e, w)
      | (None, w) \<Rightarrow> (managementGetState x w, w))"

definition managementPatchKey ::
    "'b managementEnv \<Rightarrow> managementRequest \<Rightarrow> World \<Rightarrow> 'a managementResponse \<times> World" where
  "managementPatchKey x req w =
     (let target = keyFromRequest x req
      in if target = [] then (managementError 400 KeyMissing, w)
         else case decPatch (mx_decode x) (rq_Body req) of
           None \<Rightarrow> (managementError 400 InvalidPayload, w)
         | Some patch \<Rightarrow> update_existing x target (alter_binding target (applyPatch patch)) w)"

definition managementDeleteKey ::
    "'b managementEnv \<Rightarrow> managementRequest \<Rightarrow> World \<Rightarrow> 'a managementResponse \<times> World" where
  "managementDeleteKey x req w =
     (let target = keyFromRequest x req
      in if target = [] then (managementError 400 KeyMissing, w)
         else update_existing x target (remove_binding target) w)"

section \<open>The dry run\<close>

definition managementPreview ::
    "'b managementEnv \<Rightarrow> managementRequest \<Rightarrow> World \<Rightarrow> go_panic + 'a managementResponse" where
  "managementPreview x req w =
     (case decPreview (mx_decode x) (rq_Body req) of
        None \<Rightarrow> Inr (managementError 400 InvalidPayload)
      | Some body \<Rightarrow>
        if trim_space (pr_Model body) = [] \<or> trim_space (pr_Format body) = []
        then Inr (managementError 400 FormatAndModelRequired)
        else case previewRoute (w_cfg w) (h_src (w_holder w)) (pr_Format body) (pr_Model body) (trim_space (pr_Key body)) of
          Inl (RuleError e) \<Rightarrow> Inr (managementError 400 (RoutingFailed e))
        | Inl (Panicked p) \<Rightarrow> Inl p
        | Inr r \<Rightarrow> Inr (managementJSON 200 (PreviewBody r)))"

section \<open>The routing table\<close>

datatype route =
    ServeIndex | GetAuthNames | RefreshAuthNames | PatchAuthName | AuditQuery | ChannelCredentials
  | GetAliases | RefreshAliases | GetState | PutRules | PostKey | PatchKey | DeleteKey | Preview
  | GetSettings | PutSettings | GetStatus | NotificationPreview | TestSend | GetDeliveries | RetryDelivery | FetchMembers

definition managementRegisterBase :: string where "managementRegisterBase = ''/plugins/model-mapper-plus''"
definition managementHandleBase :: string where "managementHandleBase = ''/v0/management/plugins/model-mapper-plus''"
definition resourcePrefix :: string where "resourcePrefix = ''/v0/resource/plugins/model-mapper-plus''"

text \<open>\<open>handleManagementRegister\<close>.\<close>

definition routePaths :: "(string \<times> string) list" where
  "routePaths =
     [(''GET'', ''/keeper/auth-names''), (''POST'', ''/keeper/auth-names/refresh''), (''PATCH'', ''/keeper/auth-names''),
      (''GET'', ''/audit''), (''POST'', ''/channel-credentials''), (''GET'', ''/keeper/key-aliases''),
      (''POST'', ''/keeper/key-aliases/refresh''), (''GET'', ''/state''), (''PUT'', ''/rules''), (''POST'', ''/keys''),
      (''PATCH'', ''/keys''), (''DELETE'', ''/keys''), (''POST'', ''/preview''), (''GET'', ''/notifications/settings''),
      (''PUT'', ''/notifications/settings''), (''GET'', ''/notifications/status''), (''POST'', ''/notifications/preview''),
      (''POST'', ''/notifications/test-send''), (''GET'', ''/notifications/deliveries''),
      (''POST'', ''/notifications/deliveries/retry''), (''POST'', ''/notifications/fetch-members'')]"

definition registeredRoutes :: "(string \<times> string) list" where
  "registeredRoutes = map (\<lambda>(m, p). (m, managementRegisterBase @ p)) routePaths"

definition trimSlashes :: "string \<Rightarrow> string" where
  "trimSlashes = trim_right_set {CHR ''/''}"

definition managementRequestPath :: "string \<Rightarrow> string" where
  "managementRequestPath raw =
     (case cut_at (CHR ''?'') (trimSlashes raw) of None \<Rightarrow> trimSlashes raw | Some (path, _) \<Rightarrow> trimSlashes path)"

text \<open>\<open>handleNotificationManagement\<close>, the choice of the handler.\<close>

definition notificationRoute :: "string \<Rightarrow> string \<Rightarrow> route option" where
  "notificationRoute m path =
     (let is = (\<lambda>method p. m = method \<and> path = managementHandleBase @ ''/notifications'' @ p)
      in if is ''GET'' ''/settings'' then Some GetSettings
         else if is ''PUT'' ''/settings'' then Some PutSettings
         else if is ''GET'' ''/status'' then Some GetStatus
         else if is ''POST'' ''/preview'' then Some NotificationPreview
         else if is ''POST'' ''/test-send'' then Some TestSend
         else if is ''GET'' ''/deliveries'' then Some GetDeliveries
         else if is ''POST'' ''/deliveries/retry'' then Some RetryDelivery
         else if is ''POST'' ''/fetch-members'' then Some FetchMembers
         else None)"

definition mainRoute :: "string \<Rightarrow> string \<Rightarrow> route option" where
  "mainRoute m path =
     (let is = (\<lambda>method p. m = method \<and> path = managementHandleBase @ p)
      in if m = ''GET'' \<and> (path = resourcePrefix \<or> path = resourcePrefix @ ''/index.html'') then Some ServeIndex
         else if is ''GET'' ''/keeper/auth-names'' then Some GetAuthNames
         else if is ''POST'' ''/keeper/auth-names/refresh'' then Some RefreshAuthNames
         else if is ''PATCH'' ''/keeper/auth-names'' then Some PatchAuthName
         else if is ''GET'' ''/audit'' then Some AuditQuery
         else if is ''POST'' ''/channel-credentials'' then Some ChannelCredentials
         else if is ''GET'' ''/keeper/key-aliases'' then Some GetAliases
         else if is ''POST'' ''/keeper/key-aliases/refresh'' then Some RefreshAliases
         else if is ''GET'' ''/state'' then Some GetState
         else if is ''PUT'' ''/rules'' then Some PutRules
         else if is ''POST'' ''/keys'' then Some PostKey
         else if is ''PATCH'' ''/keys'' then Some PatchKey
         else if is ''DELETE'' ''/keys'' then Some DeleteKey
         else if is ''POST'' ''/preview'' then Some Preview
         else None)"

text \<open>\<open>dispatchManagement\<close>: the main table sees the path as sent, the notification table without its
  query; \<open>None\<close> is the 404.\<close>

definition dispatchManagement :: "string \<Rightarrow> string \<Rightarrow> route option" where
  "dispatchManagement m rawPath =
     (case mainRoute m (trimSlashes rawPath) of
        Some r \<Rightarrow> Some r
      | None \<Rightarrow> notificationRoute m (managementRequestPath rawPath))"

section \<open>The query on the path\<close>

text \<open>\<open>url.QueryUnescape\<close> and \<open>url.ParseQuery\<close>; \<open>None\<close> is an error.\<close>

definition unhex :: "char \<Rightarrow> nat option" where
  "unhex c =
     (let n = of_char c :: nat
      in if is_digit c then Some (n - 48) else if 97 \<le> n \<and> n \<le> 102 then Some (n - 87)
         else if 65 \<le> n \<and> n \<le> 70 then Some (n - 55) else None)"

fun query_unescape :: "string \<Rightarrow> string option" where
  "query_unescape [] = Some []"
| "query_unescape (c # cs) =
     (if c = CHR ''%'' then
        (case cs of
           a # b # rest \<Rightarrow>
             (case (unhex a, unhex b) of
                (Some x, Some y) \<Rightarrow> map_option ((#) (char_of (16 * x + y))) (query_unescape rest)
              | _ \<Rightarrow> None)
         | _ \<Rightarrow> None)
      else map_option ((#) (if c = CHR ''+'' then CHR '' '' else c)) (query_unescape cs))"

definition query_part :: "string \<Rightarrow> (string \<times> string) option" where
  "query_part s =
     (if CHR '';'' \<in> set s then None
      else let (k, v) = (case cut_at (CHR ''='') s of None \<Rightarrow> (s, []) | Some kv \<Rightarrow> kv)
           in case (query_unescape k, query_unescape v) of (Some k, Some v) \<Rightarrow> Some (k, v) | _ \<Rightarrow> None)"

definition parse_query :: "string \<Rightarrow> (string \<times> string) list option" where
  "parse_query q = those (map query_part (filter (\<lambda>s. s \<noteq> []) (split_on ''&'' q)))"

definition add_value :: "string \<times> string \<Rightarrow> (string \<rightharpoonup> string list) \<Rightarrow> string \<rightharpoonup> string list" where
  "add_value kv m = m(fst kv \<mapsto> (case m (fst kv) of None \<Rightarrow> [] | Some vs \<Rightarrow> vs) @ [snd kv])"

definition mergePathQuery :: "managementRequest \<Rightarrow> managementRequest" where
  "mergePathQuery req =
     (case cut_at (CHR ''?'') (rq_Path req) of
        None \<Rightarrow> req
      | Some (_, q) \<Rightarrow>
        (case parse_query q of
           None \<Rightarrow> req | Some kvs \<Rightarrow> req\<lparr>rq_Query := fold add_value kvs (rq_Query req)\<rparr>))"

lemmas [go_simps] = query_get_def unhex_def query_part_def parse_query_def add_value_def

section \<open>The bindings as a keyed table\<close>

text \<open>\<open>auditBinding\<close> of \<open>audit_management.go\<close>: the lookup by key.\<close>

definition binding_at :: "KeyBinding list \<Rightarrow> string \<Rightarrow> KeyBinding option" where
  "binding_at bs key = find (\<lambda>b. kb_Key b = key) bs"

definition keys_distinct :: "KeyBinding list \<Rightarrow> bool" where
  "keys_distinct bs \<longleftrightarrow> distinct (map kb_Key bs)"

lemma binding_at_simps [simp]:
  "binding_at [] = (\<lambda>_. None)"
  "binding_at (b # bs) = (binding_at bs)(kb_Key b \<mapsto> b)"
  by (auto simp: binding_at_def)

lemma binding_at_key: "binding_at bs k = Some b \<Longrightarrow> kb_Key b = k"
  by (auto simp: binding_at_def dest: find_Some_in)

lemma binding_at_None: "binding_at bs k = None \<longleftrightarrow> k \<notin> kb_Key ` set bs"
  by (auto simp: binding_at_def find_None)

lemma put_binding_keys: "kb_Key ` set (put_binding nb bs) = insert (kb_Key nb) (kb_Key ` set bs)"
  by (induction nb bs rule: put_binding.induct) auto

lemma put_binding_at:
  "keys_distinct bs \<Longrightarrow> binding_at (put_binding nb bs) = (binding_at bs)(kb_Key nb \<mapsto> nb) \<and> keys_distinct (put_binding nb bs)"
  by (induction nb bs rule: put_binding.induct) (auto simp: keys_distinct_def put_binding_keys fun_eq_iff)

lemma alter_binding_map:
  "keys_distinct bs \<Longrightarrow> alter_binding k f bs =
     (if binding_at bs k = None then None else Some (map (\<lambda>b. if kb_Key b = k then f b else b) bs))"
  by (induction k f bs rule: alter_binding.induct) (auto simp: keys_distinct_def binding_at_None image_iff intro!: map_idI [symmetric], metis)

lemma remove_binding_filter:
  "keys_distinct bs \<Longrightarrow> remove_binding k bs =
     (if binding_at bs k = None then None else Some (filter (\<lambda>b. kb_Key b \<noteq> k) bs))"
  by (induction k bs rule: remove_binding.induct)
    (auto simp: keys_distinct_def binding_at_None image_iff intro!: filter_True [symmetric])

lemma binding_at_map:
  "(\<And>b. kb_Key (f b) = kb_Key b) \<Longrightarrow> binding_at (map (\<lambda>b. if kb_Key b = k then f b else b) bs) =
     (\<lambda>x. if x = k then map_option f (binding_at bs k) else binding_at bs x)"
  by (induction bs) auto

lemma binding_at_filter: "binding_at (filter (\<lambda>b. kb_Key b \<noteq> k) bs) = (binding_at bs)(k := None)"
  by (induction bs) auto

interpretation kt: keyed_table kb_Key binding_at keys_distinct put_binding alter_binding remove_binding
proof
  show "binding_at t k = Some v \<Longrightarrow> kb_Key v = k" for t k v by (rule binding_at_key)
  show "binding_at (put_binding v t) = (binding_at t)(kb_Key v \<mapsto> v)" "keys_distinct (put_binding v t)"
    if "keys_distinct t" for t v using put_binding_at [OF that] by blast+
  show "map_option binding_at (alter_binding k f t) = map_option (\<lambda>v. (binding_at t)(k \<mapsto> f v)) (binding_at t k)"
    if "keys_distinct t" "\<And>v. kb_Key (f v) = kb_Key v" for t k f
    using that by (auto simp: alter_binding_map binding_at_map fun_eq_iff)
  show "keys_distinct t'" if "keys_distinct t" "\<And>v. kb_Key (f v) = kb_Key v" "alter_binding k f t = Some t'" for t k f t'
  proof -
    have m: "map kb_Key (map (\<lambda>b. if kb_Key b = k then f b else b) t) = map kb_Key t" using that(2) by simp
    with that have "t' = map (\<lambda>b. if kb_Key b = k then f b else b) t" by (simp add: alter_binding_map split: if_splits)
    with that(1) show ?thesis by (simp only: m keys_distinct_def)
  qed
  show "map_option binding_at (remove_binding k t) = map_option (\<lambda>v. (binding_at t)(k := None)) (binding_at t k)"
    if "keys_distinct t" for t k using that by (auto simp: remove_binding_filter binding_at_filter)
  show "keys_distinct t'" if "keys_distinct t" "remove_binding k t = Some t'" for t k t'
    using that by (auto simp: remove_binding_filter keys_distinct_def distinct_map_filter split: if_splits)
qed

section \<open>The key requests\<close>

text \<open>The handler the routing table chooses for a request to \<open>/keys\<close>, and the command it stands for.\<close>

definition keyRequest :: "'b managementEnv \<Rightarrow> managementRequest \<Rightarrow> World \<Rightarrow> 'a managementResponse \<times> World" where
  "keyRequest x req w =
     (if rq_Method req = ''POST'' then managementPostKey x req w
      else if rq_Method req = ''PATCH'' then managementPatchKey x req w
      else if rq_Method req = ''DELETE'' then managementDeleteKey x req w
      else (managementError 404 UnknownRoute, w))"

definition keyCommand :: "'b managementEnv \<Rightarrow> managementRequest \<Rightarrow> (string, KeyBinding) table_cmd option" where
  "keyCommand x req =
     (if rq_Method req = ''POST'' then map_option (\<lambda>b. Put (cleanBinding b)) (decBinding (mx_decode x) (rq_Body req))
      else if keyFromRequest x req = [] then None
      else if rq_Method req = ''PATCH'' then
        map_option (\<lambda>p. Alter (keyFromRequest x req) (applyPatch p)) (decPatch (mx_decode x) (rq_Body req))
      else if rq_Method req = ''DELETE'' then Some (Remove (keyFromRequest x req))
      else None)"

abbreviation bindings_of :: "World \<Rightarrow> KeyBinding list" where
  "bindings_of w \<equiv> st_KeyBindings (h_state (w_holder w))"

lemma applyPatch_key [simp]: "kb_Key (applyPatch p b) = kb_Key b"
  by (simp add: applyPatch_def)

lemma keyCommand_ok: "keyCommand x req = Some c \<Longrightarrow> cmd_ok kb_Key c"
  by (auto simp: keyCommand_def split: if_splits)

lemma holder_distinct: "holder_ok (w_holder w) \<Longrightarrow> keys_distinct (bindings_of w)"
  by (simp add: keys_distinct_def holder_ok_def validateState_Inr state_ok_def) (metis distinct_map map_map)

lemma applyStateUpdate_holder:
  assumes "applyStateUpdate C e mutate w = (err, w')"
  shows "case err of
      None \<Rightarrow> (\<exists>st st'. mutate (h_state (w_holder w)) = Inr st \<and> validateState st = Inr st' \<and> w_holder w' = persistedHolder st')
    | Some err \<Rightarrow> w_holder w' = w_holder w \<and> (\<forall>m. err = MutateError m \<longleftrightarrow> mutate (h_state (w_holder w)) = Inl m)"
  using assms
  by (auto simp: applyStateUpdate_def Let_def split: sum.splits prod.splits option.splits)

text \<open>An update of the bindings that succeeds replaces exactly them.\<close>

lemma bindings_update:
  assumes "holder_ok (w_holder w)" and "applyStateUpdate C e (\<lambda>st. Inr (st\<lparr>st_KeyBindings := f (st_KeyBindings st)\<rparr>)) w = (None, w')"
  shows "bindings_of w' = f (bindings_of w) \<and> holder_ok (w_holder w')"
proof -
  from applyStateUpdate_holder [OF assms(2)] obtain st' where st':
      "validateState ((h_state (w_holder w))\<lparr>st_KeyBindings := f (bindings_of w)\<rparr>) = Inr st'" "w_holder w' = persistedHolder st'"
    by auto
  have "st_Version (h_state (w_holder w)) = stateVersion" using assms(1) by (simp add: holder_ok_def)
  with st' validateState_keeps [OF st'(1)] show ?thesis
    using persistedHolder_ok [OF st'(1)] by (simp add: persistedHolder_def)
qed


lemma update_existing_cases:
  assumes "holder_ok (w_holder w)" and "update_existing x target change w = (r, w')"
    and "change (bindings_of w) = None \<longleftrightarrow> binding_at (bindings_of w) target = None"
  shows "case change (bindings_of w) of
      None \<Rightarrow> rs_Status r = 404 \<and> w' = w
    | Some bs \<Rightarrow>
        if rs_Status r = 200 then bindings_of w' = bs \<and> holder_ok (w_holder w')
        else rs_Status r \<in> {400, 500} \<and> w_holder w' = w_holder w"
proof (cases "change (bindings_of w)")
  case None
  then have "\<not> keyBindingExists w target"
    using assms(3) by (auto simp: keyBindingExists_def list_ex_iff binding_at_None)
  with None assms(2) show ?thesis by (auto simp: update_existing_def managementError_def managementJSON_def)
next
  case (Some bs)
  then have ex: "keyBindingExists w target"
    using assms(3) by (auto simp: keyBindingExists_def list_ex_iff binding_at_None)
  let ?m = "\<lambda>st. case change (st_KeyBindings st) of None \<Rightarrow> Inl KeyBindingNotFound | Some bs \<Rightarrow> Inr (st\<lparr>st_KeyBindings := bs\<rparr>)"
  obtain err w1 where u: "applyStateUpdate (mx_codec x) (mx_os x) ?m w = (err, w1)" by fastforce
  have e: "?m (h_state (w_holder w)) = Inr ((h_state (w_holder w))\<lparr>st_KeyBindings := bs\<rparr>)" using Some by simp
  show ?thesis
  proof (cases err)
    case None
    with applyStateUpdate_holder [OF u] e obtain st'
      where st': "validateState ((h_state (w_holder w))\<lparr>st_KeyBindings := bs\<rparr>) = Inr st'" "w_holder w1 = persistedHolder st'" by auto
    have "st_Version (h_state (w_holder w)) = stateVersion" using assms(1) by (simp add: holder_ok_def)
    with st' validateState_keeps [OF st'(1)] have "bindings_of w1 = bs" "holder_ok (w_holder w1)"
      using persistedHolder_ok [OF st'(1)] by (simp_all add: persistedHolder_def)
    then show ?thesis using assms(2) u None ex Some
      by (auto simp: update_existing_def managementGetState_def Let_def managementJSON_def)
  next
    case (Some e1)
    with applyStateUpdate_holder [OF u] e have "w_holder w1 = w_holder w" "\<And>m. e1 \<noteq> MutateError m" by auto
    then show ?thesis using assms(2) u Some ex \<open>change (bindings_of w) = Some bs\<close>
      by (cases e1) (auto simp: update_existing_def managementStateError_def managementError_def managementJSON_def)
  qed
qed

text \<open>What a request to \<open>/keys\<close> does.  A body or key that cannot be read is answered 400, a patch or a
  removal of a key without a binding 404, and neither changes anything.  Every other request is
  answered 200 and has done exactly what its command does to the table of bindings: a POST sets the
  binding of its trimmed key, a PATCH changes the named fields of one binding, a DELETE removes one;
  or the change was refused by validation or the disk, and then the loaded state is untouched.\<close>

theorem management_key_request:
  assumes "holder_ok (w_holder w)" and "keyRequest x req w = (r, w')"
    and "rq_Method req \<in> {''POST'', ''PATCH'', ''DELETE''}"
  shows "case keyCommand x req of
      None \<Rightarrow> rs_Status r = 400 \<and> w' = w
    | Some c \<Rightarrow>
      (case cmd_spec kb_Key c (binding_at (bindings_of w)) of
         None \<Rightarrow> rs_Status r = 404 \<and> w' = w
       | Some m \<Rightarrow>
         if rs_Status r = 200 then binding_at (bindings_of w') = m \<and> holder_ok (w_holder w')
         else rs_Status r \<in> {400, 500} \<and> w_holder w' = w_holder w)"
proof -
  note d = holder_distinct [OF assms(1)]
  note defs = keyRequest_def keyCommand_def managementError_def managementJSON_def
  consider "rq_Method req = ''POST''" | "rq_Method req = ''PATCH''" | "rq_Method req = ''DELETE''" using assms(3) by auto
  then show ?thesis
  proof cases
    case 1
    show ?thesis
    proof (cases "decBinding (mx_decode x) (rq_Body req)")
      case None
      with 1 assms(2) show ?thesis by (auto simp: defs managementPostKey_def)
    next
      case (Some b)
      obtain err w1 where u: "applyStateUpdate (mx_codec x) (mx_os x)
          (\<lambda>st. Inr (st\<lparr>st_KeyBindings := put_binding (cleanBinding b) (st_KeyBindings st)\<rparr>)) w = (err, w1)" by fastforce
      show ?thesis
      proof (cases err)
        case None
        from bindings_update [OF assms(1) u [unfolded None]] kt.put_lookup [OF d] 1 Some assms(2) u None show ?thesis
          by (auto simp: defs managementPostKey_def managementGetState_def Let_def)
      next
        case (Some e)
        with applyStateUpdate_holder [OF u] have "w_holder w1 = w_holder w" "\<And>m. e \<noteq> MutateError m" by auto
        with 1 \<open>decBinding (mx_decode x) (rq_Body req) = Some b\<close> assms(2) u Some show ?thesis
          by (cases e) (auto simp: defs managementPostKey_def managementStateError_def Let_def)
      qed
    qed
  next
    case 2
    show ?thesis
    proof (cases "keyFromRequest x req = [] \<or> decPatch (mx_decode x) (rq_Body req) = None")
      case True
      with 2 assms(2) show ?thesis by (auto simp: defs managementPatchKey_def Let_def split: option.splits if_splits)
    next
      case False
      then obtain p where p: "decPatch (mx_decode x) (rq_Body req) = Some p" "keyFromRequest x req \<noteq> []" by auto
      let ?k = "keyFromRequest x req"
      from 2 p assms(2) have u: "update_existing x ?k (alter_binding ?k (applyPatch p)) w = (r, w')"
        by (simp add: keyRequest_def managementPatchKey_def Let_def)
      from kt.alter_lookup [OF d, of "applyPatch p" ?k] have a:
        "map_option binding_at (alter_binding ?k (applyPatch p) (bindings_of w)) =
         cmd_spec kb_Key (Alter ?k (applyPatch p)) (binding_at (bindings_of w))" by simp
      then have "alter_binding ?k (applyPatch p) (bindings_of w) = None \<longleftrightarrow> binding_at (bindings_of w) ?k = None"
        by (metis cmd_spec.simps(2) option.map_disc_iff)
      note c = update_existing_cases [OF assms(1) u this]
      have kc: "keyCommand x req = Some (Alter ?k (applyPatch p))" using 2 p by (simp add: keyCommand_def)
      show ?thesis unfolding kc option.case a [symmetric]
        using c by (cases "alter_binding ?k (applyPatch p) (bindings_of w)") auto
    qed
  next
    case 3
    show ?thesis
    proof (cases "keyFromRequest x req = []")
      case True
      with 3 assms(2) show ?thesis by (auto simp: defs managementDeleteKey_def Let_def)
    next
      case False
      let ?k = "keyFromRequest x req"
      from 3 False assms(2) have u: "update_existing x ?k (remove_binding ?k) w = (r, w')"
        by (simp add: keyRequest_def managementDeleteKey_def Let_def)
      from kt.remove_lookup [OF d, of ?k] have a:
        "map_option binding_at (remove_binding ?k (bindings_of w)) =
         cmd_spec kb_Key (Remove ?k) (binding_at (bindings_of w))" by simp
      then have "remove_binding ?k (bindings_of w) = None \<longleftrightarrow> binding_at (bindings_of w) ?k = None"
        by (metis cmd_spec.simps(3) option.map_disc_iff)
      note c = update_existing_cases [OF assms(1) u this]
      have kc: "keyCommand x req = Some (Remove ?k)" using 3 False by (simp add: keyCommand_def)
      show ?thesis unfolding kc option.case a [symmetric]
        using c by (cases "remove_binding ?k (bindings_of w)") auto
    qed
  qed
qed


section \<open>Sequences of requests\<close>

fun serve :: "('b managementEnv \<times> managementRequest) list \<Rightarrow> World \<Rightarrow> 'a managementResponse list \<times> World" where
  "serve [] w = ([], w)"
| "serve ((x, req) # reqs) w =
     (let (r, w) = keyRequest x req w; (rs, w) = serve reqs w in (r # rs, w))"

text \<open>The commands of the requests that name one, with whether they were answered 200.\<close>

fun commands :: "('b managementEnv \<times> managementRequest) list \<Rightarrow> 'a managementResponse list \<Rightarrow>
    ((string, KeyBinding) table_cmd \<times> bool) list" where
  "commands ((x, req) # reqs) (r # rs) =
     (case keyCommand x req of Some c \<Rightarrow> [(c, rs_Status r = 200)] | None \<Rightarrow> []) @ commands reqs rs"
| "commands _ _ = []"

abbreviation key_method :: "managementRequest \<Rightarrow> bool" where
  "key_method req \<equiv> rq_Method req \<in> {''POST'', ''PATCH'', ''DELETE''}"

lemma serve_runs:
  fixes reqs :: "('b managementEnv \<times> managementRequest) list" and rs :: "'r managementResponse list"
  assumes "holder_ok (w_holder w)" and "list_all (\<lambda>(x, req). key_method req) reqs" and "serve reqs w = (rs, w')"
  shows "holder_ok (w_holder w') \<and> list_all (\<lambda>(c, ok). cmd_ok kb_Key c) (commands reqs rs) \<and>
    binding_at (bindings_of w') = binding_at (kt.run (commands reqs rs) (bindings_of w))"
  using assms
proof (induction reqs arbitrary: w rs)
  case (Cons p reqs)
  obtain x req where p: "p = (x, req)" by (cases p)
  obtain r :: "'r managementResponse" and w1 where r: "keyRequest x req w = (r, w1)" by fastforce
  obtain rs1 where rs: "serve reqs w1 = (rs1, w')" "rs = r # rs1"
    using Cons.prems(3) r by (auto simp: p Let_def split: prod.splits)
  have m: "key_method req" using Cons.prems(2) by (simp add: p)
  note d = holder_distinct [OF Cons.prems(1)]
  note step = management_key_request [OF Cons.prems(1) r m]
  have ok1: "holder_ok (w_holder w1)"
    using step Cons.prems(1) by (simp split: option.splits if_splits)
  note IH = Cons.IH [OF ok1 _ rs(1)]
  define t1 where "t1 = kt.run (case keyCommand x req of Some c \<Rightarrow> [(c, rs_Status r = 200)] | None \<Rightarrow> []) (bindings_of w)"
  have cok: "list_all (\<lambda>(c, ok). cmd_ok kb_Key c) (case keyCommand x req of Some c \<Rightarrow> [(c, rs_Status r = 200)] | None \<Rightarrow> [])"
    by (auto dest: keyCommand_ok split: option.split)
  from kt.run_refines [OF d cok] have t1: "keys_distinct t1"
    "binding_at t1 = fold (\<lambda>(c, ok) m. case cmd_spec kb_Key c m of Some m' \<Rightarrow> if ok then m' else m | None \<Rightarrow> m)
      (case keyCommand x req of Some c \<Rightarrow> [(c, rs_Status r = 200)] | None \<Rightarrow> []) (binding_at (bindings_of w))"
    by (simp_all add: t1_def)
  have "binding_at t1 = binding_at (bindings_of w1)"
  proof (cases "keyCommand x req")
    case (Some c)
    then show ?thesis using step
      by (cases "cmd_spec kb_Key c (binding_at (bindings_of w))"; cases "rs_Status r = 200") (simp_all add: t1(2))
  qed (use step in \<open>simp add: t1(2)\<close>)
  moreover have "list_all (\<lambda>(c, ok). cmd_ok kb_Key c) (commands reqs rs1)" using IH Cons.prems(2) by (simp add: p)
  ultimately have "binding_at (kt.run (commands reqs rs1) t1) = binding_at (kt.run (commands reqs rs1) (bindings_of w1))"
    using kt.run_refines [OF t1(1), of "commands reqs rs1"] kt.run_refines [OF holder_distinct [OF ok1], of "commands reqs rs1"]
    by (simp only: simp_thms)
  moreover have "kt.run (commands (p # reqs) rs) (bindings_of w) = kt.run (commands reqs rs1) t1"
    by (cases "keyCommand x req") (simp_all add: p rs(2) t1_def)
  moreover have "holder_ok (w_holder w') \<and> list_all (\<lambda>(c, ok). cmd_ok kb_Key c) (commands reqs rs1) \<and>
      binding_at (bindings_of w') = binding_at (kt.run (commands reqs rs1) (bindings_of w1))"
    using IH Cons.prems(2) by (simp add: p)
  moreover have "list_all (\<lambda>(c, ok). cmd_ok kb_Key c) (commands (p # reqs) rs) \<longleftrightarrow>
      list_all (\<lambda>(c, ok). cmd_ok kb_Key c) (commands reqs rs1)"
    using cok by (simp add: p rs(2))
  ultimately show ?case by (simp only: simp_thms)
qed simp

text \<open>C8. Any sequence of key requests, with any failures among them, refines a plain map from keys to
  bindings: the lookup of a key afterwards is what the answered commands make of the map, and the
  loaded state is still valid.\<close>

theorem management_keys_refine:
  assumes "holder_ok (w_holder w)" and "list_all (\<lambda>(x, req). key_method req) reqs" and "serve reqs w = (rs, w')"
  shows "holder_ok (w_holder w') \<and> binding_at (bindings_of w') =
    fold (\<lambda>(c, ok) m. case cmd_spec kb_Key c m of Some m' \<Rightarrow> if ok then m' else m | None \<Rightarrow> m)
      (commands reqs rs) (binding_at (bindings_of w))"
  using serve_runs [OF assms] kt.run_refines [OF holder_distinct [OF assms(1)]] by simp

section \<open>Routes\<close>

lemma trimSlashes_slashes: "u \<noteq> [] \<Longrightarrow> last u \<noteq> CHR ''/'' \<Longrightarrow> trimSlashes (u @ replicate n (CHR ''/'')) = u"
proof -
  assume u: "u \<noteq> []" "last u \<noteq> CHR ''/''"
  then obtain v c where v: "u = v @ [c]" "c \<noteq> CHR ''/''" by (metis append_butlast_last_id)
  have "dropWhile (\<lambda>c. c \<in> {CHR ''/''}) (replicate n (CHR ''/'') @ c # rev v) = c # rev v"
    using v(2) by (induction n) auto
  then show ?thesis by (simp add: trimSlashes_def trim_right_set_def v)
qed

lemma cut_at_none: "c \<notin> set s \<Longrightarrow> cut_at c s = None"
  by (induction s) auto

lemma cut_at_first: "c \<notin> set u \<Longrightarrow> cut_at c (u @ c # v) = Some (u, v)"
  by (induction u) auto

lemma registered_bases: "''/v0/management'' @ managementRegisterBase @ p = managementHandleBase @ p"
  by (simp add: managementRegisterBase_def managementHandleBase_def)

lemma handle_not_resource [simp]: "managementHandleBase @ p \<noteq> resourcePrefix" "managementHandleBase @ p \<noteq> resourcePrefix @ q"
  by (simp_all add: managementHandleBase_def resourcePrefix_def)

text \<open>The route of a path without a trailing slash or a query.\<close>

definition plain_path :: "string \<Rightarrow> bool" where
  "plain_path p \<longleftrightarrow> p \<noteq> [] \<and> last p \<noteq> CHR ''/'' \<and> CHR ''?'' \<notin> set p"

lemma plain_append: "plain_path p \<Longrightarrow> plain_path (managementHandleBase @ p)"
  by (simp add: plain_path_def managementHandleBase_def)

lemma managementRequestPath_plain: "plain_path p \<Longrightarrow> managementRequestPath (p @ replicate n (CHR ''/'')) = p"
  by (simp add: managementRequestPath_def plain_path_def cut_at_none trimSlashes_slashes)

lemma dispatch_plain:
  assumes "plain_path p"
  shows "dispatchManagement m (p @ replicate n (CHR ''/'')) =
    (case mainRoute m p of Some r \<Rightarrow> Some r | None \<Rightarrow> notificationRoute m p)"
proof -
  have t: "trimSlashes (p @ replicate n (CHR ''/'')) = p" using assms by (simp add: trimSlashes_slashes plain_path_def)
  with managementRequestPath_plain [OF assms, of n] show ?thesis by (simp only: dispatchManagement_def)
qed

lemma dispatch_query:
  assumes "plain_path p"
  shows "dispatchManagement m (p @ ''?key=k'') =
    (case mainRoute m (p @ ''?key=k'') of Some r \<Rightarrow> Some r | None \<Rightarrow> notificationRoute m p)"
proof -
  have t: "trimSlashes (p @ ''?key=k'') = p @ ''?key=k''" "trimSlashes p = p"
    using trimSlashes_slashes [of "p @ ''?key=k''" 0] trimSlashes_slashes [of p 0] assms by (simp_all add: plain_path_def)
  then have "managementRequestPath (p @ ''?key=k'') = p"
    using assms by (simp add: managementRequestPath_def plain_path_def cut_at_first)
  with t show ?thesis by (simp only: dispatchManagement_def)
qed

lemma routePaths_plain: "(m, p) \<in> set routePaths \<Longrightarrow> plain_path (managementHandleBase @ p)"
  by (rule plain_append) (auto simp: routePaths_def plain_path_def)

definition allRoutes :: "route list" where
  "allRoutes =
     [GetAuthNames, RefreshAuthNames, PatchAuthName, AuditQuery, ChannelCredentials, GetAliases, RefreshAliases, GetState,
      PutRules, PostKey, PatchKey, DeleteKey, Preview, GetSettings, PutSettings, GetStatus, NotificationPreview,
      TestSend, GetDeliveries, RetryDelivery, FetchMembers]"

text \<open>Every route the plugin registers with the host reaches its own handler, also when the path ends
  in slashes.  A query left on the path is only understood by the notification routes: with one, every
  other route is answered 404.\<close>

theorem registered_routes_dispatch:
  "map (\<lambda>(m, p). dispatchManagement m (''/v0/management'' @ p @ replicate n (CHR ''/''))) registeredRoutes = map Some allRoutes \<and>
   map (\<lambda>(m, p). dispatchManagement m (''/v0/management'' @ p @ ''?key=k'')) registeredRoutes =
     replicate 13 None @ map Some (drop 13 allRoutes)"
proof
  have "map (\<lambda>(m, p). dispatchManagement m (''/v0/management'' @ p @ replicate n (CHR ''/''))) registeredRoutes =
      map (\<lambda>(m, p). case mainRoute m (managementHandleBase @ p) of Some r \<Rightarrow> Some r
        | None \<Rightarrow> notificationRoute m (managementHandleBase @ p)) routePaths"
    unfolding registeredRoutes_def
    by (auto simp: registered_bases dispatch_plain [OF routePaths_plain, simplified] comp_def simp del: append.simps)
  also have "\<dots> = map Some allRoutes"
    by (simp add: routePaths_def allRoutes_def mainRoute_def notificationRoute_def)
  finally show "map (\<lambda>(m, p). dispatchManagement m (''/v0/management'' @ p @ replicate n (CHR ''/''))) registeredRoutes =
      map Some allRoutes" .
  have "map (\<lambda>(m, p). dispatchManagement m (''/v0/management'' @ p @ ''?key=k'')) registeredRoutes =
      map (\<lambda>(m, p). case mainRoute m (managementHandleBase @ p @ ''?key=k'') of Some r \<Rightarrow> Some r
        | None \<Rightarrow> notificationRoute m (managementHandleBase @ p)) routePaths"
    unfolding registeredRoutes_def
    by (auto simp: registered_bases dispatch_query [OF routePaths_plain, simplified] comp_def simp del: append.simps)
  also have "\<dots> = replicate 13 None @ map Some (drop 13 allRoutes)"
    by (simp add: routePaths_def allRoutes_def mainRoute_def notificationRoute_def numeral_eq_Suc)
  finally show "map (\<lambda>(m, p). dispatchManagement m (''/v0/management'' @ p @ ''?key=k'')) registeredRoutes =
      replicate 13 None @ map Some (drop 13 allRoutes)" .
qed


section \<open>Witnesses\<close>

definition sample_codec_requests :: requestCodec where
  "sample_codec_requests =
     \<lparr>decRules = \<lambda>_. None, decBinding = \<lambda>_. Some sample_binding, decPatch = \<lambda>_. None, decKey = \<lambda>_. [], decPreview = \<lambda>_. None\<rparr>"

definition sample_menv :: "(string, bytes) fmap managementEnv" where
  "sample_menv =
     \<lparr>mx_codec = sample_codec, mx_os = sample_env, mx_decode = sample_codec_requests, mx_svc = sample_svc, mx_store = None\<rparr>"

definition sample_post :: managementRequest where
  "sample_post = \<lparr>rq_Method = ''POST'', rq_Path = managementHandleBase @ ''/keys'', rq_Query = Map.empty, rq_Body = []\<rparr>"

lemma sample_holder_ok: "holder_ok (w_holder sample_world)"
  using persistedHolder_ok [OF sample_state_valid] by (simp add: sample_world_def sample_state_def go_simps)

lemma sample_post_done: "\<exists>r w'. keyRequest sample_menv sample_post sample_world = (r, w') \<and> rs_Status r = 200"
proof -
  have put: "put_binding (cleanBinding sample_binding) (bindings_of sample_world) = bindings_of sample_world"
    by (simp add: sample_world_def persistedHolder_def sample_state_def sample_binding_def cleanBinding_def
        stripKeyNotificationAtAll_def go_simps)
  have "applyStateUpdate sample_codec sample_env
      (\<lambda>st. Inr (st\<lparr>st_KeyBindings := put_binding (cleanBinding sample_binding) (st_KeyBindings st)\<rparr>)) sample_world =
    applyStateUpdate sample_codec sample_env Inr sample_world"
    unfolding applyStateUpdate_def by (simp add: put)
  with sample_update obtain w' where "applyStateUpdate sample_codec sample_env
      (\<lambda>st. Inr (st\<lparr>st_KeyBindings := put_binding (cleanBinding sample_binding) (st_KeyBindings st)\<rparr>)) sample_world = (None, w')"
    by auto
  then show ?thesis
    by (simp add: keyRequest_def sample_post_def managementPostKey_def sample_menv_def sample_codec_requests_def
        managementGetState_def managementJSON_def Let_def)
qed

lemma sample_command: "keyCommand sample_menv sample_post = Some (Put (cleanBinding sample_binding))"
  by (simp add: keyCommand_def sample_post_def sample_menv_def sample_codec_requests_def)

theorem management_key_request_witness:
  "\<exists>(r :: unit managementResponse) w'. keyRequest sample_menv sample_post sample_world = (r, w') \<and> rs_Status r = 200 \<and>
     binding_at (bindings_of w') (kb_Key (cleanBinding sample_binding)) = Some (cleanBinding sample_binding)"
proof -
  from sample_post_done obtain r :: "unit managementResponse" and w'
    where r: "keyRequest sample_menv sample_post sample_world = (r, w')" "rs_Status r = 200" by blast
  have "rq_Method sample_post \<in> {''POST'', ''PATCH'', ''DELETE''}" by (simp add: sample_post_def)
  from management_key_request [OF sample_holder_ok r(1) this] r show ?thesis by (auto simp: sample_command)
qed

theorem management_keys_refine_witness:
  "\<exists>(rs :: unit managementResponse list) w'. serve [(sample_menv, sample_post)] sample_world = (rs, w') \<and>
     binding_at (bindings_of w') (kb_Key (cleanBinding sample_binding)) = Some (cleanBinding sample_binding)"
proof -
  from sample_post_done obtain r :: "unit managementResponse" and w'
    where r: "keyRequest sample_menv sample_post sample_world = (r, w')" "rs_Status r = 200" by blast
  then have s: "serve [(sample_menv, sample_post)] sample_world = ([r], w')" by simp
  have "list_all (\<lambda>(x, req). key_method req) [(sample_menv, sample_post)]" by (simp add: sample_post_def)
  from management_keys_refine [OF sample_holder_ok this s] s r(2) show ?thesis by (auto simp: sample_command)
qed

end
