(* ===== verification/Audit_Journal.thy ===== *)
theory Audit_Journal
  imports Management "HOL-Library.AList" "HOL-Library.Product_Lexorder"
begin

text \<open>
  The audit journal (\<open>audit.go\<close>, \<open>audit_query.go\<close>): one file per day of JSON lines, a start and a
  finish event per operation, appended under one lock, and the reader that pairs them.  The JSON of an
  event is a parameter; an append may fail at any call and a failed write may leave any part of the
  line behind.  What the process remembers (\<open>auditRunning\<close>, \<open>auditUnconfirmed\<close>) is part of the state
  and is lost by a restart.
\<close>

section \<open>Events\<close>

text \<open>A change holds the JSON of a field before and after.\<close>

record auditEvent =
  ev_Version :: int
  ev_OperationID :: string
  ev_Phase :: string
  ev_OccurredAt :: instant
  ev_Actor :: string
  ev_Action :: string
  ev_Module :: string
  ev_ObjectType :: string
  ev_ObjectRef :: string
  ev_ObjectLabel :: string
  ev_Labels :: "(string \<times> string) list"
  ev_Outcome :: string
  ev_Changed :: "bool option"
  ev_Changes :: "(string \<times> bytes \<times> bytes) list option"
  ev_ErrorCode :: string

record auditTicket =
  tk_ID :: string
  tk_Path :: string
  tk_StartedAt :: instant

record auditCodec =
  encEvent :: "auditEvent \<Rightarrow> bytes option"
  decEvent :: "bytes \<Rightarrow> auditEvent option"

record auditState =
  au_fs :: fs
  au_running :: "string \<Rightarrow> string option"
  au_unconfirmed :: "string \<Rightarrow> string option"

datatype audit_call =
  ReadRandom | MkDir | ChmodDir | OpenOld | StatOld | ReadOld | CloseOld | OpenAppend | ChmodLog | WriteLog | SyncLog

record auditEnv =
  ax_codec :: auditCodec
  ax_now :: instant
  ax_loc :: location
  ax_id :: string
  ax_fails :: "audit_call \<Rightarrow> bool"
  ax_written :: nat

datatype audit_error = InvalidAuditDate | EventEncoding | AuditCall audit_call

section \<open>Days\<close>

definition parse_date :: "string \<Rightarrow> (int \<times> int \<times> int) option" where
  "parse_date s =
     (case (number_at 0 4 s, number_at 5 2 s, number_at 8 2 s) of
        (Some y, Some mo, Some d) \<Rightarrow>
          if length s = 10 \<and> s ! 4 = CHR ''-'' \<and> s ! 7 = CHR ''-'' \<and> valid_date y mo d then Some (y, mo, d) else None
      | _ \<Rightarrow> None)"

definition auditDayPath :: "string \<Rightarrow> string \<Rightarrow> string option" where
  "auditDayPath statePath day =
     (case parse_date day of
        None \<Rightarrow> None
      | Some (y, mo, d) \<Rightarrow>
        if pad 4 y @ ''-'' @ pad 2 mo @ ''-'' @ pad 2 d \<noteq> day then None
        else Some (clean_path (path_dir statePath @ ''/model-mapper-plus-audit/'' @ day @ ''.jsonl'')))"

section \<open>Appending\<close>

definition newline :: char where "newline = CHR 0x0A"

text \<open>\<open>appendAuditEvent\<close>, the file after it and the error.  \<open>ax_written\<close> bytes of the line are
  written when the write fails or is short; a failed \<open>Sync\<close> leaves the whole line.\<close>

definition appendAuditEvent :: "auditEnv \<Rightarrow> fs \<Rightarrow> string \<Rightarrow> auditEvent \<Rightarrow> audit_error option \<times> fs" where
  "appendAuditEvent x fs path ev =
     (case encEvent (ax_codec x) ev of
        None \<Rightarrow> (Some EventEncoding, fs)
      | Some raw \<Rightarrow>
        (let content = (case fs path of None \<Rightarrow> [] | Some c \<Rightarrow> c);
             pre = (content \<noteq> [] \<and> last content \<noteq> newline);
             line = (if pre then [newline] else []) @ raw @ [newline]
         in if ax_fails x MkDir then (Some (AuditCall MkDir), fs)
            else if ax_fails x ChmodDir then (Some (AuditCall ChmodDir), fs)
            else if ax_fails x OpenOld then (Some (AuditCall OpenOld), fs)
            else if fs path \<noteq> None \<and> ax_fails x StatOld then (Some (AuditCall StatOld), fs)
            else if content \<noteq> [] \<and> ax_fails x ReadOld then (Some (AuditCall ReadOld), fs)
            else if fs path \<noteq> None \<and> ax_fails x CloseOld then (Some (AuditCall CloseOld), fs)
            else if ax_fails x OpenAppend then (Some (AuditCall OpenAppend), fs)
            else if ax_fails x ChmodLog then (Some (AuditCall ChmodLog), fs(path \<mapsto> content))
            else if ax_fails x WriteLog then (Some (AuditCall WriteLog), fs(path \<mapsto> content @ take (ax_written x) line))
            else if ax_fails x SyncLog then (Some (AuditCall SyncLog), fs(path \<mapsto> content @ line))
            else (None, fs(path \<mapsto> content @ line))))"

definition stamp_event :: "auditEnv \<Rightarrow> string \<Rightarrow> string \<Rightarrow> auditEvent \<Rightarrow> auditEvent" where
  "stamp_event x i phase ev =
     ev\<lparr>ev_Version := 2, ev_OperationID := i, ev_Phase := phase, ev_OccurredAt := ax_now x\<rparr>"

definition beginAudit :: "auditEnv \<Rightarrow> string \<Rightarrow> auditEvent \<Rightarrow> auditState \<Rightarrow> (audit_error + auditTicket) \<times> auditState" where
  "beginAudit x statePath ev s =
     (if ax_fails x ReadRandom then (Inl (AuditCall ReadRandom), s)
      else case auditDayPath statePath (format_date (ax_loc x) (ax_now x)) of
        None \<Rightarrow> (Inl InvalidAuditDate, s)
      | Some path \<Rightarrow>
        (case appendAuditEvent x (au_fs s) path (stamp_event x (ax_id x) ''start'' ev) of
           (Some e, fs) \<Rightarrow> (Inl e, s\<lparr>au_fs := fs\<rparr>)
         | (None, fs) \<Rightarrow>
           (Inr \<lparr>tk_ID = ax_id x, tk_Path = path, tk_StartedAt = ax_now x\<rparr>,
            s\<lparr>au_fs := fs, au_running := (au_running s)(ax_id x \<mapsto> path)\<rparr>)))"

definition finishAudit :: "auditEnv \<Rightarrow> auditTicket \<Rightarrow> auditEvent \<Rightarrow> auditState \<Rightarrow> audit_error option \<times> auditState" where
  "finishAudit x t ev s =
     (let (err, fs) = appendAuditEvent x (au_fs s) (tk_Path t) (stamp_event x (tk_ID t) ''finish'' ev);
          s = s\<lparr>au_fs := fs, au_running := (au_running s)(tk_ID t := None)\<rparr>
      in (err, if err = None then s else s\<lparr>au_unconfirmed := (au_unconfirmed s)(tk_ID t \<mapsto> tk_Path t)\<rparr>))"

section \<open>Reading a day\<close>

record auditItem =
  it_OperationID :: string
  it_Actor :: string
  it_Action :: string
  it_Module :: string
  it_ObjectType :: string
  it_ObjectRef :: string
  it_ObjectLabel :: string
  it_Labels :: "(string \<times> string) list"
  it_StartedAt :: instant
  it_FinishedAt :: "instant option"
  it_Outcome :: string
  it_Changed :: "bool option"
  it_Changes :: "(string \<times> bytes \<times> bytes) list"
  it_ErrorCode :: string

definition validAuditEvent :: "auditEvent \<Rightarrow> bool" where
  "validAuditEvent ev \<longleftrightarrow>
     ev_OperationID ev \<noteq> [] \<and> ev_OccurredAt ev \<noteq> zero_time \<and>
     (ev_Version ev = 1 \<or> ev_Version ev = 2 \<and> ev_Module ev \<noteq> []) \<and>
     (if ev_Phase ev = ''start'' then
        ev_Actor ev = ''management_api'' \<and> ev_Action ev \<noteq> [] \<and> ev_ObjectType ev \<noteq> [] \<and> ev_ObjectRef ev \<noteq> [] \<and> ev_Outcome ev = []
      else ev_Phase ev = ''finish'' \<and>
        (if ev_Outcome ev = ''succeeded'' then ev_Changed ev \<noteq> None
         else if ev_Outcome ev = ''failed'' then ev_Changed ev = Some False
         else ev_Outcome ev = ''unknown'' \<and> ev_Changed ev = None))"

definition started_item :: "auditState \<Rightarrow> string \<Rightarrow> auditEvent \<Rightarrow> auditItem" where
  "started_item s path ev =
     \<lparr>it_OperationID = ev_OperationID ev, it_Actor = ev_Actor ev, it_Action = ev_Action ev, it_Module = ev_Module ev,
      it_ObjectType = ev_ObjectType ev, it_ObjectRef = ev_ObjectRef ev, it_ObjectLabel = ev_ObjectLabel ev,
      it_Labels = ev_Labels ev, it_StartedAt = ev_OccurredAt ev, it_FinishedAt = None,
      it_Outcome = (if au_running s (ev_OperationID ev) = Some path then ''running'' else ''unknown''),
      it_Changed = None, it_Changes = [], it_ErrorCode = []\<rparr>"

definition finish_item :: "auditEvent \<Rightarrow> auditItem \<Rightarrow> auditItem" where
  "finish_item ev i =
     i\<lparr>it_FinishedAt := Some (ev_OccurredAt ev), it_Outcome := ev_Outcome ev, it_Changed := ev_Changed ev,
       it_ErrorCode := ev_ErrorCode ev,
       it_ObjectLabel := (if ev_ObjectLabel ev \<noteq> [] then ev_ObjectLabel ev else it_ObjectLabel i),
       it_Labels := (if ev_Labels ev \<noteq> [] then AList.merge (it_Labels i) (ev_Labels ev) else it_Labels i),
       it_Changes := (case ev_Changes ev of None \<Rightarrow> it_Changes i | Some c \<Rightarrow> c)\<rparr>"

definition item_of :: "string \<Rightarrow> auditItem list \<Rightarrow> auditItem option" where
  "item_of i items = find (\<lambda>it. it_OperationID it = i) items"

text \<open>One event: the items, or the warning it causes.\<close>

definition read_event :: "auditState \<Rightarrow> string \<Rightarrow> auditEvent \<Rightarrow> auditItem list \<Rightarrow> string + auditItem list" where
  "read_event s path ev items =
     (if \<not> validAuditEvent ev then Inl ''invalid_event''
      else if ev_Phase ev = ''start'' then
        (if item_of (ev_OperationID ev) items \<noteq> None then Inl ''duplicate_start''
         else Inr (items @ [started_item s path ev]))
      else case item_of (ev_OperationID ev) items of
        None \<Rightarrow> Inl ''orphan_finish''
      | Some i \<Rightarrow>
        if it_FinishedAt i \<noteq> None then Inl ''duplicate_finish''
        else if ev_OccurredAt ev < it_StartedAt i then Inl ''invalid_event_order''
        else Inr (map (\<lambda>i. if it_OperationID i = ev_OperationID ev then finish_item ev i else i) items))"

fun read_lines ::
    "auditCodec \<Rightarrow> auditState \<Rightarrow> string \<Rightarrow> nat \<Rightarrow> bytes list \<Rightarrow> auditItem list \<Rightarrow> auditItem list \<times> (nat \<times> string) list" where
  "read_lines C s path n [] items = (items, [])"
| "read_lines C s path n (line # ls) items =
     (if ls = [] then (items, if line = [] then [] else [(n, ''truncated_line'')])
      else case (case decEvent C line of None \<Rightarrow> Inl ''invalid_event'' | Some ev \<Rightarrow> read_event s path ev items) of
        Inl code \<Rightarrow> (let (items, warnings) = read_lines C s path (n + 1) ls items in (items, (n, code) # warnings))
      | Inr items \<Rightarrow> read_lines C s path (n + 1) ls items)"

definition doubt :: "auditState \<Rightarrow> string \<Rightarrow> auditItem \<Rightarrow> auditItem" where
  "doubt s path i =
     (if au_unconfirmed s (it_OperationID i) = Some path
      then i\<lparr>it_Outcome := ''unknown'', it_Changed := None, it_FinishedAt := None, it_Changes := [],
             it_ErrorCode := ''audit_write_failed''\<rparr>
      else i)"

definition item_order :: "auditItem \<Rightarrow> int \<times> string" where
  "item_order i = (it_StartedAt i, it_OperationID i)"

definition readAuditDay ::
    "auditCodec \<Rightarrow> bool \<Rightarrow> string \<Rightarrow> auditState \<Rightarrow> (auditItem list \<times> (nat \<times> string) list) option" where
  "readAuditDay C readFails path s =
     (case au_fs s path of
        None \<Rightarrow> Some ([], [])
      | Some raw \<Rightarrow>
        if readFails then None
        else (let (items, warnings) = read_lines C s path 1 (split_on [newline] raw) []
              in Some (rev (sort_key item_order (map (doubt s path) items)), warnings)))"

section \<open>The query\<close>

definition auditItemModule :: "auditItem \<Rightarrow> string" where
  "auditItemModule i =
     (if it_Module i \<noteq> [] then it_Module i
      else if it_ObjectType i = ''rules'' \<or> it_ObjectType i = ''key_binding'' \<or> it_ObjectType i = ''keeper_auth_name''
      then it_ObjectType i else ''other'')"

definition auditModules :: "string list" where
  "auditModules = [''rules'', ''key_binding'', ''notifications'', ''keeper_auth_name'', ''other'']"

record auditPage =
  pg_Date :: string
  pg_Page :: int
  pg_PageSize :: int
  pg_Total :: nat
  pg_Module :: string
  pg_ModuleCounts :: "(string \<times> nat) list"
  pg_Items :: "auditItem list"
  pg_Warnings :: "(nat \<times> string) list"

definition parsePage :: "(string \<rightharpoonup> string list) \<Rightarrow> string \<Rightarrow> int \<Rightarrow> int option" where
  "parsePage q key defaultValue =
     (case q key of
        None \<Rightarrow> Some defaultValue
      | Some [v] \<Rightarrow> (case atoi v of Some n \<Rightarrow> if 1 \<le> n then Some n else None | None \<Rightarrow> None)
      | Some _ \<Rightarrow> None)"

text \<open>The items of one page; the arithmetic is the code's, on 64-bit integers.\<close>

definition page_items :: "int \<Rightarrow> int \<Rightarrow> 'i list \<Rightarrow> 'i list" where
  "page_items page pageSize items =
     (let n = int (length items)
      in if 0 < n \<and> page - 1 \<le> (n - 1) div pageSize then
           (let start = wrap64 (wrap64 (page - 1) * pageSize); stop = min (wrap64 (start + pageSize)) n
            in take (nat (stop - start)) (drop (nat start) items))
         else [])"

definition module_counts :: "auditItem list \<Rightarrow> (string \<times> nat) list" where
  "module_counts items =
     map (\<lambda>m. (m, length (filter (\<lambda>i. auditItemModule i = m) items))) (remdups (map auditItemModule items))"

datatype audit_query_error = BadDate | BadPagination | BadModule | AuditUnavailable

definition auditQuery ::
    "auditEnv \<Rightarrow> bool \<Rightarrow> string \<Rightarrow> (string \<rightharpoonup> string list) \<Rightarrow> auditState \<Rightarrow> audit_query_error + auditPage" where
  "auditQuery x readFails statePath q s =
     (let given = (case q ''date'' of Some (v # _) \<Rightarrow> v | _ \<Rightarrow> []);
          day = (if given = [] then format_date (ax_loc x) (ax_now x) else given)
      in case auditDayPath statePath day of
           None \<Rightarrow> Inl BadDate
         | Some path \<Rightarrow>
           (case (parsePage q ''page'' 1, parsePage q ''page_size'' 20) of
              (Some page, Some pageSize) \<Rightarrow>
                if 100 < pageSize then Inl BadPagination
                else (case (case q ''module'' of
                         None \<Rightarrow> Some []
                       | Some [m] \<Rightarrow> if m \<in> set auditModules then Some m else None
                       | Some _ \<Rightarrow> None) of
                   None \<Rightarrow> Inl BadModule
                 | Some module \<Rightarrow>
                   (case readAuditDay (ax_codec x) readFails path s of
                      None \<Rightarrow> Inl AuditUnavailable
                    | Some (all, warnings) \<Rightarrow>
                      (let items = (if module \<noteq> [] then filter (\<lambda>i. auditItemModule i = module) all else all)
                       in Inr \<lparr>pg_Date = day, pg_Page = page, pg_PageSize = pageSize, pg_Total = length items,
                               pg_Module = module, pg_ModuleCounts = module_counts all,
                               pg_Items = page_items page pageSize items, pg_Warnings = warnings\<rparr>)))
            | _ \<Rightarrow> Inl BadPagination))"

lemmas [go_simps] = parse_date_def newline_def auditItemModule_def auditModules_def parsePage_def

section \<open>The lines of a journal\<close>

lemma index_of_char: "index_of s [c] = (if c \<in> set s then Some (length (takeWhile (\<lambda>d. d \<noteq> c) s)) else None)"
  by (induction s) (subst index_of.simps, simp)+

lemma split_char_none: "c \<notin> set s \<Longrightarrow> split_on [c] s = [s]"
  by (subst split_on.simps) (simp add: index_of_char)

lemma split_char_first: "c \<notin> set u \<Longrightarrow> split_on [c] (u @ c # v) = u # split_on [c] v"
proof -
  assume "c \<notin> set u"
  then have "takeWhile (\<lambda>d. d \<noteq> c) (u @ c # v) = u" by (induction u) auto
  then show ?thesis by (subst split_on.simps) (simp add: index_of_char)
qed

lemma split_char_append: "split_on [c] (u @ c # v) = split_on [c] u @ split_on [c] v"
proof (induction "length u" arbitrary: u rule: less_induct)
  case less
  show ?case
  proof (cases "c \<in> set u")
    case False
    then show ?thesis by (simp add: split_char_first split_char_none)
  next
    case True
    then obtain u1 u2 where u: "u = u1 @ c # u2" "c \<notin> set u1" by (metis split_list_first)
    then show ?thesis using less [of u2] by (simp add: split_char_first)
  qed
qed

lemma split_char_last: "last (split_on [c] s) = [] \<longleftrightarrow> s = [] \<or> last s = c"
proof (cases "s = [] \<or> last s = c")
  case True
  then show ?thesis
  proof
    assume "s = []" then show ?thesis by (simp add: split_char_none)
  next
    assume "last s = c"
    show ?thesis
    proof (cases "s = []")
      case False
      with \<open>last s = c\<close> have "s = butlast s @ c # []" by (metis append_butlast_last_id)
      then have "split_on [c] s = split_on [c] (butlast s) @ [[]]"
        by (metis split_char_append split_char_none empty_iff empty_set)
      with \<open>last s = c\<close> show ?thesis by simp
    qed (simp add: split_char_none)
  qed
next
  case False
  then obtain v d where s: "s = v @ [d]" "d \<noteq> c" by (metis append_butlast_last_id)
  have "last (split_on [c] (v @ [d])) \<noteq> []"
  proof (induction "length v" arbitrary: v rule: less_induct)
    case less
    show ?case
    proof (cases "c \<in> set v")
      case False
      with s(2) show ?thesis by (simp add: split_char_none)
    next
      case True
      then obtain u1 u2 where "v = u1 @ c # u2" "c \<notin> set u1" by (metis split_list_first)
      then show ?thesis using less [of u2] by (simp add: split_char_first)
    qed
  qed
  with s False show ?thesis by simp
qed

text \<open>The reader on complete lines.\<close>

fun read_full ::
    "auditCodec \<Rightarrow> auditState \<Rightarrow> string \<Rightarrow> bytes list \<Rightarrow> auditItem list \<Rightarrow> auditItem list" where
  "read_full C s path [] items = items"
| "read_full C s path (line # ls) items =
     read_full C s path ls
       (case (case decEvent C line of None \<Rightarrow> Inl ''invalid_event'' | Some ev \<Rightarrow> read_event s path ev items) of
          Inl code \<Rightarrow> items | Inr items \<Rightarrow> items)"

lemma read_full_append: "read_full C s path (ls @ ls') items = read_full C s path ls' (read_full C s path ls items)"
  by (induction C s path ls items rule: read_full.induct) simp_all

lemma read_lines_full: "fst (read_lines C s path n ls items) = read_full C s path (butlast ls) items"
  by (induction C s path n ls items rule: read_lines.induct) (auto split: sum.splits option.splits prod.splits)

definition ids_distinct :: "auditItem list \<Rightarrow> bool" where
  "ids_distinct items \<longleftrightarrow> distinct (map it_OperationID items)"

lemma item_of_simps [simp]:
  "item_of i [] = None" "item_of i (it # its) = (if it_OperationID it = i then Some it else item_of i its)"
  by (simp_all add: item_of_def)

lemma item_of_append [simp]: "item_of i (xs @ ys) = (case item_of i xs of None \<Rightarrow> item_of i ys | Some it \<Rightarrow> Some it)"
  by (induction xs) auto

lemma item_of_map:
  "(\<And>it. it_OperationID (f it) = it_OperationID it) \<Longrightarrow> item_of i (map f items) = map_option f (item_of i items)"
  by (induction items) auto

lemma item_of_None: "item_of i items = None \<longleftrightarrow> i \<notin> it_OperationID ` set items"
  by (induction items) auto

lemma item_of_Some: "ids_distinct items \<Longrightarrow> item_of i items = Some it \<longleftrightarrow> it \<in> set items \<and> it_OperationID it = i"
  by (induction items) (auto simp: ids_distinct_def)

lemma item_of_perm:
  assumes "mset xs = mset ys" and "ids_distinct xs"
  shows "item_of i xs = item_of i ys"
proof -
  have "mset (map it_OperationID xs) = mset (map it_OperationID ys)" using assms(1) by simp
  then have d: "ids_distinct ys" using assms(2) unfolding ids_distinct_def by (metis mset_eq_imp_distinct_iff)
  have "item_of i xs = Some it \<longleftrightarrow> item_of i ys = Some it" for it
    using item_of_Some [OF assms(2)] item_of_Some [OF d] mset_eq_setD [OF assms(1)] by simp
  then show ?thesis by (metis option.exhaust)
qed

lemma finish_item_id [simp]: "it_OperationID (finish_item ev i) = it_OperationID i"
  by (simp add: finish_item_def)

lemma doubt_id [simp]: "it_OperationID (doubt s path i) = it_OperationID i"
  by (simp add: doubt_def)

lemma read_event_distinct: "read_event s path ev items = Inr items' \<Longrightarrow> ids_distinct items \<Longrightarrow> ids_distinct items'"
proof -
  assume r: "read_event s path ev items = Inr items'" and d: "ids_distinct items"
  have "map it_OperationID (map (\<lambda>i. if it_OperationID i = ev_OperationID ev then finish_item ev i else i) items) =
      map it_OperationID items" by simp
  with r d show ?thesis
    by (auto simp: read_event_def ids_distinct_def item_of_None started_item_def simp del: map_map split: if_splits option.splits)
qed

lemma read_full_distinct: "ids_distinct items \<Longrightarrow> ids_distinct (read_full C s path ls items)"
proof (induction C s path ls items rule: read_full.induct)
  case (2 C s path line ls items)
  then show ?case
    using read_event_distinct [of s path _ items] by (simp split: option.splits sum.splits)
qed simp

text \<open>The item of an operation is touched by its own events only.\<close>

lemma read_event_other:
  assumes "read_event s path ev items = Inr items'" and "ev_OperationID ev \<noteq> i"
  shows "item_of i items' = item_of i items"
proof -
  have "item_of i (map (\<lambda>it. if it_OperationID it = ev_OperationID ev then finish_item ev it else it) items) = item_of i items"
    using assms(2) by (subst item_of_map) (auto simp: item_of_def dest: find_Some_in split: if_splits intro!: option.map_ident_strong)
  with assms show ?thesis by (auto simp: read_event_def started_item_def split: if_splits option.splits)
qed

definition fresh_in :: "auditCodec \<Rightarrow> string \<Rightarrow> bytes list \<Rightarrow> bool" where
  "fresh_in C i ls \<longleftrightarrow> list_all (\<lambda>l. case decEvent C l of None \<Rightarrow> True | Some ev \<Rightarrow> ev_OperationID ev \<noteq> i) ls"

lemma read_full_fresh: "fresh_in C i ls \<Longrightarrow> item_of i (read_full C s path ls items) = item_of i items"
  by (induction C s path ls items rule: read_full.induct)
    (auto simp: fresh_in_def read_event_other split: option.splits sum.splits)

text \<open>The item the reader shows.\<close>

definition shown :: "auditCodec \<Rightarrow> string \<Rightarrow> auditState \<Rightarrow> string \<Rightarrow> auditItem option" where
  "shown C path s i = (case readAuditDay C False path s of None \<Rightarrow> None | Some (items, _) \<Rightarrow> item_of i items)"

lemma shown_read:
  assumes "au_fs s path = Some raw"
  shows "shown C path s i = map_option (doubt s path) (item_of i (read_full C s path (butlast (split_on [newline] raw)) []))"
proof -
  let ?items = "read_full C s path (butlast (split_on [newline] raw)) []"
  have d: "ids_distinct ?items" by (rule read_full_distinct) (simp add: ids_distinct_def)
  have "ids_distinct (map (doubt s path) ?items)" using d by (simp add: ids_distinct_def comp_def)
  then have "item_of i (rev (sort_key item_order (map (doubt s path) ?items))) = item_of i (map (doubt s path) ?items)"
    by (intro item_of_perm [symmetric]) simp_all
  moreover have "fst (read_lines C s path 1 (split_on [newline] raw) []) = ?items" by (rule read_lines_full)
  ultimately show ?thesis using assms
    by (auto simp: shown_def readAuditDay_def item_of_map split: prod.splits)
qed


section \<open>What an append leaves\<close>

definition audit_codec_ok :: "auditCodec \<Rightarrow> bool" where
  "audit_codec_ok C \<longleftrightarrow>
     (\<forall>ev raw. encEvent C ev = Some raw \<longrightarrow> decEvent C raw = Some ev \<and> newline \<notin> set raw)"

abbreviation content_of :: "fs \<Rightarrow> string \<Rightarrow> bytes" where
  "content_of fs path \<equiv> (case fs path of None \<Rightarrow> [] | Some c \<Rightarrow> c)"

text \<open>The lines another event is appended after.\<close>

definition settled_lines :: "bytes \<Rightarrow> bytes list" where
  "settled_lines c = (let ls = split_on [newline] c in if last ls = [] then butlast ls else ls)"

lemma settled_subset: "set (settled_lines c) \<subseteq> set (split_on [newline] c)"
  by (auto simp: settled_lines_def Let_def dest: in_set_butlastD)

lemma settled_newline: "settled_lines (u @ [newline]) = split_on [newline] u"
  using split_char_append [of newline u "[]"] by (simp add: settled_lines_def split_char_none)

lemma split_line:
  assumes "newline \<notin> set raw" and "line = (if c \<noteq> [] \<and> last c \<noteq> newline then [newline] else []) @ raw @ [newline]"
  shows "split_on [newline] (c @ line) = settled_lines c @ [raw, []]"
proof (cases "c \<noteq> [] \<and> last c \<noteq> newline")
  case True
  then have "settled_lines c = split_on [newline] c" by (simp add: settled_lines_def split_char_last)
  with True assms show ?thesis
    using split_char_append [of newline c "raw @ [newline]"] split_char_append [of newline raw "[]"]
    by (simp add: split_char_none)
next
  case False
  have r: "split_on [newline] (raw @ [newline]) = [raw, []]"
    using split_char_append [of newline raw "[]"] assms(1) by (simp add: split_char_none)
  show ?thesis
  proof (cases "c = []")
    case True
    with assms(2) r show ?thesis by (simp add: settled_lines_def split_char_none)
  next
    case n: False
    with False have c: "c = butlast c @ newline # []" by (metis append_butlast_last_id)
    then have "settled_lines c = split_on [newline] (butlast c)" using settled_newline by metis
    moreover have "c @ line = butlast c @ newline # (raw @ [newline])"
      using c assms(2) False n by (metis append_Cons append_Nil append_assoc)
    ultimately show ?thesis using split_char_append r by metis
  qed
qed

lemma append_done:
  assumes "audit_codec_ok (ax_codec x)" and "appendAuditEvent x fs path ev = (None, fs')"
  obtains raw c' where "decEvent (ax_codec x) raw = Some ev" "fs' = fs(path \<mapsto> c')"
    "split_on [newline] c' = settled_lines (content_of fs path) @ [raw, []]" "c' \<noteq> []" "last c' = newline"
proof -
  define c where "c = content_of fs path"
  from assms(2) obtain raw where raw: "encEvent (ax_codec x) ev = Some raw"
    by (auto simp: appendAuditEvent_def split: option.splits)
  define line where "line = (if c \<noteq> [] \<and> last c \<noteq> newline then [newline] else []) @ raw @ [newline]"
  have "fs' = fs(path \<mapsto> c @ line)"
    using assms(2) raw by (auto simp: appendAuditEvent_def Let_def c_def line_def split: if_splits)
  moreover have "split_on [newline] (c @ line) = settled_lines c @ [raw, []]"
    using split_line [OF _ line_def] raw assms(1) by (simp add: audit_codec_ok_def)
  ultimately show thesis using that [of raw "c @ line"] raw assms(1)
    by (auto simp: audit_codec_ok_def c_def line_def)
qed

text \<open>After a failed append to a file that ends with a newline, the reader's complete lines are the
  old ones, or those and the whole event.\<close>

lemma append_failed:
  assumes "audit_codec_ok (ax_codec x)" and "appendAuditEvent x fs path ev = (Some err, fs')"
    and "fs path = Some c" and "c \<noteq> []" and "last c = newline"
  obtains c' where "fs' path = Some c'"
    "butlast (split_on [newline] c') = settled_lines c \<or>
     (\<exists>raw. decEvent (ax_codec x) raw = Some ev \<and> butlast (split_on [newline] c') = settled_lines c @ [raw])"
proof -
  have same: "butlast (split_on [newline] c) = settled_lines c"
    using assms(4,5) by (simp add: settled_lines_def split_char_last)
  show thesis
  proof (cases "encEvent (ax_codec x) ev")
    case None
    then show thesis using assms(2,3) that same by (auto simp: appendAuditEvent_def)
  next
    case (Some raw)
    have raw: "newline \<notin> set raw" "decEvent (ax_codec x) raw = Some ev" using assms(1) Some by (auto simp: audit_codec_ok_def)
    from assms(2-5) Some have "fs' = fs \<or> fs' = fs(path \<mapsto> c) \<or> (\<exists>k. fs' = fs(path \<mapsto> c @ take k (raw @ [newline])))"
      by (auto simp: appendAuditEvent_def Let_def split: if_splits intro: exI [of _ "length raw + 1"])
    then obtain k where k: "fs' path = Some (c @ take k (raw @ [newline]))"
      using assms(3) by (metis append.right_neutral fun_upd_same take0 )
    show thesis
    proof (cases "k \<le> length raw")
      case True
      then have t: "take k (raw @ [newline]) = take k raw" by simp
      have "newline \<notin> set (take k raw)" using raw(1) by (meson in_set_takeD)
      moreover have c: "c = butlast c @ newline # []" using assms(4,5) by (metis append_butlast_last_id)
      ultimately have "split_on [newline] (c @ take k raw) = split_on [newline] (butlast c) @ [take k raw]"
        using split_char_append [of newline "butlast c" "take k raw"] split_char_none
        by (metis append_Cons append_Nil append_assoc)
      moreover have "settled_lines c = split_on [newline] (butlast c)" using c settled_newline by metis
      ultimately show thesis using that k t by simp
    next
      case False
      then have "take k (raw @ [newline]) = raw @ [newline]" by simp
      with split_line [OF raw(1), of "raw @ [newline]" c] assms(5) have
        "split_on [newline] (c @ take k (raw @ [newline])) = settled_lines c @ [raw, []]" by simp
      with that [OF k] raw(2) show thesis by (auto simp: butlast_append)
    qed
  qed
qed

section \<open>What the journal tells\<close>

definition restarted :: "auditState \<Rightarrow> auditState" where
  "restarted s = s\<lparr>au_running := \<lambda>_. None, au_unconfirmed := \<lambda>_. None\<rparr>"

text \<open>The day after a start that was recorded: the start is its last line, and the operation's only one.\<close>

lemma begun_day:
  assumes "audit_codec_ok (ax_codec x)" and "beginAudit x statePath ev s = (Inr t, s1)"
    and "fresh_in (ax_codec x) (ax_id x) (split_on [newline] (content_of (au_fs s) (tk_Path t)))"
  obtains ls raw c1 where "tk_ID t = ax_id x" "decEvent (ax_codec x) raw = Some (stamp_event x (ax_id x) ''start'' ev)"
    "au_fs s1 (tk_Path t) = Some c1" "split_on [newline] c1 = ls @ [raw, []]" "c1 \<noteq> []" "last c1 = newline"
    "fresh_in (ax_codec x) (ax_id x) ls" "au_running s1 (ax_id x) = Some (tk_Path t)" "au_unconfirmed s1 = au_unconfirmed s"
proof -
  from assms(2) obtain fs1 where
      b: "appendAuditEvent x (au_fs s) (tk_Path t) (stamp_event x (ax_id x) ''start'' ev) = (None, fs1)" "tk_ID t = ax_id x"
      "s1 = s\<lparr>au_fs := fs1, au_running := (au_running s)(ax_id x \<mapsto> tk_Path t)\<rparr>"
    by (auto simp: beginAudit_def split: if_splits option.splits prod.splits)
  from append_done [OF assms(1) b(1)] obtain raw c1 where c1: "decEvent (ax_codec x) raw = Some (stamp_event x (ax_id x) ''start'' ev)"
      "fs1 = (au_fs s)(tk_Path t \<mapsto> c1)" "split_on [newline] c1 = settled_lines (content_of (au_fs s) (tk_Path t)) @ [raw, []]"
      "c1 \<noteq> []" "last c1 = newline" .
  have "fresh_in (ax_codec x) (ax_id x) (settled_lines (content_of (au_fs s) (tk_Path t)))"
    using assms(3) settled_subset by (auto simp: fresh_in_def list_all_iff)
  with b c1 show thesis by (intro that [of raw c1 "settled_lines (content_of (au_fs s) (tk_Path t))"]) simp_all
qed

lemma start_read:
  assumes "fresh_in C i ls" and "decEvent C raw = Some (stamp_event x i ''start'' ev)"
    and "validAuditEvent (stamp_event x i ''start'' ev)"
  shows "item_of i (read_full C s p (ls @ [raw]) []) = Some (started_item s p (stamp_event x i ''start'' ev))"
proof -
  have "item_of i (read_full C s p ls []) = None" using read_full_fresh [OF assms(1)] by simp
  with assms(2,3) show ?thesis
    by (simp add: read_full_append read_event_def stamp_event_def) (simp add: started_item_def)
qed

lemma finish_read:
  assumes "fresh_in C i ls" and "decEvent C raw = Some (stamp_event x i ''start'' ev)"
    and "validAuditEvent (stamp_event x i ''start'' ev)" and "decEvent C raw' = Some (stamp_event y i ''finish'' ev')"
    and "validAuditEvent (stamp_event y i ''finish'' ev')" and "ax_now x \<le> ax_now y"
  shows "item_of i (read_full C s p ((ls @ [raw]) @ [raw']) []) =
    Some (finish_item (stamp_event y i ''finish'' ev') (started_item s p (stamp_event x i ''start'' ev)))"
proof -
  let ?fin = "stamp_event y i ''finish'' ev'"
  define it0 where "it0 = started_item s p (stamp_event x i ''start'' ev)"
  have s0: "item_of i (read_full C s p (ls @ [raw]) []) = Some it0" unfolding it0_def by (rule start_read [OF assms(1-3)])
  have it0: "\<not> ax_now y < it_StartedAt it0" "it_FinishedAt it0 = None" "it_OperationID it0 = i"
    using assms(6) by (simp_all add: it0_def started_item_def stamp_event_def)
  have fin: "ev_Phase ?fin = ''finish''" "ev_OperationID ?fin = i" "ev_OccurredAt ?fin = ax_now y" by (simp_all add: stamp_event_def)
  with s0 it0 assms(4,5) have "read_full C s p ((ls @ [raw]) @ [raw']) [] =
      map (\<lambda>it. if it_OperationID it = i then finish_item ?fin it else it) (read_full C s p (ls @ [raw]) [])"
    unfolding read_full_append [of _ _ _ "ls @ [raw]"] by (simp add: read_event_def)
  with s0 it0(3) show ?thesis by (simp add: item_of_map it0_def [symmetric])
qed

lemma begun_shown:
  assumes "audit_codec_ok (ax_codec x)" and "beginAudit x statePath ev s = (Inr t, s1)"
    and "fresh_in (ax_codec x) (ax_id x) (split_on [newline] (content_of (au_fs s) (tk_Path t)))"
    and "validAuditEvent (stamp_event x (ax_id x) ''start'' ev)" and "au_unconfirmed s (ax_id x) = None"
  shows "map_option it_Outcome (shown (ax_codec x) (tk_Path t) s1 (tk_ID t)) = Some ''running''"
    and "map_option it_Outcome (shown (ax_codec x) (tk_Path t) (restarted s1) (tk_ID t)) = Some ''unknown''"
proof -
  let ?i = "ax_id x" and ?start = "stamp_event x (ax_id x) ''start'' ev"
  from begun_day [OF assms(1-3)] obtain ls raw c1 where d: "tk_ID t = ?i" "decEvent (ax_codec x) raw = Some ?start"
      "au_fs s1 (tk_Path t) = Some c1" "split_on [newline] c1 = ls @ [raw, []]" "fresh_in (ax_codec x) ?i ls"
      "au_running s1 ?i = Some (tk_Path t)" "au_unconfirmed s1 = au_unconfirmed s" .
  have f: "au_fs (restarted s1) (tk_Path t) = Some c1" using d(3) by (simp add: restarted_def)
  have l: "butlast (split_on [newline] c1) = ls @ [raw]" by (simp add: d(4) butlast_append)
  note read = l start_read [OF d(5,2) assms(4)] d(1)
  have ids: "ev_OperationID ?start = ?i" by (simp add: stamp_event_def)
  show "map_option it_Outcome (shown (ax_codec x) (tk_Path t) s1 (tk_ID t)) = Some ''running''"
    unfolding shown_read [OF d(3)] read using assms(5) d(6,7) by (simp add: doubt_def started_item_def ids)
  show "map_option it_Outcome (shown (ax_codec x) (tk_Path t) (restarted s1) (tk_ID t)) = Some ''unknown''"
    unfolding shown_read [OF f] read by (simp add: doubt_def started_item_def ids restarted_def)
qed

text \<open>What a day tells of an operation that was begun by \<open>x\<close> and finished by \<open>y\<close> with \<open>ev\<close> and this error.\<close>

definition tells :: "auditEnv \<Rightarrow> auditEnv \<Rightarrow> auditEvent \<Rightarrow> audit_error option \<Rightarrow> auditItem option \<Rightarrow> bool" where
  "tells x y ev err shown_item \<longleftrightarrow>
     (case shown_item of
        None \<Rightarrow> False
      | Some it \<Rightarrow> it_StartedAt it = ax_now x \<and>
          (if err = None
           then it_Outcome it = ev_Outcome ev \<and> it_Changed it = ev_Changed ev \<and> it_FinishedAt it = Some (ax_now y)
           else it_Outcome it = ''unknown'' \<and> it_Changed it = None \<and> it_ErrorCode it = ''audit_write_failed''))"

lemma finished_shown:
  assumes "audit_codec_ok (ax_codec x)" and "ax_codec y = ax_codec x"
    and "beginAudit x statePath ev s = (Inr t, s1)"
    and "validAuditEvent (stamp_event x (ax_id x) ''start'' ev)"
    and "fresh_in (ax_codec x) (ax_id x) (split_on [newline] (content_of (au_fs s) (tk_Path t)))"
    and "au_unconfirmed s (ax_id x) = None"
    and "finishAudit y t ev' s1 = (err, s2)"
    and "validAuditEvent (stamp_event y (ax_id x) ''finish'' ev')" and "ax_now x \<le> ax_now y"
  shows "tells x y ev' err (shown (ax_codec x) (tk_Path t) s2 (tk_ID t))"
proof -
  let ?C = "ax_codec x" and ?i = "ax_id x" and ?p = "tk_Path t"
  let ?start = "stamp_event x ?i ''start'' ev" and ?fin = "stamp_event y ?i ''finish'' ev'"
  from begun_day [OF assms(1,3,5)] obtain ls raw c1 where d: "tk_ID t = ?i" "decEvent ?C raw = Some ?start"
      "au_fs s1 ?p = Some c1" "split_on [newline] c1 = ls @ [raw, []]" "c1 \<noteq> []" "last c1 = newline" "fresh_in ?C ?i ls"
      "au_unconfirmed s1 = au_unconfirmed s" .
  note start = start_read [OF d(7,2) assms(4)] and fin = finish_read [OF d(7,2) assms(4) _ assms(8,9)]
  have settled: "settled_lines c1 = ls @ [raw]" using d(4) by (simp add: settled_lines_def butlast_append)
  obtain fs2 where a: "appendAuditEvent y (au_fs s1) ?p ?fin = (err, fs2)" "au_fs s2 = fs2"
    "au_unconfirmed s2 = (if err = None then au_unconfirmed s else (au_unconfirmed s)(?i \<mapsto> ?p))"
    using assms(7) d(1,8) by (auto simp: finishAudit_def Let_def split: prod.splits)
  show ?thesis
  proof (cases err)
    case None
    with append_done [OF _ a(1) [unfolded None]] assms(1,2) obtain raw' c2
      where c2: "decEvent ?C raw' = Some ?fin" "fs2 = (au_fs s1)(?p \<mapsto> c2)" "split_on [newline] c2 = settled_lines c1 @ [raw', []]"
      using d(3) by (metis option.simps(5))
    have f2: "au_fs s2 ?p = Some c2" using a(2) c2(2) by simp
    have l2: "butlast (split_on [newline] c2) = (ls @ [raw]) @ [raw']" using c2(3) settled by (simp add: butlast_append)
    show ?thesis unfolding tells_def d(1) shown_read [OF f2] l2 fin [OF c2(1)] using None a(3) assms(6)
      by (simp add: doubt_def finish_item_def started_item_def) (simp add: stamp_event_def)
  next
    case (Some e)
    from append_failed [OF _ a(1) [unfolded Some] d(3,5,6)] assms(1,2) obtain c2 where c2: "fs2 ?p = Some c2"
      "butlast (split_on [newline] c2) = ls @ [raw] \<or>
       (\<exists>raw'. decEvent ?C raw' = Some ?fin \<and> butlast (split_on [newline] c2) = (ls @ [raw]) @ [raw'])"
      unfolding settled by metis
    have f2: "au_fs s2 ?p = Some c2" using a(2) c2(1) by simp
    have "it_OperationID (started_item s2 ?p ?start) = ?i" "it_StartedAt (started_item s2 ?p ?start) = ax_now x"
      by (simp_all add: started_item_def stamp_event_def)
    moreover have "it_StartedAt (finish_item ?fin it) = it_StartedAt it" for it by (simp add: finish_item_def)
    ultimately obtain it where it: "item_of ?i (read_full ?C s2 ?p (butlast (split_on [newline] c2)) []) = Some it"
        "it_OperationID it = ?i" "it_StartedAt it = ax_now x"
      using c2(2) start [of s2] fin [of _ s2] finish_item_id by metis
    show ?thesis unfolding tells_def d(1) shown_read [OF f2] it(1) using a(3) Some it by (simp add: doubt_def)
  qed
qed

text \<open>C21. The journal never claims more than is known.  An operation whose start is recorded shows as running
  while the process works on it and as unknown after a restart; once its finish is written and synced it
  shows the outcome it finished with; and when that append fails, at any call and with any part of the
  line left behind, it shows as unknown with an error code, not as the success it may have been.\<close>

theorem audit_outcome_honest:
  assumes "audit_codec_ok (ax_codec x)" and "ax_codec y = ax_codec x"
    and "beginAudit x statePath ev s = (Inr t, s1)"
    and "validAuditEvent (stamp_event x (ax_id x) ''start'' ev)"
    and "fresh_in (ax_codec x) (ax_id x) (split_on [newline] (content_of (au_fs s) (tk_Path t)))"
    and "au_unconfirmed s (ax_id x) = None"
    and "finishAudit y t ev' s1 = (err, s2)"
    and "validAuditEvent (stamp_event y (ax_id x) ''finish'' ev')" and "ax_now x \<le> ax_now y"
  shows "map_option it_Outcome (shown (ax_codec x) (tk_Path t) s1 (tk_ID t)) = Some ''running'' \<and>
    map_option it_Outcome (shown (ax_codec x) (tk_Path t) (restarted s1) (tk_ID t)) = Some ''unknown'' \<and>
    (case shown (ax_codec x) (tk_Path t) s2 (tk_ID t) of
       None \<Rightarrow> False
     | Some it \<Rightarrow> it_StartedAt it = ax_now x \<and>
         (if err = None
          then it_Outcome it = ev_Outcome ev' \<and> it_Changed it = ev_Changed ev' \<and> it_FinishedAt it = Some (ax_now y)
          else it_Outcome it = ''unknown'' \<and> it_Changed it = None \<and> it_ErrorCode it = ''audit_write_failed''))"
proof -
  note f = finished_shown [OF assms(1-5) assms(6-9)] and b = begun_shown [OF assms(1,3,5,4,6)]
  from f b show ?thesis by (simp add: tells_def)
qed


section \<open>Pages\<close>

lemma page_start:
  fixes page :: int and n :: int
  assumes "1 \<le> page" "1 \<le> psize" "0 < n"
  shows "page - 1 \<le> (n - 1) div psize \<longleftrightarrow> (page - 1) * psize < n"
proof -
  have "(page - 1) * psize \<le> n - 1" if "page - 1 \<le> (n - 1) div psize"
  proof -
    have "(page - 1) * psize \<le> (n - 1) div psize * psize" using that assms(2) by (simp add: mult_right_mono)
    moreover have "(n - 1) div psize * psize + (n - 1) mod psize = n - 1" by simp
    moreover have "0 \<le> (n - 1) mod psize" using assms(2) by simp
    ultimately show ?thesis by linarith
  qed
  moreover have "page - 1 \<le> (n - 1) div psize" if "(page - 1) * psize \<le> n - 1"
    using zdiv_mono1 [OF that, of psize] assms(2) by simp
  ultimately show ?thesis by fastforce
qed

lemma take_window: "take (min a (length xs - k)) (drop k xs) = take a (drop k xs)"
  by (simp add: min_def)

text \<open>A page holds exactly the items of its window, and the 64-bit arithmetic of the code cannot
  overflow, however large the page number that is asked for.\<close>

theorem page_items_exact:
  assumes "1 \<le> page" and "1 \<le> psize" and "psize \<le> 100" and "length items < 2 ^ 62"
  shows "page_items page psize items = take (nat psize) (drop (nat (page - 1) * nat psize) items)"
proof -
  let ?n = "int (length items)" and ?start = "(page - 1) * psize"
  have start: "nat (page - 1) * nat psize = nat ?start" using assms(1,2) by (simp add: nat_mult_distrib)
  show ?thesis
  proof (cases "0 < ?n \<and> page - 1 \<le> (?n - 1) div psize")
    case True
    then have lt: "?start < ?n" using page_start [OF assms(1,2)] by blast
    have ge: "0 \<le> ?start" using assms(1,2) by simp
    have n: "?n < 2 ^ 62" using assms(4) by (metis of_nat_less_numeral_power_cancel_iff)
    have "page - 1 \<le> ?start" using assms(1,2) by (simp add: mult_le_cancel_left1)
    then have w: "wrap64 (page - 1) = page - 1" "wrap64 ?start = ?start" "wrap64 (?start + psize) = ?start + psize"
      using lt ge n assms(1,2,3) by (simp_all add: wrap64_id)
    have "nat (min (?start + psize) ?n - ?start) = min (nat psize) (length items - nat ?start)"
      using lt ge assms(2) by linarith
    then have "page_items page psize items = take (min (nat psize) (length items - nat ?start)) (drop (nat ?start) items)"
      using True w by (simp add: page_items_def Let_def)
    then show ?thesis by (simp only: take_window start)
  next
    case False
    then have "?n \<le> ?start \<or> ?n = 0" using page_start [OF assms(1,2), of ?n] by linarith
    then have "drop (nat ?start) items = []" by auto
    with False start show ?thesis by (auto simp: page_items_def Let_def)
  qed
qed


section \<open>Witnesses\<close>

theorem page_items_exact_witness: "page_items (2 ^ 63 - 1) 100 [True] = []"
  using page_items_exact [of "2 ^ 63 - 1" 100 "[True]"] by simp

definition sample_event :: auditEvent where
  "sample_event =
     \<lparr>ev_Version = 2, ev_OperationID = ''1'', ev_Phase = ''start'', ev_OccurredAt = 0, ev_Actor = ''management_api'',
      ev_Action = ''update'', ev_Module = ''rules'', ev_ObjectType = ''rules'', ev_ObjectRef = ''rules'',
      ev_ObjectLabel = [], ev_Labels = [], ev_Outcome = [], ev_Changed = None, ev_Changes = None, ev_ErrorCode = []\<rparr>"

definition sample_finish :: auditEvent where
  "sample_finish = sample_event\<lparr>ev_Phase := ''finish'', ev_Outcome := ''succeeded'', ev_Changed := Some True\<rparr>"

definition sample_audit_codec :: auditCodec where
  "sample_audit_codec =
     \<lparr>encEvent = \<lambda>ev. if ev = sample_event then Some ''s'' else if ev = sample_finish then Some ''f'' else None,
      decEvent = \<lambda>raw. if raw = ''s'' then Some sample_event else if raw = ''f'' then Some sample_finish else None\<rparr>"

definition sample_audit :: auditEnv where
  "sample_audit =
     \<lparr>ax_codec = sample_audit_codec, ax_now = 0, ax_loc = 28800, ax_id = ''1'', ax_fails = \<lambda>_. False, ax_written = 0\<rparr>"

definition sample_journal :: auditState where
  "sample_journal = \<lparr>au_fs = Map.empty, au_running = \<lambda>_. None, au_unconfirmed = \<lambda>_. None\<rparr>"

lemma sample_audit_codec_ok: "audit_codec_ok (ax_codec sample_audit)"
  by (auto simp: audit_codec_ok_def sample_audit_def sample_audit_codec_def newline_def sample_event_def sample_finish_def)

lemma sample_stamps:
  "stamp_event sample_audit ''1'' ''start'' sample_event = sample_event"
  "stamp_event sample_audit ''1'' ''finish'' sample_finish = sample_finish"
  by (simp_all add: stamp_event_def sample_audit_def sample_event_def sample_finish_def)

lemma sample_append:
  "\<exists>fs'. appendAuditEvent sample_audit fs path sample_event = (None, fs')"
  "\<exists>fs'. appendAuditEvent sample_audit fs path sample_finish = (None, fs')"
  by (simp_all add: appendAuditEvent_def sample_audit_def sample_audit_codec_def Let_def)

lemma sample_day: "\<exists>path. auditDayPath ''/s'' (format_date (ax_loc sample_audit) (ax_now sample_audit)) = Some path"
  by (simp add: auditDayPath_def sample_audit_def go_simps)

theorem audit_outcome_honest_witness:
  "\<exists>t s1 s2. beginAudit sample_audit ''/s'' sample_event sample_journal = (Inr t, s1) \<and>
     finishAudit sample_audit t sample_finish s1 = (None, s2) \<and>
     map_option it_Outcome (shown sample_audit_codec (tk_Path t) s2 (tk_ID t)) = Some ''succeeded''"
proof -
  have i: "ax_id sample_audit = ''1''" "ax_codec sample_audit = sample_audit_codec" "\<not> ax_fails sample_audit ReadRandom"
    by (simp_all add: sample_audit_def)
  from sample_day obtain path where path: "auditDayPath ''/s'' (format_date (ax_loc sample_audit) (ax_now sample_audit)) = Some path" by blast
  from sample_append(1) obtain fs1 where a1: "appendAuditEvent sample_audit (au_fs sample_journal) path sample_event = (None, fs1)" by blast
  have "\<exists>t s1. beginAudit sample_audit ''/s'' sample_event sample_journal = (Inr t, s1) \<and> tk_ID t = ''1''"
    using path a1 by (simp add: beginAudit_def i sample_stamps)
  then obtain t s1 where b: "beginAudit sample_audit ''/s'' sample_event sample_journal = (Inr t, s1)" "tk_ID t = ''1''" by blast
  from sample_append(2) obtain fs2 where "appendAuditEvent sample_audit (au_fs s1) (tk_Path t) sample_finish = (None, fs2)" by blast
  then have "\<exists>s2. finishAudit sample_audit t sample_finish s1 = (None, s2)"
    by (simp add: finishAudit_def b(2) sample_stamps Let_def)
  then obtain s2 where f: "finishAudit sample_audit t sample_finish s1 = (None, s2)" by blast
  have v: "validAuditEvent sample_event" "validAuditEvent sample_finish"
    by (simp_all add: validAuditEvent_def sample_event_def sample_finish_def zero_time_def)
  have fr: "fresh_in sample_audit_codec ''1'' (split_on [newline] (content_of (au_fs sample_journal) (tk_Path t)))"
    by (simp add: sample_journal_def split_char_none fresh_in_def sample_audit_codec_def)
  have "au_unconfirmed sample_journal ''1'' = None" by (simp add: sample_journal_def)
  note h = audit_outcome_honest [OF sample_audit_codec_ok refl b(1) _ _ _ f, unfolded i sample_stamps, OF v(1) fr this v(2)]
  then have "map_option it_Outcome (shown sample_audit_codec (tk_Path t) s2 (tk_ID t)) = Some ''succeeded''"
    by (auto simp: sample_finish_def split: option.splits)
  with b f show ?thesis by blast
qed

end
