(* ===== verification/Platforms.thy ===== *)
theory Platforms
  imports Notification_Service
begin

text \<open>
  The three group-bot platforms (\<open>notification_platform.go\<close> and \<open>notification_platform_wecom.go\<close>,
  \<open>_feishu.go\<close>, \<open>_dingtalk.go\<close>): cutting a body into parts, the texts with their mentions, the signed
  address, and reading a platform's answer.  One HTTP exchange is a parameter: it fails or returns a
  status, a body and a \<open>Retry-After\<close> header.  HMAC with base64, the clock and the decoding of the answer's
  error code are parameters too.
\<close>

section \<open>Parts\<close>

definition wecomMarkdownLimit :: nat where "wecomMarkdownLimit = 4096"
definition dingtalkMarkdownLimit :: nat where "dingtalkMarkdownLimit = 20000"
definition feishuTextLimit :: nat where "feishuTextLimit = 30720"

text \<open>The hard cut of one section: the parts cut off and the rest.\<close>

function cut_section :: "nat \<Rightarrow> string \<Rightarrow> string list \<times> string" where
  "cut_section limit s =
     (if limit < length s \<and> 0 < limit
      then (let (ps, rest) = cut_section limit (drop limit s) in (take limit s # ps, rest))
      else ([], s))"
  by auto
termination by (relation "measure (\<lambda>(limit, s). length s)") auto

declare cut_section.simps [simp del]

definition sep2 :: string where "sep2 = [CHR 0x0A, CHR 0x0A]"

text \<open>The loop over the sections, \<open>current\<close> the part being filled.\<close>

fun pack_sections :: "nat \<Rightarrow> string \<Rightarrow> string list \<Rightarrow> string list" where
  "pack_sections limit current [] = (if current \<noteq> [] then [current] else [])"
| "pack_sections limit current (section # rest) =
     (let (cuts, section) = cut_section limit section;
          flushed = (if cuts \<noteq> [] \<and> current \<noteq> [] then [current] else []);
          current = (if cuts \<noteq> [] then [] else current);
          candidate = (if current \<noteq> [] then current @ sep2 @ section else section)
      in flushed @ cuts @
         (if limit < length candidate then current # pack_sections limit section rest
          else pack_sections limit candidate rest))"

definition splitMessage :: "string \<Rightarrow> nat \<Rightarrow> string list" where
  "splitMessage body limit =
     (if length body \<le> limit then [body] else pack_sections limit [] (split_on sep2 body))"

section \<open>One exchange\<close>

definition parseRetryAfter :: "string \<Rightarrow> int" where
  "parseRetryAfter v =
     (if v = [] then 0
      else case atoi (trim_space v) of
        Some secs \<Rightarrow> if 0 < secs then wrap64 (secs * second) else 0
      | None \<Rightarrow> 0)"

definition rateLimitedResult :: "int \<Rightarrow> deliveryResult" where
  "rateLimitedResult retryAfter =
     \<lparr>r_Outcome = deliveryFailed, r_ErrorCode = ''rate_limited'', r_Detail = [], r_RetryAfter = retryAfter\<rparr>"

record httpAnswer =
  ha_Status :: int
  ha_Body :: bytes
  ha_RetryAfter :: string

text \<open>What a part is sent as; the environment answers and tells the time once for each part.\<close>

datatype payload =
    WecomText string "string list"
  | WecomMarkdown string
  | FeishuText string "(string \<times> string) option"
  | DingtalkMarkdown string string "string list" bool

record platformEnv =
  px_post :: "nat \<Rightarrow> string \<Rightarrow> payload \<Rightarrow> httpAnswer option"
  px_code :: "bytes \<Rightarrow> int"
  px_now :: "nat \<Rightarrow> instant"
  px_hmac :: "string \<Rightarrow> string \<Rightarrow> string"

definition signed_itoa :: "int \<Rightarrow> string" where
  "signed_itoa n = (if n < 0 then CHR ''-'' # itoa (nat (- n)) else itoa (nat n))"

text \<open>Reading an answer, the same in the three adapters but for the names.  An undecodable body leaves
  the error code zero.\<close>

definition readAnswer :: "platformEnv \<Rightarrow> string \<Rightarrow> string \<Rightarrow> httpAnswer option \<Rightarrow> deliveryResult" where
  "readAnswer x code field answer =
     (case answer of
        None \<Rightarrow> transportUnknownResult
      | Some a \<Rightarrow>
        if ha_Status a = 429 then rateLimitedResult (parseRetryAfter (ha_RetryAfter a))
        else if px_code x (ha_Body a) \<noteq> 0
        then delivery_result deliveryFailed code (field @ ''='' @ signed_itoa (px_code x (ha_Body a)))
        else delivery_result deliveryAccepted [] [])"

definition send_parts ::
    "platformEnv \<Rightarrow> string \<Rightarrow> string \<Rightarrow> (nat \<Rightarrow> string) \<Rightarrow> (nat \<Rightarrow> string \<Rightarrow> payload) \<Rightarrow> string list \<Rightarrow> deliveryResult list" where
  "send_parts x code field url payload parts =
     map (\<lambda>(i, part). readAnswer x code field (px_post x i (url i) (payload i part))) (zip [0..<length parts] parts)"

section \<open>WeCom\<close>

definition trim_blanks :: "string \<Rightarrow> string" where "trim_blanks = trim_right_set {CHR '' ''}"

definition wecomComposeMarkdown :: "string list \<Rightarrow> string \<Rightarrow> string" where
  "wecomComposeMarkdown userIDs body =
     (if userIDs = [] then body
      else body @ [CHR 0x0A] @ trim_blanks (concat (map (\<lambda>i. ''<@'' @ i @ ''> '') userIDs)))"

definition wecom_send :: "platformEnv \<Rightarrow> PlatformIdentity \<Rightarrow> outboundMessage \<Rightarrow> deliveryResult list" where
  "wecom_send x p msg =
     (let ids = nonEmptyIDs (p_UserIDs p)
      in send_parts x ''wecom_errcode'' ''errcode'' (\<lambda>_. p_Webhook p)
        (\<lambda>i part. if p_AtAll p then WecomText part (ids @ [''@all'']) else WecomMarkdown (wecomComposeMarkdown ids part))
        (splitMessage (om_Body msg) wecomMarkdownLimit))"

section \<open>Feishu\<close>

definition at_marker :: "string \<Rightarrow> string" where
  "at_marker i = ''<at user_id='' @ [CHR 0x22] @ i @ [CHR 0x22] @ ''></at> ''"

definition feishuComposeText :: "string list \<Rightarrow> bool \<Rightarrow> string \<Rightarrow> string" where
  "feishuComposeText userIDs atAll body =
     (let markers = (if atAll then at_marker ''all'' else []) @ concat (map at_marker (filter (prefix ''ou_'') userIDs));
          others = filter (\<lambda>i. \<not> prefix ''ou_'' i) userIDs;
          trailing = fold (\<lambda>i t. (if t \<noteq> [] then t @ '' '' else t) @ ''@'' @ i) others (trim_blanks markers)
      in if trailing = [] then body else body @ [CHR 0x0A] @ trailing)"

definition feishu_sign :: "platformEnv \<Rightarrow> PlatformIdentity \<Rightarrow> nat \<Rightarrow> (string \<times> string) option" where
  "feishu_sign x p i =
     (if p_SignSecret p = [] then None
      else let ts = signed_itoa (px_now x i div second)
           in Some (ts, px_hmac x (p_SignSecret p) (ts @ [CHR 0x0A] @ p_SignSecret p)))"

definition feishu_send :: "platformEnv \<Rightarrow> PlatformIdentity \<Rightarrow> outboundMessage \<Rightarrow> deliveryResult list" where
  "feishu_send x p msg =
     send_parts x ''feishu_code'' ''code'' (\<lambda>_. p_Webhook p)
       (\<lambda>i part. FeishuText (feishuComposeText (nonEmptyIDs (p_UserIDs p)) (p_AtAll p) part) (feishu_sign x p i))
       (splitMessage (om_Body msg) feishuTextLimit)"

section \<open>DingTalk\<close>

text \<open>\<open>url.QueryEscape\<close>.\<close>

definition hex_upper :: "nat \<Rightarrow> char" where
  "hex_upper n = (if n < 10 then digit_char n else char_of (55 + n))"

definition query_escape :: "string \<Rightarrow> string" where
  "query_escape s =
     concat (map (\<lambda>c. let n = of_char c :: nat in
       if is_digit c \<or> 65 \<le> n \<and> n \<le> 90 \<or> 97 \<le> n \<and> n \<le> 122 \<or> c \<in> {CHR ''-'', CHR ''_'', CHR ''.'', CHR ''~''} then [c]
       else if c = CHR '' '' then ''+'' else [CHR ''%'', hex_upper (n div 16), hex_upper (n mod 16)]) s)"

definition signedURL :: "platformEnv \<Rightarrow> PlatformIdentity \<Rightarrow> nat \<Rightarrow> string" where
  "signedURL x p i =
     (if p_SignSecret p = [] then p_Webhook p
      else let ms = signed_itoa (px_now x i div (second div 1000));
               sign = px_hmac x (p_SignSecret p) (ms @ [CHR 0x0A] @ p_SignSecret p)
           in p_Webhook p @ (if CHR ''?'' \<in> set (p_Webhook p) then ''&'' else ''?'') @
              ''timestamp='' @ ms @ ''&sign='' @ query_escape sign)"

definition dingtalk_send :: "platformEnv \<Rightarrow> PlatformIdentity \<Rightarrow> outboundMessage \<Rightarrow> deliveryResult list" where
  "dingtalk_send x p msg =
     send_parts x ''dingtalk_errcode'' ''errcode'' (signedURL x p)
       (\<lambda>i part. DingtalkMarkdown (om_Title msg) part (nonEmptyIDs (p_UserIDs p)) (p_AtAll p))
       (splitMessage (om_Body msg) dingtalkMarkdownLimit)"

text \<open>The adapter \<open>buildAdapter\<close> chooses; no adapter ever returns an error of its own.\<close>

definition adapter_send :: "platformEnv \<Rightarrow> PlatformIdentity \<Rightarrow> outboundMessage \<Rightarrow> deliveryResult list option" where
  "adapter_send x p msg =
     (if p_Kind p = PlatformWeCom then Some (wecom_send x p msg)
      else if p_Kind p = PlatformFeishu then Some (feishu_send x p msg)
      else if p_Kind p = PlatformDingTalk then Some (dingtalk_send x p msg)
      else None)"

section \<open>Correctness of the parts\<close>

lemma cut_section_spec:
  assumes "cut_section limit s = (ps, rest)" and "0 < limit"
  shows "concat ps @ rest = s \<and> length rest \<le> limit \<and> list_all (\<lambda>p. length p = limit) ps \<and> (ps \<noteq> [] \<longrightarrow> rest \<noteq> [])"
  using assms
proof (induction limit s arbitrary: ps rule: cut_section.induct)
  case (1 limit s)
  show ?case
  proof (cases "limit < length s")
    case True
    obtain qs r where q: "cut_section limit (drop limit s) = (qs, r)" by fastforce
    then have e: "ps = take limit s # qs" "rest = r"
      using "1.prems" True by (auto simp: cut_section.simps [of limit s])
    have "concat qs @ r = drop limit s \<and> length r \<le> limit \<and> list_all (\<lambda>p. length p = limit) qs \<and> (qs \<noteq> [] \<longrightarrow> r \<noteq> [])"
      using "1.IH" [of qs] "1.prems" True q e by simp
    moreover have "r \<noteq> []" using calculation True by (cases "qs = []") auto
    ultimately show ?thesis using e True by simp
  next
    case False
    with "1.prems" show ?thesis by (auto simp: cut_section.simps [of limit s])
  qed
qed

lemma pack_sections_bound:
  "0 < limit \<Longrightarrow> length current \<le> limit \<Longrightarrow>
     list_all (\<lambda>p. p \<noteq> [] \<and> length p \<le> limit) (pack_sections limit current sections)"
proof (induction limit current sections rule: pack_sections.induct)
  case (2 limit current sect rest)
  obtain ps r where c: "cut_section limit sect = (ps, r)" by fastforce
  note s = cut_section_spec [OF c 2(3)]
  define cur where "cur = (if ps \<noteq> [] then [] else current)"
  define cand where "cand = (if cur \<noteq> [] then cur @ sep2 @ r else r)"
  have eq: "pack_sections limit current (sect # rest) =
      (if ps \<noteq> [] \<and> current \<noteq> [] then [current] else []) @ ps @
      (if limit < length cand then cur # pack_sections limit r rest else pack_sections limit cand rest)"
    unfolding pack_sections.simps c cur_def cand_def by (simp add: Let_def)
  have IH1: "list_all (\<lambda>p. p \<noteq> [] \<and> length p \<le> limit) (pack_sections limit r rest)" if "limit < length cand"
    using 2(1) [OF c [symmetric] refl refl cur_def cand_def that] s 2(3) by simp
  have IH2: "list_all (\<lambda>p. p \<noteq> [] \<and> length p \<le> limit) (pack_sections limit cand rest)" if "\<not> limit < length cand"
    using 2(2) [OF c [symmetric] refl refl cur_def cand_def that] 2(3) that by simp
  have "cur \<noteq> []" if "limit < length cand" using that s by (auto simp: cand_def)
  moreover have "length cur \<le> limit" using 2(4) by (simp add: cur_def)
  moreover have "list_all (\<lambda>p. p \<noteq> [] \<and> length p \<le> limit) ps" using s 2(3) by (auto simp: list_all_iff)
  ultimately show ?case unfolding eq using IH1 IH2 2(4) by auto
qed auto


lemma cut_text: "cut_section limit s = (ps, rest) \<Longrightarrow> concat ps @ rest = s"
proof (induction limit s arbitrary: ps rule: cut_section.induct)
  case (1 limit s)
  then show ?case
    by (cases "limit < length s \<and> 0 < limit") (auto simp: cut_section.simps [of limit s] split: prod.splits)
qed

text \<open>The text without its line breaks.\<close>

abbreviation ink :: "string \<Rightarrow> string" where
  "ink \<equiv> filter (\<lambda>c. c \<noteq> CHR 0x0A)"

lemma pack_sections_ink: "ink (concat (pack_sections limit current sections)) = ink (current @ concat sections)"
proof (induction limit current sections rule: pack_sections.induct)
  case (2 limit current sect rest)
  obtain ps r where c: "cut_section limit sect = (ps, r)" by fastforce
  have s: "ink sect = ink (concat ps) @ ink r" using cut_text [OF c] by (metis filter_append)
  define cur where "cur = (if ps \<noteq> [] then [] else current)"
  define cand where "cand = (if cur \<noteq> [] then cur @ sep2 @ r else r)"
  have eq: "pack_sections limit current (sect # rest) =
      (if ps \<noteq> [] \<and> current \<noteq> [] then [current] else []) @ ps @
      (if limit < length cand then cur # pack_sections limit r rest else pack_sections limit cand rest)"
    unfolding pack_sections.simps c cur_def cand_def by (simp add: Let_def)
  have IH1: "ink (concat (pack_sections limit r rest)) = ink (r @ concat rest)" if "limit < length cand"
    using 2(1) [OF c [symmetric] refl refl cur_def cand_def that] .
  have IH2: "ink (concat (pack_sections limit cand rest)) = ink (cand @ concat rest)" if "\<not> limit < length cand"
    using 2(2) [OF c [symmetric] refl refl cur_def cand_def that] .
  have "ink cand = ink cur @ ink r" by (simp add: cand_def sep2_def)
  then show ?case unfolding eq using IH1 IH2 s by (auto simp: cur_def)
qed simp

lemma join_ink: "ink (join sep2 sections) = ink (concat sections)"
  by (induction sep2 sections rule: join.induct) (auto simp: sep2_def)

text \<open>C40. Cutting a message keeps every part within the limit of the platform and loses no text: the parts
  are in order what the body is, but for line breaks between sections.\<close>

theorem splitMessage_parts:
  assumes "0 < limit"
  shows "list_all (\<lambda>p. length p \<le> limit) (splitMessage body limit) \<and>
    (body = [] \<or> list_all (\<lambda>p. p \<noteq> []) (splitMessage body limit)) \<and>
    ink (concat (splitMessage body limit)) = ink body"
proof (cases "length body \<le> limit")
  case True
  then show ?thesis by (simp add: splitMessage_def)
next
  case False
  then have e: "splitMessage body limit = pack_sections limit [] (split_on sep2 body)" by (simp add: splitMessage_def)
  have "ink (concat (splitMessage body limit)) = ink (join sep2 (split_on sep2 body))"
    unfolding e by (simp add: pack_sections_ink join_ink)
  also have "\<dots> = ink body" by (simp add: join_split_on)
  finally show ?thesis unfolding e using pack_sections_bound [OF assms, of "[]" "split_on sep2 body"]
    by (simp add: list_all_iff e)
qed

theorem splitMessage_parts_witness: "list_all (\<lambda>p. length p \<le> 3) (splitMessage ''abcde'' 3)"
  using splitMessage_parts [of 3 "''abcde''"] by simp

section \<open>When a delivery counts as accepted\<close>

definition good_answer :: "platformEnv \<Rightarrow> httpAnswer option \<Rightarrow> bool" where
  "good_answer x answer =
     (case answer of None \<Rightarrow> False | Some a \<Rightarrow> ha_Status a \<noteq> 429 \<and> px_code x (ha_Body a) = 0)"

lemma readAnswer_outcome:
  "r_Outcome (readAnswer x code field answer) =
     (if good_answer x answer then deliveryAccepted else if answer = None then deliveryUnknown else deliveryFailed)"
  by (auto simp: readAnswer_def good_answer_def transportUnknownResult_def rateLimitedResult_def delivery_result_def
      split: option.split)

lemma merge_accepted:
  "r_Outcome (mergeDeliveryResults rs) = deliveryAccepted \<longleftrightarrow>
     deliveryUnknown \<notin> r_Outcome ` set rs \<and> deliveryFailed \<notin> r_Outcome ` set rs"
  using merge_parts_spec [of "delivery_result deliveryAccepted [] []" rs]
  by (simp add: mergeDeliveryResults_def delivery_result_def outcomes)

lemma send_parts_accepted:
  "r_Outcome (mergeDeliveryResults (send_parts x code field url payload parts)) = deliveryAccepted \<longleftrightarrow>
     list_all (\<lambda>(i, part). good_answer x (px_post x i (url i) (payload i part))) (zip [0..<length parts] parts)"
proof -
  have one: "r_Outcome r \<noteq> deliveryUnknown \<and> r_Outcome r \<noteq> deliveryFailed \<longleftrightarrow> good_answer x a"
    if "r = readAnswer x code field a" for r a
    using that by (simp add: readAnswer_outcome outcomes)
  have e: "deliveryUnknown \<notin> r_Outcome ` set rs \<and> deliveryFailed \<notin> r_Outcome ` set rs \<longleftrightarrow>
      list_all (\<lambda>r. r_Outcome r \<noteq> deliveryUnknown \<and> r_Outcome r \<noteq> deliveryFailed) rs" for rs
    by (auto simp: list_all_iff image_iff)
  show ?thesis unfolding merge_accepted e send_parts_def
    by (simp add: list_all_iff one [OF refl] case_prod_beta)
qed

text \<open>A delivery over WeCom counts as accepted exactly when every part got an answer that is not a 429
  and from which no error code could be read.  No other status matters: a gateway's error page, whose
  body does not decode, is taken for the platform's word that it has the message.\<close>

theorem wecom_accepted_iff:
  "r_Outcome (mergeDeliveryResults (wecom_send x p msg)) = deliveryAccepted \<longleftrightarrow>
     list_all (\<lambda>(i, part). case px_post x i (p_Webhook p)
          (if p_AtAll p then WecomText part (nonEmptyIDs (p_UserIDs p) @ [''@all''])
           else WecomMarkdown (wecomComposeMarkdown (nonEmptyIDs (p_UserIDs p)) part)) of
         None \<Rightarrow> False | Some a \<Rightarrow> ha_Status a \<noteq> 429 \<and> px_code x (ha_Body a) = 0)
       (let parts = splitMessage (om_Body msg) wecomMarkdownLimit in zip [0..<length parts] parts)"
  unfolding wecom_send_def Let_def send_parts_accepted good_answer_def ..

end
