(* ===== verification/Keeper_Client.thy ===== *)
theory Keeper_Client
  imports Notification_Service
begin

text \<open>
  The client of the usage keeper (\<open>keeper_client.go\<close>, with the name requests of
  \<open>keeper_auth_names.go\<close> and \<open>management_keeper_names.go\<close>): requests with one login retry, the closed error
  codes, and the checks on what the keeper returns.  The keeper is a parameter, any state machine that
  answers requests; so is the decoding of its JSON into rows, in which an absent field is \<open>None\<close>.
\<close>

section \<open>Requests\<close>

datatype keeperFailure = KeeperFailure (kf_Code: string) (kf_RetryAfter: int)

record keeperAnswer =
  ka_Status :: int
  ka_RetryAfter :: string
  ka_Body :: "bytes option"

text \<open>\<open>kx_do\<close> is one exchange, \<open>None\<close> when it fails; \<open>kx_expired\<close> whether the deadline has passed.
  \<open>kx_until\<close> reads a date in a \<open>Retry-After\<close> header as the time left.\<close>

record 'h keeperEnv =
  kx_do :: "string \<Rightarrow> string \<Rightarrow> bytes \<Rightarrow> 'h \<Rightarrow> keeperAnswer option \<times> 'h"
  kx_expired :: "'h \<Rightarrow> bool"
  kx_password :: string
  kx_loginBody :: "string \<Rightarrow> bytes"
  kx_until :: "string \<Rightarrow> int option"

definition fail_code :: "string \<Rightarrow> keeperFailure" where
  "fail_code code = KeeperFailure code 0"

definition keeper_request ::
    "'h keeperEnv \<Rightarrow> string \<Rightarrow> string \<Rightarrow> bytes \<Rightarrow> 'h \<Rightarrow> (keeperFailure + keeperAnswer) \<times> 'h" where
  "keeper_request x m path body h =
     (case kx_do x m path body h of
        (Some a, h) \<Rightarrow> (Inr a, h)
      | (None, h) \<Rightarrow> (Inl (fail_code (if kx_expired x h then ''timeout'' else ''connection_failed'')), h))"

definition keeperHTTPError :: "'h keeperEnv \<Rightarrow> keeperAnswer \<Rightarrow> keeperFailure" where
  "keeperHTTPError x a =
     (if ka_Status a = 401 \<or> ka_Status a = 403 then fail_code ''authentication_failed''
      else if ka_Status a = 429 then
        KeeperFailure ''rate_limited''
          (case (case atoi (ka_RetryAfter a) of Some n \<Rightarrow> if 0 \<le> n \<and> n < 2 ^ 31 then Some n else None | None \<Rightarrow> None) of
             Some n \<Rightarrow> n * second
           | None \<Rightarrow> (case kx_until x (ka_RetryAfter a) of Some d \<Rightarrow> max 0 d | None \<Rightarrow> 60 * second))
      else if 500 \<le> ka_Status a then fail_code ''connection_failed''
      else fail_code ''invalid_response'')"

definition loginPath :: string where "loginPath = ''/api/v1/auth/login''"

definition authenticatedRequest ::
    "'h keeperEnv \<Rightarrow> string \<Rightarrow> string \<Rightarrow> bytes \<Rightarrow> 'h \<Rightarrow> (keeperFailure + keeperAnswer) \<times> 'h" where
  "authenticatedRequest x m path body h =
     (case keeper_request x m path body h of
        (Inl e, h) \<Rightarrow> (Inl e, h)
      | (Inr a, h) \<Rightarrow>
        if ka_Status a \<noteq> 401 then (Inr a, h)
        else if kx_password x = [] then (Inl (fail_code ''configuration_error''), h)
        else case keeper_request x ''POST'' loginPath (kx_loginBody x (kx_password x)) h of
          (Inl e, h) \<Rightarrow> (Inl e, h)
        | (Inr login, h) \<Rightarrow>
          if ka_Status login \<noteq> 200 \<and> ka_Status login \<noteq> 204 then (Inl (keeperHTTPError x login), h)
          else keeper_request x m path body h)"

definition maxBody :: nat where "maxBody = 8388608"

definition readKeeperBody :: "bool \<Rightarrow> keeperAnswer \<Rightarrow> keeperFailure + bytes" where
  "readKeeperBody expired a =
     (case ka_Body a of
        None \<Rightarrow> Inl (fail_code (if expired then ''timeout'' else ''connection_failed''))
      | Some raw \<Rightarrow> if maxBody < length raw then Inl (fail_code ''invalid_response'') else Inr raw)"

text \<open>A GET whose body is wanted, the common part of \<open>fetch\<close> and \<open>fetchAuthNames\<close>.\<close>

definition get_body :: "'h keeperEnv \<Rightarrow> string \<Rightarrow> 'h \<Rightarrow> (keeperFailure + bytes) \<times> 'h" where
  "get_body x path h =
     (case authenticatedRequest x ''GET'' path [] h of
        (Inl e, h) \<Rightarrow> (Inl e, h)
      | (Inr a, h) \<Rightarrow>
        if ka_Status a \<noteq> 200 then (Inl (keeperHTTPError x a), h) else (readKeeperBody (kx_expired x h) a, h))"

section \<open>Key aliases\<close>

record keeperAlias =
  al_Key :: string
  al_Alias :: string

record aliasRow =
  ar_Key :: "string option"
  ar_Alias :: "string option"

fun read_aliases :: "(string \<rightharpoonup> string) \<Rightarrow> aliasRow list \<Rightarrow> keeperAlias list option" where
  "read_aliases seen [] = Some []"
| "read_aliases seen (row # rows) =
     (case (ar_Key row, ar_Alias row) of
        (Some key, Some alias) \<Rightarrow>
          if trim_space key = [] then None
          else
            (let alias = trim_space alias
             in case seen key of
                  Some previous \<Rightarrow> if previous \<noteq> alias then None else read_aliases seen rows
                | None \<Rightarrow> map_option ((#) \<lparr>al_Key = key, al_Alias = alias\<rparr>) (read_aliases (seen(key \<mapsto> alias)) rows))
      | _ \<Rightarrow> None)"

definition fetchAliases ::
    "'h keeperEnv \<Rightarrow> (bytes \<Rightarrow> aliasRow list option) \<Rightarrow> 'h \<Rightarrow> (keeperFailure + keeperAlias list) \<times> 'h" where
  "fetchAliases x decode h =
     (case get_body x ''/api/v1/usage/api-keys/settings'' h of
        (Inl e, h) \<Rightarrow> (Inl e, h)
      | (Inr raw, h) \<Rightarrow>
        (case (case decode raw of None \<Rightarrow> None | Some rows \<Rightarrow> read_aliases Map.empty rows) of
           None \<Rightarrow> (Inl (fail_code ''invalid_response''), h)
         | Some items \<Rightarrow> (Inr items, h)))"

section \<open>Authentication names\<close>

record keeperAuthName =
  an_IdentityID :: string
  an_AuthIndex :: string
  an_Alias :: string
  an_DisplayName :: string

text \<open>The alias of a row: a \<open>null\<close> is the empty text, \<open>AliasOther\<close> any other JSON that is not a string.\<close>

datatype aliasField = AliasAbsent | AliasOther | AliasText string

record nameRow =
  nr_ID :: "string option"
  nr_Identity :: "string option"
  nr_Alias :: aliasField
  nr_DisplayName :: "string option"
  nr_AuthType :: "int option"
  nr_Type :: "string option"
  nr_Provider :: "string option"
  nr_Deleted :: "bool option"

text \<open>\<open>strconv.ParseInt\<close> and back: a positive number in its canonical form.\<close>

definition canonical_id :: "string \<Rightarrow> bool" where
  "canonical_id s = (case atoi s of Some n \<Rightarrow> 0 < n \<and> itoa (nat n) = s | None \<Rightarrow> False)"

text \<open>One row: \<open>None\<close> when it is malformed, \<open>Some None\<close> when it is skipped.\<close>

definition read_name :: "nameRow \<Rightarrow> keeperAuthName option option" where
  "read_name r =
     (case (nr_AuthType r, nr_Type r, nr_Provider r, nr_Deleted r) of
        (Some ty, Some kind, Some provider, Some deleted) \<Rightarrow>
          if ty \<noteq> 1 \<or> kind \<noteq> ''codex'' \<or> provider \<noteq> ''codex'' \<or> deleted then Some None
          else (case (nr_ID r, nr_Identity r, nr_DisplayName r, nr_Alias r) of
              (Some i, Some ident, Some name, AliasText alias) \<Rightarrow>
                if trim_space ident = [] \<or> \<not> canonical_id i then None
                else Some (Some \<lparr>an_IdentityID = i, an_AuthIndex = ident,
                    an_Alias = alias, an_DisplayName = name\<rparr>)
            | _ \<Rightarrow> None)
      | _ \<Rightarrow> None)"

fun read_names ::
    "(string \<rightharpoonup> keeperAuthName) \<Rightarrow> (string \<rightharpoonup> string) \<Rightarrow> nameRow list \<Rightarrow> keeperAuthName list option" where
  "read_names byIndex byID [] = Some []"
| "read_names byIndex byID (row # rows) =
     (case read_name row of
        None \<Rightarrow> None
      | Some None \<Rightarrow> read_names byIndex byID rows
      | Some (Some item) \<Rightarrow>
        (case byIndex (an_AuthIndex item) of
           Some previous \<Rightarrow> if previous \<noteq> item then None else read_names byIndex byID rows
         | None \<Rightarrow>
           (case byID (an_IdentityID item) of
              Some index \<Rightarrow>
                if index \<noteq> an_AuthIndex item then None
                else map_option ((#) item) (read_names (byIndex(an_AuthIndex item \<mapsto> item)) (byID(an_IdentityID item \<mapsto> an_AuthIndex item)) rows)
            | None \<Rightarrow>
              map_option ((#) item) (read_names (byIndex(an_AuthIndex item \<mapsto> item)) (byID(an_IdentityID item \<mapsto> an_AuthIndex item)) rows))))"

definition parseKeeperAuthNames :: "(bytes \<Rightarrow> nameRow list option) \<Rightarrow> bytes \<Rightarrow> keeperFailure + keeperAuthName list" where
  "parseKeeperAuthNames decode raw =
     (case (case decode raw of None \<Rightarrow> None | Some rows \<Rightarrow> read_names Map.empty Map.empty rows) of
        None \<Rightarrow> Inl (fail_code ''invalid_response'') | Some items \<Rightarrow> Inr items)"

definition fetchAuthNames ::
    "'h keeperEnv \<Rightarrow> (bytes \<Rightarrow> nameRow list option) \<Rightarrow> 'h \<Rightarrow> (keeperFailure + keeperAuthName list) \<times> 'h" where
  "fetchAuthNames x decode h =
     (case get_body x ''/api/v1/usage/identities'' h of
        (Inl e, h) \<Rightarrow> (Inl e, h)
      | (Inr raw, h) \<Rightarrow> (parseKeeperAuthNames decode raw, h))"

section \<open>Renaming\<close>

definition forbidden_rune :: "nat \<Rightarrow> bool" where
  "forbidden_rune r \<longleftrightarrow>
     r < 32 \<or> 127 \<le> r \<and> r \<le> 159 \<or>
     r \<in> {0x61c, 0x180e, 0x200b, 0x200c, 0x2060, 0xfeff, 0x200e, 0x200f} \<or>
     0x202a \<le> r \<and> r \<le> 0x202e \<or> 0x2066 \<le> r \<and> r \<le> 0x2069"

text \<open>\<open>utf8.ValidString\<close>: no byte decodes to the replacement rune of width one.\<close>

function valid_utf8 :: "string \<Rightarrow> bool" where
  "valid_utf8 s =
     (if s = [] then True
      else let (r, n) = decode_rune s
           in if n \<le> 1 \<and> r = rune_error then False else valid_utf8 (drop (max 1 n) s))"
  by auto
termination by (relation "measure length") auto

declare valid_utf8.simps [simp del]

lemma valid_utf8_ascii [simp]:
  "valid_utf8 []"
  "(of_char c :: nat) < 0x80 \<Longrightarrow> valid_utf8 (c # s) = valid_utf8 s"
  by (simp_all add: valid_utf8.simps [of "[]"] valid_utf8.simps [of "c # s"] decode_rune_ascii rune_error_def)

definition validKeeperName :: "string \<Rightarrow> bool" where
  "validKeeperName alias \<longleftrightarrow>
     valid_utf8 alias \<and> length (runes alias) \<le> 50 \<and> list_all (\<lambda>r. \<not> forbidden_rune r) (runes alias)"

text \<open>\<open>patchAuthName\<close>: the answer, or the status with which the update ends and why.\<close>

definition patchAuthName ::
    "'h keeperEnv \<Rightarrow> string \<Rightarrow> bytes \<Rightarrow> 'h \<Rightarrow> (string \<times> keeperFailure + keeperAnswer) \<times> 'h" where
  "patchAuthName x i body h =
     (let path = ''/api/v1/usage/identities/'' @ i
      in case keeper_request x ''PATCH'' path body h of
           (Inl e, h) \<Rightarrow> (Inl (''unknown'', e), h)
         | (Inr a, h) \<Rightarrow>
           if ka_Status a \<noteq> 401 then (Inr a, h)
           else if kx_password x = [] then (Inl (''unavailable'', fail_code ''configuration_error''), h)
           else case keeper_request x ''POST'' loginPath (kx_loginBody x (kx_password x)) h of
             (Inl e, h) \<Rightarrow> (Inl (''unavailable'', e), h)
           | (Inr login, h) \<Rightarrow>
             if ka_Status login \<noteq> 200 \<and> ka_Status login \<noteq> 204 then (Inl (''unavailable'', keeperHTTPError x login), h)
             else (case keeper_request x ''PATCH'' path body h of
                (Inl e, h) \<Rightarrow> (Inl (''unknown'', e), h)
              | (Inr a, h) \<Rightarrow> (Inr a, h)))"

record nameUpdate =
  nu_Status :: string
  nu_Item :: "keeperAuthName option"
  nu_ErrorCode :: string

text \<open>What \<open>publishUpdate\<close> is called with: \<open>None\<close> when nothing was sent, \<open>Some None\<close> to forget the
  cached names, \<open>Some (Some items)\<close> to replace them.\<close>

type_synonym publication = "keeperAuthName list option option"

definition name_error :: "string \<Rightarrow> string \<Rightarrow> nameUpdate \<times> keeperAuthName option" where
  "name_error status code = (\<lparr>nu_Status = status, nu_Item = None, nu_ErrorCode = code\<rparr>, None)"

record nameCodec =
  nc_rows :: "bytes \<Rightarrow> nameRow list option"
  nc_input :: "bytes \<Rightarrow> (string \<times> string option) option"
  nc_payload :: "string \<Rightarrow> bytes"

definition wrap_row :: "bytes \<Rightarrow> bytes" where
  "wrap_row body = ''{'' @ [CHR 0x22] @ ''identities'' @ [CHR 0x22] @ '':['' @ body @ '']}''"

text \<open>What the answer to the patch means.\<close>

definition patch_answer ::
    "'h keeperEnv \<Rightarrow> nameCodec \<Rightarrow> string \<Rightarrow> keeperAuthName \<Rightarrow> keeperAuthName list \<Rightarrow> 'h \<Rightarrow> keeperAnswer \<Rightarrow>
     (nameUpdate \<times> keeperAuthName option) \<times> publication" where
  "patch_answer x C authIndex before items h a =
     (if ka_Status a = 404 then (name_error ''not_found'' ''not_found'', Some None)
      else if ka_Status a = 400 then (name_error ''invalid'' ''invalid_alias'', Some None)
      else if ka_Status a \<in> {401, 403, 429} then (name_error ''unavailable'' (kf_Code (keeperHTTPError x a)), Some None)
      else if ka_Status a \<noteq> 200 then (name_error ''unknown'' (kf_Code (keeperHTTPError x a)), Some None)
      else case readKeeperBody (kx_expired x h) a of
        Inl e \<Rightarrow> (name_error ''unknown'' (kf_Code e), Some None)
      | Inr body \<Rightarrow>
        (case parseKeeperAuthNames (nc_rows C) (wrap_row body) of
           Inr [updated] \<Rightarrow>
             if an_AuthIndex updated \<noteq> authIndex \<or> an_IdentityID updated \<noteq> an_IdentityID before
             then (name_error ''unknown'' ''invalid_response'', Some None)
             else ((\<lparr>nu_Status = ''ready'', nu_Item = Some updated, nu_ErrorCode = []\<rparr>, Some before),
                   Some (Some (map (\<lambda>i. if an_AuthIndex i = authIndex then updated else i) items)))
         | _ \<Rightarrow> (name_error ''unknown'' ''invalid_response'', Some None)))"

definition updateKeeperAuthName ::
    "'h keeperEnv \<Rightarrow> nameCodec \<Rightarrow> bool \<Rightarrow> bytes \<Rightarrow> 'h \<Rightarrow> ((nameUpdate \<times> keeperAuthName option) \<times> publication) \<times> 'h" where
  "updateKeeperAuthName x C configured raw h =
     (case (if valid_utf8 raw then nc_input C raw else None) of
        None \<Rightarrow> ((name_error ''invalid'' ''invalid_request'', None), h)
      | Some (authIndex, input) \<Rightarrow>
        (case input of
           None \<Rightarrow> ((name_error ''invalid'' ''invalid_request'', None), h)
         | Some input \<Rightarrow>
           if trim_space authIndex = [] then ((name_error ''invalid'' ''invalid_request'', None), h)
           else
             (let alias = trim_space input
              in if \<not> validKeeperName alias then ((name_error ''invalid'' ''invalid_alias'', None), h)
                 else if \<not> configured then ((name_error ''unavailable'' ''configuration_error'', None), h)
                 else case fetchAuthNames x (nc_rows C) h of
                   (Inl e, h) \<Rightarrow> ((name_error ''unavailable'' (kf_Code e), None), h)
                 | (Inr items, h) \<Rightarrow>
                   (case find (\<lambda>i. an_AuthIndex i = authIndex) items of
                      None \<Rightarrow> ((name_error ''not_found'' ''not_found'', None), h)
                    | Some before \<Rightarrow>
                      if kx_expired x h then ((name_error ''unavailable'' ''timeout'', None), h)
                      else case patchAuthName x (an_IdentityID before) (nc_payload C alias) h of
                        (Inl (status, e), h) \<Rightarrow> ((name_error status (kf_Code e), Some None), h)
                      | (Inr a, h) \<Rightarrow> (patch_answer x C authIndex before items h a, h)))))"


section \<open>The names of one answer\<close>

definition row_items :: "nameRow list \<Rightarrow> keeperAuthName list" where
  "row_items rows = List.map_filter (\<lambda>r. case read_name r of Some (Some item) \<Rightarrow> Some item | _ \<Rightarrow> None) rows"

text \<open>Two rows agree: one index has one item, one identity one index.\<close>

definition names_agree :: "keeperAuthName \<Rightarrow> keeperAuthName \<Rightarrow> bool" where
  "names_agree a b \<longleftrightarrow>
     (an_AuthIndex a = an_AuthIndex b \<longrightarrow> a = b) \<and> (an_IdentityID a = an_IdentityID b \<longrightarrow> an_AuthIndex a = an_AuthIndex b)"

abbreviation by_index :: "keeperAuthName list \<Rightarrow> string \<rightharpoonup> keeperAuthName" where
  "by_index acc \<equiv> map_of (map (\<lambda>v. (an_AuthIndex v, v)) acc)"

abbreviation by_id :: "keeperAuthName list \<Rightarrow> string \<rightharpoonup> string" where
  "by_id acc \<equiv> map_of (map (\<lambda>v. (an_IdentityID v, an_AuthIndex v)) acc)"

definition names_ok :: "keeperAuthName list \<Rightarrow> bool" where
  "names_ok acc \<longleftrightarrow> distinct (map an_AuthIndex acc) \<and> distinct (map an_IdentityID acc)"

lemma by_index_Some: "names_ok acc \<Longrightarrow> by_index acc k = Some v \<longleftrightarrow> v \<in> set acc \<and> an_AuthIndex v = k"
  by (subst map_of_eq_Some_iff) (auto simp: names_ok_def comp_def)

lemma by_id_Some: "names_ok acc \<Longrightarrow> by_id acc i = Some k \<longleftrightarrow> (\<exists>v\<in>set acc. an_IdentityID v = i \<and> an_AuthIndex v = k)"
  by (subst map_of_eq_Some_iff) (auto simp: names_ok_def comp_def)

lemma by_index_None: "by_index acc k = None \<longleftrightarrow> k \<notin> an_AuthIndex ` set acc"
  by (simp add: map_of_eq_None_iff image_image)

lemma by_id_None: "by_id acc k = None \<longleftrightarrow> k \<notin> an_IdentityID ` set acc"
  by (simp add: map_of_eq_None_iff image_image)

lemma row_items_Cons:
  "row_items (r # rs) = (case read_name r of Some (Some item) \<Rightarrow> item # row_items rs | _ \<Rightarrow> row_items rs)"
  by (simp add: row_items_def List.map_filter_simps split: option.splits)

text \<open>The step of the loop, with the tables built from the items so far.\<close>

lemma read_names_step:
  assumes "names_ok acc" and "read_name row = Some (Some item)"
  shows "read_names (by_index acc) (by_id acc) (row # rows) =
    (if item \<in> set acc then read_names (by_index acc) (by_id acc) rows
     else if an_AuthIndex item \<in> an_AuthIndex ` set acc \<or> an_IdentityID item \<in> an_IdentityID ` set acc then None
     else map_option ((#) item) (read_names (by_index (item # acc)) (by_id (item # acc)) rows))"
proof (cases "by_index acc (an_AuthIndex item)")
  case None
  then have n: "an_AuthIndex item \<notin> an_AuthIndex ` set acc" "item \<notin> set acc" by (auto simp: by_index_None)
  show ?thesis
  proof (cases "by_id acc (an_IdentityID item)")
    case i: None
    then have "an_IdentityID item \<notin> an_IdentityID ` set acc" by (simp only: by_id_None not_False_eq_True)
    with n assms(2) show ?thesis by (simp add: None i)
  next
    case (Some k)
    then obtain v where v: "v \<in> set acc" "an_IdentityID v = an_IdentityID item" "an_AuthIndex v = k"
      using by_id_Some [OF assms(1)] by auto
    then have "k \<noteq> an_AuthIndex item" using n(1) by (metis imageI)
    moreover have "an_IdentityID item \<in> an_IdentityID ` set acc" using v by (metis imageI)
    ultimately show ?thesis using None Some n assms(2) by simp
  qed
next
  case (Some v)
  then have v: "v \<in> set acc" "an_AuthIndex v = an_AuthIndex item" using by_index_Some [OF assms(1)] by auto
  then have m: "an_AuthIndex item \<in> an_AuthIndex ` set acc" by (metis imageI)
  show ?thesis
  proof (cases "v = item")
    case True
    with Some v assms(2) show ?thesis by simp
  next
    case False
    then have "item \<notin> set acc" using by_index_Some [OF assms(1)] Some by (metis option.inject)
    with False Some m assms(2) show ?thesis by simp
  qed
qed

lemma read_names_malformed: "read_name row = None \<Longrightarrow> read_names xs ids (row # rows) = None"
  by simp

lemma read_names_skip: "read_name row = Some None \<Longrightarrow> read_names xs ids (row # rows) = read_names xs ids rows"
  by simp

declare read_names.simps(2) [simp del]

lemma read_names_accepts:
  assumes "names_ok acc" and "read_names (by_index acc) (by_id acc) rows = Some items"
  shows "(\<forall>r\<in>set rows. read_name r \<noteq> None) \<and> set acc \<union> set items = set acc \<union> set (row_items rows) \<and> names_ok (rev acc @ items)"
  using assms
proof (induction rows arbitrary: acc items)
  case Nil
  then show ?case by (simp add: row_items_def List.map_filter_simps names_ok_def rev_map [symmetric])
next
  case (Cons row rows)
  show ?case
  proof (cases "read_name row")
    case None
    with Cons.prems show ?thesis by (simp add: read_names_malformed)
  next
    case (Some r)
    show ?thesis
    proof (cases r)
      case None
      with Some Cons show ?thesis by (simp add: row_items_Cons read_names_skip)
    next
      case i: (Some item)
      note step = read_names_step [OF Cons.prems(1), of row item rows]
      show ?thesis
      proof (cases "item \<in> set acc")
        case True
        with step Some i Cons.prems(2) have "read_names (by_index acc) (by_id acc) rows = Some items" by simp
        from Cons.IH [OF Cons.prems(1) this] True show ?thesis by (auto simp: row_items_Cons Some i)
      next
        case False
        with Cons.prems(2) step Some i obtain rest where rest:
          "an_AuthIndex item \<notin> an_AuthIndex ` set acc" "an_IdentityID item \<notin> an_IdentityID ` set acc"
          "read_names (by_index (item # acc)) (by_id (item # acc)) rows = Some rest" "items = item # rest"
          by (auto split: if_splits)
        have "names_ok (item # acc)" using rest(1,2) Cons.prems(1) by (simp add: names_ok_def)
        from Cons.IH [OF this rest(3)] Some i rest(4) show ?thesis by (auto simp: row_items_Cons)
      qed
    qed
  qed
qed

lemma read_names_rejects:
  assumes "names_ok acc" and "read_names (by_index acc) (by_id acc) rows = None"
  shows "(\<exists>r\<in>set rows. read_name r = None) \<or>
    (\<exists>u\<in>set acc \<union> set (row_items rows). \<exists>v\<in>set (row_items rows). \<not> names_agree u v)"
  using assms
proof (induction rows arbitrary: acc)
  case (Cons row rows)
  show ?case
  proof (cases "read_name row")
    case (Some r)
    show ?thesis
    proof (cases r)
      case None
      with Some Cons.prems(2) have "read_names (by_index acc) (by_id acc) rows = None" by (simp add: read_names_skip)
      from Cons.IH [OF Cons.prems(1) this] None Some show ?thesis by (auto simp: row_items_Cons)
    next
      case i: (Some item)
      note step = read_names_step [OF Cons.prems(1), of row item rows]
      consider "item \<in> set acc"
        | "item \<notin> set acc" "an_AuthIndex item \<in> an_AuthIndex ` set acc \<or> an_IdentityID item \<in> an_IdentityID ` set acc"
        | "item \<notin> set acc" "an_AuthIndex item \<notin> an_AuthIndex ` set acc" "an_IdentityID item \<notin> an_IdentityID ` set acc" by blast
      then show ?thesis
      proof cases
        case 1
        with step Some i Cons.prems(2) have "read_names (by_index acc) (by_id acc) rows = None" by simp
        from Cons.IH [OF Cons.prems(1) this] 1 show ?thesis by (auto simp: row_items_Cons Some i)
      next
        case 2
        then obtain u where "u \<in> set acc" "\<not> names_agree u item" by (auto simp: names_agree_def) metis+
        then show ?thesis using Some i by (auto simp: row_items_Cons)
      next
        case 3
        then have "read_names (by_index (item # acc)) (by_id (item # acc)) rows = None"
          using Cons.prems(2) step Some i by auto
        moreover have "names_ok (item # acc)" using 3 Cons.prems(1) by (simp add: names_ok_def)
        ultimately have "(\<exists>r\<in>set rows. read_name r = None) \<or>
            (\<exists>u\<in>set (item # acc) \<union> set (row_items rows). \<exists>v\<in>set (row_items rows). \<not> names_agree u v)"
          using Cons.IH by blast
        then show ?thesis using Some i by (auto simp: row_items_Cons)
      qed
    qed
  qed simp
qed simp

lemma names_ok_agree:
  assumes "names_ok items" and "u \<in> set items" and "v \<in> set items"
  shows "names_agree u v"
proof -
  have "inj_on an_AuthIndex (set items)" "inj_on an_IdentityID (set items)"
    using assms(1) by (simp_all add: names_ok_def distinct_map)
  then show ?thesis using assms(2,3) by (auto simp: names_agree_def dest: inj_onD)
qed

text \<open>The keeper's names are accepted exactly when every row can be read and no two rows contradict each
  other, and then they are the items of the rows, each index and each identity once; so a rename is
  always sent to the one identity the index stands for.\<close>

theorem parseKeeperAuthNames_iff:
  assumes "decode raw = Some rows"
  shows "case parseKeeperAuthNames decode raw of
      Inl e \<Rightarrow> \<not> (list_all (\<lambda>r. read_name r \<noteq> None) rows \<and>
        list_all (\<lambda>u. list_all (names_agree u) (row_items rows)) (row_items rows))
    | Inr items \<Rightarrow> list_all (\<lambda>r. read_name r \<noteq> None) rows \<and>
        list_all (\<lambda>u. list_all (names_agree u) (row_items rows)) (row_items rows) \<and>
        set items = set (row_items rows) \<and> distinct (map an_AuthIndex items) \<and> distinct (map an_IdentityID items)"
proof (cases "read_names Map.empty Map.empty rows")
  case None
  have "names_ok ([] :: keeperAuthName list)" by (simp add: names_ok_def)
  from read_names_rejects [OF this, of rows] None have
    "(\<exists>r\<in>set rows. read_name r = None) \<or> (\<exists>u\<in>set (row_items rows). \<exists>v\<in>set (row_items rows). \<not> names_agree u v)"
    by simp
  then have "\<not> (list_all (\<lambda>r. read_name r \<noteq> None) rows \<and>
      list_all (\<lambda>u. list_all (names_agree u) (row_items rows)) (row_items rows))"
    unfolding list_all_iff by blast
  moreover have "parseKeeperAuthNames decode raw = Inl (fail_code ''invalid_response'')"
    using None assms by (simp add: parseKeeperAuthNames_def)
  ultimately show ?thesis by simp
next
  case (Some items)
  have "names_ok ([] :: keeperAuthName list)" by (simp add: names_ok_def)
  from read_names_accepts [OF this, of rows items] Some have
    *: "\<forall>r\<in>set rows. read_name r \<noteq> None" "set items = set (row_items rows)" "names_ok items"
    by simp_all
  then have "list_all (\<lambda>u. list_all (names_agree u) (row_items rows)) (row_items rows)"
    using names_ok_agree [OF *(3)] by (simp add: list_all_iff)
  moreover have "parseKeeperAuthNames decode raw = Inr items"
    using Some assms by (simp add: parseKeeperAuthNames_def)
  moreover have "list_all (\<lambda>r. read_name r \<noteq> None) rows" using *(1) by (simp only: list_all_iff)
  ultimately show ?thesis using *(2,3) by (simp only: sum.case names_ok_def simp_thms)
qed

definition sample_row :: nameRow where
  "sample_row =
     \<lparr>nr_ID = Some ''7'', nr_Identity = Some ''a'', nr_Alias = AliasText ''x'', nr_DisplayName = Some ''X'',
      nr_AuthType = Some 1, nr_Type = Some ''codex'', nr_Provider = Some ''codex'', nr_Deleted = Some False\<rparr>"

theorem parseKeeperAuthNames_iff_witness:
  "\<exists>items. parseKeeperAuthNames (\<lambda>_. Some [sample_row, sample_row]) [] = Inr items \<and> length (map an_AuthIndex items) = 1 \<and>
     distinct (map an_AuthIndex items)"
proof -
  have "\<exists>i. parseKeeperAuthNames (\<lambda>_. Some [sample_row, sample_row]) [] = Inr [i]"
    by (simp add: parseKeeperAuthNames_def read_names.simps(2) read_name_def sample_row_def canonical_id_def go_simps)
  then obtain i where "parseKeeperAuthNames (\<lambda>_. Some [sample_row, sample_row]) [] = Inr [i]" by blast
  with parseKeeperAuthNames_iff [of "\<lambda>_. Some [sample_row, sample_row]" "[]" "[sample_row, sample_row]"] show ?thesis by auto
qed


section \<open>What a rename sends\<close>

text \<open>A keeper that writes down every exchange: method, path and answer.\<close>

type_synonym exchange = "string \<times> string \<times> keeperAnswer option"

definition logged :: "'h keeperEnv \<Rightarrow> (exchange list \<times> 'h) keeperEnv" where
  "logged x =
     \<lparr>kx_do = (\<lambda>m p b (l, h). let (a, h') = kx_do x m p b h in (a, (l @ [(m, p, a)], h'))),
      kx_expired = (\<lambda>(l, h). kx_expired x h),
      kx_password = kx_password x, kx_loginBody = kx_loginBody x, kx_until = kx_until x\<rparr>"

definition patches :: "exchange list \<Rightarrow> exchange list" where
  "patches l = filter (\<lambda>(m, p, a). m = ''PATCH'') l"

lemma patches_simps [simp]:
  "patches [] = []"
  "patches (l @ l') = patches l @ patches l'"
  "patches ((m, p, a) # l) = (if m = ''PATCH'' then (m, p, a) # patches l else patches l)"
  by (simp_all add: patches_def)

lemma keeper_request_logged:
  "\<exists>a h'. keeper_request (logged x) m p b (l, h) =
     (case a of None \<Rightarrow> Inl (fail_code (if kx_expired x h' then ''timeout'' else ''connection_failed'')) | Some a \<Rightarrow> Inr a,
      (l @ [(m, p, a)], h'))"
  by (cases "kx_do x m p b h") (auto simp: keeper_request_def logged_def split: option.split)

lemma keeper_request_logE:
  assumes "keeper_request (logged x) m p b (l, h) = (r, l', h')"
  obtains e where "r = Inl e" "l' = l @ [(m, p, None)]" | a where "r = Inr a" "l' = l @ [(m, p, Some a)]"
  using keeper_request_logged [of x m p b l h] assms by (auto split: option.splits)

lemma logged_sel [simp]:
  "kx_password (logged x) = kx_password x" "kx_loginBody (logged x) = kx_loginBody x"
  by (simp_all add: logged_def)

lemma authenticatedRequest_patches:
  assumes "authenticatedRequest (logged x) ''GET'' path body (l, h) = (r, l', h')"
  shows "patches l' = patches l"
  using assms unfolding authenticatedRequest_def
  by (auto split: prod.splits sum.splits if_splits elim!: keeper_request_logE)

lemma get_body_patches:
  assumes "get_body (logged x) path (l, h) = (r, l', h')"
  shows "patches l' = patches l"
  using assms unfolding get_body_def
  by (auto split: prod.splits sum.splits if_splits dest: authenticatedRequest_patches)

lemma fetchAuthNames_patches:
  assumes "fetchAuthNames (logged x) decode (l, h) = (r, l', h')"
  shows "patches l' = patches l"
  using assms unfolding fetchAuthNames_def
  by (auto split: prod.splits sum.splits dest: get_body_patches)

text \<open>The patches of one rename: one, or two with a 401 before the last.\<close>

definition patch_run :: "string \<Rightarrow> exchange list \<Rightarrow> bool" where
  "patch_run i ps \<longleftrightarrow>
     (case ps of
        [(m, p, a)] \<Rightarrow> p = ''/api/v1/usage/identities/'' @ i
      | [(m, p, Some a), (m', p', a')] \<Rightarrow>
          ka_Status a = 401 \<and> p = ''/api/v1/usage/identities/'' @ i \<and> p' = ''/api/v1/usage/identities/'' @ i
      | _ \<Rightarrow> False)"

lemma patchAuthName_patches:
  assumes "patchAuthName (logged x) i body (l, h) = (r, l', h')"
  shows "\<exists>ps. patches l' = patches l @ ps \<and> patch_run i ps \<and>
    (case r of
       Inl (status, e) \<Rightarrow> (case snd (snd (last ps)) of None \<Rightarrow> status = ''unknown'' | Some a \<Rightarrow> ka_Status a = 401 \<and> status = ''unavailable'')
     | Inr a \<Rightarrow> snd (snd (last ps)) = Some a)"
  using assms unfolding patchAuthName_def Let_def
  by (auto simp: patch_run_def split: prod.splits sum.splits if_splits elim!: keeper_request_logE)


definition renamed :: "exchange list \<Rightarrow> nameUpdate \<Rightarrow> keeperAuthName option \<Rightarrow> publication \<Rightarrow> bool" where
  "renamed ps u before pub \<longleftrightarrow>
     (case (before, nu_Item u) of
        (Some b, Some v) \<Rightarrow> nu_Status u = ''ready'' \<and> patch_run (an_IdentityID b) ps \<and>
          map_option ka_Status (snd (snd (last ps))) = Some 200 \<and>
          an_IdentityID v = an_IdentityID b \<and> an_AuthIndex v = an_AuthIndex b \<and> pub \<notin> {None, Some None}
      | (None, None) \<Rightarrow> nu_Status u \<noteq> ''ready'' \<and> pub = (if ps = [] then None else Some None)
      | _ \<Rightarrow> False)"

lemma patch_answer_renamed:
  assumes "patch_answer x C authIndex before items h a = ((u, b), pub)"
    and "patch_run (an_IdentityID before) ps" and "snd (snd (last ps)) = Some a" and "an_AuthIndex before = authIndex"
  shows "renamed ps u b pub"
proof -
  have "ps \<noteq> []" using assms(2) by (auto simp: patch_run_def)
  with assms show ?thesis
    unfolding patch_answer_def renamed_def
    by (auto simp: name_error_def split: if_splits sum.splits list.splits)
qed

lemma updateKeeperAuthName_cases:
  assumes "updateKeeperAuthName (logged x) C configured raw ([], h) = (((u, before), pub), (l, h'))"
  obtains (stopped) "before = None" "nu_Item u = None" "nu_Status u \<noteq> ''ready''" "pub = None" "patches l = []"
  | (sent) items b l1 h1 payload r where
      "patches l1 = []" "patchAuthName (logged x) (an_IdentityID b) payload (l1, h1) = (r, l, h')"
      "(case r of
         Inl (status, e) \<Rightarrow> (name_error status (kf_Code e), Some None)
       | Inr a \<Rightarrow> patch_answer (logged x) C (an_AuthIndex b) b items (l, h') a) = ((u, before), pub)"
proof -
  obtain r l1 h1 where fetch: "fetchAuthNames (logged x) (nc_rows C) ([], h) = (r, l1, h1)" by (metis prod_cases3)
  then have p: "patches l1 = []" by (auto dest: fetchAuthNames_patches)
  show ?thesis
  proof (cases "\<exists>items b i payload. r = Inr items \<and> find (\<lambda>v. an_AuthIndex v = i) items = Some b \<and>
      (case patchAuthName (logged x) (an_IdentityID b) payload (l1, h1) of
         (Inl (status, e), h2) \<Rightarrow> ((name_error status (kf_Code e), Some None), h2)
       | (Inr a, h2) \<Rightarrow> (patch_answer (logged x) C i b items h2 a, h2)) = (((u, before), pub), (l, h'))")
    case True
    then obtain items b i payload where *: "find (\<lambda>v. an_AuthIndex v = i) items = Some b"
      "(case patchAuthName (logged x) (an_IdentityID b) payload (l1, h1) of
         (Inl (status, e), h2) \<Rightarrow> ((name_error status (kf_Code e), Some None), h2)
       | (Inr a, h2) \<Rightarrow> (patch_answer (logged x) C i b items h2 a, h2)) = (((u, before), pub), (l, h'))" by blast
    from *(1) have "an_AuthIndex b = i" by (auto simp: find_Some_iff)
    with *(2) p show ?thesis
      by (cases "patchAuthName (logged x) (an_IdentityID b) payload (l1, h1)") (auto split: sum.splits intro!: sent)
  next
    case False
    have "before = None \<and> nu_Item u = None \<and> nu_Status u \<noteq> ''ready'' \<and> pub = None \<and> (l = [] \<or> l = l1)"
      using assms False fetch unfolding updateKeeperAuthName_def Let_def
      by (auto simp: name_error_def split: option.splits sum.splits if_splits)
    with p stopped show ?thesis by auto
  qed
qed


text \<open>C28. A rename changes the keeper at most once on purpose.  It sends no patch, and then nothing is published, or
  one patch, or a second one only after the first was answered 401; all of them go to the identity that
  was looked up.  A patch without an answer is never repeated and ends as \<open>unknown\<close>, and \<open>ready\<close> is
  reported only for a 200 whose body is the renamed identity; otherwise the cached names are forgotten.\<close>

theorem updateKeeperAuthName_patches:
  assumes "updateKeeperAuthName (logged x) C configured raw ([], h) = (((u, before), pub), (l, h'))"
  shows "renamed (patches l) u before pub \<and>
    (patches l = [] \<or> (\<exists>i. patch_run i (patches l))) \<and>
    (patches l \<noteq> [] \<and> snd (snd (last (patches l))) = None \<longrightarrow> nu_Status u = ''unknown'')"
  using assms
proof (cases rule: updateKeeperAuthName_cases)
  case stopped
  then show ?thesis by (simp add: renamed_def)
next
  case (sent items b l1 h1 payload r)
  from patchAuthName_patches [OF sent(2)] sent(1) have run: "patch_run (an_IdentityID b) (patches l)"
    and ends: "case r of
       Inl (status, e) \<Rightarrow> (case snd (snd (last (patches l))) of None \<Rightarrow> status = ''unknown'' | Some a \<Rightarrow> ka_Status a = 401 \<and> status = ''unavailable'')
     | Inr a \<Rightarrow> snd (snd (last (patches l))) = Some a" by auto
  from run have ne: "patches l \<noteq> []" by (auto simp: patch_run_def)
  show ?thesis
  proof (cases r)
    case (Inl f)
    then show ?thesis using sent(3) ends run ne
      by (cases f) (auto simp: name_error_def renamed_def split: option.splits)
  next
    case (Inr a)
    then show ?thesis using sent(3) ends run patch_answer_renamed [of "logged x" C "an_AuthIndex b" b items "(l, h')" a u before pub "patches l"]
      by auto
  qed
qed


definition script_keeper :: "keeperAnswer option list keeperEnv" where
  "script_keeper =
     \<lparr>kx_do = (\<lambda>m p b as. case as of [] \<Rightarrow> (None, []) | a # as \<Rightarrow> (a, as)),
      kx_expired = (\<lambda>_. False), kx_password = ''p'', kx_loginBody = (\<lambda>_. []), kx_until = (\<lambda>_. None)\<rparr>"

definition stub_answer :: "int \<Rightarrow> keeperAnswer option" where
  "stub_answer status = Some \<lparr>ka_Status = status, ka_RetryAfter = [], ka_Body = Some []\<rparr>"

definition sample_name_codec :: nameCodec where
  "sample_name_codec = \<lparr>nc_rows = (\<lambda>_. Some [sample_row]), nc_input = (\<lambda>_. Some (''a'', Some ''y'')), nc_payload = (\<lambda>_. [])\<rparr>"

definition sample_name :: keeperAuthName where
  "sample_name = \<lparr>an_IdentityID = ''7'', an_AuthIndex = ''a'', an_Alias = ''x'', an_DisplayName = ''X''\<rparr>"

lemma sample_parse: "parseKeeperAuthNames (\<lambda>_. Some [sample_row]) raw = Inr [sample_name]"
  by (simp add: parseKeeperAuthNames_def read_names.simps(2) read_name_def sample_row_def sample_name_def canonical_id_def go_simps)

lemma sample_fetch:
  "fetchAuthNames (logged script_keeper) (\<lambda>_. Some [sample_row]) ([], stub_answer 200 # as) =
     (Inr [sample_name], [(''GET'', ''/api/v1/usage/identities'', stub_answer 200)], as)"
  by (simp add: sample_parse fetchAuthNames_def get_body_def authenticatedRequest_def keeper_request_def logged_def
      script_keeper_def stub_answer_def readKeeperBody_def maxBody_def)

lemma sample_patch:
  "patchAuthName (logged script_keeper) ''7'' [] (l, [stub_answer 401, stub_answer 204, stub_answer 200]) =
     (Inr (the (stub_answer 200)), l @ [(''PATCH'', ''/api/v1/usage/identities/7'', stub_answer 401), (''POST'', loginPath, stub_answer 204),
        (''PATCH'', ''/api/v1/usage/identities/7'', stub_answer 200)], [])"
  by (simp add: patchAuthName_def Let_def keeper_request_def logged_def script_keeper_def stub_answer_def)

lemma sample_expired: "kx_expired (logged script_keeper) h = False"
  by (cases h) (simp add: logged_def script_keeper_def)

lemma sample_input: "validKeeperName (trim_space ''y'')" "trim_space ''a'' \<noteq> []" "an_IdentityID sample_name = ''7''"
    "an_AuthIndex sample_name = ''a''"
  by (simp_all add: validKeeperName_def forbidden_rune_def sample_name_def go_simps)

lemma sample_rename:
  "\<exists>u before pub l h'. updateKeeperAuthName (logged script_keeper) sample_name_codec True []
     ([], [stub_answer 200, stub_answer 401, stub_answer 204, stub_answer 200]) = (((u, before), pub), (l, h')) \<and> length (patches l) = 2"
  by (simp add: updateKeeperAuthName_def sample_name_codec_def sample_fetch sample_patch sample_input sample_expired
        prod_eq_iff)

theorem updateKeeperAuthName_patches_witness:
  "\<exists>u before pub l h'. updateKeeperAuthName (logged script_keeper) sample_name_codec True []
     ([], [stub_answer 200, stub_answer 401, stub_answer 204, stub_answer 200]) = (((u, before), pub), (l, h')) \<and> renamed (patches l) u before pub \<and>
     length (patches l) = 2"
  using sample_rename updateKeeperAuthName_patches [of script_keeper sample_name_codec True "[]" "[stub_answer 200, stub_answer 401, stub_answer 204, stub_answer 200]"]
  by blast

end
