(* ===== verification/Single_Flight.thy ===== *)
theory Single_Flight
  imports Prelude
begin

text \<open>
  The interface of a service that lets one request out at a time: events that set a request off, events
  that land it, and events that do neither.  Along any run the requests set off are the ones landed and
  the one still out, so between two departures there is a landing.  \<open>Keeper_Cache\<close> and \<open>Members\<close>
  interpret it on the caches of the program.
\<close>

locale single_flight =
  fixes nxt :: "'e \<Rightarrow> 's \<Rightarrow> 's option" and sets_off :: "'e \<Rightarrow> 's \<Rightarrow> bool" and lands :: "'e \<Rightarrow> bool" and flying :: "'s \<Rightarrow> bool"
  assumes departs: "nxt e s = Some s' \<Longrightarrow> sets_off e s \<Longrightarrow> \<not> flying s \<and> flying s' \<and> \<not> lands e"
    and arrives: "nxt e s = Some s' \<Longrightarrow> lands e \<Longrightarrow> flying s \<and> \<not> flying s'"
    and others: "nxt e s = Some s' \<Longrightarrow> \<not> sets_off e s \<Longrightarrow> \<not> lands e \<Longrightarrow> flying s' = flying s"
begin

fun run :: "'e list \<Rightarrow> 's \<Rightarrow> 's option" where
  "run [] s = Some s"
| "run (e # es) s = (case nxt e s of None \<Rightarrow> None | Some s \<Rightarrow> run es s)"

fun departures :: "'e list \<Rightarrow> 's \<Rightarrow> nat" where
  "departures [] s = 0"
| "departures (e # es) s = (if sets_off e s then 1 else 0) + (case nxt e s of None \<Rightarrow> 0 | Some s \<Rightarrow> departures es s)"

lemma run_append: "run (es @ es') s = (case run es s of None \<Rightarrow> None | Some s \<Rightarrow> run es' s)"
  by (induction es arbitrary: s) (auto split: option.split)

lemma run_snoc: "run (es @ [e]) s = (case run es s of None \<Rightarrow> None | Some s \<Rightarrow> nxt e s)"
  by (simp add: run_append split: option.split)

lemma run_invariant:
  assumes "\<And>e s s'. e \<in> set es \<Longrightarrow> P s \<Longrightarrow> nxt e s = Some s' \<Longrightarrow> P s'" and "P s" and "run es s = Some s'"
  shows "P s'"
  using assms
proof (induction es arbitrary: s)
  case (Cons e es)
  from Cons.prems(3) obtain s1 where s1: "nxt e s = Some s1" "run es s1 = Some s'" by (auto split: option.splits)
  have "P s1" using Cons.prems(1) [of e s s1] Cons.prems(2) s1(1) by simp
  have "P a'" if "e' \<in> set es" "P a" "nxt e' a = Some a'" for e' a a'
    using Cons.prems(1) [of e' a a'] that by simp
  from Cons.IH [OF this \<open>P s1\<close> s1(2)] show ?case .
qed simp

lemma balance:
  assumes "run es s = Some s'"
  shows "departures es s + of_bool (flying s) = length (filter lands es) + of_bool (flying s')"
  using assms
proof (induction es arbitrary: s)
  case (Cons e es)
  from Cons.prems obtain s1 where s1: "nxt e s = Some s1" "run es s1 = Some s'" by (auto split: option.splits)
  note IH = Cons.IH [OF s1(2)]
  consider (off) "sets_off e s" | (down) "lands e" "\<not> sets_off e s" | (other) "\<not> sets_off e s" "\<not> lands e" by blast
  then show ?case
  proof cases
    case off
    with departs [OF s1(1)] IH s1(1) show ?thesis by simp
  next
    case down
    with arrives [OF s1(1)] IH s1(1) show ?thesis by simp
  next
    case other
    with others [OF s1(1)] IH s1(1) show ?thesis by simp
  qed
qed simp

text \<open>At most one request is out, and one that lands was set off.\<close>

lemma one_out:
  assumes "\<not> flying s" and "run es s = Some s'"
  shows "departures es s = length (filter lands es) + of_bool (flying s')"
  using balance [OF assms(2)] assms(1) by simp

lemma two_departures:
  assumes "run (e # es @ [e']) s = Some s'" and "sets_off e s" and "sets_off e' (the (run (e # es) s))"
  shows "list_ex lands es"
proof (rule ccontr)
  assume none: "\<not> list_ex lands es"
  from assms(1) obtain s1 where s1: "nxt e s = Some s1" "run (es @ [e']) s1 = Some s'" by (auto split: option.splits)
  from s1(2) obtain s2 where s2: "run es s1 = Some s2" "nxt e' s2 = Some s'"
    by (auto simp: run_snoc split: option.splits)
  have "flying s1" using departs [OF s1(1) assms(2)] by simp
  moreover have "filter lands es = []" using none by (simp add: filter_empty_conv list_ex_iff)
  ultimately have "flying s2" using balance [OF s2(1)] by (cases "flying s2") auto
  moreover have "the (run (e # es) s) = s2" using s1(1) s2(1) by simp
  ultimately show False using departs [OF s2(2)] assms(3) by simp
qed

end

end
