(* ===== verification/Keeper_Cache.thy ===== *)
theory Keeper_Cache
  imports Keeper_Client Single_Flight
begin

text \<open>
  The caches in front of the usage keeper and the platform directories (\<open>keeper_aliases.go\<close>,
  \<open>keeper_auth_names.go\<close>, \<open>notification_members.go\<close>): one fetch in flight, a minute of validity, a cooldown
  after a refusal, and renames that overtake a fetch.  A call of \<open>get\<close> is cut at the mutex: \<open>enter\<close> is its
  first critical section, \<open>finish\<close> the one after the fetch, so that a list of events is an interleaving of
  calls.  The registries that choose the service for a configuration are at the end.
\<close>

section \<open>Responses\<close>

record 'i cachedResponse =
  cr_Status :: string
  cr_Items :: "'i list"
  cr_FetchedAt :: string
  cr_ErrorCode :: string
  cr_RetryAfterSeconds :: int

definition unavailableResponse :: "string \<Rightarrow> 'i cachedResponse" where
  "unavailableResponse code =
     \<lparr>cr_Status = ''unavailable'', cr_Items = [], cr_FetchedAt = [], cr_ErrorCode = code, cr_RetryAfterSeconds = 0\<rparr>"

text \<open>\<open>time.RFC3339Nano\<close> in UTC: the fraction without its trailing zeros.\<close>

definition format_nano :: "instant \<Rightarrow> string" where
  "format_nano t =
     (let fraction = trim_right_set {CHR ''0''} (pad 9 (t mod second))
      in format_date 0 t @ ''T'' @ format_clock 0 t @ (if fraction = [] then [] else ''.'' @ fraction) @ ''Z'')"

definition readyResponse :: "instant \<Rightarrow> 'i list \<Rightarrow> 'i cachedResponse" where
  "readyResponse now items =
     \<lparr>cr_Status = ''ready'', cr_Items = items, cr_FetchedAt = format_nano now, cr_ErrorCode = [], cr_RetryAfterSeconds = 0\<rparr>"

text \<open>\<open>math.Ceil\<close> of a duration in seconds.\<close>

definition ceil_seconds :: "int \<Rightarrow> int" where
  "ceil_seconds d = - ((- d) div second)"

section \<open>The service\<close>

text \<open>\<open>cs_Flight\<close> holds the generation the leader of the flight noted when it set off.\<close>

record 'i cacheService =
  cs_Cached :: "'i cachedResponse"
  cs_ValidUntil :: instant
  cs_RetryUntil :: instant
  cs_Flight :: "64 word option"
  cs_Generation :: "64 word"

definition newService :: "'i cacheService" where
  "newService =
     \<lparr>cs_Cached = \<lparr>cr_Status = [], cr_Items = [], cr_FetchedAt = [], cr_ErrorCode = [], cr_RetryAfterSeconds = 0\<rparr>,
      cs_ValidUntil = zero_time, cs_RetryUntil = zero_time, cs_Flight = None, cs_Generation = 0\<rparr>"

text \<open>A caller is answered from the cache, waits for the flight, or leads a new one.\<close>

datatype 'i entered = Answered "'i cachedResponse" | Joined | Leads

definition cache_enter :: "bool \<Rightarrow> instant \<Rightarrow> 'i cacheService \<Rightarrow> 'i entered \<times> 'i cacheService" where
  "cache_enter force now s =
     (if now < cs_RetryUntil s then
        (Answered ((cs_Cached s)\<lparr>cr_RetryAfterSeconds := ceil_seconds (cs_RetryUntil s - now)\<rparr>), s)
      else if \<not> force \<and> cr_Status (cs_Cached s) = ''ready'' \<and> now < cs_ValidUntil s then (Answered (cs_Cached s), s)
      else case cs_Flight s of
        Some _ \<Rightarrow> (Joined, s)
      | None \<Rightarrow> (Leads, s\<lparr>cs_Flight := Some (cs_Generation s)\<rparr>))"

definition cooldown :: "keeperFailure \<Rightarrow> int" where
  "cooldown f =
     (if kf_Code f = ''authentication_failed'' then 60 * second
      else if kf_Code f = ''rate_limited'' then kf_RetryAfter f else 0)"

definition fetch_response :: "instant \<Rightarrow> keeperFailure + 'i list \<Rightarrow> 'i cachedResponse" where
  "fetch_response now r =
     (case r of
        Inr items \<Rightarrow> readyResponse now items
      | Inl f \<Rightarrow> (unavailableResponse (kf_Code f))
          \<lparr>cr_RetryAfterSeconds := (if 0 < cooldown f then ceil_seconds (cooldown f) else 0)\<rparr>)"

definition cache_store :: "instant \<Rightarrow> keeperFailure + 'i list \<Rightarrow> 'i cacheService \<Rightarrow> 'i cacheService" where
  "cache_store now r s =
     s\<lparr>cs_Cached := fetch_response now r,
       cs_ValidUntil := (case r of Inr _ \<Rightarrow> now + 60 * second | Inl _ \<Rightarrow> zero_time),
       cs_RetryUntil := (case r of Inr _ \<Rightarrow> zero_time | Inl f \<Rightarrow> if 0 < cooldown f then now + cooldown f else zero_time),
       cs_Flight := None\<rparr>"

text \<open>The names service drops what a fetch brought when a rename was published meanwhile.\<close>

definition names_finish :: "instant \<Rightarrow> keeperFailure + 'i list \<Rightarrow> 'i cacheService \<Rightarrow> 'i cachedResponse \<times> 'i cacheService" where
  "names_finish now r s =
     (if cs_Flight s \<noteq> Some (cs_Generation s) then (cs_Cached s, s\<lparr>cs_Flight := None\<rparr>)
      else (fetch_response now r, cache_store now r s))"

definition publishUpdate :: "instant \<Rightarrow> 'i list option \<Rightarrow> 'i cacheService \<Rightarrow> 'i cacheService" where
  "publishUpdate now items s =
     s\<lparr>cs_Generation := cs_Generation s + 1, cs_RetryUntil := zero_time,
       cs_ValidUntil := (case items of None \<Rightarrow> zero_time | Some _ \<Rightarrow> now + 60 * second),
       cs_Cached := (case items of None \<Rightarrow> unavailableResponse ''refresh_required'' | Some items \<Rightarrow> readyResponse now items)\<rparr>"

text \<open>The services of the aliases and of the members have no generation.\<close>

definition aliases_enter :: "bool \<Rightarrow> instant \<Rightarrow> keeperAlias cacheService \<Rightarrow> keeperAlias entered \<times> keeperAlias cacheService" where
  "aliases_enter = cache_enter"

definition aliases_finish ::
    "instant \<Rightarrow> keeperFailure + keeperAlias list \<Rightarrow> keeperAlias cacheService \<Rightarrow> keeperAlias cachedResponse \<times> keeperAlias cacheService" where
  "aliases_finish now r s = (fetch_response now r, cache_store now r s)"

section \<open>Interleavings\<close>

datatype 'i cacheEvent = Enter bool | Finish "keeperFailure + 'i list" | Publish "'i list option"

fun names_next :: "instant \<times> 'i cacheEvent \<Rightarrow> 'i cacheService \<Rightarrow> 'i cacheService option" where
  "names_next (now, Enter force) s = Some (snd (cache_enter force now s))"
| "names_next (now, Finish r) s = (if cs_Flight s = None then None else Some (snd (names_finish now r s)))"
| "names_next (now, Publish items) s = Some (publishUpdate now items s)"

fun aliases_next :: "instant \<times> keeperAlias cacheEvent \<Rightarrow> keeperAlias cacheService \<Rightarrow> keeperAlias cacheService option" where
  "aliases_next (now, Enter force) s = Some (snd (aliases_enter force now s))"
| "aliases_next (now, Finish r) s = (if cs_Flight s = None then None else Some (snd (aliases_finish now r s)))"
| "aliases_next (now, Publish items) s = None"

definition sets_off :: "instant \<times> 'i cacheEvent \<Rightarrow> 'i cacheService \<Rightarrow> bool" where
  "sets_off e s = (case e of (now, Enter force) \<Rightarrow> fst (cache_enter force now s) = Leads | _ \<Rightarrow> False)"

definition lands :: "instant \<times> 'i cacheEvent \<Rightarrow> bool" where
  "lands e = (case e of (_, Finish _) \<Rightarrow> True | _ \<Rightarrow> False)"

definition flying :: "'i cacheService \<Rightarrow> bool" where
  "flying s \<longleftrightarrow> cs_Flight s \<noteq> None"


lemma cache_enter_flight:
  "fst (cache_enter force now s) = Leads \<Longrightarrow> cs_Flight s = None \<and> cs_Flight (snd (cache_enter force now s)) = Some (cs_Generation s)"
  "fst (cache_enter force now s) \<noteq> Leads \<Longrightarrow> snd (cache_enter force now s) = s"
  by (auto simp: cache_enter_def split: if_splits option.splits)

lemma cs_Flight_names_finish [simp]: "cs_Flight (snd (names_finish now r s)) = None"
  by (simp add: names_finish_def cache_store_def)

lemma cs_Flight_publishUpdate [simp]: "cs_Flight (publishUpdate now items s) = cs_Flight s"
  by (simp add: publishUpdate_def)

interpretation names: single_flight names_next sets_off lands flying
proof
  fix e :: "instant \<times> 'a cacheEvent" and s s' :: "'a cacheService"
  assume n: "names_next e s = Some s'"
  obtain now ev where e: "e = (now, ev)" by (cases e)
  show "\<not> flying s \<and> flying s' \<and> \<not> lands e" if "sets_off e s"
    using that n e by (cases ev) (auto simp: sets_off_def lands_def flying_def dest: cache_enter_flight(1))
  show "flying s \<and> \<not> flying s'" if "lands e"
    using that n e by (cases ev) (auto simp: lands_def flying_def split: if_splits)
  show "flying s' = flying s" if "\<not> sets_off e s" "\<not> lands e"
    using that n e by (cases ev) (auto simp: sets_off_def lands_def flying_def dest: cache_enter_flight(2))
qed

interpretation aliases: single_flight aliases_next sets_off lands flying
proof
  fix e :: "instant \<times> keeperAlias cacheEvent" and s s' :: "keeperAlias cacheService"
  assume n: "aliases_next e s = Some s'"
  obtain now ev where e: "e = (now, ev)" by (cases e)
  show "\<not> flying s \<and> flying s' \<and> \<not> lands e" if "sets_off e s"
    using that n e by (cases ev) (auto simp: sets_off_def lands_def flying_def aliases_enter_def dest: cache_enter_flight(1))
  show "flying s \<and> \<not> flying s'" if "lands e"
    using that n e by (cases ev) (auto simp: lands_def flying_def aliases_finish_def cache_store_def split: if_splits)
  show "flying s' = flying s" if "\<not> sets_off e s" "\<not> lands e"
    using that n e by (cases ev) (auto simp: sets_off_def lands_def flying_def aliases_enter_def dest: cache_enter_flight(2))
qed


section \<open>What a rename leaves behind\<close>

text \<open>The history of a run, with the fetches set off, and the word it leaves: the last publication, or the
  last fetch landed since that set off after it.\<close>

fun history :: "(instant \<times> 'i cacheEvent) list \<Rightarrow> 'i cacheService \<Rightarrow> ((instant \<times> 'i cacheEvent) \<times> bool) list" where
  "history [] s = []"
| "history (e # es) s = (e, sets_off e s) # (case names_next e s of None \<Rightarrow> [] | Some s \<Rightarrow> history es s)"

fun last_word :: "'i cachedResponse \<Rightarrow> bool \<Rightarrow> ((instant \<times> 'i cacheEvent) \<times> bool) list \<Rightarrow> 'i cachedResponse" where
  "last_word known current [] = known"
| "last_word known current (((now, Publish items), off) # h) =
     last_word (case items of None \<Rightarrow> unavailableResponse ''refresh_required'' | Some items \<Rightarrow> readyResponse now items) False h"
| "last_word known current (((now, Finish r), off) # h) =
     last_word (if current then fetch_response now r else known) current h"
| "last_word known current (((now, Enter force), off) # h) = last_word known (off \<or> current) h"

definition publications :: "(instant \<times> 'i cacheEvent) list \<Rightarrow> nat" where
  "publications es = length (filter (\<lambda>(now, e). case e of Publish _ \<Rightarrow> True | _ \<Rightarrow> False) es)"

lemma publications_simps [simp]:
  "publications [] = 0"
  "publications ((now, Enter force) # es) = publications es"
  "publications ((now, Finish r) # es) = publications es"
  "publications ((now, Publish items) # es) = Suc (publications es)"
  by (simp_all add: publications_def)

lemma of_nat_generation: "m < 2 ^ 64 \<Longrightarrow> n < 2 ^ 64 \<Longrightarrow> (of_nat m :: 64 word) = of_nat n \<longleftrightarrow> m = n"
  by (simp add: word_of_nat_eq_iff take_bit_nat_eq_self)

text \<open>The flight of a run of \<open>n\<close> publications set off at the \<open>m\<close>-th.\<close>

definition flight_at :: "nat \<Rightarrow> bool \<Rightarrow> 'i cacheService \<Rightarrow> bool" where
  "flight_at n current s \<longleftrightarrow> cs_Generation s = of_nat n \<and>
     (\<forall>g. cs_Flight s = Some g \<longrightarrow> (\<exists>m\<le>n. g = of_nat m \<and> (current \<longleftrightarrow> m = n)))"

lemma last_word_run:
  assumes "names.run es s = Some s'" and "flight_at n current s" and "n + publications es < 2 ^ 64"
  shows "cs_Cached s' = last_word (cs_Cached s) current (history es s)"
  using assms
proof (induction es arbitrary: s n current)
  case (Cons e es)
  from Cons.prems(1) obtain s1 where s1: "names_next e s = Some s1" "names.run es s1 = Some s'" by (auto split: option.splits)
  obtain now ev where e: "e = (now, ev)" by (cases e)
  show ?case
  proof (cases ev)
    case (Enter force)
    with s1(1) e have c: "s1 = snd (cache_enter force now s)" "sets_off e s \<longleftrightarrow> fst (cache_enter force now s) = Leads"
      by (auto simp: sets_off_def)
    have "cs_Cached s1 = cs_Cached s" "cs_Generation s1 = cs_Generation s"
      by (auto simp: c(1) cache_enter_def split: option.split)
    moreover have "flight_at n (sets_off e s \<or> current) s1"
      using Cons.prems(2) cache_enter_flight [of force now s] calculation(2) unfolding flight_at_def c
      by (cases "fst (cache_enter force now s) = Leads") (auto 0 3)
    moreover have "n + publications es < 2 ^ 64" using Cons.prems(3) e Enter by simp
    ultimately show ?thesis using Cons.IH [OF s1(2)] s1(1) e Enter by simp
  next
    case (Finish r)
    with s1(1) e obtain g where g: "cs_Flight s = Some g" "s1 = snd (names_finish now r s)" by (auto split: if_splits)
    then obtain m where m: "m \<le> n" "g = of_nat m" "current \<longleftrightarrow> m = n" using Cons.prems(2) by (auto simp: flight_at_def)
    have b: "n + publications es < 2 ^ 64" using Cons.prems(3) e Finish by simp
    then have "g = cs_Generation s \<longleftrightarrow> current"
      using m Cons.prems(2) of_nat_generation [of m n] by (simp add: flight_at_def)
    then have "cs_Cached s1 = (if current then fetch_response now r else cs_Cached s)"
      by (simp add: g names_finish_def cache_store_def)
    moreover have "flight_at n current s1"
      using Cons.prems(2) by (auto simp: flight_at_def g names_finish_def cache_store_def)
    ultimately show ?thesis using Cons.IH [OF s1(2) _ b] s1(1) e Finish by simp
  next
    case (Publish items)
    with s1(1) e have p: "s1 = publishUpdate now items s" by simp
    have "flight_at (Suc n) False s1" unfolding flight_at_def
    proof (intro conjI allI impI)
      show "cs_Generation s1 = of_nat (Suc n)" using Cons.prems(2) by (simp add: flight_at_def p publishUpdate_def)
      fix g assume "cs_Flight s1 = Some g"
      with Cons.prems(2) obtain m where "m \<le> n" "g = of_nat m" by (auto simp: flight_at_def p)
      then show "\<exists>m\<le>Suc n. g = of_nat m \<and> (False \<longleftrightarrow> m = Suc n)" by (intro exI [of _ m]) auto
    qed
    moreover have "Suc n + publications es < 2 ^ 64" using Cons.prems(3) e Publish by simp
    ultimately show ?thesis using Cons.IH [OF s1(2)] s1(1) e Publish p by (simp add: publishUpdate_def)
  qed
qed simp

text \<open>C19. However calls interleave, the names service holds the last publication of a rename, or what the last
  fetch since brought that set off after it; a fetch that was under way when the rename was sent never
  overwrites its outcome.  The generation is 64 bits wide, so the run has fewer than \<open>2 ^ 64\<close> renames.\<close>

theorem names_last_word:
  assumes "names.run es newService = Some s" and "publications es < 2 ^ 64"
  shows "cs_Cached s = last_word (cs_Cached newService) False (history es newService)"
  using last_word_run [OF assms(1), of 0 False] assms(2) by (simp add: flight_at_def newService_def)

theorem names_last_word_witness:
  "map_option (cr_Items \<circ> cs_Cached)
     (names.run [(0, Enter False), (1, Publish (Some [True])), (2, Finish (Inr [False]))] newService) = Some [True]"
proof -
  let ?es = "[(0, Enter False), (1, Publish (Some [True])), (2, Finish (Inr [False]))] :: (instant \<times> bool cacheEvent) list"
  obtain s where s: "names.run ?es newService = Some s"
    by (simp add: cache_enter_def newService_def publishUpdate_def zero_time_def)
  have "cs_Cached s = readyResponse 1 [True]"
    using names_last_word [OF s]
    by (simp add: sets_off_def cache_enter_def newService_def publishUpdate_def zero_time_def)
  with s show ?thesis by (simp add: readyResponse_def)
qed


section \<open>What callers are answered\<close>

text \<open>Where what is cached comes from: the names from a fetch or a publication, a cooldown from a refused fetch.\<close>

definition brought :: "(instant \<times> 'i cacheEvent) set \<Rightarrow> instant \<Rightarrow> 'i list \<Rightarrow> bool" where
  "brought E t items \<longleftrightarrow> (t, Finish (Inr items)) \<in> E \<or> (t, Publish (Some items)) \<in> E"

definition cache_from :: "(instant \<times> 'i cacheEvent) set \<Rightarrow> 'i cacheService \<Rightarrow> bool" where
  "cache_from E s \<longleftrightarrow>
     (cs_RetryUntil s \<noteq> zero_time \<longrightarrow>
        (\<exists>t f. (t, Finish (Inl f)) \<in> E \<and> 0 < cooldown f \<and> cs_Cached s = fetch_response t (Inl f) \<and> cs_RetryUntil s = t + cooldown f)) \<and>
     (cs_ValidUntil s \<noteq> zero_time \<longrightarrow>
        (\<exists>t items. brought E t items \<and> cs_Cached s = readyResponse t items \<and> cs_ValidUntil s = t + 60 * second))"

lemma cache_from_new: "cache_from {} newService"
  by (simp add: cache_from_def newService_def)

lemma cache_from_mono: "cache_from E s \<Longrightarrow> E \<subseteq> E' \<Longrightarrow> cache_from E' s"
  unfolding cache_from_def brought_def by blast

lemma cache_from_same:
  "cs_Cached s' = cs_Cached s \<Longrightarrow> cs_RetryUntil s' = cs_RetryUntil s \<Longrightarrow> cs_ValidUntil s' = cs_ValidUntil s \<Longrightarrow>
    cache_from E s \<Longrightarrow> cache_from E s'"
  by (simp add: cache_from_def)

lemma cache_from_store: "cache_from (insert (now, Finish r) E) (cache_store now r s)"
  by (auto simp: cache_from_def cache_store_def fetch_response_def brought_def split: sum.splits)

lemma cache_from_publish: "cache_from (insert (now, Publish items) E) (publishUpdate now items s)"
  by (auto simp: cache_from_def publishUpdate_def brought_def split: option.splits)

lemma cache_from_next:
  assumes "cache_from E s" and "names_next e s = Some s'"
  shows "cache_from (insert e E) s'"
proof -
  obtain now ev where e: "e = (now, ev)" by (cases e)
  have old: "cache_from (insert e E) s" using assms(1) by (rule cache_from_mono) blast
  show ?thesis
  proof (cases ev)
    case (Enter force)
    have "cache_from (insert e E) (snd (cache_enter force now s))"
      by (rule cache_from_same [OF _ _ _ old]) (auto simp: cache_enter_def split: option.split)
    with assms(2) e Enter show ?thesis by simp
  next
    case (Finish r)
    have "s' = snd (names_finish now r s)" using assms(2) e Finish by (auto split: if_splits)
    then show ?thesis using cache_from_store [of now r E s] cache_from_same [OF _ _ _ old, of s'] e Finish
      by (cases "cs_Flight s = Some (cs_Generation s)") (simp_all add: names_finish_def)
  qed (use assms(2) e cache_from_publish in auto)
qed

lemma cache_from_run: "names.run es s = Some s' \<Longrightarrow> cache_from E s \<Longrightarrow> cache_from (E \<union> set es) s'"
proof (induction es arbitrary: s E)
  case (Cons e es)
  then obtain s1 where "names_next e s = Some s1" "names.run es s1 = Some s'" by (auto split: option.splits)
  with Cons.IH [OF this(2) cache_from_next [OF Cons.prems(2) this(1)]] show ?case by simp
qed simp

lemma cooldown_codes: "0 < cooldown f \<Longrightarrow> kf_Code f = ''authentication_failed'' \<or> kf_Code f = ''rate_limited''"
  by (auto simp: cooldown_def split: if_splits)

text \<open>C20. Whatever happened before, a caller gets an answer at once only in two cases: without force, the names that a
  fetch or a publication of the run brought less than a minute ago; or, during the cooldown after a fetch of the
  run that was refused, its refusal with the seconds that are left of this cooldown, rounded up.  Otherwise the
  caller waits for the fetch under way, or leads the only one: the fetches set off are those that landed and
  the one out.\<close>

theorem cache_answers:
  assumes "names.run es newService = Some s" and "zero_time \<le> now"
  shows "(case fst (cache_enter force now s) of
      Answered r \<Rightarrow>
        (\<exists>t items. brought (set es) t items \<and> \<not> force \<and> now < t + 60 * second \<and> r = readyResponse t items) \<or>
        (\<exists>t f. (t, Finish (Inl f)) \<in> set es \<and> now < t + cooldown f \<and>
          (kf_Code f = ''authentication_failed'' \<or> kf_Code f = ''rate_limited'') \<and>
          r = (unavailableResponse (kf_Code f))\<lparr>cr_RetryAfterSeconds := ceil_seconds (t + cooldown f - now)\<rparr>)
    | Joined \<Rightarrow> flying s
    | Leads \<Rightarrow> \<not> flying s \<and> cs_RetryUntil s \<le> now) \<and>
    names.departures es newService = length (filter lands es) + of_bool (flying s)"
proof
  have from_es: "cache_from (set es) s" using cache_from_run [OF assms(1) cache_from_new] by simp
  show "names.departures es newService = length (filter lands es) + of_bool (flying s)"
    by (rule names.one_out [OF _ assms(1)]) (simp add: flying_def newService_def)
  consider (wait) "now < cs_RetryUntil s"
    | (hit) "\<not> now < cs_RetryUntil s" "\<not> force" "cr_Status (cs_Cached s) = ''ready''" "now < cs_ValidUntil s"
    | (miss) "\<not> now < cs_RetryUntil s" "\<not> (\<not> force \<and> cr_Status (cs_Cached s) = ''ready'' \<and> now < cs_ValidUntil s)" by blast
  then show "case fst (cache_enter force now s) of
      Answered r \<Rightarrow>
        (\<exists>t items. brought (set es) t items \<and> \<not> force \<and> now < t + 60 * second \<and> r = readyResponse t items) \<or>
        (\<exists>t f. (t, Finish (Inl f)) \<in> set es \<and> now < t + cooldown f \<and>
          (kf_Code f = ''authentication_failed'' \<or> kf_Code f = ''rate_limited'') \<and>
          r = (unavailableResponse (kf_Code f))\<lparr>cr_RetryAfterSeconds := ceil_seconds (t + cooldown f - now)\<rparr>)
    | Joined \<Rightarrow> flying s
    | Leads \<Rightarrow> \<not> flying s \<and> cs_RetryUntil s \<le> now"
  proof cases
    case wait
    then have "cs_RetryUntil s \<noteq> zero_time" using assms(2) by simp
    then obtain t f where f: "(t, Finish (Inl f)) \<in> set es" "0 < cooldown f" "cs_Cached s = fetch_response t (Inl f)"
      "cs_RetryUntil s = t + cooldown f" using from_es by (auto simp: cache_from_def)
    have "fst (cache_enter force now s) =
        Answered ((unavailableResponse (kf_Code f))\<lparr>cr_RetryAfterSeconds := ceil_seconds (t + cooldown f - now)\<rparr>)"
      using wait f(3,4) by (simp add: cache_enter_def fetch_response_def)
    with f wait cooldown_codes [OF f(2)] show ?thesis by auto
  next
    case hit
    then have "cs_ValidUntil s \<noteq> zero_time" using assms(2) by simp
    then obtain t items where "brought (set es) t items" "cs_Cached s = readyResponse t items" "cs_ValidUntil s = t + 60 * second"
      using from_es unfolding cache_from_def by blast
    moreover have "fst (cache_enter force now s) = Answered (cs_Cached s)" using hit by (simp add: cache_enter_def)
    ultimately show ?thesis using hit(2,4) by auto
  next
    case miss
    then have "cache_enter force now s =
        (case cs_Flight s of Some _ \<Rightarrow> (Joined, s) | None \<Rightarrow> (Leads, s\<lparr>cs_Flight := Some (cs_Generation s)\<rparr>))"
      unfolding cache_enter_def by (simp only: if_False)
    then show ?thesis using miss(1) by (simp add: flying_def split: option.split)
  qed
qed

text \<open>A refusal that asked for two seconds, a nanosecond later.\<close>

theorem cache_answers_witness:
  "case names.run [(0, Enter False), (0, Finish (Inl (KeeperFailure ''rate_limited'' (2 * second))))]
        (newService :: bool cacheService) of
     None \<Rightarrow> False
   | Some s \<Rightarrow> \<not> flying s \<and> (\<exists>r. fst (cache_enter True 1 s) = Answered r \<and> cr_ErrorCode r = ''rate_limited'' \<and> cr_RetryAfterSeconds r = 2)"
proof -
  let ?f = "(KeeperFailure ''rate_limited'' (2 * second))"
  let ?es = "[(0, Enter False), (0, Finish (Inl ?f))] :: (instant \<times> bool cacheEvent) list"
  obtain s where s: "names.run ?es newService = Some s" "\<exists>r. fst (cache_enter True 1 s) = Answered r"
    by (simp add: cache_enter_def newService_def names_finish_def cache_store_def fetch_response_def cooldown_def zero_time_def)
  obtain r where r: "fst (cache_enter True 1 s) = Answered r" using s(2) by blast
  have "\<not> flying s \<and> cr_ErrorCode r = ''rate_limited'' \<and> cr_RetryAfterSeconds r = 2"
    using cache_answers [OF s(1), of 1 True] r
    by (simp add: sets_off_def lands_def cache_enter_def newService_def zero_time_def brought_def cooldown_def unavailableResponse_def
        ceil_seconds_def)
  with s(1) r show ?thesis by simp
qed


section \<open>The service of a configuration\<close>

text \<open>A service is known by the number under which it was made; \<open>sr_service\<close> is the one installed.\<close>

record serviceRegistry =
  sr_url :: string
  sr_passwordEnv :: string
  sr_service :: "nat option"
  sr_made :: nat

text \<open>The selection both \<open>keeperNameServiceForConfig\<close> and \<open>keeperAliasesForConfig\<close> make; \<open>loaded\<close> is the
  configuration in force.\<close>

definition selectService :: "Config \<Rightarrow> Config \<Rightarrow> serviceRegistry \<Rightarrow> (string + nat option) \<times> serviceRegistry" where
  "selectService cfg loaded reg =
     (let baseURL = trim_space (cfg_UsageKeeperURL cfg); passwordEnv = trim_space (cfg_UsageKeeperPasswordEnv cfg)
      in if cfg_UsageKeeperURL cfg \<noteq> cfg_UsageKeeperURL loaded \<or> cfg_UsageKeeperPasswordEnv cfg \<noteq> cfg_UsageKeeperPasswordEnv loaded
         then (Inl ''configuration_error'', reg)
         else if baseURL = [] then (Inr None, reg\<lparr>sr_service := None\<rparr>)
         else if sr_service reg = None \<or> sr_url reg \<noteq> baseURL \<or> sr_passwordEnv reg \<noteq> passwordEnv
         then (Inr (Some (sr_made reg)),
               reg\<lparr>sr_url := baseURL, sr_passwordEnv := passwordEnv, sr_service := Some (sr_made reg), sr_made := Suc (sr_made reg)\<rparr>)
         else (Inr (sr_service reg), reg))"

definition resetKeeperAliases :: "serviceRegistry \<Rightarrow> serviceRegistry" where
  "resetKeeperAliases reg = reg\<lparr>sr_service := None\<rparr>"

definition disabledResponse :: "'i cachedResponse" where
  "disabledResponse = \<lparr>cr_Status = ''disabled'', cr_Items = [], cr_FetchedAt = [], cr_ErrorCode = [], cr_RetryAfterSeconds = 0\<rparr>"

text \<open>What follows the selection: the answer of the service, unless it was replaced meanwhile.\<close>

definition answerForConfig :: "string + nat option \<Rightarrow> 'i cachedResponse \<Rightarrow> serviceRegistry \<Rightarrow> 'i cachedResponse" where
  "answerForConfig selected result reg =
     (case selected of
        Inl code \<Rightarrow> unavailableResponse code
      | Inr None \<Rightarrow> disabledResponse
      | Inr (Some i) \<Rightarrow> if sr_service reg = Some i then result else unavailableResponse ''configuration_error'')"

datatype registryEvent = Selecting Config Config | Resetting

fun registry_next :: "registryEvent \<Rightarrow> serviceRegistry \<Rightarrow> serviceRegistry" where
  "registry_next (Selecting cfg loaded) reg = snd (selectService cfg loaded reg)"
| "registry_next Resetting reg = resetKeeperAliases reg"

text \<open>An event that leaves the service for \<open>url\<close> and \<open>env\<close> in place.\<close>

fun keeps_service :: "string \<Rightarrow> string \<Rightarrow> registryEvent \<Rightarrow> bool" where
  "keeps_service url env (Selecting cfg loaded) \<longleftrightarrow>
     cfg_UsageKeeperURL cfg \<noteq> cfg_UsageKeeperURL loaded \<or> cfg_UsageKeeperPasswordEnv cfg \<noteq> cfg_UsageKeeperPasswordEnv loaded \<or>
     trim_space (cfg_UsageKeeperURL cfg) = url \<and> trim_space (cfg_UsageKeeperPasswordEnv cfg) = env"
| "keeps_service url env Resetting \<longleftrightarrow> False"

definition registry_ok :: "serviceRegistry \<Rightarrow> bool" where
  "registry_ok reg \<longleftrightarrow> (case sr_service reg of None \<Rightarrow> True | Some i \<Rightarrow> i < sr_made reg \<and> sr_url reg \<noteq> [])"

lemma selectService_ok: "registry_ok reg \<Longrightarrow> registry_ok (snd (selectService cfg loaded reg))"
  by (auto simp: registry_ok_def selectService_def Let_def split: option.splits)

lemma registry_next_ok: "registry_ok reg \<Longrightarrow> registry_ok (registry_next e reg)"
  by (cases e) (auto simp: selectService_ok resetKeeperAliases_def, simp add: registry_ok_def)

text \<open>A service once replaced never comes back, and the one in place belongs to its configuration.\<close>

lemma gone_stays:
  "i < sr_made reg \<Longrightarrow> sr_service reg \<noteq> Some i \<Longrightarrow> sr_service (registry_next e reg) \<noteq> Some i \<and> i < sr_made (registry_next e reg)"
  by (cases e) (auto simp: selectService_def Let_def resetKeeperAliases_def)

lemma gone_stays_fold:
  "i < sr_made reg \<Longrightarrow> sr_service reg \<noteq> Some i \<Longrightarrow> sr_service (fold registry_next es reg) \<noteq> Some i"
  by (induction es arbitrary: reg) (use gone_stays in auto)

lemma replaced_step:
  assumes "registry_ok reg" and "sr_service reg = Some i" and "\<not> keeps_service (sr_url reg) (sr_passwordEnv reg) e"
  shows "sr_service (registry_next e reg) \<noteq> Some i"
  using assms by (cases e) (auto simp: selectService_def Let_def resetKeeperAliases_def registry_ok_def)

lemma kept_step:
  assumes "sr_service reg = Some i" and "registry_ok reg" and "keeps_service (sr_url reg) (sr_passwordEnv reg) e"
  shows "registry_next e reg = reg"
  using assms by (cases e) (auto simp: selectService_def Let_def registry_ok_def)

lemma kept_fold:
  assumes "registry_ok reg" and "sr_service reg = Some i"
  shows "sr_service (fold registry_next es reg) = Some i \<longleftrightarrow> list_all (keeps_service (sr_url reg) (sr_passwordEnv reg)) es"
  using assms
proof (induction es)
  case (Cons e es)
  show ?case
  proof (cases "keeps_service (sr_url reg) (sr_passwordEnv reg) e")
    case True
    with kept_step Cons show ?thesis by simp
  next
    case False
    have "i < sr_made reg" using Cons.prems by (simp add: registry_ok_def)
    then have "i < sr_made (registry_next e reg)"
      by (cases e) (auto simp: selectService_def Let_def resetKeeperAliases_def)
    with gone_stays_fold [of i "registry_next e reg" es] replaced_step [OF Cons.prems False] False show ?thesis by simp
  qed
qed simp

text \<open>An answer of a service reaches the caller exactly when, since the selection, the plugin was not
  reset and every selection made was stale or for the same keeper; otherwise the caller is told that
  the configuration is in error, never what an obsolete keeper said.\<close>

theorem answerForConfig_current:
  assumes "registry_ok reg" and "selectService cfg cfg reg = (selected, reg')" and "trim_space (cfg_UsageKeeperURL cfg) \<noteq> []"
  shows "answerForConfig selected result (fold registry_next es reg') =
    (if list_all (keeps_service (trim_space (cfg_UsageKeeperURL cfg)) (trim_space (cfg_UsageKeeperPasswordEnv cfg))) es
     then result else unavailableResponse ''configuration_error'')"
proof -
  from assms(2,3) obtain i where i: "selected = Inr (Some i)" "sr_service reg' = Some i"
    "sr_url reg' = trim_space (cfg_UsageKeeperURL cfg)" "sr_passwordEnv reg' = trim_space (cfg_UsageKeeperPasswordEnv cfg)"
    by (auto simp: selectService_def Let_def split: if_splits)
  have "registry_ok reg'" using selectService_ok [OF assms(1), of cfg cfg] assms(2) by simp
  from kept_fold [OF this i(2), of es] i show ?thesis by (simp add: answerForConfig_def)
qed

definition sample_keeper :: Config where
  "sample_keeper = defaultConfig\<lparr>cfg_UsageKeeperURL := ''u''\<rparr>"

theorem answerForConfig_current_witness:
  "let (selected, reg) = selectService sample_keeper sample_keeper \<lparr>sr_url = [], sr_passwordEnv = [], sr_service = None, sr_made = 0\<rparr>
   in answerForConfig selected disabledResponse (registry_next Resetting reg) = (unavailableResponse ''configuration_error'' :: bool cachedResponse)"
proof -
  let ?reg = "\<lparr>sr_url = [], sr_passwordEnv = [], sr_service = None, sr_made = 0\<rparr>"
  have "trim_space (cfg_UsageKeeperURL sample_keeper) \<noteq> []" by (simp add: sample_keeper_def go_simps)
  moreover have "registry_ok ?reg" by (simp add: registry_ok_def)
  moreover obtain sel reg where s: "selectService sample_keeper sample_keeper ?reg = (sel, reg)" by fastforce
  ultimately show ?thesis using answerForConfig_current [of ?reg sample_keeper sel reg "disabledResponse :: bool cachedResponse" "[Resetting]"]
    by simp
qed

end
