(* ===== verification/Members.thy ===== *)
theory Members
  imports Keeper_Cache Platforms "HOL-Library.Product_Lexorder"
begin

text \<open>
  The member picker (\<open>notification_members_client.go\<close>, \<open>notification_members.go\<close>): the directory walks of
  the three platforms within a budget of requests, the collector of members, and the registry of caches
  by credentials.  DingTalk and WeCom are spoken to over HTTP, a parameter as in \<open>Keeper_Client\<close>; the
  Feishu SDK is third-party code, each of its calls a parameter.  The Feishu departments are read one
  after the other here, where the code has up to four of them under way.
\<close>

section \<open>The collector\<close>

record notificationMember =
  mb_ID :: string
  mb_Name :: string

definition maxMemberRequests :: nat where "maxMemberRequests = 5000"
definition maxMemberCount :: nat where "maxMemberCount = 20000"

text \<open>\<open>spend\<close>: the number of requests so far, \<open>None\<close> past the budget.\<close>

definition spend :: "nat \<Rightarrow> nat option" where
  "spend n = (if maxMemberRequests < n + 1 then None else Some (n + 1))"

definition trimMemberField :: "string \<Rightarrow> string" where
  "trimMemberField v = trim_right_set {CHR '' '', CHR 0x09} (trim_left_set {CHR '' '', CHR 0x09} v)"

record collectMembers =
  co_seen :: "string \<rightharpoonup> string"
  co_rows :: "notificationMember list"
  co_dirty :: bool

definition newCollectMembers :: collectMembers where
  "newCollectMembers = \<lparr>co_seen = Map.empty, co_rows = [], co_dirty = False\<rparr>"

text \<open>\<open>len(c.seen)\<close> is the number of rows, since both grow together.\<close>

definition collect_add :: "string \<Rightarrow> string \<Rightarrow> collectMembers \<Rightarrow> collectMembers" where
  "collect_add i name c =
     (let i = trimMemberField i; name = trimMemberField name
      in if i = [] then c
         else case co_seen c i of
           Some previous \<Rightarrow>
             if previous \<noteq> name \<and> name \<noteq> [] \<and> previous = []
             then c\<lparr>co_seen := (co_seen c)(i \<mapsto> name), co_dirty := True\<rparr> else c
         | None \<Rightarrow>
           if maxMemberCount \<le> length (co_rows c) then c
           else c\<lparr>co_seen := (co_seen c)(i \<mapsto> name), co_rows := co_rows c @ [\<lparr>mb_ID = i, mb_Name = name\<rparr>]\<rparr>)"

definition member_order :: "notificationMember \<Rightarrow> string \<times> string" where
  "member_order m = (mb_Name m, mb_ID m)"

definition collect_sorted :: "collectMembers \<Rightarrow> notificationMember list" where
  "collect_sorted c =
     sort_key member_order
       (if co_dirty c then map (\<lambda>m. m\<lparr>mb_Name := (case co_seen c (mb_ID m) of None \<Rightarrow> [] | Some name \<Rightarrow> name)\<rparr>) (co_rows c)
        else co_rows c)"

definition collect_all :: "(string \<times> string) list \<Rightarrow> collectMembers \<Rightarrow> collectMembers" where
  "collect_all rows c = fold (\<lambda>(i, name). collect_add i name) rows c"

section \<open>One exchange\<close>

record 'h membersEnv =
  my_do :: "string \<Rightarrow> string \<Rightarrow> bytes \<Rightarrow> 'h \<Rightarrow> keeperAnswer option \<times> 'h"
  my_expired :: "'h \<Rightarrow> bool"

definition membersStatusError :: "int \<Rightarrow> string \<Rightarrow> keeperFailure" where
  "membersStatusError status retryAfter =
     (if status = 401 \<or> status = 403 then fail_code ''authentication_failed''
      else if status = 429 then
        KeeperFailure ''rate_limited''
          (case atoi retryAfter of
             Some n \<Rightarrow> if 0 \<le> n \<and> n < 2 ^ 31 then n * second else 60 * second
           | None \<Rightarrow> 60 * second)
      else if 500 \<le> status then fail_code ''connection_failed''
      else fail_code ''invalid_response'')"

definition membersDo ::
    "'h membersEnv \<Rightarrow> string \<Rightarrow> string \<Rightarrow> bytes \<Rightarrow> (bytes \<Rightarrow> 'a option) \<Rightarrow> 'h \<Rightarrow> (keeperFailure + 'a) \<times> 'h" where
  "membersDo x m url body decode h =
     (case my_do x m url body h of
        (None, h) \<Rightarrow> (Inl (fail_code (if my_expired x h then ''timeout'' else ''connection_failed'')), h)
      | (Some a, h) \<Rightarrow>
        if ka_Status a \<noteq> 200 then (Inl (membersStatusError (ka_Status a) (ka_RetryAfter a)), h)
        else (case readKeeperBody (my_expired x h) a of
            Inl e \<Rightarrow> (Inl e, h)
          | Inr raw \<Rightarrow>
            (case decode raw of None \<Rightarrow> (Inl (fail_code ''invalid_response''), h) | Some v \<Rightarrow> (Inr v, h))))"

section \<open>DingTalk\<close>

record userPage =
  up_Errcode :: int
  up_HasMore :: bool
  up_NextCursor :: int
  up_List :: "(string \<times> string) list"

text \<open>The encoders and decoders of the payloads; \<open>dc_depts\<close> reads an error code and the IDs.\<close>

record dingtalkCodec =
  dc_tokenBody :: "string \<Rightarrow> string \<Rightarrow> bytes"
  dc_token :: "bytes \<Rightarrow> string option"
  dc_deptBody :: "int \<Rightarrow> bytes"
  dc_depts :: "bytes \<Rightarrow> (int \<times> int list) option"
  dc_usersBody :: "int \<Rightarrow> int \<Rightarrow> bytes"
  dc_users :: "bytes \<Rightarrow> userPage option"

definition dingtalkTokenURL :: string where "dingtalkTokenURL = ''https://api.dingtalk.com/v1.0/oauth2/accessToken''"
definition dingtalkDeptURL :: string where "dingtalkDeptURL = ''https://oapi.dingtalk.com/topapi/v2/department/listsub''"
definition dingtalkUsersURL :: string where "dingtalkUsersURL = ''https://oapi.dingtalk.com/topapi/v2/user/list''"

definition with_token :: "string \<Rightarrow> string \<Rightarrow> string" where
  "with_token url token = url @ ''?access_token='' @ token"

text \<open>The walk over the departments; \<open>depts\<close> are the visited ones, in order.  A visited department costs
  nothing, any other one a request of the budget.\<close>

function dingtalk_walk ::
    "'h membersEnv \<Rightarrow> dingtalkCodec \<Rightarrow> string \<Rightarrow> int list \<Rightarrow> int list \<Rightarrow> nat \<Rightarrow> 'h \<Rightarrow> (keeperFailure + int list \<times> nat) \<times> 'h" where
  "dingtalk_walk x C token [] depts n h = (Inr (depts, n), h)"
| "dingtalk_walk x C token (d # queue) depts n h =
     (if d \<in> set depts then dingtalk_walk x C token queue depts n h
      else case spend n of
        None \<Rightarrow> (Inl (fail_code ''invalid_response''), h)
      | Some n \<Rightarrow>
        (case membersDo x ''POST'' (with_token dingtalkDeptURL token) (dc_deptBody C d) (dc_depts C) h of
           (Inl e, h) \<Rightarrow> (Inl e, h)
         | (Inr (errcode, ids), h) \<Rightarrow>
           if errcode \<noteq> 0 then (Inl (fail_code ''invalid_response''), h)
           else dingtalk_walk x C token (queue @ filter (\<lambda>i. i \<notin> set (depts @ [d])) ids) (depts @ [d]) n h))"
  by pat_completeness auto
termination
  by (relation "measures [\<lambda>(x, C, token, queue, depts, n, h). Suc maxMemberRequests - n, \<lambda>(x, C, token, queue, depts, n, h). length queue]")
    (auto simp: spend_def split: if_splits)

function dingtalk_pages ::
    "'h membersEnv \<Rightarrow> dingtalkCodec \<Rightarrow> string \<Rightarrow> int \<Rightarrow> int \<Rightarrow> collectMembers \<Rightarrow> nat \<Rightarrow> 'h \<Rightarrow> (keeperFailure + collectMembers \<times> nat) \<times> 'h" where
  "dingtalk_pages x C token d cursor c n h =
     (case spend n of
        None \<Rightarrow> (Inl (fail_code ''invalid_response''), h)
      | Some n \<Rightarrow>
        (case membersDo x ''POST'' (with_token dingtalkUsersURL token) (dc_usersBody C d cursor) (dc_users C) h of
           (Inl e, h) \<Rightarrow> (Inl e, h)
         | (Inr p, h) \<Rightarrow>
           if up_Errcode p \<noteq> 0 then (Inl (fail_code ''invalid_response''), h)
           else let c = collect_all (up_List p) c
                in if \<not> up_HasMore p then (Inr (c, n), h)
                   else dingtalk_pages x C token d (up_NextCursor p) c n h))"
  by auto
termination
  by (relation "measure (\<lambda>(x, C, token, d, cursor, c, n, h). Suc maxMemberRequests - n)")
    (auto simp: spend_def split: if_splits)

declare dingtalk_pages.simps [simp del]

fun dingtalk_users ::
    "'h membersEnv \<Rightarrow> dingtalkCodec \<Rightarrow> string \<Rightarrow> int list \<Rightarrow> collectMembers \<Rightarrow> nat \<Rightarrow> 'h \<Rightarrow> (keeperFailure + collectMembers \<times> nat) \<times> 'h" where
  "dingtalk_users x C token [] c n h = (Inr (c, n), h)"
| "dingtalk_users x C token (d # ds) c n h =
     (case dingtalk_pages x C token d 0 c n h of
        (Inl e, h) \<Rightarrow> (Inl e, h) | (Inr (c, n), h) \<Rightarrow> dingtalk_users x C token ds c n h)"

definition fetchDingtalkMembers ::
    "'h membersEnv \<Rightarrow> dingtalkCodec \<Rightarrow> string \<Rightarrow> string \<Rightarrow> 'h \<Rightarrow> (keeperFailure + notificationMember list) \<times> 'h" where
  "fetchDingtalkMembers x C appKey appSecret h =
     (case membersDo x ''POST'' dingtalkTokenURL (dc_tokenBody C appKey appSecret) (dc_token C) h of
        (Inl e, h) \<Rightarrow> (Inl (if kf_Code e = ''invalid_response'' then fail_code ''authentication_failed'' else e), h)
      | (Inr token, h) \<Rightarrow>
        if token = [] then (Inl (fail_code ''authentication_failed''), h)
        else (case dingtalk_walk x C token [1] [] 0 h of
            (Inl e, h) \<Rightarrow> (Inl e, h)
          | (Inr (depts, n), h) \<Rightarrow>
            (case dingtalk_users x C token depts newCollectMembers n h of
               (Inl e, h) \<Rightarrow> (Inl e, h)
             | (Inr (c, n), h) \<Rightarrow> (Inr (collect_sorted c), h))))"

section \<open>WeCom\<close>

text \<open>\<open>wc_depts\<close> reads the error code and the departments with their parents; \<open>wc_users\<close> the error code and
  the users.  \<open>wc_order\<close> is the order in which the iteration over the map of roots happens to go.\<close>

record wecomCodec =
  wc_token :: "bytes \<Rightarrow> (int \<times> string) option"
  wc_depts :: "bytes \<Rightarrow> (int \<times> (int \<times> int) list) option"
  wc_users :: "bytes \<Rightarrow> (int \<times> (string \<times> string) list) option"
  wc_order :: "int list \<Rightarrow> int list"

definition wecomTokenURL :: string where "wecomTokenURL = ''https://qyapi.weixin.qq.com/cgi-bin/gettoken''"
definition wecomDeptURL :: string where "wecomDeptURL = ''https://qyapi.weixin.qq.com/cgi-bin/department/list''"
definition wecomUsersURL :: string where "wecomUsersURL = ''https://qyapi.weixin.qq.com/cgi-bin/user/simplelist''"

definition wecomBusinessError :: "int \<Rightarrow> keeperFailure" where
  "wecomBusinessError errcode =
     (if errcode = 45009 \<or> errcode = 45011 then KeeperFailure ''rate_limited'' (60 * second)
      else fail_code ''invalid_response'')"

definition wecom_roots :: "(int \<times> int) list \<Rightarrow> int list" where
  "wecom_roots depts =
     remdups (1 # map fst (filter (\<lambda>(i, parent). parent = 0 \<or> parent \<notin> fst ` set depts) depts))"

fun wecom_users ::
    "'h membersEnv \<Rightarrow> wecomCodec \<Rightarrow> string \<Rightarrow> int list \<Rightarrow> collectMembers \<Rightarrow> nat \<Rightarrow> 'h \<Rightarrow> (keeperFailure + collectMembers) \<times> 'h" where
  "wecom_users x C token [] c n h = (Inr c, h)"
| "wecom_users x C token (root # roots) c n h =
     (case spend n of
        None \<Rightarrow> (Inl (fail_code ''invalid_response''), h)
      | Some n \<Rightarrow>
        (case membersDo x ''GET'' (with_token wecomUsersURL token @ ''&department_id='' @ signed_itoa root @ ''&fetch_child=1'')
            [] (wc_users C) h of
           (Inl e, h) \<Rightarrow> (Inl e, h)
         | (Inr (errcode, users), h) \<Rightarrow>
           if errcode \<noteq> 0 then (Inl (wecomBusinessError errcode), h)
           else wecom_users x C token roots (collect_all users c) n h))"

definition fetchWecomMembers ::
    "'h membersEnv \<Rightarrow> wecomCodec \<Rightarrow> string \<Rightarrow> string \<Rightarrow> 'h \<Rightarrow> (keeperFailure + notificationMember list) \<times> 'h" where
  "fetchWecomMembers x C corpID secret h =
     (case membersDo x ''GET'' (wecomTokenURL @ ''?corpid='' @ corpID @ ''&corpsecret='' @ secret) [] (wc_token C) h of
        (Inl e, h) \<Rightarrow> (Inl e, h)
      | (Inr (errcode, token), h) \<Rightarrow>
        if errcode \<noteq> 0 then
          (Inl (if kf_Code (wecomBusinessError errcode) = ''rate_limited'' then wecomBusinessError errcode
                else fail_code ''authentication_failed''), h)
        else if token = [] then (Inl (fail_code ''authentication_failed''), h)
        else (case membersDo x ''GET'' (with_token wecomDeptURL token) [] (wc_depts C) h of
            (Inl e, h) \<Rightarrow> (Inl e, h)
          | (Inr (errcode, depts), h) \<Rightarrow>
            if errcode \<noteq> 0 then (Inl (wecomBusinessError errcode), h)
            else (case wecom_users x C token (wc_order C (wecom_roots depts)) newCollectMembers 0 h of
                (Inl e, h) \<Rightarrow> (Inl e, h)
              | (Inr c, h) \<Rightarrow> (Inr (collect_sorted c), h))))"

section \<open>Feishu\<close>

text \<open>A call of the SDK fails with a code, zero when it is not a platform's, or answers; \<open>sa_Data\<close> is \<open>None\<close>
  without data, and otherwise holds the items and the token of the next page, if there is one.  A user
  and a department may lack any field.\<close>

record 'd sdkAnswer =
  sa_Status :: int
  sa_RetryAfter :: string
  sa_Success :: bool
  sa_Data :: "('d \<times> string option) option"

type_synonym feishuUser = "string option \<times> string option"

record feishuDepartment =
  fd_OpenDepartmentId :: "string option"
  fd_DepartmentId :: "string option"

record 'h feishuEnv =
  fe_token :: "string \<Rightarrow> string \<Rightarrow> 'h \<Rightarrow> (int + int \<times> string) \<times> 'h"
  fe_scope :: "string \<Rightarrow> 'h \<Rightarrow> (int + (string list \<times> string list) sdkAnswer) \<times> 'h"
  fe_children :: "string \<Rightarrow> string \<Rightarrow> 'h \<Rightarrow> (int + feishuDepartment list sdkAnswer) \<times> 'h"
  fe_users :: "string \<Rightarrow> string \<Rightarrow> 'h \<Rightarrow> (int + feishuUser list sdkAnswer) \<times> 'h"
  fe_batch :: "string list \<Rightarrow> 'h \<Rightarrow> (int + feishuUser list sdkAnswer) \<times> 'h"
  fe_expired :: "'h \<Rightarrow> bool"

definition feishuSDKError :: "'h feishuEnv \<Rightarrow> int \<Rightarrow> 'h \<Rightarrow> keeperFailure" where
  "feishuSDKError x code h =
     fail_code (if code \<noteq> 0 then ''authentication_failed'' else if fe_expired x h then ''timeout'' else ''connection_failed'')"

definition open_users :: "feishuUser list \<Rightarrow> (string \<times> string) list" where
  "open_users us =
     List.map_filter (\<lambda>(i, name). map_option (\<lambda>i. (i, case name of None \<Rightarrow> [] | Some name \<Rightarrow> name)) i) us"

definition feishuDepartmentOpenID :: "feishuDepartment \<Rightarrow> string" where
  "feishuDepartmentOpenID d =
     (let i = (case fd_OpenDepartmentId d of None \<Rightarrow> [] | Some i \<Rightarrow> trimMemberField i)
      in if i \<noteq> [] then i else case fd_DepartmentId d of None \<Rightarrow> [] | Some i \<Rightarrow> trimMemberField i)"

text \<open>The paging loop the scope, the child departments and the users share; the requests counted are
  returned with an error too.\<close>

type_synonym ('r, 'h) budgeted = "((keeperFailure + 'r) \<times> nat) \<times> 'h"

function feishu_pages ::
    "'h feishuEnv \<Rightarrow> (string \<Rightarrow> 'h \<Rightarrow> (int + 'd sdkAnswer) \<times> 'h) \<Rightarrow> ('d \<Rightarrow> 'acc \<Rightarrow> 'acc) \<Rightarrow> 'acc \<Rightarrow> string \<Rightarrow> nat \<Rightarrow> 'h \<Rightarrow>
     ('acc, 'h) budgeted" where
  "feishu_pages x call add acc token n h =
     (case spend n of
        None \<Rightarrow> ((Inl (fail_code ''invalid_response''), Suc n), h)
      | Some n \<Rightarrow>
        (case call token h of
           (Inl code, h) \<Rightarrow> ((Inl (feishuSDKError x code h), n), h)
         | (Inr a, h) \<Rightarrow>
           if sa_Status a \<noteq> 200 then ((Inl (membersStatusError (sa_Status a) (sa_RetryAfter a)), n), h)
           else if \<not> sa_Success a then ((Inl (fail_code ''invalid_response''), n), h)
           else (case sa_Data a of
               None \<Rightarrow> ((Inr acc, n), h)
             | Some (d, follow) \<Rightarrow>
               (case follow of
                  None \<Rightarrow> ((Inr (add d acc), n), h)
                | Some token \<Rightarrow>
                  if token = [] then ((Inr (add d acc), n), h)
                  else feishu_pages x call add (add d acc) token n h))))"
  by auto
termination
  by (relation "measure (\<lambda>(x, call, add, acc, token, n, h). Suc maxMemberRequests - n)")
    (auto simp: spend_def split: if_splits)

declare feishu_pages.simps [simp del]

definition fetchFeishuAuthorizedScope :: "'h feishuEnv \<Rightarrow> nat \<Rightarrow> 'h \<Rightarrow> (string list \<times> string list, 'h) budgeted" where
  "fetchFeishuAuthorizedScope x n h =
     feishu_pages x (fe_scope x) (\<lambda>(ds, us) (ads, aus). (ads @ ds, aus @ us)) ([], []) [] n h"

definition fetchFeishuChildDepartmentIDs :: "'h feishuEnv \<Rightarrow> string \<Rightarrow> nat \<Rightarrow> 'h \<Rightarrow> (string list, 'h) budgeted" where
  "fetchFeishuChildDepartmentIDs x d n h =
     feishu_pages x (fe_children x d) (\<lambda>ds acc. acc @ filter (\<lambda>i. i \<noteq> []) (map feishuDepartmentOpenID ds)) [] [] n h"

definition fetchFeishuDepartmentMembers :: "'h feishuEnv \<Rightarrow> string \<Rightarrow> nat \<Rightarrow> 'h \<Rightarrow> ((string \<times> string) list, 'h) budgeted" where
  "fetchFeishuDepartmentMembers x d n h = feishu_pages x (fe_users x d) (\<lambda>us acc. acc @ open_users us) [] [] n h"

definition add_dept :: "string \<Rightarrow> string list \<Rightarrow> string list" where
  "add_dept i depts = (let i = trimMemberField i in if i = [] \<or> i \<in> set depts then depts else depts @ [i])"

fun feishu_expand :: "'h feishuEnv \<Rightarrow> string list \<Rightarrow> string list \<Rightarrow> nat \<Rightarrow> 'h \<Rightarrow> (string list, 'h) budgeted" where
  "feishu_expand x [] depts n h = ((Inr depts, n), h)"
| "feishu_expand x (d # ds) depts n h =
     (case fetchFeishuChildDepartmentIDs x d n h of
        ((Inl e, n), h) \<Rightarrow> ((Inl e, n), h)
      | ((Inr children, n), h) \<Rightarrow> feishu_expand x ds (fold add_dept children depts) n h)"

text \<open>Every department is read, also after one failed; the first failure in their order decides.  A
  department costs one request on top of its pages.\<close>

fun feishu_users ::
    "'h feishuEnv \<Rightarrow> string list \<Rightarrow> nat \<Rightarrow> 'h \<Rightarrow> ((keeperFailure + (string \<times> string) list) list \<times> nat) \<times> 'h" where
  "feishu_users x [] n h = (([], n), h)"
| "feishu_users x (d # ds) n h =
     (let ((r, n), h) = (case spend n of
            None \<Rightarrow> ((Inl (fail_code ''invalid_response''), Suc n), h)
          | Some n \<Rightarrow> fetchFeishuDepartmentMembers x d n h);
          ((rs, n), h) = feishu_users x ds n h
      in ((r # rs, n), h))"

fun collect_results :: "(keeperFailure + (string \<times> string) list) list \<Rightarrow> collectMembers \<Rightarrow> keeperFailure + collectMembers" where
  "collect_results [] c = Inr c"
| "collect_results (Inl e # rs) c = Inl e"
| "collect_results (Inr us # rs) c = collect_results rs (collect_all us c)"

text \<open>The names of the users that came without one, fifty at a time; any failure leaves the rest unnamed.\<close>

function feishu_names :: "'h feishuEnv \<Rightarrow> string list \<Rightarrow> collectMembers \<Rightarrow> nat \<Rightarrow> 'h \<Rightarrow> collectMembers \<times> 'h" where
  "feishu_names x missing c n h =
     (if missing = [] then (c, h)
      else case spend n of
        None \<Rightarrow> (c, h)
      | Some n \<Rightarrow>
        (case fe_batch x (take 50 missing) h of
           (Inl code, h) \<Rightarrow> (c, h)
         | (Inr a, h) \<Rightarrow>
           if sa_Status a \<noteq> 200 \<or> \<not> sa_Success a then (c, h)
           else (case sa_Data a of
               None \<Rightarrow> (c, h)
             | Some (us, _) \<Rightarrow> feishu_names x (drop 50 missing) (collect_all (open_users us) c) n h)))"
  by auto
termination by (relation "measure (\<lambda>(x, missing, c, n, h). length missing)") auto

declare feishu_names.simps [simp del]

definition fillFeishuMissingNames :: "'h feishuEnv \<Rightarrow> collectMembers \<Rightarrow> nat \<Rightarrow> 'h \<Rightarrow> collectMembers \<times> 'h" where
  "fillFeishuMissingNames x c n h =
     feishu_names x (map mb_ID (filter (\<lambda>m. trim_space (mb_Name m) = [] \<and> trim_space (mb_ID m) \<noteq> []) (co_rows c))) c n h"

definition fetchFeishuMembers :: "'h feishuEnv \<Rightarrow> string \<Rightarrow> string \<Rightarrow> 'h \<Rightarrow> (keeperFailure + notificationMember list) \<times> 'h" where
  "fetchFeishuMembers x appID appSecret h =
     (case fe_token x appID appSecret h of
        (Inl code, h) \<Rightarrow> (Inl (feishuSDKError x code h), h)
      | (Inr (code, token), h) \<Rightarrow>
        if code \<noteq> 0 \<or> token = [] then (Inl (fail_code ''authentication_failed''), h)
        else case fetchFeishuAuthorizedScope x 0 h of
          ((Inl e, n), h) \<Rightarrow> (Inl e, h)
        | ((Inr (deptIDs, userIDs), n), h) \<Rightarrow>
          (let authorized = fold add_dept deptIDs []
           in case feishu_expand x authorized authorized n h of
                ((Inl e, n), h) \<Rightarrow> (Inl e, h)
              | ((Inr depts, n), h) \<Rightarrow>
                (case feishu_users x depts n h of
                   ((results, n), h) \<Rightarrow>
                   (case collect_results results newCollectMembers of
                      Inl e \<Rightarrow> (Inl e, h)
                    | Inr c \<Rightarrow>
                      (case fillFeishuMissingNames x (collect_all (map (\<lambda>i. (i, [])) userIDs) c) n h of
                         (c, h) \<Rightarrow> (Inr (collect_sorted c), h))))))"

section \<open>Credentials and caches\<close>

record memberCredentials =
  mc_FetchAppID :: string
  mc_FetchAppSecret :: string
  mc_FetchAppKey :: string
  mc_FetchCorpID :: string
  mc_FetchSecret :: string

definition trimmed :: "memberCredentials \<Rightarrow> memberCredentials" where
  "trimmed c =
     \<lparr>mc_FetchAppID = trim_space (mc_FetchAppID c), mc_FetchAppSecret = trim_space (mc_FetchAppSecret c),
      mc_FetchAppKey = trim_space (mc_FetchAppKey c), mc_FetchCorpID = trim_space (mc_FetchCorpID c),
      mc_FetchSecret = trim_space (mc_FetchSecret c)\<rparr>"

text \<open>The message names the platform; here only whether there is one.\<close>

definition missingMemberCredentials :: "PlatformKind \<Rightarrow> memberCredentials \<Rightarrow> bool" where
  "missingMemberCredentials kind c =
     (let c = trimmed c
      in if kind = PlatformFeishu then mc_FetchAppID c = [] \<or> mc_FetchAppSecret c = []
         else if kind = PlatformDingTalk then mc_FetchAppKey c = [] \<or> mc_FetchAppSecret c = []
         else if kind = PlatformWeCom then mc_FetchCorpID c = [] \<or> mc_FetchSecret c = []
         else False)"

datatype memberFetch = FeishuFetch string string | DingtalkFetch string string | WecomFetch string string

definition newMemberFetchFunc :: "PlatformKind \<Rightarrow> memberCredentials \<Rightarrow> keeperFailure + memberFetch" where
  "newMemberFetchFunc kind c =
     (let c = trimmed c
      in if missingMemberCredentials kind c then Inl (fail_code ''configuration_error'')
         else if kind = PlatformFeishu then Inr (FeishuFetch (mc_FetchAppID c) (mc_FetchAppSecret c))
         else if kind = PlatformDingTalk then Inr (DingtalkFetch (mc_FetchAppKey c) (mc_FetchAppSecret c))
         else if kind = PlatformWeCom then Inr (WecomFetch (mc_FetchCorpID c) (mc_FetchSecret c))
         else Inl (fail_code ''configuration_error''))"

text \<open>\<open>get\<close>: the service of the members is the cache without a generation.\<close>

definition members_enter ::
    "bool \<Rightarrow> instant \<Rightarrow> notificationMember cacheService \<Rightarrow> notificationMember entered \<times> notificationMember cacheService" where
  "members_enter = cache_enter"

definition members_finish ::
    "instant \<Rightarrow> keeperFailure + notificationMember list \<Rightarrow> notificationMember cacheService \<Rightarrow>
     notificationMember cachedResponse \<times> notificationMember cacheService" where
  "members_finish now r s = (fetch_response now r, cache_store now r s)"

fun members_next ::
    "instant \<times> notificationMember cacheEvent \<Rightarrow> notificationMember cacheService \<Rightarrow> notificationMember cacheService option" where
  "members_next (now, Enter force) s = Some (snd (members_enter force now s))"
| "members_next (now, Finish r) s = (if cs_Flight s = None then None else Some (snd (members_finish now r s)))"
| "members_next (now, Publish items) s = None"

interpretation members: single_flight members_next sets_off lands flying
proof
  fix e :: "instant \<times> notificationMember cacheEvent" and s s' :: "notificationMember cacheService"
  assume n: "members_next e s = Some s'"
  obtain now ev where e: "e = (now, ev)" by (cases e)
  show "\<not> flying s \<and> flying s' \<and> \<not> lands e" if "sets_off e s"
    using that n e by (cases ev) (auto simp: sets_off_def lands_def flying_def members_enter_def dest: cache_enter_flight(1))
  show "flying s \<and> \<not> flying s'" if "lands e"
    using that n e by (cases ev) (auto simp: lands_def flying_def members_finish_def cache_store_def split: if_splits)
  show "flying s' = flying s" if "\<not> sets_off e s" "\<not> lands e"
    using that n e by (cases ev) (auto simp: sets_off_def lands_def flying_def members_enter_def dest: cache_enter_flight(2))
qed

text \<open>The key of a service; the hash is a parameter.\<close>

definition memberServiceKey :: "(bytes \<Rightarrow> string) \<Rightarrow> PlatformKind \<Rightarrow> memberCredentials \<Rightarrow> string" where
  "memberServiceKey hash kind c =
     (let c = trimmed c
      in hash (join [CHR 0x00] [kind, mc_FetchAppID c, mc_FetchAppSecret c, mc_FetchAppKey c, mc_FetchCorpID c, mc_FetchSecret c]))"

text \<open>The registry maps keys to services, each with the fetch it was made for; more than 32 clear it.\<close>

record memberRegistry =
  mr_services :: "(string \<times> nat \<times> (keeperFailure + memberFetch)) list"
  mr_made :: nat

definition memberService ::
    "(bytes \<Rightarrow> string) \<Rightarrow> PlatformKind \<Rightarrow> memberCredentials \<Rightarrow> memberRegistry \<Rightarrow> (nat \<times> (keeperFailure + memberFetch)) \<times> memberRegistry" where
  "memberService hash kind c reg =
     (let key = memberServiceKey hash kind c;
          services = (if 32 < length (mr_services reg) then [] else mr_services reg)
      in case map_of services key of
           Some s \<Rightarrow> (s, reg\<lparr>mr_services := services\<rparr>)
         | None \<Rightarrow>
           (let s = (mr_made reg, newMemberFetchFunc kind c)
            in (s, \<lparr>mr_services = (key, s) # services, mr_made = Suc (mr_made reg)\<rparr>)))"

text \<open>\<open>fetchNotificationMembers\<close> up to the fetch: an unknown platform or a service without credentials is
  answered at once.\<close>

definition fetchNotificationMembers ::
    "(bytes \<Rightarrow> string) \<Rightarrow> PlatformKind \<Rightarrow> memberCredentials \<Rightarrow> memberRegistry \<Rightarrow>
     (notificationMember cachedResponse + nat \<times> memberFetch) \<times> memberRegistry" where
  "fetchNotificationMembers hash kind c reg =
     (if \<not> validPlatformKinds kind then (Inl (unavailableResponse ''configuration_error''), reg)
      else case memberService hash kind c reg of
        ((i, Inl e), reg) \<Rightarrow> (Inl (unavailableResponse ''configuration_error''), reg)
      | ((i, Inr f), reg) \<Rightarrow> (Inr (i, f), reg))"

datatype membersRefusal = MalformedBody | UnknownPlatformKind | MissingCredentials

definition managementNotificationFetchMembers ::
    "(bytes \<Rightarrow> string) \<Rightarrow> (bytes \<Rightarrow> (string \<times> memberCredentials) option) \<Rightarrow> bytes \<Rightarrow> memberRegistry \<Rightarrow>
     (membersRefusal + (notificationMember cachedResponse + nat \<times> memberFetch)) \<times> memberRegistry" where
  "managementNotificationFetchMembers hash decode raw reg =
     (case decode raw of
        None \<Rightarrow> (Inl MalformedBody, reg)
      | Some (platform, c) \<Rightarrow>
        (let kind = trim_space platform
         in if \<not> validPlatformKinds kind then (Inl UnknownPlatformKind, reg)
            else if missingMemberCredentials kind c then (Inl MissingCredentials, reg)
            else (case fetchNotificationMembers hash kind c reg of (r, reg) \<Rightarrow> (Inr r, reg))))"

section \<open>What is collected\<close>

definition distinct_first :: "'a list \<Rightarrow> 'a list" where
  "distinct_first xs = rev (remdups (rev xs))"

lemma distinct_first_simps [simp]:
  "distinct_first [] = []"
  "distinct_first (xs @ [x]) = (if x \<in> set xs then distinct_first xs else distinct_first xs @ [x])"
  "set (distinct_first xs) = set xs"
  "distinct (distinct_first xs)"
  by (simp_all add: distinct_first_def)

text \<open>The rows that count, the members that fit, and the name of a member: the first that is not empty.\<close>

definition trimmed_rows :: "(string \<times> string) list \<Rightarrow> (string \<times> string) list" where
  "trimmed_rows rows = filter (\<lambda>(i, name). i \<noteq> []) (map (\<lambda>(i, name). (trimMemberField i, trimMemberField name)) rows)"

definition member_ids :: "(string \<times> string) list \<Rightarrow> string list" where
  "member_ids rows = take maxMemberCount (distinct_first (map fst (trimmed_rows rows)))"

definition member_name :: "(string \<times> string) list \<Rightarrow> string \<Rightarrow> string" where
  "member_name rows i = (case find (\<lambda>(j, name). j = i \<and> name \<noteq> []) (trimmed_rows rows) of None \<Rightarrow> [] | Some (_, name) \<Rightarrow> name)"

definition collected :: "(string \<times> string) list \<Rightarrow> collectMembers \<Rightarrow> bool" where
  "collected rows c \<longleftrightarrow> map mb_ID (co_rows c) = member_ids rows \<and>
     (\<forall>i. co_seen c i = (if i \<in> set (member_ids rows) then Some (member_name rows i) else None)) \<and>
     (\<not> co_dirty c \<longrightarrow> (\<forall>m\<in>set (co_rows c). mb_Name m = member_name rows (mb_ID m)))"

lemma find_append: "find P (xs @ ys) = (case find P xs of Some x \<Rightarrow> Some x | None \<Rightarrow> find P ys)"
  by (induction xs) auto

lemma member_name_snoc:
  assumes "trimmed_rows [(i, name)] = [(i', name')]"
  shows "member_name (rows @ [(i, name)]) j =
    (if member_name rows j = [] \<and> j = i' then name' else member_name rows j)"
proof -
  have "trimmed_rows (rows @ [(i, name)]) = trimmed_rows rows @ [(i', name')]"
    using assms by (simp add: trimmed_rows_def)
  moreover have "name \<noteq> []" if "find (\<lambda>(j, name). j = k \<and> name \<noteq> []) rs = Some (j, name)" for j k name and rs :: "(string \<times> string) list"
    using find_Some_split [OF that] by auto
  ultimately show ?thesis by (auto simp: member_name_def find_append split: option.split)
qed

lemma collected_add:
  assumes "collected rows c"
  shows "collected (rows @ [(i, name)]) (collect_add i name c)"
proof (cases "trimMemberField i = []")
  case True
  then have "trimmed_rows (rows @ [(i, name)]) = trimmed_rows rows" by (simp add: trimmed_rows_def)
  then show ?thesis using assms True
    by (simp add: collected_def collect_add_def member_ids_def member_name_def)
next
  case False
  define i' name' where d: "i' = trimMemberField i" "name' = trimMemberField name"
  then have t: "trimmed_rows [(i, name)] = [(i', name')]" using False by (simp add: trimmed_rows_def)
  let ?ids = "distinct_first (map fst (trimmed_rows rows))"
  have ids: "member_ids (rows @ [(i, name)]) = take maxMemberCount (if i' \<in> set ?ids then ?ids else ?ids @ [i'])"
    using t by (simp add: member_ids_def trimmed_rows_def)
  have len: "length (co_rows c) = length (member_ids rows)" using assms unfolding collected_def by (metis length_map)
  note nm = member_name_snoc [OF t, of rows]
  have row: "mb_ID m \<in> set (member_ids rows)" if "m \<in> set (co_rows c)" for m
    using that assms unfolding collected_def by (metis image_eqI list.set_map)
  have seen: "co_seen c j = (if j \<in> set (member_ids rows) then Some (member_name rows j) else None)" for j
    using assms by (simp add: collected_def)
  show ?thesis
  proof (cases "i' \<in> set (member_ids rows)")
    case True
    then have same: "member_ids (rows @ [(i, name)]) = member_ids rows"
      using ids set_take_subset [of maxMemberCount ?ids] by (auto simp: member_ids_def)
    have e: "collect_add i name c =
        (if name' \<noteq> [] \<and> member_name rows i' = [] then c\<lparr>co_seen := (co_seen c)(i' \<mapsto> name'), co_dirty := True\<rparr> else c)"
      using True False d seen [of i'] by (auto simp: collect_add_def Let_def)
    show ?thesis using assms True unfolding e by (auto simp: collected_def same nm)
  next
    case new: False
    show ?thesis
    proof (cases "maxMemberCount \<le> length (co_rows c)")
      case True
      then have "maxMemberCount \<le> length ?ids" using len by (simp add: member_ids_def)
      then have same: "member_ids (rows @ [(i, name)]) = member_ids rows"
        using ids by (simp add: member_ids_def)
      have e: "collect_add i name c = c" using True False d seen [of i'] new by (simp add: collect_add_def Let_def)
      show ?thesis using assms new row unfolding e by (auto simp: collected_def same nm)
    next
      case room: False
      then have l: "length ?ids < maxMemberCount" using len by (simp add: member_ids_def)
      then have full: "member_ids rows = ?ids" by (simp add: member_ids_def)
      then have same: "member_ids (rows @ [(i, name)]) = member_ids rows @ [i']"
        using ids new l by simp
      have none: "member_name rows i' = []"
      proof -
        have "i' \<notin> fst ` set (trimmed_rows rows)" using new unfolding full by simp
        then have "find (\<lambda>(j, name). j = i' \<and> name \<noteq> []) (trimmed_rows rows) = None"
          by (force simp: find_None_iff)
        then show ?thesis by (simp add: member_name_def)
      qed
      have e: "collect_add i name c =
          c\<lparr>co_seen := (co_seen c)(i' \<mapsto> name'), co_rows := co_rows c @ [\<lparr>mb_ID = i', mb_Name = name'\<rparr>]\<rparr>"
        using room False d seen [of i'] new by (simp add: collect_add_def Let_def)
      have "mb_ID m \<noteq> i'" if "m \<in> set (co_rows c)" for m
        using row [OF that] new by auto
      then show ?thesis using assms new none unfolding e by (auto simp: collected_def same nm)
    qed
  qed
qed


lemma collected_all: "collected front c \<Longrightarrow> collected (front @ rows) (collect_all rows c)"
proof (induction rows arbitrary: front c)
  case (Cons row rows)
  obtain i name where r: "row = (i, name)" by (cases row)
  from Cons.IH [OF collected_add [OF Cons.prems, of i name]] show ?case by (simp add: r collect_all_def)
qed (simp add: collect_all_def)

lemma collected_new: "collected [] newCollectMembers"
  by (simp add: collected_def newCollectMembers_def member_ids_def trimmed_rows_def)

lemma collected_rows:
  assumes "collected rows c"
  shows "set (collect_sorted c) = (\<lambda>i. \<lparr>mb_ID = i, mb_Name = member_name rows i\<rparr>) ` set (member_ids rows) \<and>
    distinct (map mb_ID (collect_sorted c)) \<and> sorted (map member_order (collect_sorted c))"
proof -
  define named where "named = (if co_dirty c
      then map (\<lambda>m. m\<lparr>mb_Name := (case co_seen c (mb_ID m) of None \<Rightarrow> [] | Some name \<Rightarrow> name)\<rparr>) (co_rows c) else co_rows c)"
  have ids: "map mb_ID (co_rows c) = member_ids rows" using assms by (simp add: collected_def)
  have row: "mb_ID m \<in> set (member_ids rows)" if "m \<in> set (co_rows c)" for m
    using that ids by (metis image_eqI list.set_map)
  have n: "map mb_ID named = member_ids rows" using ids by (simp add: named_def comp_def)
  have name: "mb_Name m = member_name rows (mb_ID m)" if "m \<in> set named" for m
    using that assms row by (auto simp: named_def collected_def split: if_splits)
  have same: "\<lparr>mb_ID = mb_ID m, mb_Name = member_name rows (mb_ID m)\<rparr> = m" if "m \<in> set named" for m
    using name [OF that] by (cases m) simp
  have "set named = (\<lambda>i. \<lparr>mb_ID = i, mb_Name = member_name rows i\<rparr>) ` mb_ID ` set named"
    unfolding image_image using same by (simp cong: image_cong)
  also have "mb_ID ` set named = set (member_ids rows)" using n by (metis list.set_map)
  finally have "set named = (\<lambda>i. \<lparr>mb_ID = i, mb_Name = member_name rows i\<rparr>) ` set (member_ids rows)" .
  moreover have "distinct (map mb_ID named)" by (simp add: n member_ids_def)
  then have "distinct (map mb_ID (sort_key member_order named))"
    by (simp add: distinct_map)
  moreover have "collect_sorted c = sort_key member_order named" by (simp add: collect_sorted_def named_def)
  ultimately show ?thesis by simp
qed

text \<open>However often and in whatever order a directory repeats its users, the picker shows each of the first
  twenty thousand IDs once, sorted, under the first name that is not empty.\<close>

theorem collect_members:
  "set (collect_sorted (collect_all rows newCollectMembers)) =
     (\<lambda>i. \<lparr>mb_ID = i, mb_Name = member_name rows i\<rparr>) ` set (member_ids rows) \<and>
   distinct (map mb_ID (collect_sorted (collect_all rows newCollectMembers))) \<and>
   sorted (map member_order (collect_sorted (collect_all rows newCollectMembers)))"
  using collected_rows [OF collected_all [OF collected_new, of rows]] by simp

section \<open>The budget\<close>

text \<open>A directory that counts its requests.\<close>

definition counted :: "'h membersEnv \<Rightarrow> (nat \<times> 'h) membersEnv" where
  "counted x =
     \<lparr>my_do = (\<lambda>m url body (k, h). let (a, h) = my_do x m url body h in (a, (Suc k, h))),
      my_expired = (\<lambda>(k, h). my_expired x h)\<rparr>"

lemma membersDo_counted:
  "membersDo (counted x) m url body decode (k, h) = (r, (k', h')) \<Longrightarrow> k' = Suc k"
  by (auto simp: membersDo_def counted_def split: prod.splits option.splits if_splits sum.splits)

lemma spend_Some: "spend n = Some n' \<longleftrightarrow> n' = Suc n \<and> Suc n \<le> maxMemberRequests"
  by (auto simp: spend_def)

text \<open>The requests made are the ones spent, and never more than the budget.\<close>

definition within_budget :: "nat \<Rightarrow> nat \<Rightarrow> nat \<Rightarrow> (keeperFailure + 'r \<times> nat) \<Rightarrow> bool" where
  "within_budget n k k' r \<longleftrightarrow> k' + n \<le> k + maxMemberRequests \<and>
     (case r of Inl _ \<Rightarrow> True | Inr (_, n') \<Rightarrow> k' + n = k + n' \<and> n' \<le> maxMemberRequests)"

lemma dingtalk_walk_budget:
  assumes "dingtalk_walk (counted x) C token queue depts n (k, h) = (r, (k', h'))" and "n \<le> maxMemberRequests"
  shows "within_budget n k k' r"
  using assms
proof (induction "counted x" C token queue depts n "(k, h)" arbitrary: k h rule: dingtalk_walk.induct)
  case (2 C token d queue depts n)
  show ?case
  proof (cases "d \<in> set depts")
    case True
    with 2 show ?thesis by simp
  next
    case False
    show ?thesis
    proof (cases "spend n")
      case None
      with 2(3,4) False show ?thesis by (auto simp: within_budget_def)
    next
      case (Some n1)
      obtain a k1 h1 where do: "membersDo (counted x) ''POST'' (with_token dingtalkDeptURL token) (dc_deptBody C d) (dc_depts C) (k, h) = (a, (k1, h1))"
        by (metis prod_cases3)
      note k1 = membersDo_counted [OF do]
      show ?thesis
      proof (cases "\<exists>ids. a = Inr (0, ids)")
        case True
        then obtain ids where a: "a = Inr (0, ids)" by blast
        have "dingtalk_walk (counted x) C token (queue @ filter (\<lambda>i. i \<notin> set (depts @ [d])) ids) (depts @ [d]) n1 (k1, h1) = (r, (k', h'))"
          using 2(3) False Some do a by simp
        moreover have "n1 \<le> maxMemberRequests" "n1 = Suc n" using Some by (simp_all add: spend_Some)
        ultimately have "within_budget n1 k1 k' r"
          using 2(2) [OF False Some do [symmetric] a refl] by simp
        then show ?thesis using k1 \<open>n1 = Suc n\<close> by (auto simp: within_budget_def split: sum.splits)
      next
        case no: False
        have "k' = k1" "\<exists>e. r = Inl e"
          using 2(3) False Some do no by (auto split: sum.splits if_splits)
        then show ?thesis using k1 Some by (auto simp: within_budget_def spend_Some)
      qed
    qed
  qed
qed (auto simp: within_budget_def)

lemma dingtalk_pages_budget:
  assumes "dingtalk_pages (counted x) C token d cursor c n (k, h) = (r, (k', h'))" and "n \<le> maxMemberRequests"
  shows "within_budget n k k' r"
  using assms
proof (induction "counted x" C token d cursor c n "(k, h)" arbitrary: k h rule: dingtalk_pages.induct)
  case (1 C token d cursor c n)
  note simps = dingtalk_pages.simps [of "counted x" C token d cursor c n "(k, h)"]
  show ?case
  proof (cases "spend n")
    case None
    with 1(2,3) show ?thesis by (auto simp: within_budget_def simps)
  next
    case (Some n1)
    obtain a k1 h1 where do: "membersDo (counted x) ''POST'' (with_token dingtalkUsersURL token) (dc_usersBody C d cursor) (dc_users C) (k, h) = (a, (k1, h1))"
      by (metis prod_cases3)
    note k1 = membersDo_counted [OF do]
    show ?thesis
    proof (cases "\<exists>p. a = Inr p \<and> up_Errcode p = 0 \<and> up_HasMore p")
      case True
      then obtain p where a: "a = Inr p" "up_Errcode p = 0" "up_HasMore p" by blast
      have "dingtalk_pages (counted x) C token d (up_NextCursor p) (collect_all (up_List p) c) n1 (k1, h1) = (r, (k', h'))"
        using 1(2) Some do a by (simp add: simps)
      moreover have "n1 \<le> maxMemberRequests" "n1 = Suc n" using Some by (simp_all add: spend_Some)
      ultimately have "within_budget n1 k1 k' r"
        using 1(1) [OF Some do [symmetric] a(1) _ refl] a by simp
      then show ?thesis using k1 \<open>n1 = Suc n\<close> by (auto simp: within_budget_def split: sum.splits)
    next
      case no: False
      have "k' = k1" "(\<exists>e. r = Inl e) \<or> (\<exists>c. r = Inr (c, n1))"
        using 1(2) Some do no by (auto simp: simps Let_def split: sum.splits if_splits)
      then show ?thesis using k1 Some by (auto simp: within_budget_def spend_Some)
    qed
  qed
qed

lemma dingtalk_users_budget:
  assumes "dingtalk_users (counted x) C token ds c n (k, h) = (r, (k', h'))" and "n \<le> maxMemberRequests"
  shows "within_budget n k k' r"
  using assms
proof (induction ds arbitrary: c n k h)
  case (Cons d ds)
  obtain p k1 h1 where p: "dingtalk_pages (counted x) C token d 0 c n (k, h) = (p, (k1, h1))" by (metis prod_cases3)
  note b = dingtalk_pages_budget [OF p Cons.prems(2)]
  show ?case
  proof (cases p)
    case (Inl e)
    with Cons.prems(1) p b show ?thesis by (auto simp: within_budget_def)
  next
    case (Inr q)
    obtain c1 n1 where q: "q = (c1, n1)" by (cases q)
    with b Inr have n1: "n1 \<le> maxMemberRequests" "k1 + n = k + n1" by (simp_all add: within_budget_def)
    have "within_budget n1 k1 k' r"
      using Cons.IH [OF _ n1(1)] Cons.prems(1) p Inr q by simp
    then show ?thesis using n1 by (auto simp: within_budget_def split: sum.splits)
  qed
qed (auto simp: within_budget_def)

text \<open>Whatever the directory answers, endless pages or departments that contain each other included, reading
  the members of DingTalk comes to an end after at most one token request and the budget.\<close>

theorem fetchDingtalkMembers_bounded:
  "fst (snd (fetchDingtalkMembers (counted x) C appKey appSecret (0, h))) \<le> 5001"
proof -
  obtain t k1 h1 where t: "membersDo (counted x) ''POST'' dingtalkTokenURL (dc_tokenBody C appKey appSecret) (dc_token C) (0, h) = (t, (k1, h1))"
    by (metis prod_cases3)
  note k1 = membersDo_counted [OF t]
  show ?thesis
  proof (cases "\<exists>token. t = Inr token \<and> token \<noteq> []")
    case False
    then show ?thesis using t k1 by (auto simp: fetchDingtalkMembers_def split: sum.splits)
  next
    case True
    then obtain token where token: "t = Inr token" "token \<noteq> []" by blast
    obtain w k2 h2 where w: "dingtalk_walk (counted x) C token [1] [] 0 (k1, h1) = (w, (k2, h2))" by (metis prod_cases3)
    note b = dingtalk_walk_budget [OF w]
    show ?thesis
    proof (cases w)
      case (Inl e)
      then show ?thesis using t token w k1 b
        by (simp add: fetchDingtalkMembers_def within_budget_def maxMemberRequests_def)
    next
      case (Inr q)
      obtain ds n where q: "q = (ds, n)" by (cases q)
      obtain u k3 h3 where u: "dingtalk_users (counted x) C token ds newCollectMembers n (k2, h2) = (u, (k3, h3))" by (metis prod_cases3)
      have n: "n \<le> maxMemberRequests" "k2 = k1 + n" using b Inr q by (simp_all add: within_budget_def)
      have "k3 \<le> 5001" using dingtalk_users_budget [OF u n(1)] k1 n by (simp add: within_budget_def maxMemberRequests_def)
      then show ?thesis using t token w Inr q u
        by (auto simp: fetchDingtalkMembers_def split: sum.splits prod.splits)
    qed
  qed
qed


section \<open>The walk over the departments\<close>

text \<open>A directory with \<open>children\<close> answers every department with its direct children.\<close>

definition answers_with :: "'h membersEnv \<Rightarrow> dingtalkCodec \<Rightarrow> string \<Rightarrow> (int \<Rightarrow> int list) \<Rightarrow> bool" where
  "answers_with x C token children \<longleftrightarrow>
     (\<forall>d h. fst (membersDo x ''POST'' (with_token dingtalkDeptURL token) (dc_deptBody C d) (dc_depts C) h) = Inr (0, children d))"

definition below :: "(int \<Rightarrow> int list) \<Rightarrow> int set" where
  "below children = {d. (1, d) \<in> {(a, b). b \<in> set (children a)}\<^sup>*}"

lemma below_closed: "1 \<in> below children" "a \<in> below children \<Longrightarrow> b \<in> set (children a) \<Longrightarrow> b \<in> below children"
  unfolding below_def by (auto intro: rtrancl_into_rtrancl)

lemma below_least:
  assumes "1 \<in> S" and "\<And>a b. a \<in> S \<Longrightarrow> b \<in> set (children a) \<Longrightarrow> b \<in> S"
  shows "below children \<subseteq> S"
proof
  fix d assume "d \<in> below children"
  then have "(1, d) \<in> {(a, b). b \<in> set (children a)}\<^sup>*" by (simp add: below_def)
  then show "d \<in> S" by (induction rule: rtrancl_induct) (use assms in auto)
qed

definition walking :: "(int \<Rightarrow> int list) \<Rightarrow> int list \<Rightarrow> int list \<Rightarrow> nat \<Rightarrow> bool" where
  "walking children queue depts n \<longleftrightarrow> distinct depts \<and> length depts = n \<and> set depts \<union> set queue \<subseteq> below children \<and>
     1 \<in> set depts \<union> set queue \<and> (\<forall>a\<in>set depts. set (children a) \<subseteq> set depts \<union> set queue)"

lemma walking_seen: "walking children (d # queue) depts n \<Longrightarrow> d \<in> set depts \<Longrightarrow> walking children queue depts n"
  by (auto simp: walking_def)

lemma walking_new:
  assumes "walking children (d # queue) depts n" and "d \<notin> set depts"
  shows "walking children (queue @ filter (\<lambda>i. i \<notin> set (depts @ [d])) (children d)) (depts @ [d]) (Suc n)"
  using assms below_closed(2) [of d children] by (auto simp: walking_def)

lemma walking_done:
  assumes "walking children [] depts n"
  shows "distinct depts \<and> set depts = below children"
proof -
  have "1 \<in> set depts" "\<And>a b. a \<in> set depts \<Longrightarrow> b \<in> set (children a) \<Longrightarrow> b \<in> set depts"
    using assms by (auto simp: walking_def)
  then have "below children \<subseteq> set depts" by (rule below_least)
  with assms show ?thesis by (auto simp: walking_def)
qed

lemma walking_full:
  assumes "walking children (d # queue) depts n" and "d \<notin> set depts" and "finite (below children)"
  shows "n < card (below children)"
proof -
  have "set (d # depts) \<subseteq> below children" "card (set (d # depts)) = Suc n"
    using assms(1,2) by (auto simp: walking_def distinct_card)
  then show ?thesis using card_mono [OF assms(3)] by (metis Suc_le_eq)
qed

lemma dingtalk_walk_covers:
  assumes "dingtalk_walk x C token queue depts n h = (r, h')" and "walking children queue depts n"
    and "answers_with x C token children"
  shows "case r of
      Inr (ds, m) \<Rightarrow> distinct ds \<and> set ds = below children
    | Inl e \<Rightarrow> \<not> (finite (below children) \<and> card (below children) \<le> maxMemberRequests)"
  using assms
proof (induction x C token queue depts n h rule: dingtalk_walk.induct)
  case (1 x C token depts n h)
  then show ?case using walking_done by auto
next
  case (2 x C token d queue depts n h)
  show ?case
  proof (cases "d \<in> set depts")
    case True
    with 2 walking_seen show ?thesis by simp
  next
    case False
    show ?thesis
    proof (cases "spend n")
      case None
      then have "maxMemberRequests \<le> n" by (simp add: spend_def split: if_splits)
      then show ?thesis using 2(3) None False walking_full [OF 2(4) False] by (auto split: sum.splits)
    next
      case (Some n1)
      then have n1: "n1 = Suc n" by (simp add: spend_Some)
      obtain h1 where do: "membersDo x ''POST'' (with_token dingtalkDeptURL token) (dc_deptBody C d) (dc_depts C) h = (Inr (0, children d), h1)"
        using 2(5) by (simp add: answers_with_def) (metis prod.collapse)
      show ?thesis
        using 2(2) [OF False Some do [symmetric] refl refl _ _ walking_new [OF 2(4) False, folded n1] 2(5)] 2(3) False Some do
        by simp
    qed
  qed
qed

text \<open>C29. On a directory that answers, the walk visits each department below the root exactly once, however the
  departments refer to each other, unless there are more of them than the budget allows.\<close>

theorem dingtalk_walk_exact:
  assumes "answers_with x C token children"
  shows "case fst (dingtalk_walk x C token [1] [] 0 h) of
      Inr (ds, m) \<Rightarrow> distinct ds \<and> set ds = below children
    | Inl e \<Rightarrow> \<not> (finite (below children) \<and> card (below children) \<le> maxMemberRequests)"
proof -
  obtain r h' where w: "dingtalk_walk x C token [1] [] 0 h = (r, h')" by fastforce
  have "walking children [1] [] 0" by (simp add: walking_def below_closed)
  from dingtalk_walk_covers [OF w this assms] show ?thesis unfolding w fst_conv .
qed

text \<open>Department 1 with department 2 below it, which has 1 below it again.\<close>

definition round_children :: "int \<Rightarrow> int list" where
  "round_children d = (if d = 1 then [2] else [1])"

definition round_directory :: "unit membersEnv" where
  "round_directory =
     \<lparr>my_do = (\<lambda>m url body h. (Some \<lparr>ka_Status = 200, ka_RetryAfter = [], ka_Body = Some body\<rparr>, h)), my_expired = (\<lambda>_. False)\<rparr>"

definition round_codec :: dingtalkCodec where
  "round_codec =
     \<lparr>dc_tokenBody = (\<lambda>_ _. []), dc_token = (\<lambda>_. Some []), dc_deptBody = (\<lambda>d. if d = 1 then ''1'' else ''2''),
      dc_depts = (\<lambda>raw. Some (0, if raw = ''1'' then [2] else [1])), dc_usersBody = (\<lambda>_ _. []), dc_users = (\<lambda>_. None)\<rparr>"

theorem dingtalk_walk_exact_witness:
  "\<exists>ds m. fst (dingtalk_walk round_directory round_codec ''t'' [1] [] 0 ()) = Inr (ds, m) \<and> distinct ds \<and> set ds = {1, 2}"
proof -
  have do: "fst (membersDo round_directory ''POST'' (with_token dingtalkDeptURL ''t'') (dc_deptBody round_codec d) (dc_depts round_codec) h) = Inr (0, round_children d)"
    for d h
    by (simp add: membersDo_def round_directory_def round_codec_def round_children_def readKeeperBody_def maxBody_def)
  then have a: "answers_with round_directory round_codec ''t'' round_children" by (simp add: answers_with_def)
  have b: "below round_children = {1, 2}"
  proof
    show "below round_children \<subseteq> {1, 2}" by (rule below_least) (auto simp: round_children_def split: if_splits)
    show "{1, 2} \<subseteq> below round_children" using below_closed(1) [of round_children] below_closed(2) [of 1 round_children 2] by (auto simp: round_children_def)
  qed
  from dingtalk_walk_exact [OF a, of "()"] show ?thesis
    unfolding b by (auto simp: maxMemberRequests_def split: sum.splits)
qed

end
