(* ===== verification/Float64.thy ===== *)
theory Float64
  imports Complex_Main Go_Strings Time_Format
begin

text \<open>
  The 64-bit floating-point numbers the notifications print.  A finite \<open>float64\<close> is the rational it
  stands for, and every operation of the code is the exact one followed by \<open>round64\<close>, rounding to
  nearest with ties to even on 53 bits, subnormals included.  Overflow to infinity is not modelled: the
  values are token counts, money and percentages.
\<close>

type_synonym float64 = rat

definition round_half_even :: "rat \<Rightarrow> int" where
  "round_half_even q =
     (let f = \<lfloor>q\<rfloor>; r = q - of_int f
      in if r < 1 / 2 then f else if 1 / 2 < r then f + 1 else if even f then f else f + 1)"

text \<open>The number of bits of a natural number, and the exponent of the last of 53 bits.\<close>

function bit_count :: "int \<Rightarrow> int" where
  "bit_count n = (if n \<le> 0 then 0 else bit_count (n div 2) + 1)"
  by auto
termination by (relation "measure nat") auto

declare bit_count.simps [simp del]

definition exponent64 :: "rat \<Rightarrow> int" where
  "exponent64 a =
     (let (n, d) = quotient_of a;
          e = bit_count n - bit_count d - 53
      in max (if 2 ^ 53 \<le> a / 2 powi e then e + 1 else e) (- 1074))"

definition round64 :: "rat \<Rightarrow> float64" where
  "round64 q =
     (if q = 0 then 0
      else let e = exponent64 \<bar>q\<bar> in sgn q * of_int (round_half_even (\<bar>q\<bar> / 2 powi e)) * 2 powi e)"

text \<open>\<open>float64(n)\<close>, the arithmetic, and the verb \<open>%.2f\<close>, which rounds the exact value.\<close>

definition float_of_int :: "int \<Rightarrow> float64" where
  "float_of_int n = round64 (of_int n)"

definition float_div :: "float64 \<Rightarrow> float64 \<Rightarrow> float64" where
  "float_div a b = round64 (a / b)"

definition float_mul :: "float64 \<Rightarrow> float64 \<Rightarrow> float64" where
  "float_mul a b = round64 (a * b)"

definition float_sub :: "float64 \<Rightarrow> float64 \<Rightarrow> float64" where
  "float_sub a b = round64 (a - b)"

definition fixed2 :: "float64 \<Rightarrow> string" where
  "fixed2 q =
     (let k = round_half_even (\<bar>q\<bar> * 100)
      in (if q < 0 then ''-'' else []) @ itoa (nat (k div 100)) @ ''.'' @ pad 2 (k mod 100))"


text \<open>\<open>time.Duration.Seconds\<close>, and the difference of two instants, which saturates.\<close>

definition duration_seconds :: "int \<Rightarrow> float64" where
  "duration_seconds d =
     (let sec = (if d < 0 then - ((- d) div second) else d div second); nsec = d - sec * second
      in round64 (float_of_int sec + float_div (float_of_int nsec) (10 ^ 9)))"

definition time_sub :: "instant \<Rightarrow> instant \<Rightarrow> int" where
  "time_sub t u = max (- (2 ^ 63)) (min (t - u) (2 ^ 63 - 1))"

end
