(* ===== verification/Quota_Text.thy ===== *)
theory Quota_Text
  imports Float64 "HOL-Library.Monad_Syntax"
begin

text \<open>
  The texts the quota answers are made of (\<open>notification_keeper.go\<close>, \<open>cpa_quota_client.go\<close>): the names of
  the windows and plans, the times of resets, the percentages, and the redacted identities.
\<close>

section \<open>Times\<close>

text \<open>\<open>time.Parse\<close> for the layouts the program reads: a date, a separator, a clock whose hour may have one
  digit, and an optional fraction of a second.\<close>

definition getnum :: "bool \<Rightarrow> string \<Rightarrow> (int \<times> string) option" where
  "getnum fixed s =
     (case s of
        c # d # rest \<Rightarrow>
          if \<not> is_digit c then None
          else if is_digit d then Some (10 * digit_val c + digit_val d, rest)
          else if fixed then None else Some (digit_val c, d # rest)
      | [c] \<Rightarrow> if is_digit c \<and> \<not> fixed then Some (digit_val c, []) else None
      | [] \<Rightarrow> None)"

definition getyear :: "string \<Rightarrow> (int \<times> string) option" where
  "getyear s = map_option (\<lambda>y. (y, drop 4 s)) (number_at 0 4 s)"

definition expect :: "char \<Rightarrow> string \<Rightarrow> string option" where
  "expect c s = (case s of x # rest \<Rightarrow> if x = c then Some rest else None | [] \<Rightarrow> None)"

definition getfraction :: "string \<Rightarrow> int \<times> string" where
  "getfraction s =
     (case s of
        c # rest \<Rightarrow>
          if (c = CHR ''.'' \<or> c = CHR '','') \<and> rest \<noteq> [] \<and> is_digit (hd rest)
          then (let digits = takeWhile is_digit rest
                in (digits_value (take 9 (digits @ replicate 9 (CHR ''0''))), dropWhile is_digit rest))
          else (0, s)
      | [] \<Rightarrow> (0, s))"

definition getzone :: "string \<Rightarrow> location option" where
  "getzone z =
     (if z = ''Z'' then Some 0
      else case (number_at 1 2 z, number_at 4 2 z) of
        (Some h, Some m) \<Rightarrow>
          if length z = 6 \<and> (hd z = CHR ''+'' \<or> hd z = CHR ''-'') \<and> z ! 3 = CHR '':'' \<and> h \<le> 24 \<and> m \<le> 60
          then Some ((if hd z = CHR ''-'' then -1 else 1) * (h * 3600 + m * 60)) else None
      | _ \<Rightarrow> None)"

definition parse_layout :: "char \<Rightarrow> bool \<Rightarrow> string \<Rightarrow> instant option" where
  "parse_layout sep zoned s = do {
     (y, s) \<leftarrow> getyear s;
     s \<leftarrow> expect (CHR ''-'') s;
     (mo, s) \<leftarrow> getnum True s;
     s \<leftarrow> expect (CHR ''-'') s;
     (d, s) \<leftarrow> getnum True s;
     s \<leftarrow> expect sep s;
     (h, s) \<leftarrow> getnum False s;
     s \<leftarrow> expect (CHR '':'') s;
     (mi, s) \<leftarrow> getnum True s;
     s \<leftarrow> expect (CHR '':'') s;
     (sec, s) \<leftarrow> getnum True s;
     let (nsec, s) = getfraction s;
     loc \<leftarrow> (if zoned then getzone s else if s = [] then Some 0 else None);
     if valid_date y mo d \<and> clock_ok h mi sec then Some (time_Date loc y mo d h mi sec + nsec) else None
   }"

definition parseQuotaResetAt :: "string \<Rightarrow> instant option" where
  "parseQuotaResetAt raw = parse_layout (CHR ''T'') True (trim_space raw)"

definition parseCPAResetTime :: "string \<Rightarrow> instant option" where
  "parseCPAResetTime raw =
     (let raw = trim_space raw
      in case parse_layout (CHR ''T'') True raw of
           Some t \<Rightarrow> Some t
         | None \<Rightarrow>
           (case parse_layout (CHR '' '') False raw of
              Some t \<Rightarrow> Some t | None \<Rightarrow> parse_layout (CHR ''T'') False raw))"

text \<open>Whole days and hours left, none when the time has passed.\<close>

definition remainingCountdown :: "instant \<Rightarrow> instant \<Rightarrow> int \<times> int" where
  "remainingCountdown due now =
     (let remaining = max 0 \<lfloor>duration_seconds (time_sub due now)\<rfloor>
      in (remaining div 86400, remaining mod 86400 div 3600))"

section \<open>Windows\<close>

record windowStat =
  w_GroupKey :: string
  w_Label :: string
  w_UsedTokens :: int
  w_UsageAvailable :: bool
  w_UsedPercent :: float64
  w_RemainingPercent :: float64
  w_PercentKnown :: bool
  w_ResetAt :: "instant option"
  w_RemainingDays :: int
  w_RemainingHours :: int

text \<open>\<open>w_ResetAt\<close> is \<open>None\<close> where the code has \<open>ResetKnown\<close> false.\<close>

definition newWindow :: "string \<Rightarrow> string \<Rightarrow> windowStat" where
  "newWindow grp label =
     \<lparr>w_GroupKey = grp, w_Label = label, w_UsedTokens = 0, w_UsageAvailable = False, w_UsedPercent = 0,
      w_RemainingPercent = 0, w_PercentKnown = False, w_ResetAt = None, w_RemainingDays = 0, w_RemainingHours = 0\<rparr>"

definition cpaWindowGroupKey :: "string \<Rightarrow> string option" where
  "cpaWindowGroupKey window =
     (let w = to_lower (trim_space window)
      in if w = [] then None
         else if contains w ''week'' then Some ''weekly''
         else if contains w ''5h'' \<or> contains w ''5 hour'' \<or> contains w ''5-hour'' \<or> contains w ''five'' then Some ''5h''
         else None)"

definition keeperWindowGroup :: "string \<Rightarrow> string \<Rightarrow> string \<Rightarrow> string option" where
  "keeperWindowGroup key label groupKey =
     (let k = to_lower (trim_space key); gk = to_lower (trim_space groupKey)
      in if k = ''rate_limit.primary_window'' \<or> k = ''five_hour'' then Some ''5h''
         else if k = ''rate_limit.secondary_window'' \<or> k = ''seven_day'' then Some ''weekly''
         else if gk = ''5h'' \<or> gk = ''weekly'' then Some gk
         else cpaWindowGroupKey label)"

definition applyWindowPercents :: "windowStat \<Rightarrow> float64 option \<Rightarrow> float64 option \<Rightarrow> windowStat" where
  "applyWindowPercents w usedPercent remainingFraction =
     (case (usedPercent, map_option (\<lambda>r. float_mul r 100) remainingFraction) of
        (None, None) \<Rightarrow> w
      | (Some used, None) \<Rightarrow> w\<lparr>w_PercentKnown := True, w_UsedPercent := used, w_RemainingPercent := float_sub 100 used\<rparr>
      | (None, Some remain) \<Rightarrow> w\<lparr>w_PercentKnown := True, w_UsedPercent := float_sub 100 remain, w_RemainingPercent := remain\<rparr>
      | (Some used, Some remain) \<Rightarrow> w\<lparr>w_PercentKnown := True, w_UsedPercent := used, w_RemainingPercent := remain\<rparr>)"

definition with_reset :: "instant option \<Rightarrow> instant \<Rightarrow> windowStat \<Rightarrow> windowStat" where
  "with_reset resetAt now w =
     (case resetAt of
        None \<Rightarrow> w
      | Some due \<Rightarrow> (case remainingCountdown due now of (days, hours) \<Rightarrow>
          w\<lparr>w_ResetAt := Some due, w_RemainingDays := days, w_RemainingHours := hours\<rparr>))"

definition cpaWindowStat :: "string \<Rightarrow> string \<Rightarrow> string \<Rightarrow> float64 option \<Rightarrow> instant \<Rightarrow> windowStat" where
  "cpaWindowStat grp label resetTime remainingFraction now =
     (let w = newWindow grp label;
          w = (if remainingFraction \<noteq> None then applyWindowPercents w None remainingFraction else w)
      in if trim_space resetTime = [] then w else with_reset (parseCPAResetTime resetTime) now w)"

text \<open>A row of Keeper's quota, each field possibly absent.\<close>

record quotaRow =
  qr_Key :: "string option"
  qr_Label :: "string option"
  qr_GroupKey :: "string option"
  qr_GroupLabel :: "string option"
  qr_UsedPercent :: "float64 option"
  qr_RemainingFraction :: "float64 option"
  qr_WindowUsageTokens :: "int option"
  qr_ResetAt :: "string option"

definition derefString :: "string option \<Rightarrow> string" where
  "derefString p = (case p of None \<Rightarrow> [] | Some s \<Rightarrow> s)"

definition window_label :: "string \<Rightarrow> quotaRow \<Rightarrow> string" where
  "window_label grp r =
     (if trim_space (derefString (qr_GroupLabel r)) \<noteq> [] then derefString (qr_GroupLabel r)
      else let lbl = trim_space (derefString (qr_Label r))
           in if lbl = [] then []
              else if grp = ''5h'' \<and> equal_fold lbl ''5h'' then ''5H''
              else if grp = ''weekly'' \<and> equal_fold lbl ''weekly'' then ''Weekly''
              else lbl)"

definition row_window :: "instant \<Rightarrow> quotaRow \<Rightarrow> windowStat option" where
  "row_window now r =
     (case keeperWindowGroup (derefString (qr_Key r)) (derefString (qr_Label r)) (derefString (qr_GroupKey r)) of
        None \<Rightarrow> None
      | Some grp \<Rightarrow>
        (let w = newWindow grp (window_label grp r);
             w = (case qr_WindowUsageTokens r of None \<Rightarrow> w | Some n \<Rightarrow> w\<lparr>w_UsageAvailable := True, w_UsedTokens := n\<rparr>);
             w = applyWindowPercents w (qr_UsedPercent r) (qr_RemainingFraction r)
         in Some (case qr_ResetAt r of None \<Rightarrow> w | Some s \<Rightarrow> with_reset (parseQuotaResetAt s) now w)))"

section \<open>Plans\<close>

text \<open>\<open>strings.Fields\<close>: the maximal pieces without white space.\<close>

function rune_chunks :: "string \<Rightarrow> (nat \<times> string) list" where
  "rune_chunks s =
     (if s = [] then []
      else let (r, n) = decode_rune s in (r, take (max 1 n) s) # rune_chunks (drop (max 1 n) s))"
  by auto
termination by (relation "measure length") auto

declare rune_chunks.simps [simp del]

fun fields_from :: "string \<Rightarrow> (nat \<times> string) list \<Rightarrow> string list" where
  "fields_from cur [] = (if cur = [] then [] else [cur])"
| "fields_from cur ((r, chunk) # rest) =
     (if is_space r then (if cur = [] then [] else [cur]) @ fields_from [] rest
      else fields_from (cur @ chunk) rest)"

definition fields :: "string \<Rightarrow> string list" where
  "fields s = fields_from [] (rune_chunks s)"

definition notificationPlanLabels :: "(string \<times> string) list" where
  "notificationPlanLabels =
     [(''codex:free'', ''Free''), (''codex:plus'', ''Plus''), (''codex:team'', ''Team''),
      (''codex:pro-5x'', ''Pro 5x''), (''codex:pro-20x'', ''Pro 20x''), (''codex:enterprise'', ''Enterprise''),
      (''claude:free'', ''Free''), (''claude:pro'', ''Pro''), (''claude:max'', ''Max''), (''claude:team'', ''Team''),
      (''antigravity:free'', ''Free''), (''antigravity:pro'', ''Pro''),
      (''antigravity:ultra-lite'', ''Ultra Lite''), (''antigravity:ultra'', ''Ultra''),
      ('':free'', ''Free''), ('':plus'', ''Plus''), ('':team'', ''Team''), ('':pro'', ''Pro''),
      ('':pro-5x'', ''Pro 5x''), ('':pro-20x'', ''Pro 20x''), ('':enterprise'', ''Enterprise''),
      ('':max'', ''Max''), ('':ultra-lite'', ''Ultra Lite''), ('':ultra'', ''Ultra'')]"

definition notificationPlanLabel :: "string \<Rightarrow> string \<Rightarrow> string option" where
  "notificationPlanLabel provider i =
     (case (if provider \<noteq> [] then map_of notificationPlanLabels (provider @ '':'' @ i) else None) of
        Some label \<Rightarrow> Some label
      | None \<Rightarrow> map_of notificationPlanLabels ('':'' @ i))"

definition plan_id :: "string \<Rightarrow> string \<Rightarrow> string" where
  "plan_id provider rawPlan =
     (let i = join ''-'' (fields (to_lower (map (\<lambda>c. if c = CHR ''_'' then CHR ''-'' else c) rawPlan)))
      in if provider = ''codex'' then
           (if i = ''pro'' then ''pro-20x'' else if i = ''prolite'' \<or> i = ''pro-lite'' then ''pro-5x'' else i)
         else i)"

definition formatNotificationPlan :: "string \<Rightarrow> string \<Rightarrow> string \<Rightarrow> string \<Rightarrow> string" where
  "formatNotificationPlan provider plan tierName tierID =
     (let provider = to_lower (trim_space provider); rawPlan = trim_space plan;
          tierName = trim_space tierName; tierID = trim_space tierID;
          i = plan_id provider rawPlan
      in case (case notificationPlanLabel provider i of
                 Some label \<Rightarrow> if provider \<noteq> [] \<or> tierName = [] then Some label else None
               | None \<Rightarrow> None) of
           Some label \<Rightarrow> label
         | None \<Rightarrow>
           if provider = ''antigravity'' \<and> (i = ''unknown'' \<or> i = []) then (if tierName \<noteq> [] then tierName else tierID)
           else if tierName \<noteq> [] then tierName
           else rawPlan)"

record subscription =
  su_Provider :: string
  su_Plan :: string
  su_TierName :: string
  su_TierID :: string

definition subscription_plan :: "subscription \<Rightarrow> string" where
  "subscription_plan s = formatNotificationPlan (su_Provider s) (su_Plan s) (su_TierName s) (su_TierID s)"

section \<open>Redacted identities\<close>

definition keeperSensitiveMask :: string where "keeperSensitiveMask = ''*********''"

definition keeperRedactIdentity :: "string \<Rightarrow> string" where
  "keeperRedactIdentity v =
     (let t = trim_space v; rs = runes t
      in if t = [] \<or> t = ''unknown'' then ''unknown''
         else if length rs \<le> 9 then keeperSensitiveMask
         else encode_runes (take 3 rs) @ keeperSensitiveMask @ encode_runes (drop (length rs - 6) rs))"

definition quotaIndexesLookRedacted :: "string list \<Rightarrow> bool" where
  "quotaIndexesLookRedacted keys = list_ex (\<lambda>k. contains k keeperSensitiveMask) keys"

definition add_index :: "string \<Rightarrow> string list \<Rightarrow> string list" where
  "add_index i out = (let i = trim_space i in if i = [] \<or> i \<in> set out then out else out @ [i])"

definition matching :: "string \<Rightarrow> string list \<Rightarrow> string list" where
  "matching key catalog =
     filter (\<lambda>i. i \<noteq> [] \<and> (i = key \<or> keeperRedactIdentity i = key)) (map trim_space catalog)"

fun expand_keys :: "string list \<Rightarrow> string list \<Rightarrow> string list \<Rightarrow> string list" where
  "expand_keys catalog [] out = out"
| "expand_keys catalog (key # keys) out =
     (let key = trim_space key
      in if key = [] then expand_keys catalog keys out
         else if matching key catalog \<noteq> [] then expand_keys catalog keys (fold add_index (matching key catalog) out)
         else expand_keys catalog keys (add_index key out))"

definition expandQuotaAuthIndexes :: "string list \<Rightarrow> string list \<Rightarrow> string list" where
  "expandQuotaAuthIndexes keys catalog = expand_keys catalog keys []"

text \<open>What a key stands for: the identities it is or is a redaction of, or itself.\<close>

definition stands_for :: "string list \<Rightarrow> string \<Rightarrow> string set" where
  "stands_for catalog key =
     (if trim_space key = [] then {}
      else if matching (trim_space key) catalog = [] then {trim_space key}
      else set (matching (trim_space key) catalog))"

lemma add_index_ok:
  "distinct out \<Longrightarrow> [] \<notin> set out \<Longrightarrow> distinct (add_index i out) \<and> [] \<notin> set (add_index i out) \<and>
     set (add_index i out) = set out \<union> ({trim_space i} - {[]})"
  by (auto simp: add_index_def Let_def)

lemma fold_add_index:
  assumes "distinct out" and "[] \<notin> set out" and "\<forall>i\<in>set ids. i \<noteq> [] \<and> trim_space i = i"
  shows "distinct (fold add_index ids out) \<and> [] \<notin> set (fold add_index ids out) \<and> set (fold add_index ids out) = set out \<union> set ids"
  using assms
proof (induction ids arbitrary: out)
  case (Cons i ids)
  note a = add_index_ok [OF Cons.prems(1,2), of i]
  from Cons.IH [of "add_index i out"] a Cons.prems(3) show ?case by auto
qed simp

lemma matching_trimmed: "i \<in> set (matching key catalog) \<Longrightarrow> i \<noteq> [] \<and> trim_space i = i"
  by (auto simp: matching_def)

lemma expand_keys_spec:
  assumes "distinct out" and "[] \<notin> set out"
  shows "distinct (expand_keys catalog keys out) \<and> [] \<notin> set (expand_keys catalog keys out) \<and>
    set (expand_keys catalog keys out) = set out \<union> (\<Union>key\<in>set keys. stands_for catalog key)"
  using assms
proof (induction keys arbitrary: out)
  case (Cons key keys)
  let ?k = "trim_space key"
  consider (blank) "?k = []" | (many) "?k \<noteq> []" "matching ?k catalog \<noteq> []" | (one) "?k \<noteq> []" "matching ?k catalog = []" by blast
  then show ?case
  proof cases
    case blank
    then have e: "expand_keys catalog (key # keys) out = expand_keys catalog keys out" and "stands_for catalog key = {}"
      by (simp_all add: stands_for_def)
    then have u: "(\<Union>k\<in>set (key # keys). stands_for catalog k) = (\<Union>k\<in>set keys. stands_for catalog k)" by simp
    show ?thesis unfolding e u by (rule Cons.IH [OF Cons.prems])
  next
    case many
    have "\<forall>i\<in>set (matching ?k catalog). i \<noteq> [] \<and> trim_space i = i" using matching_trimmed by blast
    note f = fold_add_index [OF Cons.prems this]
    from Cons.IH [of "fold add_index (matching ?k catalog) out"] f many show ?thesis
      by (auto simp: stands_for_def)
  next
    case one
    note a = add_index_ok [OF Cons.prems, of ?k]
    from Cons.IH [of "add_index ?k out"] a one show ?thesis by (auto simp: stands_for_def)
  qed
qed simp

text \<open>The keys of an analysis are turned into the identities they stand for, each once and none left out:
  a redacted key into every identity it may have come from, an unknown one into itself.\<close>

theorem expandQuotaAuthIndexes_set:
  "distinct (expandQuotaAuthIndexes keys catalog) \<and>
   set (expandQuotaAuthIndexes keys catalog) = (\<Union>key\<in>set keys. stands_for catalog key)"
  using expand_keys_spec [of "[]" catalog keys] by (simp add: expandQuotaAuthIndexes_def)

end
