(* ===== verification/Keeper_Stats.thy ===== *)
theory Keeper_Stats
  imports Platforms Keeper_Client Float64
begin

text \<open>
  The statistics of a period (\<open>notification_keeper.go\<close>): the query range of the keeper's analysis, its
  compositions, and the rows of channels with their shares.  The keeper is the state machine of
  \<open>Keeper_Client\<close>; the decoding of a named composition is a parameter.
\<close>

section \<open>Data\<close>

record analysisItem =
  ai_Key :: string
  ai_Label :: string
  ai_TotalTokens :: int
  ai_CostUSD :: float64
  ai_CostAvailable :: bool

record channelStats =
  ch_Name :: string
  ch_Label :: string
  ch_Identity :: string
  ch_Tokens :: int
  ch_CostUSD :: float64
  ch_CostAvailable :: bool
  ch_Share :: float64
  ch_ShareKnown :: bool

text \<open>A row of a composition, each field possibly absent, and a composition: not an object, without the
  field, malformed, or its rows.\<close>

record compositionRow =
  cp_Key :: "string option"
  cp_Label :: "string option"
  cp_TotalTokens :: "int option"
  cp_CostUSD :: "float64 option"
  cp_CostAvailable :: "bool option"

datatype composition = NotAnObject | NoField | BadRows | Rows "compositionRow list"

record periodCoverage =
  pc_incomplete :: bool
  pc_missingFrom :: string
  pc_missingTo :: string

record periodStats =
  ps_Start :: instant
  ps_End :: instant
  ps_PeriodKey :: string
  ps_Coverage :: periodCoverage
  ps_Channels :: "channelStats list"

section \<open>The query range\<close>

text \<open>Days are counted in the notification zone: the first and the last day to ask for, and the days left
  out before them.\<close>

definition analysis_days :: "instant \<Rightarrow> instant \<Rightarrow> instant \<Rightarrow> int \<times> int \<times> (int \<times> int) option" where
  "analysis_days start stop now =
     (let today = local_day NotificationLocation now;
          endDay = min (local_day NotificationLocation stop) today;
          startDay = local_day NotificationLocation start;
          earliest = today - 364;
          missing = (if startDay < earliest then Some (startDay, earliest - 1) else None);
          startDay = max startDay earliest
      in (min startDay endDay, endDay, missing))"

definition format_day :: "int \<Rightarrow> string" where
  "format_day n = format_date NotificationLocation (at_day NotificationLocation n 0)"

definition analysisQueryRange :: "instant \<Rightarrow> instant \<Rightarrow> instant \<Rightarrow> string \<times> string \<times> periodCoverage" where
  "analysisQueryRange start stop now =
     (case analysis_days start stop now of (s, e, missing) \<Rightarrow>
        (format_day s, format_day e,
         case missing of
           None \<Rightarrow> \<lparr>pc_incomplete = False, pc_missingFrom = [], pc_missingTo = []\<rparr>
         | Some (a, b) \<Rightarrow> \<lparr>pc_incomplete = True, pc_missingFrom = format_day a, pc_missingTo = format_day b\<rparr>))"

section \<open>Compositions\<close>

definition row_item :: "compositionRow \<Rightarrow> analysisItem option" where
  "row_item r =
     (case (cp_Key r, cp_TotalTokens r) of
        (Some key, Some tokens) \<Rightarrow>
          if trim_space key = [] then None
          else Some \<lparr>ai_Key = key, ai_Label = (case cp_Label r of None \<Rightarrow> [] | Some l \<Rightarrow> l), ai_TotalTokens = tokens,
              ai_CostUSD = (case cp_CostUSD r of None \<Rightarrow> 0 | Some c \<Rightarrow> c),
              ai_CostAvailable = (case cp_CostAvailable r of None \<Rightarrow> False | Some b \<Rightarrow> b)\<rparr>
      | _ \<Rightarrow> None)"

text \<open>The strict parser refuses what the lenient one skips.\<close>

fun strict_items :: "compositionRow list \<Rightarrow> analysisItem list option" where
  "strict_items [] = Some []"
| "strict_items (r # rs) =
     (case row_item r of None \<Rightarrow> None | Some it \<Rightarrow> map_option ((#) it) (strict_items rs))"

definition parseAnalysisComposition :: "composition \<Rightarrow> keeperFailure + analysisItem list" where
  "parseAnalysisComposition c =
     (case c of
        Rows rows \<Rightarrow> (case strict_items rows of None \<Rightarrow> Inl (fail_code ''invalid_response'') | Some items \<Rightarrow> Inr items)
      | _ \<Rightarrow> Inl (fail_code ''invalid_response''))"

definition parseNamedComposition :: "composition \<Rightarrow> keeperFailure + analysisItem list" where
  "parseNamedComposition c =
     (case c of
        NoField \<Rightarrow> Inr []
      | Rows rows \<Rightarrow> Inr (List.map_filter row_item rows)
      | _ \<Rightarrow> Inl (fail_code ''invalid_response''))"

fun union_from :: "string set \<Rightarrow> analysisItem list \<Rightarrow> analysisItem list" where
  "union_from seen [] = []"
| "union_from seen (it # items) =
     (if ai_Key it \<in> seen then union_from seen items else it # union_from (insert (ai_Key it) seen) items)"

definition unionAuthItems :: "analysisItem list \<Rightarrow> analysisItem list \<Rightarrow> analysisItem list" where
  "unionAuthItems files providers = union_from {} (files @ providers)"

text \<open>The sum of \<open>int64\<close> counts.\<close>

definition channelShares :: "analysisItem list \<Rightarrow> int \<times> bool" where
  "channelShares items = (let total = fold (\<lambda>it t. wrap64 (t + ai_TotalTokens it)) items 0 in (total, 0 < total))"

definition channel_row :: "int \<Rightarrow> analysisItem \<Rightarrow> channelStats" where
  "channel_row whole it =
     \<lparr>ch_Name = ai_Key it, ch_Label = ai_Label it, ch_Identity = ai_Key it, ch_Tokens = ai_TotalTokens it,
      ch_CostUSD = ai_CostUSD it, ch_CostAvailable = ai_CostAvailable it,
      ch_Share = (if 0 < whole then float_div (float_of_int (ai_TotalTokens it)) (float_of_int whole) else 0),
      ch_ShareKnown = (0 < whole)\<rparr>"

section \<open>Collecting\<close>

record statsCodec =
  sc_composition :: "bytes \<Rightarrow> string \<Rightarrow> composition"
  sc_settings :: "bytes \<Rightarrow> (string \<times> string) list option"

definition analysis_path :: "string \<Rightarrow> string \<Rightarrow> string \<Rightarrow> string" where
  "analysis_path startDate endDate apiKeyID =
     ''/api/v1/usage/analysis?range=custom&unit=day&start='' @ query_escape startDate @ ''&end='' @ query_escape endDate @
     (if apiKeyID \<noteq> [] then ''&api_key_id='' @ query_escape apiKeyID else [])"

definition fetchAnalysisPath ::
    "'h keeperEnv \<Rightarrow> instant \<Rightarrow> instant \<Rightarrow> instant \<Rightarrow> string \<Rightarrow> 'h \<Rightarrow> (keeperFailure + bytes) \<times> 'h" where
  "fetchAnalysisPath x start stop now apiKeyID h =
     (case analysisQueryRange start stop now of (s, e, cov) \<Rightarrow> get_body x (analysis_path s e apiKeyID) h)"

definition fetchAnalysis ::
    "'h keeperEnv \<Rightarrow> statsCodec \<Rightarrow> instant \<Rightarrow> instant \<Rightarrow> instant \<Rightarrow> 'h \<Rightarrow> ((keeperFailure + analysisItem list) \<times> periodCoverage) \<times> 'h" where
  "fetchAnalysis x C start stop now h =
     (case analysisQueryRange start stop now of (s, e, cov) \<Rightarrow>
        (case get_body x (analysis_path s e []) h of
           (Inl f, h) \<Rightarrow> ((Inl f, cov), h)
         | (Inr raw, h) \<Rightarrow> ((parseAnalysisComposition (sc_composition C raw ''api_key_composition''), cov), h)))"

definition lookupAPIKeyID :: "'h keeperEnv \<Rightarrow> statsCodec \<Rightarrow> string \<Rightarrow> 'h \<Rightarrow> (keeperFailure + string) \<times> 'h" where
  "lookupAPIKeyID x C apiKey h =
     (case get_body x ''/api/v1/usage/api-keys/settings'' h of
        (Inl f, h) \<Rightarrow> (Inl f, h)
      | (Inr raw, h) \<Rightarrow>
        (case sc_settings C raw of
           None \<Rightarrow> (Inl (fail_code ''invalid_response''), h)
         | Some items \<Rightarrow>
           (case find (\<lambda>(i, key). trim_space key = trim_space apiKey \<and> trim_space i \<noteq> []) items of
              None \<Rightarrow> (Inl (fail_code ''configuration_error''), h)
            | Some (i, key) \<Rightarrow> (Inr (trim_space i), h))))"

text \<open>The two compositions of one answer.\<close>

definition auth_items :: "statsCodec \<Rightarrow> bytes \<Rightarrow> keeperFailure + analysisItem list" where
  "auth_items C raw =
     (case parseNamedComposition (sc_composition C raw ''auth_files_composition'') of
        Inl f \<Rightarrow> Inl f
      | Inr files \<Rightarrow>
        (case parseNamedComposition (sc_composition C raw ''ai_provider_composition'') of
           Inl f \<Rightarrow> Inl f | Inr providers \<Rightarrow> Inr (unionAuthItems files providers)))"

definition fetch_auth_items ::
    "'h keeperEnv \<Rightarrow> statsCodec \<Rightarrow> instant \<Rightarrow> instant \<Rightarrow> instant \<Rightarrow> string \<Rightarrow> 'h \<Rightarrow> (keeperFailure + analysisItem list) \<times> 'h" where
  "fetch_auth_items x C start stop now apiKeyID h =
     (case fetchAnalysisPath x start stop now apiKeyID h of
        (Inl f, h) \<Rightarrow> (Inl f, h) | (Inr raw, h) \<Rightarrow> (auth_items C raw, h))"

text \<open>The rows are those of the key, if one is given, and the totals those of all keys.\<close>

definition auth_rows :: "analysisItem list \<Rightarrow> analysisItem list \<Rightarrow> channelStats list" where
  "auth_rows wide source =
     map (\<lambda>it. channel_row (case map_of (map (\<lambda>w. (ai_Key w, ai_TotalTokens w)) wide) (ai_Key it) of None \<Rightarrow> 0 | Some t \<Rightarrow> t) it) source"

definition collectAuthChannelsPeriod ::
    "'h keeperEnv \<Rightarrow> statsCodec \<Rightarrow> string \<Rightarrow> ModuleKind \<Rightarrow> PeriodKind \<Rightarrow> instant \<Rightarrow> 'h \<Rightarrow> (keeperFailure + channelStats list) \<times> 'h" where
  "collectAuthChannelsPeriod x C apiKey kind period now h =
     (case periodRange kind period now NotificationLocation of
        None \<Rightarrow> (Inl (fail_code ''invalid_response''), h)
      | Some (start, stop) \<Rightarrow>
        (case fetch_auth_items x C start stop now [] h of
           (Inl f, h) \<Rightarrow> (Inl f, h)
         | (Inr wide, h) \<Rightarrow>
           if trim_space apiKey = [] then (Inr (auth_rows wide wide), h)
           else (case lookupAPIKeyID x C apiKey h of
               (Inl f, h) \<Rightarrow> (Inl f, h)
             | (Inr i, h) \<Rightarrow>
               (case fetch_auth_items x C start stop now i h of
                  (Inl f, h) \<Rightarrow> (Inl f, h)
                | (Inr source, h) \<Rightarrow> (Inr (auth_rows wide source), h)))))"

definition collectForPeriod ::
    "'h keeperEnv \<Rightarrow> statsCodec \<Rightarrow> string \<Rightarrow> ModuleKind \<Rightarrow> PeriodKind \<Rightarrow> instant \<Rightarrow> 'h \<Rightarrow> (keeperFailure + periodStats) \<times> 'h" where
  "collectForPeriod x C apiKey kind period now h =
     (case periodRange kind period now NotificationLocation of
        None \<Rightarrow> (Inl (fail_code ''invalid_response''), h)
      | Some (start, stop) \<Rightarrow>
        (case fetchAnalysis x C start stop now h of
           ((Inl f, cov), h) \<Rightarrow> (Inl f, h)
         | ((Inr _, cov), h) \<Rightarrow>
           (let stats = (\<lambda>rows. \<lparr>ps_Start = start, ps_End = stop, ps_PeriodKey = periodKeyOf kind period now,
                  ps_Coverage = cov, ps_Channels = rows\<rparr>)
            in case collectAuthChannelsPeriod x C apiKey kind period now h of
                 (r, h) \<Rightarrow>
                 (case r of
                    Inr (row # rows) \<Rightarrow> (Inr (stats (row # rows)), h)
                  | _ \<Rightarrow>
                    (case fetchAnalysis x C start stop now h of
                       ((Inl f, cov'), h) \<Rightarrow> (Inl f, h)
                     | ((Inr items, cov'), h) \<Rightarrow>
                       (Inr (stats (map (channel_row (fst (channelShares items))) items)), h))))))"

section \<open>What is asked for and what is reported missing\<close>

text \<open>The days of the period up to today, those reported missing and those asked for.\<close>

definition wanted_days :: "instant \<Rightarrow> instant \<Rightarrow> instant \<Rightarrow> int set" where
  "wanted_days start stop now =
     {local_day NotificationLocation start .. min (local_day NotificationLocation stop) (local_day NotificationLocation now)}"

definition missing_days :: "(int \<times> int) option \<Rightarrow> int set" where
  "missing_days m = (case m of None \<Rightarrow> {} | Some (a, b) \<Rightarrow> {a..b})"

lemma local_day_mono: "s \<le> t \<Longrightarrow> local_day loc s \<le> local_day loc t"
  by (simp add: local_day_def div_int_pos_iff zdiv_mono1)

lemma analysis_days_cases:
  assumes "start \<le> stop" and "start \<le> now" and "analysis_days start stop now = (s, e, missing)"
  shows "s \<le> e \<and> e \<le> local_day NotificationLocation now \<and>
    (if local_day NotificationLocation now - 364 \<le> local_day NotificationLocation stop
     then local_day NotificationLocation now - 364 \<le> s \<and>
       {s..e} \<union> missing_days missing = wanted_days start stop now \<and> {s..e} \<inter> missing_days missing = {}
     else s = e \<and> s = local_day NotificationLocation stop \<and> s \<in> missing_days missing)"
  using assms local_day_mono [OF assms(1), of NotificationLocation] local_day_mono [OF assms(2), of NotificationLocation]
  by (auto simp: analysis_days_def missing_days_def wanted_days_def Let_def split: if_splits)

text \<open>As long as the period reaches into the last 365 days, the query stays within them and the days it asks
  for and the days it reports missing are together the period, none of them in both.  A period that ended
  before is not left out: the query asks for its last day, outside what the keeper can answer, and that
  day is also reported missing.\<close>

theorem analysisQueryRange_covers:
  assumes "start \<le> stop" and "start \<le> now"
  shows "case analysis_days start stop now of (s, e, missing) \<Rightarrow>
    fst (analysisQueryRange start stop now) = format_day s \<and> fst (snd (analysisQueryRange start stop now)) = format_day e \<and>
    s \<le> e \<and> e \<le> local_day NotificationLocation now \<and>
    (if local_day NotificationLocation now - 364 \<le> local_day NotificationLocation stop
     then local_day NotificationLocation now - 364 \<le> s \<and>
       {s..e} \<union> missing_days missing = wanted_days start stop now \<and> {s..e} \<inter> missing_days missing = {}
     else s = e \<and> s = local_day NotificationLocation stop \<and> s \<in> missing_days missing)"
proof -
  obtain s e missing where d: "analysis_days start stop now = (s, e, missing)" by (metis prod_cases3)
  have r: "fst (analysisQueryRange start stop now) = format_day s" "fst (snd (analysisQueryRange start stop now)) = format_day e"
    by (simp_all add: d analysisQueryRange_def)
  show ?thesis unfolding d prod.case r using analysis_days_cases [OF assms d] by blast
qed

text \<open>On the last day of 2026 the previous year is out of reach.\<close>

definition new_years_eve :: instant where
  "new_years_eve = time_Date NotificationLocation 2026 12 31 12 0 0"

theorem analysisQueryRange_covers_witness:
  "case periodRange ModuleYearly PeriodPrevious new_years_eve NotificationLocation of
     None \<Rightarrow> False
   | Some (start, stop) \<Rightarrow>
     (case analysis_days start stop new_years_eve of (s, e, missing) \<Rightarrow>
        s < local_day NotificationLocation new_years_eve - 364 \<and> s \<in> missing_days missing)"
proof -
  obtain start stop where r: "periodRange ModuleYearly PeriodPrevious new_years_eve NotificationLocation = Some (start, stop)"
      "start \<le> stop" "start \<le> new_years_eve" "\<not> local_day NotificationLocation new_years_eve - 364 \<le> local_day NotificationLocation stop"
    by (simp add: periodRange_def new_years_eve_def go_simps)
  from analysisQueryRange_covers [OF r(2,3)] r(1,4) show ?thesis
    by (auto split: prod.splits)
qed

end
