(* ===== verification/Keeper_Quota.thy ===== *)
theory Keeper_Quota
  imports Quota_Text Keeper_Stats Keeper_Cache
begin

text \<open>
  The quota windows, reset cards and plan of the bound identities (\<open>notification_keeper.go\<close>,
  \<open>cpa_quota_client.go\<close>): the throttled refresh, the polling of the keeper's cache, the fallback to the
  host's own quota endpoint and the reset cards.  The decodings of the answers and the clock are parameters.
\<close>

section \<open>Answers\<close>

record itemQuota =
  iq_Rows :: "quotaRow list"
  iq_Subscription :: "subscription option"
  iq_Cards :: "int option"

text \<open>A cache answer: without items, with malformed ones, or the quotas of its items.\<close>

datatype cacheEnvelope = CacheEmpty | CacheBad | CacheItems "itemQuota option list"

record cpaBucket =
  bk_Window :: string
  bk_ResetTime :: string
  bk_RemainingFraction :: "float64 option"

record cpaGroup =
  gr_DisplayName :: string
  gr_Buckets :: "cpaBucket list"

record quotaCodec =
  qc_body :: "string list \<Rightarrow> bytes"
  qc_cache :: "bytes \<Rightarrow> cacheEnvelope"
  qc_refs :: "bytes \<Rightarrow> string list option"
  qc_identities :: "bytes \<Rightarrow> string list option"
  qc_plans :: "bytes \<Rightarrow> (string \<times> subscription option) list option"
  qc_credits :: "bytes \<Rightarrow> (int option \<times> (string \<times> string) list) option"
  qc_cpaBody :: "string \<Rightarrow> bytes"
  qc_cpaQuota :: "bytes \<Rightarrow> (subscription option \<times> cpaGroup list) option"

text \<open>The host's management endpoint: its address, its key and one exchange.\<close>

record 'h cpaEnv =
  cx_baseURL :: string
  cx_apiKey :: string
  cx_do :: "string \<Rightarrow> string \<Rightarrow> bytes \<Rightarrow> 'h \<Rightarrow> keeperAnswer option \<times> 'h"

text \<open>The source: its two clients, the clock, the pause and the polling knobs (not positive for the defaults).\<close>

record 'h statsSource =
  sc_client :: "'h keeperEnv option"
  sc_cpa :: "'h cpaEnv option"
  sc_codec :: quotaCodec
  sc_now :: "'h \<Rightarrow> instant"
  sc_sleep :: "int \<Rightarrow> 'h \<Rightarrow> 'h"
  sc_pollInterval :: int
  sc_pollBudget :: int

type_synonym refreshes = "string \<rightharpoonup> instant"

definition quotaRefreshThrottle :: int where "quotaRefreshThrottle = 60 * second"
definition quotaPollInterval :: int where "quotaPollInterval = 400 * (second div 1000)"
definition quotaPollBudget :: int where "quotaPollBudget = 2400 * (second div 1000)"

section \<open>The throttled refresh\<close>

definition throttled :: "refreshes \<Rightarrow> string \<Rightarrow> instant \<Rightarrow> bool" where
  "throttled stamps key now = (case stamps key of None \<Rightarrow> False | Some t \<Rightarrow> time_sub now t < quotaRefreshThrottle)"

definition quota_key :: "string list \<Rightarrow> string" where
  "quota_key authIndexes = join [CHR 0x00] authIndexes"

definition triggerQuotaRefresh :: "'h statsSource \<Rightarrow> string list \<Rightarrow> refreshes \<Rightarrow> 'h \<Rightarrow> refreshes \<times> 'h" where
  "triggerQuotaRefresh s authIndexes lastRefresh h =
     (case sc_client s of
        None \<Rightarrow> (lastRefresh, h)
      | Some x \<Rightarrow>
        if authIndexes = [] \<or> throttled lastRefresh (quota_key authIndexes) (sc_now s h) then (lastRefresh, h)
        else (lastRefresh(quota_key authIndexes \<mapsto> sc_now s h),
              snd (authenticatedRequest x ''POST'' ''/api/v1/quota/refresh'' (qc_body (sc_codec s) authIndexes) h)))"

section \<open>The cache\<close>

record cacheRead =
  rd_Windows :: "windowStat list"
  rd_Cards :: "int option"
  rd_Plan :: string
  rd_Raw :: bytes

definition quotaCacheHasData :: "cacheRead \<Rightarrow> bool" where
  "quotaCacheHasData r = (rd_Windows r \<noteq> [] \<or> rd_Cards r \<noteq> None \<or> rd_Plan r \<noteq> [])"

text \<open>One item: its windows, the first known count of cards, the first plan that is not empty.\<close>

fun read_items :: "instant \<Rightarrow> itemQuota option list \<Rightarrow> cacheRead \<Rightarrow> cacheRead" where
  "read_items now [] r = r"
| "read_items now (None # items) r = read_items now items r"
| "read_items now (Some q # items) r =
     read_items now items
       (r\<lparr>rd_Windows := rd_Windows r @ List.map_filter (row_window now) (iq_Rows q),
          rd_Cards := (if iq_Cards q \<noteq> None \<and> rd_Cards r = None then iq_Cards q else rd_Cards r),
          rd_Plan := (if rd_Plan r = [] then (case iq_Subscription q of None \<Rightarrow> [] | Some sub \<Rightarrow> subscription_plan sub)
                      else rd_Plan r)\<rparr>)"

definition no_data :: "bytes \<Rightarrow> cacheRead" where
  "no_data raw = \<lparr>rd_Windows = [], rd_Cards = None, rd_Plan = [], rd_Raw = raw\<rparr>"

text \<open>An answer without items is not an error of the collection: the caller goes on with no data.\<close>

definition parseQuotaCache :: "quotaCodec \<Rightarrow> bytes \<Rightarrow> instant \<Rightarrow> keeperFailure + cacheRead" where
  "parseQuotaCache C raw now =
     (case qc_cache C raw of
        CacheEmpty \<Rightarrow> Inr (no_data raw)
      | CacheBad \<Rightarrow> Inl (fail_code ''invalid_response'')
      | CacheItems items \<Rightarrow> Inr (read_items now items (no_data raw)))"

definition post_body :: "'h keeperEnv \<Rightarrow> string \<Rightarrow> bytes \<Rightarrow> 'h \<Rightarrow> (keeperFailure + bytes) \<times> 'h" where
  "post_body x path body h =
     (case authenticatedRequest x ''POST'' path body h of
        (Inl e, h) \<Rightarrow> (Inl e, h)
      | (Inr a, h) \<Rightarrow>
        if ka_Status a \<noteq> 200 then (Inl (keeperHTTPError x a), h) else (readKeeperBody (kx_expired x h) a, h))"

definition quotaCacheOnce :: "'h statsSource \<Rightarrow> string list \<Rightarrow> instant \<Rightarrow> 'h \<Rightarrow> (keeperFailure + cacheRead) \<times> 'h" where
  "quotaCacheOnce s authIndexes now h =
     (case sc_client s of
        None \<Rightarrow> (Inl (fail_code ''configuration_error''), h)
      | Some x \<Rightarrow>
        (case post_body x ''/api/v1/quota/cache'' (qc_body (sc_codec s) authIndexes) h of
           (Inl e, h) \<Rightarrow> (Inl e, h)
         | (Inr raw, h) \<Rightarrow> (parseQuotaCache (sc_codec s) raw now, h)))"

text \<open>The polling: the budget and the deadline are looked at before each pause, the deadline after it.\<close>

definition gone :: "'h statsSource \<Rightarrow> 'h \<Rightarrow> bool" where
  "gone s h = (case sc_client s of None \<Rightarrow> False | Some x \<Rightarrow> kx_expired x h)"

definition poll_interval :: "'h statsSource \<Rightarrow> int" where
  "poll_interval s = (if sc_pollInterval s \<le> 0 then quotaPollInterval else sc_pollInterval s)"

definition poll_budget :: "'h statsSource \<Rightarrow> int" where
  "poll_budget s = (if sc_pollBudget s \<le> 0 then quotaPollBudget else sc_pollBudget s)"

fun poll :: "nat \<Rightarrow> 'h statsSource \<Rightarrow> string list \<Rightarrow> instant \<Rightarrow> instant \<Rightarrow> cacheRead \<Rightarrow> 'h \<Rightarrow> ((keeperFailure + cacheRead) \<times> 'h) option" where
  "poll 0 s authIndexes now start r h = None"
| "poll (Suc fuel) s authIndexes now start r h =
     (if quotaCacheHasData r then Some (Inr r, h)
      else if poll_budget s \<le> time_sub (sc_now s h) start \<or> gone s h then Some (Inr r, h)
      else let h = sc_sleep s (poll_interval s) h
           in if gone s h then Some (Inr r, h)
              else case quotaCacheOnce s authIndexes now h of
                  (Inl e, h) \<Rightarrow> Some (Inl e, h)
                | (Inr r, h) \<Rightarrow> poll fuel s authIndexes now start r h)"

section \<open>The host's own quota\<close>

definition cpa_windows :: "instant \<Rightarrow> cpaGroup list \<Rightarrow> windowStat list" where
  "cpa_windows now groups =
     concat (map (\<lambda>g. List.map_filter (\<lambda>b.
       case cpaWindowGroupKey (bk_Window b) of
         None \<Rightarrow> None
       | Some grp \<Rightarrow> Some (cpaWindowStat grp (if gr_DisplayName g \<noteq> [] then gr_DisplayName g else bk_Window b)
           (bk_ResetTime b) (bk_RemainingFraction b) now)) (gr_Buckets g)) groups)"

definition fetchQuota ::
    "'h keeperEnv \<Rightarrow> 'h cpaEnv \<Rightarrow> quotaCodec \<Rightarrow> string \<Rightarrow> instant \<Rightarrow> 'h \<Rightarrow> (keeperFailure + windowStat list \<times> string) \<times> 'h" where
  "fetchQuota x c C authIndex now h =
     (if cx_apiKey c = [] then (Inl (fail_code ''configuration_error''), h)
      else case cx_do c (cx_baseURL c @ ''/v0/management/quota/fetch'') (cx_apiKey c) (qc_cpaBody C authIndex) h of
        (None, h) \<Rightarrow> (Inl (fail_code (if kx_expired x h then ''timeout'' else ''connection_failed'')), h)
      | (Some a, h) \<Rightarrow>
        if ka_Status a \<noteq> 200 then (Inl (keeperHTTPError x a), h)
        else (case ka_Body a of
            None \<Rightarrow> Inl (fail_code ''invalid_response'')
          | Some raw \<Rightarrow>
            (case qc_cpaQuota C (take (2 ^ 20) raw) of
               None \<Rightarrow> Inl (fail_code ''invalid_response'')
             | Some (sub, groups) \<Rightarrow>
               Inr (cpa_windows now groups, case sub of None \<Rightarrow> [] | Some sub \<Rightarrow> subscription_plan sub)), h))"

text \<open>Each identity in turn, failures left out; \<open>okAny\<close> when one of them had something to tell.\<close>

fun cpa_rounds ::
    "'h keeperEnv \<Rightarrow> 'h cpaEnv \<Rightarrow> quotaCodec \<Rightarrow> instant \<Rightarrow> string list \<Rightarrow> windowStat list \<times> string \<times> bool \<Rightarrow> 'h \<Rightarrow>
     (windowStat list \<times> string \<times> bool) \<times> 'h" where
  "cpa_rounds x c C now [] acc h = (acc, h)"
| "cpa_rounds x c C now (index # rest) (windows, plan, okAny) h =
     (case fetchQuota x c C index now h of
        (Inl e, h) \<Rightarrow> cpa_rounds x c C now rest (windows, plan, okAny) h
      | (Inr (w, p), h) \<Rightarrow>
        cpa_rounds x c C now rest
          (windows @ w, if plan = [] then p else plan, okAny \<or> w \<noteq> [] \<or> p \<noteq> []) h)"

definition cpa_key :: "string list \<Rightarrow> string" where
  "cpa_key authIndexes = ''cpa'' @ [CHR 0x00] @ quota_key authIndexes"

definition cpaQuotaFallback ::
    "'h statsSource \<Rightarrow> 'h keeperEnv \<Rightarrow> string list \<Rightarrow> instant \<Rightarrow> refreshes \<Rightarrow> 'h \<Rightarrow>
     (windowStat list \<times> string \<times> bool) \<times> refreshes \<times> 'h" where
  "cpaQuotaFallback s x authIndexes now lastRefresh h =
     (case sc_cpa s of
        None \<Rightarrow> (([], [], False), lastRefresh, h)
      | Some c \<Rightarrow>
        if authIndexes = [] \<or> throttled lastRefresh (cpa_key authIndexes) now then (([], [], False), lastRefresh, h)
        else (case cpa_rounds x c (sc_codec s) now authIndexes ([], [], False) h of
            (out, h) \<Rightarrow> (out, lastRefresh(cpa_key authIndexes \<mapsto> now), h)))"

section \<open>Identities\<close>

definition readIdentities :: "'h statsSource \<Rightarrow> 'h \<Rightarrow> bytes \<times> 'h" where
  "readIdentities s h =
     (case sc_client s of
        None \<Rightarrow> ([], h)
      | Some x \<Rightarrow>
        (case get_body x ''/api/v1/usage/identities'' h of (Inl e, h) \<Rightarrow> ([], h) | (Inr raw, h) \<Rightarrow> (raw, h)))"

definition parseIdentityIndexes :: "quotaCodec \<Rightarrow> bytes \<Rightarrow> string list" where
  "parseIdentityIndexes C raw =
     (if raw = [] then []
      else case qc_identities C raw of None \<Rightarrow> [] | Some ids \<Rightarrow> fold add_index ids [])"

definition identityIndexes :: "'h statsSource \<Rightarrow> 'h \<Rightarrow> string list \<times> 'h" where
  "identityIndexes s h = (case readIdentities s h of (raw, h) \<Rightarrow> (parseIdentityIndexes (sc_codec s) raw, h))"

fun first_plan :: "string set \<Rightarrow> (string \<times> subscription option) list \<Rightarrow> string" where
  "first_plan wanted [] = []"
| "first_plan wanted ((i, sub) # rows) =
     (case sub of
        None \<Rightarrow> first_plan wanted rows
      | Some sub \<Rightarrow>
        if trim_space i \<in> wanted \<and> subscription_plan sub \<noteq> [] then subscription_plan sub else first_plan wanted rows)"

definition parseIdentityPlan :: "quotaCodec \<Rightarrow> bytes \<Rightarrow> string set \<Rightarrow> string" where
  "parseIdentityPlan C raw wanted = (case qc_plans C raw of None \<Rightarrow> [] | Some rows \<Rightarrow> first_plan wanted rows)"

definition identityPlan :: "'h statsSource \<Rightarrow> string list \<Rightarrow> 'h \<Rightarrow> string \<times> 'h" where
  "identityPlan s authIndexes h =
     (let wanted = set (map trim_space authIndexes) - {[]}
      in if wanted = {} then ([], h)
         else case readIdentities s h of (raw, h) \<Rightarrow> (parseIdentityPlan (sc_codec s) raw wanted, h))"

section \<open>Reset cards\<close>

record resetCardStat =
  rc_ExpiresAt :: instant
  rc_RemainingDays :: int
  rc_RemainingHours :: int

definition path_escape :: "string \<Rightarrow> string" where
  "path_escape s =
     concat (map (\<lambda>c. let n = of_char c :: nat in
       if is_digit c \<or> 65 \<le> n \<and> n \<le> 90 \<or> 97 \<le> n \<and> n \<le> 122 \<or>
          c \<in> {CHR ''-'', CHR ''_'', CHR ''.'', CHR ''~'', CHR ''$'', CHR ''&'', CHR ''+'', CHR '':'', CHR ''='', CHR ''@''}
       then [c] else [CHR ''%'', hex_upper (n div 16), hex_upper (n mod 16)]) s)"

definition reset_card :: "instant \<Rightarrow> string \<Rightarrow> resetCardStat option" where
  "reset_card now expiresAt =
     map_option (\<lambda>due. case remainingCountdown due now of (days, hours) \<Rightarrow>
       \<lparr>rc_ExpiresAt = due, rc_RemainingDays = days, rc_RemainingHours = hours\<rparr>) (parseQuotaResetAt expiresAt)"

definition parseResetCredits :: "quotaCodec \<Rightarrow> bytes \<Rightarrow> instant \<Rightarrow> keeperFailure + int option \<times> resetCardStat list" where
  "parseResetCredits C raw now =
     (case qc_credits C raw of
        None \<Rightarrow> Inl (fail_code ''invalid_response'')
      | Some (availableCount, credits) \<Rightarrow>
        (let avail = filter (\<lambda>(status, expiry). to_lower (trim_space status) \<in> {[], ''available''}) credits;
             items = List.map_filter (\<lambda>(status, expiry). reset_card now expiry) avail
         in case availableCount of
              Some n \<Rightarrow> Inr (Some n, items)
            | None \<Rightarrow> if avail = [] then Inr (None, []) else Inr (Some (int (length avail)), items)))"

definition fetchResetCards ::
    "'h keeperEnv \<Rightarrow> quotaCodec \<Rightarrow> string \<Rightarrow> instant \<Rightarrow> 'h \<Rightarrow> (keeperFailure + int option \<times> resetCardStat list) \<times> 'h" where
  "fetchResetCards x C authIndex now h =
     (if authIndex = [] then (Inr (None, []), h)
      else case authenticatedRequest x ''GET'' (''/api/v1/quota/reset-credits/'' @ path_escape authIndex) [] h of
        (Inl e, h) \<Rightarrow> (Inl e, h)
      | (Inr a, h) \<Rightarrow>
        if ka_Status a \<noteq> 200 then
          (if 400 \<le> ka_Status a \<and> ka_Status a < 500 \<and> ka_Status a \<notin> {401, 403, 429} then (Inr (None, []), h)
           else (Inl (keeperHTTPError x a), h))
        else (case readKeeperBody (kx_expired x h) a of
            Inl e \<Rightarrow> Inl e
          | Inr raw \<Rightarrow> parseResetCredits C raw now, h))"

text \<open>The first identity with a count or a list ends the search, and its count replaces the cached one.\<close>

fun find_cards ::
    "'h keeperEnv \<Rightarrow> quotaCodec \<Rightarrow> instant \<Rightarrow> string set \<Rightarrow> string list \<Rightarrow> int option \<Rightarrow> 'h \<Rightarrow>
     (keeperFailure + int option \<times> resetCardStat list) \<times> 'h" where
  "find_cards x C now seen [] cards h = (Inr (cards, []), h)"
| "find_cards x C now seen (index # rest) cards h =
     (let index = trim_space index
      in if index = [] \<or> index \<in> seen then find_cards x C now seen rest cards h
         else case fetchResetCards x C index now h of
           (Inl e, h) \<Rightarrow> (Inl e, h)
         | (Inr (available, items), h) \<Rightarrow>
           if available \<noteq> None \<or> items \<noteq> [] then (Inr (if available \<noteq> None then available else cards, items), h)
           else find_cards x C now (insert index seen) rest cards h)"

definition reset_cards ::
    "'h statsSource \<Rightarrow> 'h keeperEnv \<Rightarrow> bool \<Rightarrow> string list \<Rightarrow> instant \<Rightarrow> cacheRead \<Rightarrow> 'h \<Rightarrow>
     (keeperFailure + int option \<times> resetCardStat list) \<times> 'h" where
  "reset_cards s x wantResetCards authIndexes now r h =
     (if wantResetCards
      then find_cards x (sc_codec s) now {}
        (authIndexes @ (case qc_refs (sc_codec s) (rd_Raw r) of None \<Rightarrow> [] | Some refs \<Rightarrow> refs)) (rd_Cards r) h
      else (Inr (rd_Cards r, []), h))"

section \<open>The whole collection\<close>

record quotaData =
  co_Windows :: "windowStat list"
  co_Cards :: "int option"
  co_CardItems :: "resetCardStat list"
  co_Plan :: string

definition bound_indexes :: "'h statsSource \<Rightarrow> string list \<Rightarrow> 'h \<Rightarrow> string list \<times> 'h" where
  "bound_indexes s authIndexes h =
     (if quotaIndexesLookRedacted authIndexes then
        (case identityIndexes s h of
           (catalog, h) \<Rightarrow> (if catalog \<noteq> [] then expandQuotaAuthIndexes authIndexes catalog else authIndexes, h))
      else (authIndexes, h))"

text \<open>The first read and the polling, which starts when it found nothing.\<close>

definition read_and_poll ::
    "nat \<Rightarrow> 'h statsSource \<Rightarrow> string list \<Rightarrow> instant \<Rightarrow> 'h \<Rightarrow> ((keeperFailure + cacheRead) \<times> 'h) option" where
  "read_and_poll fuel s authIndexes now h =
     (case quotaCacheOnce s authIndexes now h of
        (Inl e, h) \<Rightarrow> Some (Inl e, h)
      | (Inr r, h) \<Rightarrow> if quotaCacheHasData r then Some (Inr r, h) else poll fuel s authIndexes now (sc_now s h) r h)"

definition with_fallback ::
    "'h statsSource \<Rightarrow> 'h keeperEnv \<Rightarrow> string list \<Rightarrow> instant \<Rightarrow> cacheRead \<Rightarrow> refreshes \<Rightarrow> 'h \<Rightarrow> cacheRead \<times> refreshes \<times> 'h" where
  "with_fallback s x authIndexes now r lastRefresh h =
     (if quotaCacheHasData r then (r, lastRefresh, h)
      else case cpaQuotaFallback s x authIndexes now lastRefresh h of
        ((windows, plan, okAny), lastRefresh, h) \<Rightarrow>
          (if okAny then r\<lparr>rd_Windows := rd_Windows r @ windows, rd_Plan := (if rd_Plan r = [] then plan else rd_Plan r)\<rparr> else r,
           lastRefresh, h))"

text \<open>Without a client the catalogue is empty, nothing is refreshed and the first read is refused.\<close>

definition collectWindows ::
    "nat \<Rightarrow> 'h statsSource \<Rightarrow> string list \<Rightarrow> instant \<Rightarrow> bool \<Rightarrow> refreshes \<Rightarrow> 'h \<Rightarrow>
     ((keeperFailure + quotaData) \<times> refreshes \<times> 'h) option" where
  "collectWindows fuel s authIndexes now wantResetCards lastRefresh h =
     (case sc_client s of
        None \<Rightarrow> Some (Inl (fail_code ''configuration_error''), lastRefresh, h)
      | Some x \<Rightarrow>
        (case bound_indexes s authIndexes h of (authIndexes, h) \<Rightarrow>
         case triggerQuotaRefresh s authIndexes lastRefresh h of (lastRefresh, h) \<Rightarrow>
         case read_and_poll fuel s authIndexes now h of
           None \<Rightarrow> None
         | Some (Inl e, h) \<Rightarrow> Some (Inl e, lastRefresh, h)
         | Some (Inr r, h) \<Rightarrow>
           (case with_fallback s x authIndexes now r lastRefresh h of (r, lastRefresh, h) \<Rightarrow>
            case reset_cards s x wantResetCards authIndexes now r h of
              (Inl e, h) \<Rightarrow> Some (Inl e, lastRefresh, h)
            | (Inr (cards, items), h) \<Rightarrow>
              (case (if rd_Plan r = [] then identityPlan s authIndexes h else (rd_Plan r, h)) of
                 (plan, h) \<Rightarrow>
                   Some (Inr \<lparr>co_Windows = rd_Windows r, co_Cards = cards, co_CardItems = items, co_Plan = plan\<rparr>,
                         lastRefresh, h)))))"

section \<open>What a collected window looks like\<close>

definition window_ok :: "windowStat \<Rightarrow> bool" where
  "window_ok w \<longleftrightarrow>
     w_GroupKey w \<in> {''5h'', ''weekly''} \<and> 0 \<le> w_RemainingDays w \<and> w_RemainingHours w \<in> {0..23} \<and>
     (w_ResetAt w = None \<longrightarrow> w_RemainingDays w = 0 \<and> w_RemainingHours w = 0) \<and>
     (\<not> w_PercentKnown w \<longrightarrow> w_UsedPercent w = 0 \<and> w_RemainingPercent w = 0) \<and>
     (\<not> w_UsageAvailable w \<longrightarrow> w_UsedTokens w = 0)"

definition card_ok :: "resetCardStat \<Rightarrow> bool" where
  "card_ok c \<longleftrightarrow> 0 \<le> rc_RemainingDays c \<and> rc_RemainingHours c \<in> {0..23}"

lemma remainingCountdown_ok:
  "remainingCountdown due now = (days, hours) \<Longrightarrow> 0 \<le> days \<and> 0 \<le> hours \<and> hours \<le> 23"
  using pos_mod_bound [of 86400 "max 0 \<lfloor>duration_seconds (time_sub due now)\<rfloor>"]
  by (auto simp: remainingCountdown_def Let_def)

lemma window_ok_new: "grp \<in> {''5h'', ''weekly''} \<Longrightarrow> window_ok (newWindow grp label)"
  by (auto simp: window_ok_def newWindow_def)

lemma window_ok_percents: "window_ok w \<Longrightarrow> window_ok (applyWindowPercents w used remaining)"
  by (auto simp: window_ok_def applyWindowPercents_def split: option.splits)

lemma window_ok_tokens: "window_ok w \<Longrightarrow> window_ok (w\<lparr>w_UsageAvailable := True, w_UsedTokens := n\<rparr>)"
  by (simp add: window_ok_def)

lemma window_ok_reset: "window_ok w \<Longrightarrow> window_ok (with_reset due now w)"
  by (auto simp: window_ok_def with_reset_def dest: remainingCountdown_ok split: option.splits prod.splits)

lemma cpaWindowGroupKey_group: "cpaWindowGroupKey w = Some grp \<Longrightarrow> grp \<in> {''5h'', ''weekly''}"
  by (auto simp: cpaWindowGroupKey_def Let_def split: if_splits)

lemma keeperWindowGroup_group: "keeperWindowGroup key label gk = Some grp \<Longrightarrow> grp \<in> {''5h'', ''weekly''}"
  by (auto simp: keeperWindowGroup_def Let_def dest: cpaWindowGroupKey_group split: if_splits)

lemmas window_oks = window_ok_new window_ok_percents window_ok_tokens window_ok_reset

lemma row_window_ok: "row_window now r = Some w \<Longrightarrow> window_ok w"
  by (auto simp: row_window_def Let_def intro!: window_oks dest!: keeperWindowGroup_group split: option.splits)

lemma cpaWindowStat_ok: "grp \<in> {''5h'', ''weekly''} \<Longrightarrow> window_ok (cpaWindowStat grp label resetTime fraction now)"
  by (auto simp: cpaWindowStat_def Let_def intro!: window_oks)

lemma map_filterE:
  assumes "y \<in> set (List.map_filter f xs)"
  obtains x where "x \<in> set xs" and "f x = Some y"
  using assms by (auto simp: List.map_filter_def)

lemma cpa_windows_ok: "w \<in> set (cpa_windows now groups) \<Longrightarrow> window_ok w"
  by (auto simp: cpa_windows_def elim!: map_filterE split: option.splits
      intro!: cpaWindowStat_ok dest!: cpaWindowGroupKey_group)

lemma reset_card_ok: "reset_card now s = Some c \<Longrightarrow> card_ok c"
proof -
  assume "reset_card now s = Some c"
  then obtain due where c: "c = (case remainingCountdown due now of (days, hours) \<Rightarrow>
      \<lparr>rc_ExpiresAt = due, rc_RemainingDays = days, rc_RemainingHours = hours\<rparr>)" by (auto simp: reset_card_def)
  show ?thesis by (cases "remainingCountdown due now") (use remainingCountdown_ok in \<open>auto simp: c card_ok_def\<close>)
qed

definition read_ok :: "cacheRead \<Rightarrow> bool" where
  "read_ok r \<longleftrightarrow> (\<forall>w\<in>set (rd_Windows r). window_ok w)"

lemma read_items_ok: "read_ok r \<Longrightarrow> read_ok (read_items now items r)"
proof (induction now items r rule: read_items.induct)
  case (3 now q items r)
  show ?case unfolding read_items.simps
    by (rule "3.IH") (use "3.prems" in \<open>auto simp: read_ok_def elim!: map_filterE dest: row_window_ok\<close>)
qed simp_all

lemma parseQuotaCache_ok: "parseQuotaCache C raw now = Inr r \<Longrightarrow> read_ok r"
  by (auto simp: parseQuotaCache_def intro!: read_items_ok split: cacheEnvelope.splits) (simp_all add: read_ok_def no_data_def)

lemma quotaCacheOnce_ok: "quotaCacheOnce s idx now h = (Inr r, h') \<Longrightarrow> read_ok r"
  by (auto simp: quotaCacheOnce_def dest: parseQuotaCache_ok split: option.splits prod.splits sum.splits)

lemma poll_ok: "poll fuel s idx now start r h = Some (Inr r', h') \<Longrightarrow> read_ok r \<Longrightarrow> read_ok r'"
  by (induction fuel s idx now start r h rule: poll.induct)
    (auto simp: Let_def dest: quotaCacheOnce_ok split: if_splits prod.splits sum.splits)

lemma read_and_poll_ok: "read_and_poll fuel s idx now h = Some (Inr r, h') \<Longrightarrow> read_ok r"
  by (auto simp: read_and_poll_def dest: quotaCacheOnce_ok poll_ok split: if_splits prod.splits sum.splits)

lemma fetchQuota_ok: "fetchQuota x c C i now h = (Inr (ws, p), h') \<Longrightarrow> w \<in> set ws \<Longrightarrow> window_ok w"
  by (auto simp: fetchQuota_def dest: cpa_windows_ok split: if_splits prod.splits option.splits)

lemma cpa_rounds_ok:
  "cpa_rounds x c C now ids acc h = ((ws, p', b), h') \<Longrightarrow> \<forall>w\<in>set (fst acc). window_ok w \<Longrightarrow> \<forall>w\<in>set ws. window_ok w"
proof (induction x c C now ids acc h rule: cpa_rounds.induct)
  case (2 x c C now index rest windows plan okAny h)
  show ?case
  proof (cases "fetchQuota x c C index now h")
    case (Pair r h1)
    show ?thesis
    proof (cases r)
      case (Inl e)
      with 2 Pair show ?thesis by simp
    next
      case (Inr wp)
      obtain new p where wp: "wp = (new, p)" by (cases wp)
      have nw: "\<forall>w\<in>set new. window_ok w" using fetchQuota_ok [of x c C index now h new p h1] Pair Inr wp by simp
      from "2.prems"(1) Pair Inr wp have "cpa_rounds x c C now rest
          (windows @ new, if plan = [] then p else plan, okAny \<or> new \<noteq> [] \<or> p \<noteq> []) h1 = ((ws, p', b), h')"
        by simp
      moreover have "\<forall>w\<in>set (windows @ new). window_ok w" using nw "2.prems"(2) by auto
      ultimately show ?thesis using "2.IH"(2) [OF Pair [symmetric] Inr wp [symmetric]] by simp
    qed
  qed
qed simp

lemma cpaQuotaFallback_ok:
  "cpaQuotaFallback s x ids now lr h = ((ws, p, b), lr', h') \<Longrightarrow> w \<in> set ws \<Longrightarrow> window_ok w"
  by (auto simp: cpaQuotaFallback_def dest: cpa_rounds_ok split: option.splits if_splits prod.splits)

lemma with_fallback_ok: "with_fallback s x ids now r lr h = (r', lr', h') \<Longrightarrow> read_ok r \<Longrightarrow> read_ok r'"
  by (auto simp: with_fallback_def read_ok_def dest: cpaQuotaFallback_ok split: if_splits prod.splits)

lemma fetchResetCards_ok:
  "fetchResetCards x C i now h = (Inr (n, items), h') \<Longrightarrow> c \<in> set items \<Longrightarrow> card_ok c"
  by (auto simp: fetchResetCards_def parseResetCredits_def Let_def elim!: map_filterE
      dest: reset_card_ok split: if_splits prod.splits sum.splits option.splits)

lemma find_cards_ok:
  "find_cards x C now seen ids cards h = (Inr (n, items), h') \<Longrightarrow> \<forall>c\<in>set items. card_ok c"
  by (induction x C now seen ids cards h rule: find_cards.induct)
    (auto simp: Let_def dest: fetchResetCards_ok split: if_splits prod.splits sum.splits)

lemma reset_cards_ok:
  "reset_cards s x b ids now r h = (Inr (n, items), h') \<Longrightarrow> \<forall>c\<in>set items. card_ok c"
  by (auto simp: reset_cards_def dest: find_cards_ok split: if_splits)

text \<open>C30. Every window a collection returns belongs to one of the two groups, has days and hours left in their
  ranges, and zeros wherever the answer said nothing; the cards have such days and hours too.\<close>

theorem collectWindows_type:
  assumes "collectWindows fuel s authIndexes now wantResetCards lastRefresh h = Some (Inr c, lastRefresh', h')"
  shows "(\<forall>w\<in>set (co_Windows c). window_ok w) \<and> (\<forall>card\<in>set (co_CardItems c). card_ok card)"
proof -
  obtain x where x: "sc_client s = Some x" using assms by (auto simp: collectWindows_def split: option.splits)
  from assms show ?thesis unfolding collectWindows_def x
    by (auto dest!: read_and_poll_ok reset_cards_ok with_fallback_ok simp: read_ok_def
        split: prod.splits option.splits sum.splits)
qed


section \<open>The polling ends\<close>

text \<open>What is asked of the clock: a pause lasts at least as long as it should and no exchange turns it back.\<close>

definition clock_moves :: "'h statsSource \<Rightarrow> bool" where
  "clock_moves s \<longleftrightarrow>
     (\<forall>d h. sc_now s h + d \<le> sc_now s (sc_sleep s d h)) \<and>
     (\<forall>x m p b h. sc_client s = Some x \<longrightarrow> sc_now s h \<le> sc_now s (snd (kx_do x m p b h)))"

lemma clock_request:
  assumes "clock_moves s" and "sc_client s = Some x"
  shows "sc_now s h \<le> sc_now s (snd (keeper_request x m p b h))"
proof -
  have "sc_now s h \<le> sc_now s (snd (kx_do x m p b h))" using assms by (simp add: clock_moves_def)
  moreover have "snd (keeper_request x m p b h) = snd (kx_do x m p b h)"
    by (auto simp: keeper_request_def split: prod.split option.split)
  ultimately show ?thesis by simp
qed

lemma clock_authenticated:
  assumes "clock_moves s" and "sc_client s = Some x"
  shows "sc_now s h \<le> sc_now s (snd (authenticatedRequest x m p b h))"
proof -
  note c = clock_request [OF assms]
  obtain r1 h1 where 1: "keeper_request x m p b h = (r1, h1)" by (cases "keeper_request x m p b h")
  obtain r2 h2 where 2: "keeper_request x ''POST'' loginPath (kx_loginBody x (kx_password x)) h1 = (r2, h2)"
    by (cases "keeper_request x ''POST'' loginPath (kx_loginBody x (kx_password x)) h1")
  show ?thesis
    using c [of h m p b] c [of h1 "''POST''" loginPath "kx_loginBody x (kx_password x)"] c [of h2 m p b]
    by (auto simp: authenticatedRequest_def 1 2 split: sum.split)
qed

lemma clock_once:
  assumes "clock_moves s"
  shows "sc_now s h \<le> sc_now s (snd (quotaCacheOnce s idx now h))"
proof (cases "sc_client s")
  case (Some x)
  let ?r = "authenticatedRequest x ''POST'' ''/api/v1/quota/cache'' (qc_body (sc_codec s) idx) h"
  have "snd (quotaCacheOnce s idx now h) = snd ?r"
    by (auto simp: quotaCacheOnce_def Some post_body_def split: prod.split sum.split)
  then show ?thesis using clock_authenticated [OF assms Some] by simp
qed (simp add: quotaCacheOnce_def)

lemma poll_interval_pos: "0 < poll_interval s"
  by (simp add: poll_interval_def quotaPollInterval_def)

lemma poll_ends:
  assumes "clock_moves s" and "poll_budget s < 2 ^ 63"
    and "poll_budget s \<le> sc_now s h - start + poll_interval s * int n"
  shows "poll (Suc n) s idx now start r h \<noteq> None"
  using assms(3)
proof (induction n arbitrary: r h)
  case 0
  then have "poll_budget s \<le> time_sub (sc_now s h) start" using assms(2) by (auto simp: time_sub_def le_max_iff_disj)
  then show ?case by (simp add: Let_def)
next
  case (Suc n)
  let ?h = "sc_sleep s (poll_interval s) h"
  obtain q h2 where q: "quotaCacheOnce s idx now ?h = (q, h2)" by (cases "quotaCacheOnce s idx now ?h")
  have "sc_now s h + poll_interval s \<le> sc_now s ?h" using assms(1) by (simp add: clock_moves_def)
  moreover have "sc_now s ?h \<le> sc_now s h2" using clock_once [OF assms(1), of ?h idx now] q by simp
  ultimately have "poll_budget s \<le> sc_now s h2 - start + poll_interval s * int n"
    using Suc.prems by (simp add: algebra_simps)
  then have i: "poll (Suc n) s idx now start r' h2 \<noteq> None" for r' by (rule Suc.IH)
  show ?case unfolding poll.simps(2) [of "Suc n"]
    using i by (auto simp: Let_def q simp del: poll.simps split: sum.split)
qed

text \<open>The fuel with which every round of polling ends: one round more than the pauses that fill the budget.\<close>

definition polls_end :: "nat \<Rightarrow> 'h statsSource \<Rightarrow> bool" where
  "polls_end fuel s \<longleftrightarrow>
     0 < fuel \<and> clock_moves s \<and> poll_budget s < 2 ^ 63 \<and> poll_budget s \<le> poll_interval s * int (fuel - 1)"

lemma collectWindows_ends:
  assumes "polls_end fuel s"
  shows "collectWindows fuel s authIndexes now wantResetCards lastRefresh h \<noteq> None"
proof -
  from assms obtain n where n: "fuel = Suc n" "clock_moves s" "poll_budget s < 2 ^ 63" "poll_budget s \<le> poll_interval s * int n"
    by (cases fuel) (simp_all add: polls_end_def)
  have p: "poll (Suc n) s idx now (sc_now s h') r h' \<noteq> None" for idx r h'
    by (rule poll_ends) (use n in simp_all)
  then have r: "read_and_poll fuel s idx now h' \<noteq> None" for idx h'
    unfolding n(1) by (auto simp del: poll.simps simp: read_and_poll_def split: prod.split sum.split)
  obtain idx h1 where 1: "bound_indexes s authIndexes h = (idx, h1)" by (cases "bound_indexes s authIndexes h")
  obtain lr h2 where 2: "triggerQuotaRefresh s idx lastRefresh h1 = (lr, h2)" by (cases "triggerQuotaRefresh s idx lastRefresh h1")
  obtain out where 3: "read_and_poll fuel s idx now h2 = Some out" using r by blast
  show ?thesis by (auto simp: collectWindows_def 1 2 3 split: option.split prod.split sum.split)
qed

text \<open>C31. A collection returns, provided the pauses and the exchanges move the clock forward: the fuel that
  covers the polling budget is enough, which is seven rounds for the default knobs.\<close>

theorem collectWindows_returns:
  assumes "clock_moves s" and "poll_budget s < 2 ^ 63" and "poll_budget s \<le> poll_interval s * int n"
  shows "collectWindows (Suc n) s authIndexes now wantResetCards lastRefresh h \<noteq> None"
  using assms by (intro collectWindows_ends) (simp add: polls_end_def)

text \<open>A keeper that never has anything in its cache, and a clock that only the pauses move.\<close>

definition empty_codec :: quotaCodec where
  "empty_codec = \<lparr>qc_body = (\<lambda>_. []), qc_cache = (\<lambda>_. CacheEmpty), qc_refs = (\<lambda>_. None), qc_identities = (\<lambda>_. None),
     qc_plans = (\<lambda>_. None), qc_credits = (\<lambda>_. None), qc_cpaBody = (\<lambda>_. []), qc_cpaQuota = (\<lambda>_. None)\<rparr>"

definition cold_keeper :: "int keeperEnv" where
  "cold_keeper = \<lparr>kx_do = (\<lambda>m p b t. (Some \<lparr>ka_Status = 200, ka_RetryAfter = [], ka_Body = Some []\<rparr>, t)),
     kx_expired = (\<lambda>_. False), kx_password = [], kx_loginBody = (\<lambda>_. []), kx_until = (\<lambda>_. None)\<rparr>"

definition cold_source :: "int statsSource" where
  "cold_source = \<lparr>sc_client = Some cold_keeper, sc_cpa = None, sc_codec = empty_codec, sc_now = (\<lambda>t. t),
     sc_sleep = (\<lambda>d t. t + d), sc_pollInterval = 0, sc_pollBudget = 0\<rparr>"

theorem collectWindows_returns_witness:
  "collectWindows 7 cold_source [''a''] 0 False Map.empty 0 \<noteq> None"
proof -
  have "clock_moves cold_source" by (simp add: clock_moves_def cold_source_def cold_keeper_def)
  moreover have "poll_budget cold_source < 2 ^ 63" "poll_budget cold_source \<le> poll_interval cold_source * int 6"
    by (simp_all add: poll_budget_def poll_interval_def cold_source_def quotaPollBudget_def quotaPollInterval_def)
  ultimately have "collectWindows (Suc 6) cold_source [''a''] 0 False Map.empty 0 \<noteq> None"
    by (rule collectWindows_returns)
  then show ?thesis by simp
qed

section \<open>The throttle\<close>

text \<open>Whether a trigger asks the keeper: it makes an exchange.  The instants at which the triggers of a run
  asked about a set of identities.\<close>

definition logging :: "'h statsSource \<Rightarrow> (exchange list \<times> 'h) statsSource" where
  "logging s =
     \<lparr>sc_client = map_option logged (sc_client s), sc_cpa = None, sc_codec = sc_codec s, sc_now = (\<lambda>(l, h). sc_now s h),
      sc_sleep = (\<lambda>d (l, h). (l, sc_sleep s d h)), sc_pollInterval = sc_pollInterval s, sc_pollBudget = sc_pollBudget s\<rparr>"

fun asked_at :: "'h statsSource \<Rightarrow> string \<Rightarrow> (string list \<times> 'h) list \<Rightarrow> refreshes \<Rightarrow> instant list" where
  "asked_at s key [] lastRefresh = []"
| "asked_at s key ((idx, h) # rest) lastRefresh =
     (case triggerQuotaRefresh (logging s) idx lastRefresh ([], h) of
        (lastRefresh', made, _) \<Rightarrow>
          (if made \<noteq> [] \<and> quota_key idx = key then [sc_now s h] else []) @ asked_at s key rest lastRefresh')"

lemma authenticatedRequest_logs: "fst (snd (authenticatedRequest (logged x) m p b ([], h))) \<noteq> []"
proof -
  have n: "fst (snd (keeper_request (logged x) m p b (l, h))) \<noteq> []" for m p b l h
    using keeper_request_logged [of x m p b l h] by auto
  obtain r1 l1 h1 where 1: "keeper_request (logged x) m p b ([], h) = (r1, l1, h1)"
    by (cases "keeper_request (logged x) m p b ([], h)") auto
  obtain r2 l2 h2 where 2: "keeper_request (logged x) ''POST'' loginPath (kx_loginBody x (kx_password x)) (l1, h1) = (r2, l2, h2)"
    by (cases "keeper_request (logged x) ''POST'' loginPath (kx_loginBody x (kx_password x)) (l1, h1)") auto
  show ?thesis
    using n [of m p b "[]" h] n [of "''POST''" loginPath "kx_loginBody x (kx_password x)" l1 h1] n [of m p b l2 h2]
    by (auto simp: authenticatedRequest_def 1 2 split: sum.split)
qed

lemma trigger_logging:
  assumes "triggerQuotaRefresh (logging s) idx lr ([], h) = (lr', made, h')"
  shows "if made = [] then lr' = lr else \<not> throttled lr (quota_key idx) (sc_now s h) \<and> lr' = lr(quota_key idx \<mapsto> sc_now s h)"
proof (cases "sc_client s")
  case (Some x)
  then show ?thesis using assms authenticatedRequest_logs [of x "''POST''" "''/api/v1/quota/refresh''" "qc_body (sc_codec s) idx" h]
    by (auto simp: triggerQuotaRefresh_def logging_def split: if_splits)
qed (use assms in \<open>simp add: triggerQuotaRefresh_def logging_def\<close>)

definition spaced :: "instant list \<Rightarrow> bool" where
  "spaced ts \<longleftrightarrow> successively (\<lambda>t u. quotaRefreshThrottle \<le> time_sub u t) ts"

lemma asked_at_spaced:
  "spaced (asked_at s key run lr) \<and>
   (\<forall>t ts u. asked_at s key run lr = t # ts \<and> lr key = Some u \<longrightarrow> quotaRefreshThrottle \<le> time_sub t u)"
proof (induction run arbitrary: lr)
  case (Cons call run)
  obtain idx h where c: "call = (idx, h)" by (cases call)
  obtain lr' made h' where t: "triggerQuotaRefresh (logging s) idx lr ([], h) = (lr', made, h')"
    by (cases "triggerQuotaRefresh (logging s) idx lr ([], h)") auto
  note l = trigger_logging [OF t] and i = Cons.IH [of lr']
  show ?case
  proof (cases "made \<noteq> [] \<and> quota_key idx = key")
    case True
    then have e: "asked_at s key (call # run) lr = sc_now s h # asked_at s key run lr'" and k: "lr' key = Some (sc_now s h)"
      and n: "\<not> throttled lr key (sc_now s h)" using l by (auto simp: c t split: if_splits)
    have "spaced (sc_now s h # asked_at s key run lr')"
      using i k by (cases "asked_at s key run lr'") (auto simp: spaced_def)
    then show ?thesis using n by (auto simp: e throttled_def)
  next
    case False
    then have e: "asked_at s key (call # run) lr = asked_at s key run lr'" and k: "lr' key = lr key"
      using l by (auto simp: c t split: if_splits)
    show ?thesis unfolding e using i k by simp
  qed
qed (simp add: spaced_def)

text \<open>Whatever sets of identities the triggers of a run are given and at whatever instants, the exchanges
  made about one set are at least the throttle apart.\<close>

theorem triggerQuotaRefresh_throttled:
  "spaced (asked_at s key run Map.empty)"
  using asked_at_spaced by blast

text \<open>A keeper with one window in its cache.\<close>

definition five_hours :: quotaRow where
  "five_hours = \<lparr>qr_Key = Some ''five_hour'', qr_Label = Some ''5h'', qr_GroupKey = None, qr_GroupLabel = None,
     qr_UsedPercent = Some 25, qr_RemainingFraction = None, qr_WindowUsageTokens = Some 9, qr_ResetAt = None\<rparr>"

definition warm_codec :: quotaCodec where
  "warm_codec = empty_codec\<lparr>qc_cache := (\<lambda>_. CacheItems [None, Some \<lparr>iq_Rows = [five_hours], iq_Subscription = None, iq_Cards = None\<rparr>])\<rparr>"

theorem collectWindows_type_witness:
  "\<exists>c lr t. collectWindows 1 (cold_source\<lparr>sc_codec := warm_codec\<rparr>) [''a''] 0 False Map.empty 0 = Some (Inr c, lr, t) \<and>
     co_Windows c \<noteq> [] \<and> (\<forall>w\<in>set (co_Windows c). window_ok w)"
proof -
  let ?s = "cold_source\<lparr>sc_codec := warm_codec\<rparr>"
  obtain w where w: "row_window 0 five_hours = Some w"
    by (simp add: row_window_def five_hours_def keeperWindowGroup_def derefString_def Let_def go_simps)
  have a: "quotaIndexesLookRedacted [''a''] = False"
    by (simp add: quotaIndexesLookRedacted_def keeperSensitiveMask_def go_simps)
  have "\<exists>c lr t. collectWindows 1 ?s [''a''] 0 False Map.empty 0 = Some (Inr c, lr, t) \<and> co_Windows c = [w]"
    by (simp add: collectWindows_def bound_indexes_def a
        triggerQuotaRefresh_def throttled_def authenticatedRequest_def keeper_request_def cold_source_def cold_keeper_def
        read_and_poll_def quotaCacheOnce_def post_body_def readKeeperBody_def maxBody_def parseQuotaCache_def warm_codec_def
        empty_codec_def no_data_def List.map_filter_def w quotaCacheHasData_def with_fallback_def reset_cards_def
        identityPlan_def readIdentities_def get_body_def parseIdentityPlan_def Let_def del: poll.simps split: prod.split)
  then obtain c lr t where c: "collectWindows 1 ?s [''a''] 0 False Map.empty 0 = Some (Inr c, lr, t)" "co_Windows c = [w]" by blast
  with collectWindows_type [OF c(1)] show ?thesis by auto
qed

section \<open>Making a source\<close>

text \<open>What \<open>url.Parse\<close> makes of an address.\<close>

record parsedURL =
  pu_Host :: string
  pu_Hostname :: string
  pu_Scheme :: string
  pu_User :: bool
  pu_RawQuery :: string
  pu_ForceQuery :: bool
  pu_Fragment :: string
  pu_String :: string

definition client_base :: "(string \<Rightarrow> parsedURL option) \<Rightarrow> string \<Rightarrow> string option" where
  "client_base parse baseURL =
     (case parse (trim_space baseURL) of
        None \<Rightarrow> None
      | Some u \<Rightarrow>
        if pu_Host u = [] \<or> pu_Hostname u = [] \<or> pu_Scheme u \<notin> {''http'', ''https''} \<or> pu_User u \<or> pu_RawQuery u \<noteq> [] \<or>
           pu_ForceQuery u \<or> pu_Fragment u \<noteq> []
        then None else Some (trim_right_set {CHR ''/''} (pu_String u)))"

text \<open>A client is its address and the name of the variable with its secret.\<close>

definition newKeeperClient :: "(string \<Rightarrow> parsedURL option) \<Rightarrow> string \<Rightarrow> string \<Rightarrow> (string \<times> string) option" where
  "newKeeperClient parse baseURL passwordEnv = map_option (\<lambda>b. (b, trim_space passwordEnv)) (client_base parse baseURL)"

definition newCPAQuotaClient :: "(string \<Rightarrow> parsedURL option) \<Rightarrow> string \<Rightarrow> string \<Rightarrow> (string \<times> string) option" where
  "newCPAQuotaClient parse baseURL apiKeyEnv = map_option (\<lambda>b. (b, trim_space apiKeyEnv)) (client_base parse baseURL)"

text \<open>The clients of a source, or the code of a refusal, empty when nothing is configured.\<close>

definition newKeeperStatsSource ::
    "(string \<Rightarrow> parsedURL option) \<Rightarrow> Config \<Rightarrow> Config \<Rightarrow> string + (string \<times> string) \<times> (string \<times> string) option" where
  "newKeeperStatsSource parse cfg loaded =
     (if trim_space (cfg_UsageKeeperURL cfg) = [] then Inl []
      else if cfg_UsageKeeperURL cfg \<noteq> cfg_UsageKeeperURL loaded \<or> cfg_UsageKeeperPasswordEnv cfg \<noteq> cfg_UsageKeeperPasswordEnv loaded \<or>
        cfg_CPAManagementURL cfg \<noteq> cfg_CPAManagementURL loaded \<or> cfg_CPAManagementKeyEnv cfg \<noteq> cfg_CPAManagementKeyEnv loaded
      then Inl ''configuration_error''
      else case newKeeperClient parse (cfg_UsageKeeperURL cfg) (cfg_UsageKeeperPasswordEnv cfg) of
        None \<Rightarrow> Inl ''configuration_error''
      | Some client \<Rightarrow>
        Inr (client,
          if trim_space (cfg_CPAManagementURL cfg) = [] then None
          else newCPAQuotaClient parse (cfg_CPAManagementURL cfg) (cfg_CPAManagementKeyEnv cfg)))"

section \<open>Exact association\<close>

fun match_indexes :: "string set \<Rightarrow> string set \<Rightarrow> string list \<Rightarrow> string list" where
  "match_indexes known seen [] = []"
| "match_indexes known seen (i # rest) =
     (let i = trim_space i
      in if i = [] \<or> i \<in> seen then match_indexes known seen rest
         else (if i \<in> known then [i] else []) @ match_indexes known (insert i seen) rest)"

definition identifyAuthIndex :: "keeperAuthName cachedResponse \<Rightarrow> string list \<Rightarrow> keeperFailure + string list" where
  "identifyAuthIndex catalog authIndexes =
     (if cr_Status catalog \<noteq> ''ready'' then
        Inl (fail_code (if cr_ErrorCode catalog \<noteq> [] then cr_ErrorCode catalog
          else if cr_Status catalog = ''disabled'' then ''configuration_error'' else ''connection_failed''))
      else Inr (match_indexes (an_AuthIndex ` set (cr_Items catalog) - {[]}) {} authIndexes))"

end
