(* ===== verification/Message.thy ===== *)
theory Message
  imports Keeper_Quota Notification_Service
begin

text \<open>
  The text of a notification (\<open>notification_template.go\<close>) and what it is made of: the statistics a
  notification collects (\<open>collectStats\<close> of \<open>notification_service.go\<close>), one channel's share of them, the
  channels, and the previews (\<open>notification_management.go\<close>).
\<close>

section \<open>Words\<close>

definition msgUnknownPlan :: string where "msgUnknownPlan = encode_runes [0x672A, 0x77E5] @ ''/'' @ encode_runes [0x672A, 0x63D0, 0x4F9B]"
definition msgUnknownShare :: string where "msgUnknownShare = encode_runes [0x5360, 0x6BD4, 0x672A, 0x77E5]"
definition msgResetCardsUnset :: string where "msgResetCardsUnset = encode_runes [0x672A, 0x63D0, 0x4F9B]"
definition msgStatsTimePrefix :: string where "msgStatsTimePrefix = encode_runes [0x7EDF, 0x8BA1, 0x65F6, 0x95F4, 0xFF1A]"
definition txt_dot :: string where "txt_dot = '' '' @ encode_runes [0x00B7] @ '' ''"
definition txt_bar :: string where "txt_bar = encode_runes [0x258D]"
definition txt_open :: string where "txt_open = encode_runes [0xFF08]"
definition txt_close :: string where "txt_close = encode_runes [0xFF09]"
definition txt_usage :: string where "txt_usage = encode_runes [0x7528, 0x91CF] @ '' ''"
definition txt_share :: string where "txt_share = encode_runes [0x5360, 0x6BD4] @ '' ''"
definition txt_cost :: string where "txt_cost = encode_runes [0x6298, 0x7B97] @ '' '' @ encode_runes [0x2248] @ '' $''"
definition txt_gap :: string where "txt_gap = '' '' @ encode_runes [0x5386, 0x53F2, 0x6570, 0x636E, 0x4E0D, 0x5B8C, 0x6574]"
definition txt_warning :: string where "txt_warning = encode_runes [0x26A0] @ '' ''"
definition txt_window :: string where "txt_window = '' '' @ encode_runes [0x7A97, 0x53E3]"
definition txt_used :: string where "txt_used = encode_runes [0x5DF2, 0x7528] @ '' ''"
definition txt_remaining :: string where "txt_remaining = encode_runes [0x5269, 0x4F59] @ '' ''"
definition txt_reset :: string where "txt_reset = encode_runes [0x91CD, 0x7F6E] @ '' ''"
definition txt_left :: string where "txt_left = encode_runes [0x8FD8, 0x5269] @ '' ''"
definition txt_days :: string where "txt_days = '' '' @ encode_runes [0x5929] @ '' ''"
definition txt_hours :: string where "txt_hours = '' '' @ encode_runes [0x5C0F, 0x65F6]"
definition txt_cards :: string where "txt_cards = encode_runes [0x91CD, 0x7F6E, 0x5361]"
definition txt_pieces :: string where "txt_pieces = '' '' @ encode_runes [0x5F20]"
definition txt_expires :: string where "txt_expires = '' '' @ encode_runes [0x5230, 0x671F]"
definition txt_current :: string where "txt_current = encode_runes [0x672C, 0x671F, 0x7D2F, 0x8BA1]"
definition txt_previous :: string where "txt_previous = encode_runes [0x4E0A, 0x4E00, 0x5B8C, 0x6574, 0x5468, 0x671F]"
definition txt_daily :: string where "txt_daily = encode_runes [0x65E5, 0x7EDF, 0x8BA1]"
definition txt_monthly :: string where "txt_monthly = encode_runes [0x6708, 0x7EDF, 0x8BA1]"
definition txt_half :: string where "txt_half = encode_runes [0x534A, 0x5E74, 0x7EDF, 0x8BA1]"
definition txt_yearly :: string where "txt_yearly = encode_runes [0x5E74, 0x7EDF, 0x8BA1]"

definition txt_nl :: string where "txt_nl = [CHR 0x0A]"

section \<open>Data\<close>

text \<open>The periods by their key, in the order in which they were collected.\<close>

record statsData =
  sd_DisplayName :: string
  sd_Plan :: string
  sd_PlanProvider :: string
  sd_Periods :: "(string \<times> periodStats) list"
  sd_Windows :: "windowStat list"
  sd_ResetCards :: "int option"
  sd_ResetCardItems :: "resetCardStat list"

definition put_period :: "periodStats \<Rightarrow> statsData \<Rightarrow> statsData" where
  "put_period ps d =
     d\<lparr>sd_Periods := (if ps_PeriodKey ps \<in> fst ` set (sd_Periods d)
        then map (\<lambda>(k, old). (k, if k = ps_PeriodKey ps then ps else old)) (sd_Periods d)
        else sd_Periods d @ [(ps_PeriodKey ps, ps)])\<rparr>"

section \<open>Pieces\<close>

definition abbreviateTokens :: "int \<Rightarrow> string" where
  "abbreviateTokens n =
     (if 10 ^ 9 \<le> n then fixed2 (float_div (float_of_int n) (10 ^ 9)) @ ''B''
      else if 10 ^ 6 \<le> n then fixed2 (float_div (float_of_int n) (10 ^ 6)) @ ''M''
      else if 10 ^ 3 \<le> n then fixed2 (float_div (float_of_int n) (10 ^ 3)) @ ''K''
      else signed_itoa n)"

definition moduleHead :: "(ModuleKind \<times> string) list" where
  "moduleHead = [(ModuleDaily, txt_daily), (ModuleMonthly, txt_monthly), (ModuleHalfYear, txt_half), (ModuleYearly, txt_yearly)]"

definition windowModuleGroup :: "ModuleKind \<Rightarrow> (string \<times> string) option" where
  "windowModuleGroup kind =
     (if kind = ModuleWeeklyWindow then Some (''weekly'', ''Weekly'')
      else if kind = ModuleWindow5H then Some (''5h'', ''5H'') else None)"

definition show_time :: "instant \<Rightarrow> string" where
  "show_time t = formatNextFire (if t = zero_time then None else Some t)"

definition periodRangeLabel :: "instant \<Rightarrow> instant \<Rightarrow> string" where
  "periodRangeLabel start stop =
     (let s = format_date NotificationLocation start; e = format_date NotificationLocation stop
      in if s = e then s else s @ '' ~ '' @ e)"

definition show_countdown :: "int \<Rightarrow> int \<Rightarrow> string" where
  "show_countdown days hours = txt_left @ signed_itoa days @ txt_days @ signed_itoa hours @ txt_hours @ txt_nl"

section \<open>Sections\<close>

definition channel_lines :: "channelStats \<Rightarrow> string" where
  "channel_lines ch =
     ch_Label ch @ txt_nl @
     txt_usage @ abbreviateTokens (ch_Tokens ch) @ '' tokens'' @ txt_nl @
     (if ch_ShareKnown ch then txt_share @ fixed2 (float_mul (ch_Share ch) 100) @ ''%'' @ txt_nl else msgUnknownShare @ txt_nl) @
     (if ch_CostAvailable ch then txt_cost @ fixed2 (ch_CostUSD ch) @ txt_nl else [])"

definition gap_note :: "periodStats \<Rightarrow> string" where
  "gap_note ps = pc_missingFrom (ps_Coverage ps) @ ''~'' @ pc_missingTo (ps_Coverage ps) @ txt_gap"

text \<open>The section of a statistics module and what it warns of; none without a range or without data.\<close>

definition stats_section :: "statsData \<Rightarrow> instant \<Rightarrow> string \<Rightarrow> ModuleConfig \<Rightarrow> string \<times> string list" where
  "stats_section d now head m =
     (case (periodRange (m_Kind m) (m_Period m) now NotificationLocation,
            map_of (sd_Periods d) (periodKeyOf (m_Kind m) (m_Period m) now)) of
        (Some (start, stop), Some ps) \<Rightarrow>
          (txt_bar @ head @ txt_dot @ (if m_Period m = PeriodPrevious then txt_previous else txt_current) @
             txt_open @ periodRangeLabel start stop @ txt_close @ txt_nl @
           concat (map channel_lines (ps_Channels ps)) @
           (if pc_incomplete (ps_Coverage ps) then txt_warning @ gap_note ps @ txt_nl else []) @ txt_nl,
           if pc_incomplete (ps_Coverage ps) then [gap_note ps] else [])
      | _ \<Rightarrow> ([], []))"

definition window_section :: "statsData \<Rightarrow> string \<Rightarrow> string \<Rightarrow> string" where
  "window_section d grp fallback =
     (case find (\<lambda>w. to_lower (trim_space (w_GroupKey w)) = grp) (sd_Windows d) of
        None \<Rightarrow> []
      | Some w \<Rightarrow>
        txt_bar @ (if w_Label w = [] then fallback else w_Label w) @ txt_window @ txt_nl @
        (if w_UsageAvailable w then txt_used @ abbreviateTokens (w_UsedTokens w) @ '' tokens'' @ txt_nl else []) @
        (if w_PercentKnown w then
           txt_used @ fixed2 (w_UsedPercent w) @ ''%'' @ txt_nl @ txt_remaining @ fixed2 (w_RemainingPercent w) @ ''%'' @ txt_nl
         else []) @
        (case w_ResetAt w of
           None \<Rightarrow> []
         | Some t \<Rightarrow> txt_reset @ show_time t @ txt_nl @ show_countdown (w_RemainingDays w) (w_RemainingHours w)) @ txt_nl)"

definition cards_section :: "statsData \<Rightarrow> string" where
  "cards_section d =
     (case sd_ResetCards d of
        None \<Rightarrow> txt_bar @ txt_cards @ txt_open @ msgResetCardsUnset @ txt_close @ txt_nl @ txt_nl
      | Some n \<Rightarrow>
        txt_bar @ txt_cards @ txt_open @ signed_itoa n @ txt_pieces @ txt_close @ txt_nl @
        concat (map (\<lambda>c. show_time (rc_ExpiresAt c) @ txt_expires @ txt_dot @
            show_countdown (rc_RemainingDays c) (rc_RemainingHours c))
          (filter (\<lambda>c. rc_ExpiresAt c \<noteq> zero_time) (sd_ResetCardItems d))) @ txt_nl)"

definition module_section :: "statsData \<Rightarrow> instant \<Rightarrow> ModuleConfig \<Rightarrow> string \<times> string list" where
  "module_section d now m =
     (case map_of moduleHead (m_Kind m) of
        Some head \<Rightarrow> stats_section d now head m
      | None \<Rightarrow>
        (case windowModuleGroup (m_Kind m) of
           Some (grp, fallback) \<Rightarrow> (window_section d grp fallback, [])
         | None \<Rightarrow> (if m_Kind m = ModuleResetCards then cards_section d else [], [])))"

definition renderMessage :: "Notification \<Rightarrow> statsData \<Rightarrow> instant \<Rightarrow> string \<times> string list" where
  "renderMessage n d now =
     (let display = (if sd_DisplayName d = [] then msgUnknownPlan else sd_DisplayName d);
          plan = formatNotificationPlan (sd_PlanProvider d) (sd_Plan d) [] [];
          plan = (if plan = [] then msgUnknownPlan else plan);
          sections = map (module_section d now) (orderModulesByGroup (n_Modules n))
      in (trim_right_set {CHR 0x0A}
            (n_Name n @ txt_nl @ display @ txt_dot @ plan @ txt_nl @ txt_nl @
             concat (map fst sections) @ msgStatsTimePrefix @ show_time now),
          concat (map snd sections)))"

definition filterStatsToChannel :: "statsData \<Rightarrow> string \<Rightarrow> statsData" where
  "filterStatsToChannel d identity =
     d\<lparr>sd_Periods := map (\<lambda>(k, ps).
        (k, ps\<lparr>ps_Channels := filter (\<lambda>ch. ch_Identity ch = identity \<or> ch_Name ch = identity) (ps_Channels ps)\<rparr>)) (sd_Periods d)\<rparr>"

section \<open>Collecting\<close>

text \<open>The keeper's part of a source and the collection of windows; \<open>cl_order\<close> is the order in which an iteration
  over the map of periods happens to go.\<close>

record 'h collector =
  cl_source :: "'h statsSource"
  cl_codec :: statsCodec
  cl_order :: "(string \<times> periodStats) list \<Rightarrow> (string \<times> periodStats) list"
  cl_fuel :: nat

fun collect_periods ::
    "'h keeperEnv \<Rightarrow> statsCodec \<Rightarrow> string \<Rightarrow> instant \<Rightarrow> ModuleConfig list \<Rightarrow> statsData \<Rightarrow> 'h \<Rightarrow> (keeperFailure option \<times> statsData) \<times> 'h" where
  "collect_periods x C apiKey now [] d h = ((None, d), h)"
| "collect_periods x C apiKey now (m # ms) d h =
     (if m_Kind m = ModuleWindow5H \<or> m_Kind m = ModuleWeeklyWindow \<or> m_Kind m = ModuleResetCards
      then collect_periods x C apiKey now ms d h
      else case collectForPeriod x C apiKey (m_Kind m) (m_Period m) now h of
        (Inl e, h) \<Rightarrow> ((Some e, d), h)
      | (Inr ps, h) \<Rightarrow> collect_periods x C apiKey now ms (put_period ps d) h)"

definition needs_windows :: "ModuleConfig list \<Rightarrow> bool" where
  "needs_windows ms = list_ex (\<lambda>m. m_Kind m = ModuleWindow5H \<or> m_Kind m = ModuleWeeklyWindow \<or> m_Kind m = ModuleResetCards) ms"

definition one_channel :: "string \<Rightarrow> bool" where
  "one_channel channel \<longleftrightarrow> channel \<noteq> [] \<and> channel \<noteq> ''-''"

text \<open>The first label of each period, the last of them in the order of the iteration.\<close>

definition channel_name :: "(string \<times> periodStats) list \<Rightarrow> string \<Rightarrow> string" where
  "channel_name periods name =
     fold (\<lambda>(k, ps) name. case find (\<lambda>ch. ch_Label ch \<noteq> []) (ps_Channels ps) of None \<Rightarrow> name | Some ch \<Rightarrow> ch_Label ch) periods name"

definition narrow :: "'h collector \<Rightarrow> string \<Rightarrow> statsData \<Rightarrow> statsData" where
  "narrow cl channel d =
     (if one_channel channel then
        (let d = filterStatsToChannel d channel
         in d\<lparr>sd_DisplayName := channel_name (cl_order cl (sd_Periods d)) (sd_DisplayName d)\<rparr>)
      else d)"

definition channel_indexes :: "'h collector \<Rightarrow> string \<Rightarrow> statsData \<Rightarrow> string list" where
  "channel_indexes cl channel d =
     (if one_channel channel then [channel]
      else fold (\<lambda>i out. if i = [] \<or> i \<in> set out then out else out @ [i])
        (map (\<lambda>ch. if ch_Identity ch = [] then ch_Name ch else ch_Identity ch)
          (concat (map (\<lambda>(k, ps). ps_Channels ps) (cl_order cl (sd_Periods d))))) [])"

definition with_windows :: "quotaData \<Rightarrow> statsData \<Rightarrow> statsData" where
  "with_windows q d =
     d\<lparr>sd_Windows := co_Windows q, sd_ResetCards := co_Cards q, sd_ResetCardItems := co_CardItems q,
       sd_Plan := (if sd_Plan d = [] then co_Plan q else sd_Plan d)\<rparr>"

text \<open>What was collected comes back with an error too.\<close>

definition collectStats ::
    "'h collector \<Rightarrow> KeyBinding \<Rightarrow> Notification \<Rightarrow> instant \<Rightarrow> string \<Rightarrow> refreshes \<Rightarrow> 'h \<Rightarrow>
     ((keeperFailure option \<times> statsData) \<times> refreshes \<times> 'h) option" where
  "collectStats cl binding n now channel lr h =
     (let d = \<lparr>sd_DisplayName = kb_Alias binding, sd_Plan = [], sd_PlanProvider = [], sd_Periods = [], sd_Windows = [],
            sd_ResetCards = None, sd_ResetCardItems = []\<rparr>
      in case sc_client (cl_source cl) of
           None \<Rightarrow> Some ((Some (fail_code ''configuration_error''), d), lr, h)
         | Some x \<Rightarrow>
           (case collect_periods x (cl_codec cl) (kb_Key binding) now (n_Modules n) d h of
              ((Some e, d), h) \<Rightarrow> Some ((Some e, d), lr, h)
            | ((None, d), h) \<Rightarrow>
              (let d = narrow cl channel d; idx = channel_indexes cl channel d
               in if idx = [] then Some ((None, d), lr, h)
                  else case collectWindows (cl_fuel cl) (cl_source cl) idx now (needs_windows (n_Modules n)) lr h of
                    None \<Rightarrow> None
                  | Some (Inl e, lr, h) \<Rightarrow> Some ((if needs_windows (n_Modules n) then Some e else None, d), lr, h)
                  | Some (Inr q, lr, h) \<Rightarrow> Some ((None, with_windows q d), lr, h))))"

text \<open>Collecting returns when the polling of the windows does.\<close>

lemma collectStats_ends:
  assumes "polls_end (cl_fuel cl) (cl_source cl)"
  shows "collectStats cl binding n now channel lr h \<noteq> None"
proof -
  have "\<exists>r lr' h'. collectWindows (cl_fuel cl) (cl_source cl) idx now b lr h'' = Some (r, lr', h')" for idx b h''
    using collectWindows_ends [OF assms] by (metis option.exhaust surj_pair)
  then show ?thesis
    by (auto simp: collectStats_def Let_def split: option.split prod.split sum.split) (metis option.distinct(1) )+
qed

section \<open>What a message says\<close>

text \<open>Only line ends are cut from the end of a text that has something else in it.\<close>

lemma trim_right_inner:
  assumes "c \<in> set y" and "c \<notin> cs"
  shows "\<exists>z. trim_right_set cs (x @ y) = x @ z"
proof -
  have "\<exists>c\<in>set (rev y). \<not> c \<in> cs" using assms by auto
  then have "dropWhile (\<lambda>c. c \<in> cs) (rev y @ rev x) = dropWhile (\<lambda>c. c \<in> cs) (rev y) @ rev x"
    by (auto simp: dropWhile_append)
  then show ?thesis by (simp add: trim_right_set_def)
qed

text \<open>A module that shows statistics: their period is collected.\<close>

definition shown_stats :: "statsData \<Rightarrow> instant \<Rightarrow> ModuleConfig \<Rightarrow> periodStats option" where
  "shown_stats d now m =
     (if map_of moduleHead (m_Kind m) = None \<or> periodRange (m_Kind m) (m_Period m) now NotificationLocation = None then None
      else map_of (sd_Periods d) (periodKeyOf (m_Kind m) (m_Period m) now))"

lemma module_section_warnings:
  "set (snd (module_section d now m)) =
    (case shown_stats d now m of Some ps \<Rightarrow> if pc_incomplete (ps_Coverage ps) then {gap_note ps} else {} | None \<Rightarrow> {})"
  by (cases "map_of moduleHead (m_Kind m)"; cases "periodRange (m_Kind m) (m_Period m) now NotificationLocation";
      cases "map_of (sd_Periods d) (periodKeyOf (m_Kind m) (m_Period m) now)"; cases "windowModuleGroup (m_Kind m)")
    (simp_all add: module_section_def shown_stats_def stats_section_def split_beta)

lemma stats_section_text:
  "w \<in> set (snd (stats_section d now head m)) \<Longrightarrow> \<exists>a b. fst (stats_section d now head m) = a @ txt_warning @ w @ txt_nl @ b"
proof (cases "periodRange (m_Kind m) (m_Period m) now NotificationLocation")
  case (Some r)
  assume w: "w \<in> set (snd (stats_section d now head m))"
  obtain start stop where r: "r = (start, stop)" by fastforce
  from w Some r obtain ps where ps: "map_of (sd_Periods d) (periodKeyOf (m_Kind m) (m_Period m) now) = Some ps"
      "pc_incomplete (ps_Coverage ps)" "w = gap_note ps"
    by (auto simp: stats_section_def split: option.splits if_splits)
  let ?front = "txt_bar @ head @ txt_dot @ (if m_Period m = PeriodPrevious then txt_previous else txt_current) @
      txt_open @ periodRangeLabel start stop @ txt_close @ txt_nl @ concat (map channel_lines (ps_Channels ps))"
  have "fst (stats_section d now head m) = ?front @ txt_warning @ w @ txt_nl @ txt_nl"
    using Some r ps by (simp add: stats_section_def)
  then show ?thesis by blast
qed (auto simp: stats_section_def)

lemma module_section_text:
  "w \<in> set (snd (module_section d now m)) \<Longrightarrow> \<exists>a b. fst (module_section d now m) = a @ txt_warning @ w @ txt_nl @ b"
  using stats_section_text by (auto simp: module_section_def split: option.splits if_splits)

lemma prefix_char: "\<exists>c\<in>set msgStatsTimePrefix. c \<noteq> CHR 0x0A"
  by (simp add: msgStatsTimePrefix_def encode_runes_def go_simps)

lemma orderModules_set: "set (orderModulesByGroup ms) = set ms"
  by (auto simp: orderModulesByGroup_def Let_def)

text \<open>C32. The warnings of a message are the gaps of the incomplete periods it shows, of each and of no other, and each of
  them is a line of its text.\<close>

theorem renderMessage_warns:
  "case renderMessage n d now of
     (text, warnings) \<Rightarrow>
       set warnings = gap_note ` {ps. \<exists>m\<in>set (n_Modules n). shown_stats d now m = Some ps \<and> pc_incomplete (ps_Coverage ps)} \<and>
       list_all (\<lambda>w. \<exists>a b. text = a @ txt_warning @ w @ txt_nl @ b) warnings"
proof -
  let ?ms = "orderModulesByGroup (n_Modules n)"
  define sections where "sections = map (module_section d now) ?ms"
  obtain front body warnings where r: "renderMessage n d now = (body, warnings)" "warnings = concat (map snd sections)"
      "body = trim_right_set {CHR 0x0A} (front @ concat (map fst sections) @ msgStatsTimePrefix @ show_time now)"
  proof -
    have "\<exists>front. fst (renderMessage n d now) = trim_right_set {CHR 0x0A} (front @ concat (map fst sections) @ msgStatsTimePrefix @ show_time now)"
      by (simp add: renderMessage_def Let_def sections_def) (metis append_assoc)
    moreover have "snd (renderMessage n d now) = concat (map snd sections)" by (simp add: renderMessage_def Let_def sections_def)
    ultimately show thesis using that by (cases "renderMessage n d now") auto
  qed
  have "set warnings = gap_note ` {ps. \<exists>m\<in>set (n_Modules n). shown_stats d now m = Some ps \<and> pc_incomplete (ps_Coverage ps)}"
    unfolding r(2) sections_def by (auto simp: orderModules_set module_section_warnings image_iff split: option.splits if_splits) blast
  moreover have "\<exists>a b. body = a @ txt_warning @ w @ txt_nl @ b" if "w \<in> set warnings" for w
  proof -
    from that r(2) obtain s where s: "s \<in> set sections" "w \<in> set (snd s)" by auto
    then obtain as bs where l: "sections = as @ s # bs" by (meson split_list)
    from s(1) obtain m where m: "s = module_section d now m" by (auto simp: sections_def)
    from module_section_text [OF s(2) [unfolded m]] obtain a b where t: "fst s = a @ txt_warning @ w @ txt_nl @ b"
      unfolding m by blast
    let ?x = "front @ concat (map fst as) @ a @ txt_warning @ w @ txt_nl"
      and ?y = "b @ concat (map fst bs) @ msgStatsTimePrefix @ show_time now"
    from prefix_char obtain c where "c \<in> set ?y" "c \<notin> {CHR 0x0A}" by auto
    from trim_right_inner [OF this, of ?x] have "\<exists>z. body = ?x @ z" unfolding r(3) l by (simp add: t)
    then show ?thesis by (metis append_assoc)
  qed
  ultimately show ?thesis by (simp add: r(1) list_all_iff)
qed

section \<open>What is collected\<close>

definition channel_of :: "string \<Rightarrow> channelStats \<Rightarrow> bool" where
  "channel_of channel ch \<longleftrightarrow> ch_Identity ch = channel \<or> ch_Name ch = channel"

lemma filterStats_channels:
  "(k, ps) \<in> set (sd_Periods (filterStatsToChannel d channel)) \<Longrightarrow> ch \<in> set (ps_Channels ps) \<Longrightarrow> channel_of channel ch"
  by (auto simp: filterStatsToChannel_def channel_of_def)

lemma with_windows_periods [simp]: "sd_Periods (with_windows q d) = sd_Periods d"
  by (simp add: with_windows_def)

text \<open>What is collected for one channel holds no figures of another, whatever the keeper answers.\<close>

lemma collectStats_one_channel:
  "case collectStats cl binding n now channel lr h of
     Some ((None, d), _) \<Rightarrow>
       (if one_channel channel then list_all (\<lambda>(k, ps). list_all (channel_of channel) (ps_Channels ps)) (sd_Periods d) else True)
   | _ \<Rightarrow> True"
proof -
  have "list_all (\<lambda>(k, ps). list_all (channel_of channel) (ps_Channels ps)) (sd_Periods (narrow cl channel d))"
    if "one_channel channel" for d
    using that filterStats_channels [of _ _ d channel] by (auto simp: narrow_def Let_def list_all_iff)
  then show ?thesis
    by (auto simp: collectStats_def Let_def split: option.splits prod.splits sum.splits if_splits)
qed

text \<open>A notification for the whole key without a statistics module has no channels to ask for: it asks nothing of the
  keeper and its windows and cards stay empty, without an error.\<close>

lemma collect_periods_windows:
  "list_all (\<lambda>m. m_Kind m = ModuleWindow5H \<or> m_Kind m = ModuleWeeklyWindow \<or> m_Kind m = ModuleResetCards) ms \<Longrightarrow>
    collect_periods x C apiKey now ms d h = ((None, d), h)"
  by (induction ms) auto

lemma collectStats_windows_only:
  assumes "list_all (\<lambda>m. m_Kind m = ModuleWindow5H \<or> m_Kind m = ModuleWeeklyWindow \<or> m_Kind m = ModuleResetCards) (n_Modules n)"
    and "\<not> one_channel channel" and "\<And>ps. set (cl_order cl ps) = set ps" and "sc_client (cl_source cl) \<noteq> None"
  shows "\<exists>d. collectStats cl binding n now channel lr h = Some ((None, d), lr, h) \<and> sd_Windows d = [] \<and> sd_ResetCards d = None"
proof -
  have o: "cl_order cl [] = []" using assms(3) [of "[]"] by simp
  from assms(4) obtain x where x: "sc_client (cl_source cl) = Some x" by blast
  show ?thesis
    by (simp add: collectStats_def x collect_periods_windows [OF assms(1)] narrow_def channel_indexes_def assms(2) o)
qed

text \<open>The abbreviation of a count can round up to a thousand of its unit.\<close>

lemma abbreviateTokens_rounds: "abbreviateTokens 999999 = ''1000.00K''"
  by code_simp

end
