(* ===== verification/Channel_Labels.thy ===== *)
theory Channel_Labels
  imports Notification_Service
begin

text \<open>
  The credentials the channels of a key are chosen from (\<open>channel_credentials.go\<close>), with their stable IDs, and
  the cache of their display names for the audit (\<open>audit_labels.go\<close>).  The hash and \<open>url.Parse\<close> are
  parameters.
\<close>

section \<open>Credentials\<close>

record keyEntry =
  ke_APIKey :: string
  ke_ProxyURL :: string

text \<open>Of the entries of an entry only these two fields are read.\<close>

record providerCredentialConfig =
  cg_APIKey :: string
  cg_BaseURL :: string
  cg_ProxyURL :: string
  cg_Prefix :: string
  cg_Headers :: "(string \<times> string) list"
  cg_Name :: string
  cg_Disabled :: bool
  cg_APIKeyEntries :: "keyEntry list"

record channelCredential =
  cc_ID :: string
  cc_Provider :: string
  cc_ProviderLabel :: string
  cc_Label :: string
  cc_BaseURL :: string
  cc_Status :: string
  cc_Disabled :: bool
  cc_Source :: string

definition credentialHeaders :: "(string \<times> string) list \<Rightarrow> string" where
  "credentialHeaders headers =
     concat (map (\<lambda>(k, v). k @ [CHR 0x00] @ v @ [CHR 0x00]) (sort_key fst headers))"

record displayURL =
  du_Host :: string
  du_Scheme :: string
  du_Bare :: string

text \<open>\<open>parse\<close> gives the host, the scheme and the text without user, query and fragment.\<close>

definition credentialDisplayURL :: "(string \<Rightarrow> displayURL option) \<Rightarrow> string \<Rightarrow> string" where
  "credentialDisplayURL parse raw =
     (case parse (trim_space raw) of
        None \<Rightarrow> []
      | Some u \<Rightarrow> if du_Host u = [] \<or> du_Scheme u \<notin> {''http'', ''https''} then [] else du_Bare u)"

definition hex_digit :: "nat \<Rightarrow> char" where
  "hex_digit n = char_of (if n < 10 then 48 + n else 87 + n)"

definition hex_encode :: "bytes \<Rightarrow> string" where
  "hex_encode bs = concat (map (\<lambda>c. let n = of_char c :: nat in [hex_digit (n div 16), hex_digit (n mod 16)]) bs)"

definition base_id :: "(bytes \<Rightarrow> bytes) \<Rightarrow> string \<Rightarrow> string list \<Rightarrow> string" where
  "base_id hash kind parts =
     kind @ '':'' @ hex_encode (take 6 (hash (kind @ concat (map (\<lambda>p. CHR 0x00 # trim_space p) parts))))"

definition nextID :: "(bytes \<Rightarrow> bytes) \<Rightarrow> string \<Rightarrow> string list \<Rightarrow> (string \<Rightarrow> nat) \<Rightarrow> string \<times> (string \<Rightarrow> nat)" where
  "nextID hash kind parts counts =
     (let i = base_id hash kind parts; n = counts i
      in (if 0 < n then i @ ''-'' @ itoa n else i, counts(i := n + 1)))"

definition txt_noKey :: string where "txt_noKey = encode_runes [0x65E0, 0x9700] @ '' API Key''"
definition txt_masked :: string where "txt_masked = ''Key '' @ encode_runes [0x2022, 0x2022, 0x2022, 0x2022]"

definition key_label :: "string \<Rightarrow> string" where
  "key_label key =
     (let key = trim_space key
      in if key = [] then txt_noKey
         else if 8 < length key then txt_masked @ drop (length key - 4) key else txt_masked)"

definition credential_row ::
    "(string \<Rightarrow> displayURL option) \<Rightarrow> string \<Rightarrow> string \<Rightarrow> string \<Rightarrow> string \<Rightarrow> string \<Rightarrow> channelCredential" where
  "credential_row parse i provider name key base =
     \<lparr>cc_ID = i, cc_Provider = provider, cc_ProviderLabel = name, cc_Label = key_label key,
      cc_BaseURL = credentialDisplayURL parse base, cc_Status = ''configured'', cc_Disabled = False, cc_Source = ''ai-provider''\<rparr>"

text \<open>A row still without its ID: what the ID is made of, the provider, its label, the key and the address.\<close>

record plannedRow =
  pl_Kind :: string
  pl_Parts :: "string list"
  pl_Provider :: string
  pl_Name :: string
  pl_Key :: string
  pl_Base :: string

definition apikey_sources :: "(string \<times> string) list" where
  "apikey_sources =
     [(''gemini-api-key'', ''gemini''), (''interactions-api-key'', ''gemini-interactions''),
      (''claude-api-key'', ''claude''), (''codex-api-key'', ''codex''), (''xai-api-key'', ''xai'')]"

definition apikey_rows :: "(string \<Rightarrow> providerCredentialConfig list) \<Rightarrow> plannedRow list" where
  "apikey_rows config =
     concat (map (\<lambda>(endpoint, provider).
       map (\<lambda>e. \<lparr>pl_Kind = provider @ '':apikey'',
           pl_Parts = [cg_APIKey e, cg_BaseURL e, cg_ProxyURL e, cg_Prefix e, credentialHeaders (cg_Headers e)],
           pl_Provider = provider, pl_Name = provider, pl_Key = cg_APIKey e, pl_Base = cg_BaseURL e\<rparr>)
         (filter (\<lambda>e. trim_space (cg_APIKey e) \<noteq> [] \<or> trim_space (cg_BaseURL e) \<noteq> []) (config endpoint)))
       apikey_sources)"

definition starts_with :: "string \<Rightarrow> string \<Rightarrow> bool" where
  "starts_with p s \<longleftrightarrow> take (length p) s = p"

definition compat_rows :: "providerCredentialConfig \<Rightarrow> plannedRow list" where
  "compat_rows e =
     (if cg_Disabled e then []
      else
        (let name = trim_space (cg_Name e);
             provider = to_lower name;
             name = (if provider = [] then ''openai-compatibility'' else name);
             provider = (if provider = [] then ''openai-compatibility'' else provider);
             kind = ''openai-compatibility:'' @ provider;
             provider =
               (if provider \<noteq> ''openai-compatibility'' \<and> \<not> starts_with ''openai-compatible-'' provider
                then ''openai-compatible-'' @ provider else provider);
             row = (\<lambda>parts key. \<lparr>pl_Kind = kind, pl_Parts = parts, pl_Provider = provider, pl_Name = name, pl_Key = key,
                      pl_Base = cg_BaseURL e\<rparr>)
         in (if cg_APIKeyEntries e = [] then [row [cg_BaseURL e] []] else []) @
            map (\<lambda>k. row [ke_APIKey k, cg_BaseURL e, ke_ProxyURL k] (ke_APIKey k)) (cg_APIKeyEntries e)))"

definition vertex_row :: "providerCredentialConfig \<Rightarrow> plannedRow" where
  "vertex_row e =
     \<lparr>pl_Kind = ''vertex:apikey'', pl_Parts = [cg_APIKey e, cg_BaseURL e, cg_ProxyURL e], pl_Provider = ''vertex'',
      pl_Name = ''vertex'', pl_Key = cg_APIKey e, pl_Base = cg_BaseURL e\<rparr>"

definition planned_rows :: "(string \<Rightarrow> providerCredentialConfig list) \<Rightarrow> plannedRow list" where
  "planned_rows config =
     apikey_rows config @ concat (map compat_rows (config ''openai-compatibility'')) @ map vertex_row (config ''vertex-api-key'')"

fun number_rows ::
    "(bytes \<Rightarrow> bytes) \<Rightarrow> (string \<Rightarrow> displayURL option) \<Rightarrow> plannedRow list \<Rightarrow> (string \<Rightarrow> nat) \<Rightarrow> channelCredential list" where
  "number_rows hash parse [] counts = []"
| "number_rows hash parse (p # ps) counts =
     (case nextID hash (pl_Kind p) (pl_Parts p) counts of
        (i, counts) \<Rightarrow> credential_row parse i (pl_Provider p) (pl_Name p) (pl_Key p) (pl_Base p) # number_rows hash parse ps counts)"

section \<open>Labels\<close>

definition auditLabelCacheLimit :: nat where "auditLabelCacheLimit = 4096"

record labelCache =
  lc_supplier :: "(string \<times> string) list"
  lc_credential :: "(string \<times> string) list"

definition channelCredentialLabel :: "channelCredential \<Rightarrow> string" where
  "channelCredentialLabel row =
     (let name = trim_space (cc_ProviderLabel row); lbl = trim_space (cc_Label row)
      in if lbl = [] then name else if name = [] then lbl else name @ encode_runes [0x20, 0xB7, 0x20] @ lbl)"

text \<open>The first label of an ID stays.\<close>

definition add_label :: "string \<Rightarrow> string \<Rightarrow> (string \<times> string) list \<Rightarrow> (string \<times> string) list" where
  "add_label i lbl m = (if lbl \<noteq> [] \<and> i \<noteq> [] \<and> map_of m i = None then m @ [(i, lbl)] else m)"

definition cache_size :: "labelCache \<Rightarrow> nat" where
  "cache_size c = length (lc_supplier c) + length (lc_credential c)"

fun recordChannelLabels :: "channelCredential list \<Rightarrow> labelCache \<Rightarrow> labelCache" where
  "recordChannelLabels [] c = c"
| "recordChannelLabels (row # rows) c =
     (if auditLabelCacheLimit \<le> cache_size c then c
      else recordChannelLabels rows
        (c\<lparr>lc_supplier := add_label (cc_Provider row) (trim_space (cc_ProviderLabel row)) (lc_supplier c),
           lc_credential := add_label (cc_ID row) (channelCredentialLabel row) (lc_credential c)\<rparr>))"

definition label_of :: "labelCache \<Rightarrow> string \<Rightarrow> string option" where
  "label_of c i =
     (if i = [] then None
      else case map_of (lc_supplier c) i of
        Some lbl \<Rightarrow> if lbl \<noteq> [] then Some lbl else (case map_of (lc_credential c) i of Some l \<Rightarrow> if l \<noteq> [] then Some l else None | None \<Rightarrow> None)
      | None \<Rightarrow> (case map_of (lc_credential c) i of Some l \<Rightarrow> if l \<noteq> [] then Some l else None | None \<Rightarrow> None))"

definition auditChannelLabels :: "labelCache \<Rightarrow> string list \<Rightarrow> (string \<times> string) list" where
  "auditChannelLabels c ids = List.map_filter (\<lambda>i. map_option (Pair i) (label_of c i)) (remdups ids)"

text \<open>The handler: \<open>None\<close> is the 400, and the rows leave their labels in the cache.\<close>

definition managementChannelCredentials ::
    "(bytes \<Rightarrow> bytes) \<Rightarrow> (string \<Rightarrow> displayURL option) \<Rightarrow> (string \<Rightarrow> providerCredentialConfig list) option \<Rightarrow> labelCache \<Rightarrow>
     channelCredential list option \<times> labelCache" where
  "managementChannelCredentials hash parse config c =
     (case config of
        None \<Rightarrow> (None, c)
      | Some config \<Rightarrow>
        (let rows = number_rows hash parse (planned_rows config) (\<lambda>_. 0) in (Some rows, recordChannelLabels rows c)))"

section \<open>Distinct IDs\<close>

lemma hex_digit_ok: "n < 16 \<Longrightarrow> hex_digit n \<noteq> CHR ''-'' \<and> hex_digit n \<noteq> CHR '':''"
  by (auto simp: hex_digit_def dest!: arg_cong [where f = "of_char :: char \<Rightarrow> nat"])

lemma hex_encode_chars: "c \<in> set (hex_encode bs) \<Longrightarrow> c \<noteq> CHR ''-'' \<and> c \<noteq> CHR '':''"
proof -
  have "hex_digit (of_char b div 16) \<noteq> CHR ''-''" "hex_digit (of_char b div 16) \<noteq> CHR '':''"
    "hex_digit (of_char b mod 16) \<noteq> CHR ''-''" "hex_digit (of_char b mod 16) \<noteq> CHR '':''" for b
    using hex_digit_ok [of "of_char b div 16"] hex_digit_ok [of "of_char b mod 16"] nat_of_char_less_256 [of b]
    by (simp_all add: less_mult_imp_div_less)
  then show "c \<in> set (hex_encode bs) \<Longrightarrow> c \<noteq> CHR ''-'' \<and> c \<noteq> CHR '':''"
    by (auto simp: hex_encode_def Let_def)
qed

lemma itoa_plain: "c \<in> set (itoa n) \<Longrightarrow> c \<noteq> CHR ''-'' \<and> c \<noteq> CHR '':''"
  using itoa_digits [of n] by (auto simp: is_digit_def)

text \<open>An ID as the code numbers it, and the shape of one without a number.\<close>

definition numbered :: "string \<Rightarrow> nat \<Rightarrow> string" where
  "numbered i n = (if 0 < n then i @ ''-'' @ itoa n else i)"

definition plain_id :: "string \<Rightarrow> bool" where
  "plain_id i \<longleftrightarrow> (\<exists>kind digest. i = kind @ '':'' @ digest \<and> CHR ''-'' \<notin> set digest \<and> CHR '':'' \<notin> set digest)"

lemma up_to_mark: "c \<notin> set xs \<Longrightarrow> takeWhile (\<lambda>x. x \<noteq> c) (xs @ c # ys) = xs"
  by (induction xs) auto

lemma base_id_plain: "plain_id (base_id hash kind parts)"
  unfolding plain_id_def base_id_def using hex_encode_chars by blast

lemma numbered_not_plain:
  assumes "plain_id i" and "0 < n"
  shows "i \<noteq> j @ ''-'' @ itoa n"
proof
  assume e: "i = j @ ''-'' @ itoa n"
  from assms(1) obtain kind digest where d: "i = kind @ '':'' @ digest" "CHR ''-'' \<notin> set digest" "CHR '':'' \<notin> set digest"
    by (auto simp: plain_id_def)
  have "takeWhile (\<lambda>c. c \<noteq> CHR '':'') (rev i) = rev digest"
    using d up_to_mark [of "CHR '':''" "rev digest" "rev kind"] by simp
  moreover have "CHR ''-'' \<in> set (takeWhile (\<lambda>c. c \<noteq> CHR '':'') (rev i))"
    using e itoa_plain by (simp add: takeWhile_append)
  ultimately show False using d(2) by simp
qed

lemma numbered_inj:
  assumes "plain_id i" and "plain_id j" and "numbered i m = numbered j n"
  shows "i = j \<and> m = n"
proof (cases "0 < m"; cases "0 < n")
  assume p: "0 < m" "0 < n"
  have t: "takeWhile (\<lambda>c. c \<noteq> CHR ''-'') (rev (numbered i k)) = rev (itoa k)" if "0 < k" for i k
    using that itoa_plain up_to_mark [of "CHR ''-''" "rev (itoa k)" "rev i"] by (auto simp: numbered_def)
  from t [OF p(1), of i] t [OF p(2), of j] assms(3) have "itoa m = itoa n" by simp
  with assms(3) p show ?thesis by (simp add: numbered_def itoa_inj)
next
  assume "0 < m" "\<not> 0 < n"
  with assms numbered_not_plain [of j m i] show ?thesis by (simp add: numbered_def)
next
  assume "\<not> 0 < m" "0 < n"
  with assms numbered_not_plain [of i n j] show ?thesis by (simp add: numbered_def)
qed (use assms in \<open>simp add: numbered_def\<close>)

lemma number_rows_ids:
  "\<forall>i\<in>set (map cc_ID (number_rows hash parse ps counts)). \<exists>j n. plain_id j \<and> counts j \<le> n \<and> i = numbered j n"
proof (induction ps arbitrary: counts)
  case (Cons p ps)
  let ?i = "base_id hash (pl_Kind p) (pl_Parts p)"
  have "\<exists>j n. plain_id j \<and> counts j \<le> n \<and> i = numbered j n"
    if "i \<in> set (map cc_ID (number_rows hash parse ps (counts(?i := counts ?i + 1))))" for i
  proof -
    from Cons.IH [of "counts(?i := counts ?i + 1)"] that obtain j n
      where "plain_id j" "(counts(?i := counts ?i + 1)) j \<le> n" "i = numbered j n" by blast
    then show ?thesis by (intro exI [of _ j] exI [of _ n]) (auto split: if_splits)
  qed
  then show ?case using base_id_plain
    by (auto simp: nextID_def Let_def credential_row_def numbered_def intro!: exI [of _ ?i] exI [of _ "counts ?i"])
qed simp

lemma number_rows_distinct: "distinct (map cc_ID (number_rows hash parse ps counts))"
proof (induction ps arbitrary: counts)
  case (Cons p ps)
  let ?i = "base_id hash (pl_Kind p) (pl_Parts p)" and ?rest = "number_rows hash parse ps"
  have e: "map cc_ID (number_rows hash parse (p # ps) counts) =
      numbered ?i (counts ?i) # map cc_ID (?rest (counts(?i := counts ?i + 1)))"
    by (simp add: nextID_def Let_def credential_row_def numbered_def)
  have "numbered ?i (counts ?i) \<notin> set (map cc_ID (?rest (counts(?i := counts ?i + 1))))"
  proof
    assume "numbered ?i (counts ?i) \<in> set (map cc_ID (?rest (counts(?i := counts ?i + 1))))"
    with number_rows_ids [of hash parse ps "counts(?i := counts ?i + 1)"] obtain j n
      where j: "plain_id j" "(counts(?i := counts ?i + 1)) j \<le> n" "numbered ?i (counts ?i) = numbered j n" by metis
    from numbered_inj [OF base_id_plain j(1) j(3)] j(2) show False by auto
  qed
  with Cons.IH show ?case unfolding e by simp
qed simp

text \<open>C34. Whatever the configuration repeats, and whatever the hash, the credentials get IDs of which no two are the
  same.\<close>

theorem channel_credentials_distinct:
  "case fst (managementChannelCredentials hash parse config c) of
     None \<Rightarrow> config = None | Some rows \<Rightarrow> distinct (map cc_ID rows)"
  by (simp add: managementChannelCredentials_def Let_def number_rows_distinct split: option.split)

section \<open>The cache of labels\<close>

lemma add_label_keeps: "map_of m j = Some l \<Longrightarrow> map_of (add_label i lbl m) j = Some l"
  by (auto simp: add_label_def map_add_def)

lemma add_label_size: "length (add_label i lbl m) \<le> Suc (length m)"
  by (simp add: add_label_def)

lemma recordChannelLabels_keeps:
  "(map_of (lc_supplier c) i = Some l \<longrightarrow> map_of (lc_supplier (recordChannelLabels rows c)) i = Some l) \<and>
   (map_of (lc_credential c) i = Some l \<longrightarrow> map_of (lc_credential (recordChannelLabels rows c)) i = Some l)"
  by (induction rows c rule: recordChannelLabels.induct) (auto intro: add_label_keeps)

lemma recordChannelLabels_size:
  "cache_size c \<le> auditLabelCacheLimit + 1 \<Longrightarrow> cache_size (recordChannelLabels rows c) \<le> auditLabelCacheLimit + 1"
proof (induction rows c rule: recordChannelLabels.induct)
  case (2 row rows c)
  let ?c = "c\<lparr>lc_supplier := add_label (cc_Provider row) (trim_space (cc_ProviderLabel row)) (lc_supplier c),
      lc_credential := add_label (cc_ID row) (channelCredentialLabel row) (lc_credential c)\<rparr>"
  have "cache_size ?c \<le> cache_size c + 2"
    using add_label_size [of "cc_Provider row" "trim_space (cc_ProviderLabel row)" "lc_supplier c"]
      add_label_size [of "cc_ID row" "channelCredentialLabel row" "lc_credential c"] by (simp add: cache_size_def)
  with 2 show ?case by simp
qed simp

text \<open>The cache holds at most one label more than its limit, and a label once recorded is never replaced.\<close>

theorem recordChannelLabels_stable:
  assumes "cache_size c \<le> auditLabelCacheLimit + 1"
  shows "cache_size (recordChannelLabels rows c) \<le> auditLabelCacheLimit + 1 \<and>
    (\<forall>i l. map_of (lc_supplier c) i = Some l \<longrightarrow> map_of (lc_supplier (recordChannelLabels rows c)) i = Some l) \<and>
    (\<forall>i l. map_of (lc_credential c) i = Some l \<longrightarrow> map_of (lc_credential (recordChannelLabels rows c)) i = Some l)"
  using recordChannelLabels_size [OF assms] recordChannelLabels_keeps by blast

text \<open>The limit itself can be passed: a row that brings both labels to a cache with room for one.\<close>

lemma recordChannelLabels_passes_limit:
  assumes "cache_size c = auditLabelCacheLimit - 1" and "trim_space (cc_ProviderLabel row) \<noteq> []" and "cc_Provider row \<noteq> []"
    and "cc_ID row \<noteq> []" and "map_of (lc_supplier c) (cc_Provider row) = None" and "map_of (lc_credential c) (cc_ID row) = None"
  shows "cache_size (recordChannelLabels [row] c) = auditLabelCacheLimit + 1"
  using assms by (auto simp: cache_size_def add_label_def channelCredentialLabel_def Let_def auditLabelCacheLimit_def)

theorem recordChannelLabels_stable_witness:
  "cache_size (recordChannelLabels [] \<lparr>lc_supplier = [(''a'', ''b'')], lc_credential = []\<rparr>) \<le> auditLabelCacheLimit + 1 \<and>
   map_of (lc_supplier (recordChannelLabels [] \<lparr>lc_supplier = [(''a'', ''b'')], lc_credential = []\<rparr>)) ''a'' = Some ''b''"
  using recordChannelLabels_stable [of "\<lparr>lc_supplier = [(''a'', ''b'')], lc_credential = []\<rparr>" "[]"]
  by (simp add: cache_size_def auditLabelCacheLimit_def)

end
