(* ===== verification/Audit_Gate.thy ===== *)
theory Audit_Gate
  imports Audit_Journal Channel_Labels Json_Doc
begin

text \<open>
  The gate in front of every management operation that changes something (\<open>audit_management.go\<close>): the event of
  a request, the secrets it may hold and their redaction, the operation between a start and a finish record,
  and what the finish says of the change.  The JSON of bodies and fields, the environment and the parsing of
  a cookie header are parameters.
\<close>

section \<open>Redaction\<close>

definition redacted_mark :: string where "redacted_mark = ''[REDACTED]''"

text \<open>\<open>strings.NewReplacer\<close>: from left to right, the first secret of the list that begins here.\<close>

function redact :: "string list \<Rightarrow> string \<Rightarrow> string" where
  "redact secrets [] = []"
| "redact secrets (c # cs) =
     (case find (\<lambda>s. s \<noteq> [] \<and> take (length s) (c # cs) = s) secrets of
        Some s \<Rightarrow> redacted_mark @ redact secrets (drop (length s) (c # cs))
      | None \<Rightarrow> c # redact secrets cs)"
  by pat_completeness auto
termination
  by (relation "measure (\<lambda>(secrets, t). length t)") (auto simp: find_Some_iff split: if_splits)

definition auditRedactText :: "string \<Rightarrow> string list \<Rightarrow> string" where
  "auditRedactText text secrets = redact (filter (\<lambda>s. s \<noteq> []) secrets) text"

fun redact_json :: "string list \<Rightarrow> json \<Rightarrow> json" where
  "redact_json secrets (JString s) = JString (auditRedactText s secrets)"
| "redact_json secrets (JArray vs) = JArray (map (redact_json secrets) vs)"
| "redact_json secrets (JObject kvs) = JObject (map (\<lambda>(k, v). (k, redact_json secrets v)) kvs)"
| "redact_json secrets v = v"

section \<open>Secrets\<close>

text \<open>What the gate needs: the handlers' environment, the two journal writes, the readers of the bodies (a field
  that is missing or unreadable reads as the empty string), \<open>os.Getenv\<close>, the values of a cookie header,
  the JSON of changes and fields, and the cache of labels.\<close>

record 'b gateEnv =
  gt_mgmt :: "'b managementEnv"
  gt_begin :: auditEnv
  gt_finish :: auditEnv
  gt_statePath :: string
  gt_alias :: "bytes \<Rightarrow> string"
  gt_keeperName :: "bytes \<Rightarrow> string \<times> string"
  gt_testSend :: "bytes \<Rightarrow> string \<times> string"
  gt_getenv :: "string \<Rightarrow> string"
  gt_cookies :: "string \<Rightarrow> string list"
  gt_parse :: "bytes \<Rightarrow> json option"
  gt_print :: "json \<Rightarrow> bytes"
  gt_strings :: "bytes \<Rightarrow> string list option"
  gt_labels :: labelCache

type_synonym headers = "(string \<times> string list) list"

definition auditRequestKey :: "'b gateEnv \<Rightarrow> managementRequest \<Rightarrow> string" where
  "auditRequestKey x req =
     (if rq_Method req \<noteq> ''POST'' then keyFromRequest (gt_mgmt x) req
      else trim_space (decKey (mx_decode (gt_mgmt x)) (rq_Body req)))"

definition platform_secrets :: "PlatformIdentity \<Rightarrow> string list" where
  "platform_secrets p =
     filter (\<lambda>s. s \<noteq> []) (map trim_space
       [p_Webhook p, p_SignSecret p, p_FetchAppID p, p_FetchAppSecret p, p_FetchAppKey p, p_FetchCorpID p, p_FetchSecret p])"

definition collectNotificationSecrets :: "Notification list \<Rightarrow> string list" where
  "collectNotificationSecrets ns = concat (map (\<lambda>n. concat (map platform_secrets (n_Platforms n))) ns)"

definition state_secrets :: "State \<Rightarrow> string list" where
  "state_secrets st =
     concat (map (\<lambda>b. kb_Key b # collectNotificationSecrets (kb_Notifications b)) (st_KeyBindings st)) @
     collectNotificationSecrets (globalNotificationList st)"

definition secret_headers :: "string list" where
  "secret_headers = [''authorization'', ''proxy-authorization'', ''x-api-key'', ''x-management-key'', ''x-auth-token'', ''cookie'']"

definition header_secrets :: "'b gateEnv \<Rightarrow> string \<times> string list \<Rightarrow> string list" where
  "header_secrets x h =
     (case h of (name, entries) \<Rightarrow>
        if to_lower name \<notin> set secret_headers then []
        else concat (map (\<lambda>v.
          v # (if equal_fold name ''authorization'' \<or> equal_fold name ''proxy-authorization''
               then (case cut_at (CHR '' '') v of None \<Rightarrow> [] | Some (_, token) \<Rightarrow> [trim_space token]) else []) @
          (if equal_fold name ''cookie'' then gt_cookies x v else [])) entries))"

text \<open>The longest first.\<close>

definition auditSecrets :: "'b gateEnv \<Rightarrow> managementRequest \<Rightarrow> headers \<Rightarrow> Config \<Rightarrow> State list \<Rightarrow> string list" where
  "auditSecrets x req hs cfg states =
     sort_key (\<lambda>v. - int (length v))
       (auditRequestKey x req # gt_getenv x (trim_space (cfg_UsageKeeperPasswordEnv cfg)) #
        concat (map state_secrets states) @ concat (map (header_secrets x) hs))"

definition auditRedactJSON :: "'b gateEnv \<Rightarrow> bytes \<Rightarrow> string list \<Rightarrow> bytes" where
  "auditRedactJSON x raw secrets =
     (case gt_parse x raw of None \<Rightarrow> ''null'' | Some v \<Rightarrow> gt_print x (redact_json secrets v))"

section \<open>The event of a request\<close>

definition txt_bullets :: string where "txt_bullets = encode_runes [0x2022, 0x2022, 0x2022, 0x2022]"
definition txt_globalRules :: string where "txt_globalRules = encode_runes [0x5168, 0x5C40, 0x89C4, 0x5219]"
definition txt_globalSettings :: string where
  "txt_globalSettings = encode_runes [0x5168, 0x5C40, 0x901A, 0x77E5, 0x8BBE, 0x7F6E]"
definition txt_defaultNotification :: string where
  "txt_defaultNotification = encode_runes [0x9ED8, 0x8BA4, 0x901A, 0x77E5]"

definition auditKeyRef :: "string \<Rightarrow> string" where
  "auditKeyRef key =
     (if key = [] then ''key:unspecified''
      else ''key:'' @ txt_bullets @ (if length key \<le> 4 then [] else drop (length key - 4) key))"

definition auditBodyAlias :: "'b gateEnv \<Rightarrow> bytes \<Rightarrow> string" where
  "auditBodyAlias x raw = trim_space (gt_alias x raw)"

definition auditNotificationName :: "State \<Rightarrow> string \<Rightarrow> string" where
  "auditNotificationName st i =
     (case find (\<lambda>n. n_ID n = i) (concat (map kb_Notifications (st_KeyBindings st))) of None \<Rightarrow> [] | Some n \<Rightarrow> n_Name n)"

definition request_event :: auditEvent where
  "request_event =
     \<lparr>ev_Version = 0, ev_OperationID = [], ev_Phase = [], ev_OccurredAt = zero_time, ev_Actor = ''management_api'',
      ev_Action = ''update'', ev_Module = ''other'', ev_ObjectType = ''key_binding'', ev_ObjectRef = ''unspecified'',
      ev_ObjectLabel = [], ev_Labels = [], ev_Outcome = [], ev_Changed = None, ev_Changes = None, ev_ErrorCode = []\<rparr>"

definition keeper_event :: "'b gateEnv \<Rightarrow> bytes \<Rightarrow> auditEvent" where
  "keeper_event x raw =
     (case gt_keeperName x raw of (authIndex, alias) \<Rightarrow>
        request_event\<lparr>ev_Module := ''keeper_auth_name'', ev_ObjectType := ''keeper_auth_name'',
          ev_ObjectRef := (if trim_space authIndex = [] then ''unspecified'' else trim_space authIndex),
          ev_ObjectLabel := trim_space alias\<rparr>)"

definition test_event :: "'b gateEnv \<Rightarrow> bytes \<Rightarrow> State \<Rightarrow> auditEvent" where
  "test_event x raw before =
     (case gt_testSend x raw of (key, nid) \<Rightarrow>
        (let ev = request_event\<lparr>ev_Module := ''notifications'', ev_Action := ''test_send'', ev_ObjectType := ''notification_test''\<rparr>;
             key = trim_space key; nid = trim_space nid
         in if key \<noteq> [] then
              ev\<lparr>ev_ObjectRef := auditKeyRef key,
                 ev_ObjectLabel := (case binding_at (st_KeyBindings before) key of None \<Rightarrow> [] | Some b \<Rightarrow> kb_Alias b)\<rparr>
            else if nid \<noteq> [] then
              ev\<lparr>ev_ObjectRef := ''notification:'' @ nid, ev_ObjectLabel := auditNotificationName before nid\<rparr>
            else ev\<lparr>ev_ObjectRef := ''notification:default'', ev_ObjectLabel := txt_defaultNotification\<rparr>))"

definition key_event :: "'b gateEnv \<Rightarrow> managementRequest \<Rightarrow> State \<Rightarrow> auditEvent" where
  "key_event x req before =
     (let key = auditRequestKey x req;
          alias = (if rq_Method req = ''POST'' then auditBodyAlias x (rq_Body req) else []);
          alias = (if alias \<noteq> [] then alias
                   else case binding_at (st_KeyBindings before) key of
                     Some b \<Rightarrow> kb_Alias b | None \<Rightarrow> auditBodyAlias x (rq_Body req))
      in request_event\<lparr>ev_Module := ''key_binding'', ev_ObjectRef := auditKeyRef key, ev_ObjectLabel := alias,
           ev_Action := (if rq_Method req = ''DELETE'' then ''delete''
             else if rq_Method req = ''POST'' \<and> binding_at (st_KeyBindings before) key = None then ''create'' else ''update'')\<rparr>)"

definition auditEventForRequest :: "'b gateEnv \<Rightarrow> managementRequest \<Rightarrow> State \<Rightarrow> auditEvent" where
  "auditEventForRequest x req before =
     (let path = managementRequestPath (rq_Path req)
      in if path = managementHandleBase @ ''/rules'' then
           request_event\<lparr>ev_Module := ''rules'', ev_ObjectType := ''rules'', ev_ObjectRef := ''rules'', ev_ObjectLabel := txt_globalRules\<rparr>
         else if path = managementHandleBase @ ''/keeper/auth-names'' then keeper_event x (rq_Body req)
         else if path = managementHandleBase @ ''/notifications/settings'' \<and> rq_Method req = ''PUT'' then
           request_event\<lparr>ev_Module := ''notifications'', ev_ObjectType := ''notification_settings'', ev_ObjectRef := ''global'',
             ev_ObjectLabel := txt_globalSettings\<rparr>
         else if path = managementHandleBase @ ''/notifications/test-send'' \<and> rq_Method req = ''POST'' then
           test_event x (rq_Body req) before
         else key_event x req before)"

section \<open>What an operation changed\<close>

text \<open>The values of the projected fields; their JSON is a parameter.  A list of a channel target that is
  empty is \<open>nil\<close>, since the states compared are copies and \<open>append([]string(nil), ...)\<close> of nothing is \<open>nil\<close>; a key's
  notifications keep the difference.  The global settings, whose nested lists are not copied, do not tell the two
  apart here.\<close>

datatype fieldValue =
    FNull | FBool bool | FText string | FTexts "string list" | FSummaries "(string \<times> string \<times> bool) list"
  | FNotifications "Notification list" | FPlatforms "PlatformIdentity list"

type_synonym fields = "(string \<times> fieldValue) list"

definition field_value :: "fields \<Rightarrow> string \<Rightarrow> fieldValue" where
  "field_value fs f = (case map_of fs f of None \<Rightarrow> FNull | Some v \<Rightarrow> v)"

definition auditNotificationSummaries :: "Notification list option \<Rightarrow> fieldValue" where
  "auditNotificationSummaries notifications =
     (case notifications of
        None \<Rightarrow> FNull
      | Some ns \<Rightarrow> FSummaries (map (\<lambda>n. (n_ID n, n_Name n, n_Enabled n)) ns))"

text \<open>A copied list of strings, \<open>append([]string(nil), ids...)\<close>.\<close>

definition copied_texts :: "string list \<Rightarrow> fieldValue" where
  "copied_texts ids = (if ids = [] then FNull else FTexts ids)"

definition auditBindingFields :: "KeyBinding option \<Rightarrow> fields" where
  "auditBindingFields binding =
     (case binding of
        None \<Rightarrow> []
      | Some b \<Rightarrow>
        [(''alias'', FText (kb_Alias b)), (''enabled'', FBool (kb_Enabled b)), (''blocked'', FBool (kb_Blocked b)),
         (''rules.global'', FText (rs_Global (kb_Rules b))), (''rules.claude'', FText (rs_Claude (kb_Rules b))),
         (''rules.codex'', FText (rs_Codex (kb_Rules b))), (''rules.openai'', FText (rs_OpenAI (kb_Rules b))),
         (''notifications'', auditNotificationSummaries (kb_NotificationSlice b)),
         (''fast_allowed'', case kb_FastAllowed b of None \<Rightarrow> FNull | Some v \<Rightarrow> FBool v)] @
        (case kb_ChannelTarget b of
           Some t \<Rightarrow>
             [(''channel_target.enabled'', FBool (ct_Enabled t)), (''channel_target.suppliers'', copied_texts (ct_Suppliers t)),
              (''channel_target.auth_ids'', copied_texts (ct_AuthIDs t))]
         | None \<Rightarrow>
             [(''channel_target.enabled'', FNull), (''channel_target.suppliers'', FNull), (''channel_target.auth_ids'', FNull)]))"

definition ruleFields :: "RuleSet \<Rightarrow> fields" where
  "ruleFields r =
     [(''rules.global'', FText (rs_Global r)), (''rules.claude'', FText (rs_Claude r)),
      (''rules.codex'', FText (rs_Codex r)), (''rules.openai'', FText (rs_OpenAI r))]"

definition auditNotificationSettingsFields :: "NotificationSettings option \<Rightarrow> fields" where
  "auditNotificationSettingsFields settings =
     (case settings of
        None \<Rightarrow> [(''notifications.enabled'', FNull), (''notifications.list'', FNull),
            (''notifications.global_default.platforms'', FNull)]
      | Some s \<Rightarrow>
        [(''notifications.enabled'', FBool (ns_Enabled s)), (''notifications.list'', FNotifications (ns_Notifications s)),
         (''notifications.global_default.platforms'', FPlatforms (n_Platforms (ns_GlobalDefault s)))])"

type_synonym changes = "(string \<times> bytes \<times> bytes) list"

record auditResult =
  ar_Outcome :: string
  ar_Changed :: "bool option"
  ar_Changes :: "changes option"
  ar_ErrorCode :: string

definition field_changes :: "(fieldValue \<Rightarrow> bytes) \<Rightarrow> fields \<Rightarrow> fields \<Rightarrow> changes" where
  "field_changes enc old new =
     List.map_filter (\<lambda>f.
       let b = enc (field_value old f); a = enc (field_value new f) in if b = a then None else Some (f, b, a))
       (remdups (map fst old @ map fst new))"

definition audited_fields :: "'b gateEnv \<Rightarrow> managementRequest \<Rightarrow> State \<Rightarrow> fields" where
  "audited_fields x req st =
     (let path = managementRequestPath (rq_Path req)
      in if path = managementHandleBase @ ''/rules'' then ruleFields (st_Rules st)
         else if path = managementHandleBase @ ''/notifications/settings'' then
           auditNotificationSettingsFields (st_Notifications st)
         else auditBindingFields (binding_at (st_KeyBindings st) (auditRequestKey x req)))"

definition auditStateResult ::
    "'b gateEnv \<Rightarrow> (fieldValue \<Rightarrow> bytes) \<Rightarrow> managementRequest \<Rightarrow> State \<Rightarrow> State \<Rightarrow> 'a managementResponse \<Rightarrow> auditResult" where
  "auditStateResult x enc req before after resp =
     (if 400 \<le> rs_Status resp then
        \<lparr>ar_Outcome = ''failed'', ar_Changed = Some False, ar_Changes = None,
         ar_ErrorCode = (if rs_Status resp = 400 then ''invalid_request''
           else if rs_Status resp = 404 then ''not_found'' else ''state_write_failed'')\<rparr>
      else
        (let cs = field_changes enc (audited_fields x req before) (audited_fields x req after)
         in \<lparr>ar_Outcome = ''succeeded'', ar_Changed = Some (cs \<noteq> []), ar_Changes = Some cs, ar_ErrorCode = []\<rparr>))"

section \<open>The gate\<close>

text \<open>The event as it is begun.\<close>

definition start_event :: "'b gateEnv \<Rightarrow> managementRequest \<Rightarrow> headers \<Rightarrow> World \<Rightarrow> auditEvent" where
  "start_event x req hs w =
     (let st = h_state (w_holder w);
          ev = auditEventForRequest x req st;
          secrets = auditSecrets x req hs (w_cfg w) [st];
          ev = (if ev_ObjectType ev = ''keeper_auth_name''
                then ev\<lparr>ev_ObjectRef := auditRedactText (ev_ObjectRef ev) secrets\<rparr> else ev)
      in ev\<lparr>ev_ObjectLabel := auditRedactText (ev_ObjectLabel ev) secrets\<rparr>)"

definition redact_changes :: "'b gateEnv \<Rightarrow> string list \<Rightarrow> changes \<Rightarrow> changes" where
  "redact_changes x secrets cs = map (\<lambda>(f, b, a). (f, auditRedactJSON x b secrets, auditRedactJSON x a secrets)) cs"

definition auditChangedChannelIDs :: "'b gateEnv \<Rightarrow> changes \<Rightarrow> string list" where
  "auditChangedChannelIDs x cs =
     concat (map (\<lambda>f. case map_of cs f of
         None \<Rightarrow> []
       | Some (b, a) \<Rightarrow> concat (map (\<lambda>raw. case gt_strings x raw of None \<Rightarrow> [] | Some ids \<Rightarrow> ids) [b, a]))
       [''channel_target.suppliers'', ''channel_target.auth_ids''])"

text \<open>The event as it is finished, \<open>before\<close> and \<open>after\<close> the operation.\<close>

definition finish_event ::
    "'b gateEnv \<Rightarrow> managementRequest \<Rightarrow> headers \<Rightarrow> World \<Rightarrow> World \<Rightarrow> auditResult \<Rightarrow> auditEvent" where
  "finish_event x req hs w w' res =
     (let ev = start_event x req hs w;
          before = h_state (w_holder w); after = h_state (w_holder w');
          secrets = auditSecrets x req hs (w_cfg w) [before, after];
          cs = map_option (redact_changes x secrets) (ar_Changes res);
          lbl = (if ev_Module ev = ''key_binding'' \<and> ev_ObjectLabel ev = [] then
                   (case binding_at (st_KeyBindings after) (auditRequestKey x req) of None \<Rightarrow> [] | Some b \<Rightarrow> kb_Alias b)
                 else ev_ObjectLabel ev);
          labels = auditChannelLabels (gt_labels x) (case cs of None \<Rightarrow> [] | Some cs \<Rightarrow> auditChangedChannelIDs x cs)
      in ev\<lparr>ev_ObjectLabel := auditRedactText lbl secrets,
            ev_Labels := map (\<lambda>(i, l). (i, auditRedactText l secrets)) labels,
            ev_Outcome := ar_Outcome res, ev_Changed := ar_Changed res, ev_Changes := cs, ev_ErrorCode := ar_ErrorCode res\<rparr>)"

text \<open>What is answered: 503, 500, or the operation's response with the ID of the record and whether its finish
  was written.\<close>

datatype 'a gated = AuditUnavailableAnswer | InvalidManagementResponse | Gated "'a managementResponse" string bool

definition withAuditedManagement ::
    "'b gateEnv \<Rightarrow> ('a managementResponse \<Rightarrow> bool) \<Rightarrow> managementRequest \<Rightarrow> headers \<Rightarrow>
     (World \<Rightarrow> ('a managementResponse \<times> auditResult) \<times> World) \<Rightarrow> World \<times> auditState \<Rightarrow> 'a gated \<times> World \<times> auditState" where
  "withAuditedManagement x isObject req hs op wj =
     (case wj of (w, j) \<Rightarrow>
        (case beginAudit (gt_begin x) (gt_statePath x) (start_event x req hs w) j of
           (Inl e, j) \<Rightarrow> (AuditUnavailableAnswer, w, j)
         | (Inr ticket, j) \<Rightarrow>
           (case op w of ((resp, res), w') \<Rightarrow>
              (case finishAudit (gt_finish x) ticket (finish_event x req hs w w' res) j of (err, j) \<Rightarrow>
                 (if isObject resp then Gated resp (tk_ID ticket) (err = None) else InvalidManagementResponse, w', j)))))"

definition auditedStateManagement ::
    "'b gateEnv \<Rightarrow> (fieldValue \<Rightarrow> bytes) \<Rightarrow> ('a managementResponse \<Rightarrow> bool) \<Rightarrow> managementRequest \<Rightarrow> headers \<Rightarrow>
     (managementRequest \<Rightarrow> World \<Rightarrow> 'a managementResponse \<times> World) \<Rightarrow> World \<times> auditState \<Rightarrow> 'a gated \<times> World \<times> auditState" where
  "auditedStateManagement x enc isObject req hs handler =
     withAuditedManagement x isObject req hs
       (\<lambda>w. case handler req w of (resp, w') \<Rightarrow>
          ((resp, auditStateResult x enc req (h_state (w_holder w)) (h_state (w_holder w')) resp), w'))"

text \<open>The result of a test send, which changes no configuration.\<close>

definition test_send_result :: "'a managementResponse \<Rightarrow> auditResult" where
  "test_send_result resp =
     (if 400 \<le> rs_Status resp then
        \<lparr>ar_Outcome = ''failed'', ar_Changed = Some False, ar_Changes = None,
         ar_ErrorCode = (if rs_Status resp = 404 then ''not_found'' else ''invalid_request'')\<rparr>
      else \<lparr>ar_Outcome = ''succeeded'', ar_Changed = Some False, ar_Changes = Some [], ar_ErrorCode = []\<rparr>)"

section \<open>No secret gets through\<close>

text \<open>A text without a secret in it; a masked text is made of such texts with marks between them.\<close>

definition no_secret :: "string list \<Rightarrow> string \<Rightarrow> bool" where
  "no_secret secrets t \<longleftrightarrow> (\<forall>s\<in>set secrets. s \<noteq> [] \<longrightarrow> (\<nexists>a b. t = a @ s @ b))"

definition masked :: "string list \<Rightarrow> string \<Rightarrow> bool" where
  "masked secrets t \<longleftrightarrow> (\<exists>ks. t = join redacted_mark ks \<and> (\<forall>k\<in>set ks. no_secret secrets k))"

text \<open>The texts between the marks.\<close>

function kept :: "string list \<Rightarrow> string \<Rightarrow> string list" where
  "kept secrets [] = [[]]"
| "kept secrets (c # cs) =
     (case find (\<lambda>s. s \<noteq> [] \<and> take (length s) (c # cs) = s) secrets of
        Some s \<Rightarrow> [] # kept secrets (drop (length s) (c # cs))
      | None \<Rightarrow> (c # hd (kept secrets cs)) # tl (kept secrets cs))"
  by pat_completeness auto
termination
  by (relation "measure (\<lambda>(secrets, t). length t)") (auto simp: find_Some_iff split: if_splits)

lemma kept_not_Nil [simp]: "kept secrets t \<noteq> []"
  by (cases t) (auto split: option.split)

lemma join_nonempty: "xs \<noteq> [] \<Longrightarrow> join sep (x # xs) = x @ sep @ join sep xs"
  by (cases xs) simp_all

lemma join_hd: "xs \<noteq> [] \<Longrightarrow> join sep ((c # hd xs) # tl xs) = c # join sep xs"
  by (cases xs; cases "tl xs") simp_all

lemma redact_kept: "redact secrets t = join redacted_mark (kept secrets t)"
proof (induction secrets t rule: redact.induct)
  case (2 secrets c cs)
  then show ?case
    by (cases "find (\<lambda>s. s \<noteq> [] \<and> take (length s) (c # cs) = s) secrets") (simp_all add: join_nonempty join_hd)
qed simp

lemma kept_prefix: "take (length (hd (kept secrets t))) t = hd (kept secrets t)"
  by (induction secrets t rule: kept.induct) (auto split: option.split)

lemma kept_no_secret: "k \<in> set (kept secrets t) \<Longrightarrow> no_secret secrets k"
proof (induction secrets t arbitrary: k rule: kept.induct)
  case (1 secrets)
  then show ?case by (simp add: no_secret_def)
next
  case (2 secrets c cs)
  show ?case
  proof (cases "find (\<lambda>s. s \<noteq> [] \<and> take (length s) (c # cs) = s) secrets")
    case (Some s)
    with "2.prems" have "k = [] \<or> k \<in> set (kept secrets (drop (length s) (c # cs)))" by simp
    with "2.IH"(3) [OF Some] show ?thesis by (auto simp: no_secret_def [of _ "[]"])
  next
    case None
    let ?h = "hd (kept secrets cs)"
    have split_k: "k = c # ?h \<or> k \<in> set (kept secrets cs)"
      using "2.prems" None by (cases "kept secrets cs") auto
    have ih: "no_secret secrets k" if "k \<in> set (kept secrets cs)" for k using "2.IH"(1) [OF None that] .
    have "no_secret secrets (c # ?h)"
      unfolding no_secret_def
    proof (intro ballI impI notI)
      fix s assume s: "s \<in> set secrets" "s \<noteq> []" and "\<exists>a b. c # ?h = a @ s @ b"
      then obtain a b where e: "c # ?h = a @ s @ b" by blast
      show False
      proof (cases a)
        case Nil
        have "take (length (c # ?h)) (c # cs) = c # ?h" using kept_prefix [of secrets cs] by simp
        then have "take (length s) (c # cs) = take (length s) (c # ?h)"
          using e Nil by (metis append_Nil length_append min.absorb1 le_add1 take_take)
        then have "take (length s) (c # cs) = s" using e Nil by simp
        with None s show False by (auto simp: find_None_iff)
      next
        case (Cons a0 a')
        then have "?h = a' @ s @ b" using e by simp
        moreover have "no_secret secrets ?h" using ih by simp
        ultimately show False using s by (auto simp: no_secret_def)
      qed
    qed
    with split_k ih show ?thesis by blast
  qed
qed

lemma redact_masked: "masked secrets (auditRedactText t secrets)"
proof -
  have "no_secret (filter (\<lambda>s. s \<noteq> []) secrets) k \<Longrightarrow> no_secret secrets k" for k
    by (auto simp: no_secret_def)
  then show ?thesis
    unfolding masked_def auditRedactText_def redact_kept using kept_no_secret by blast
qed

text \<open>The strings in a value, keys apart.\<close>

fun strings_in :: "json \<Rightarrow> string list" where
  "strings_in (JString s) = [s]"
| "strings_in (JArray vs) = concat (map strings_in vs)"
| "strings_in (JObject kvs) = concat (map (\<lambda>(k, v). strings_in v) kvs)"
| "strings_in v = []"

lemma redact_json_masked: "s \<in> set (strings_in (redact_json secrets v)) \<Longrightarrow> masked secrets s"
  by (induction v rule: strings_in.induct) (auto simp: redact_masked)

definition masked_json :: "'b gateEnv \<Rightarrow> string list \<Rightarrow> bytes \<Rightarrow> bool" where
  "masked_json x secrets raw \<longleftrightarrow>
     raw = ''null'' \<or> (\<exists>v. raw = gt_print x v \<and> (\<forall>s\<in>set (strings_in v). masked secrets s))"

definition masked_event :: "'b gateEnv \<Rightarrow> string list \<Rightarrow> auditEvent \<Rightarrow> bool" where
  "masked_event x secrets ev \<longleftrightarrow>
     masked secrets (ev_ObjectLabel ev) \<and>
     (ev_ObjectType ev = ''keeper_auth_name'' \<longrightarrow> masked secrets (ev_ObjectRef ev)) \<and>
     (\<forall>(i, l)\<in>set (ev_Labels ev). masked secrets l) \<and>
     (\<forall>cs. ev_Changes ev = Some cs \<longrightarrow> (\<forall>(f, b, a)\<in>set cs. masked_json x secrets b \<and> masked_json x secrets a))"

lemma auditRedactJSON_masked: "masked_json x secrets (auditRedactJSON x raw secrets)"
  by (auto simp: masked_json_def auditRedactJSON_def dest: redact_json_masked split: option.split)

lemma auditRedactJSON_changes:
  "(f, b, a) \<in> set (redact_changes x secrets cs) \<Longrightarrow> masked_json x secrets b \<and> masked_json x secrets a"
  by (auto simp: redact_changes_def auditRedactJSON_masked)

lemma auditEventForRequest_plain:
  "ev_Labels (auditEventForRequest x req st) = []" "ev_Changes (auditEventForRequest x req st) = None"
  "ev_Outcome (auditEventForRequest x req st) = []" "ev_Actor (auditEventForRequest x req st) = ''management_api''"
  by (simp_all add: auditEventForRequest_def keeper_event_def test_event_def key_event_def request_event_def Let_def split_beta)

text \<open>The secrets the gate knows: of the states, and of the request and its headers.\<close>

definition known_secrets :: "'b gateEnv \<Rightarrow> managementRequest \<Rightarrow> headers \<Rightarrow> State list \<Rightarrow> string set" where
  "known_secrets x req hs sts =
     {auditRequestKey x req} \<union> (\<Union>st\<in>set sts. set (state_secrets st)) \<union> (\<Union>h\<in>set hs. set (header_secrets x h))"

lemma known_secrets_collected: "known_secrets x req hs sts \<subseteq> set (auditSecrets x req hs cfg sts)"
  by (auto simp: known_secrets_def auditSecrets_def set_insort_key)

text \<open>The reference of an event as the request gives it.  A test send of a global notification is referred to by the ID
  of the body, whatever text that is, and no mark is put in it.\<close>

definition plain_refs :: "'b gateEnv \<Rightarrow> managementRequest \<Rightarrow> string set" where
  "plain_refs x req =
     {''rules'', ''global'', ''notification:default'', auditKeyRef (auditRequestKey x req),
      auditKeyRef (trim_space (fst (gt_testSend x (rq_Body req))))}"

lemma event_refs:
  "ev_ObjectType (auditEventForRequest x req st) = ''keeper_auth_name'' \<or>
   ev_ObjectRef (auditEventForRequest x req st) \<in> plain_refs x req \<or>
   ev_ObjectType (auditEventForRequest x req st) = ''notification_test'' \<and>
     ev_ObjectRef (auditEventForRequest x req st) = ''notification:'' @ trim_space (snd (gt_testSend x (rq_Body req)))"
  by (simp add: auditEventForRequest_def keeper_event_def test_event_def key_event_def request_event_def plain_refs_def
      Let_def split_beta)

lemma start_event_ref:
  "ev_ObjectType (start_event x req hs w) = ev_ObjectType (auditEventForRequest x req (h_state (w_holder w)))"
  "ev_ObjectType (start_event x req hs w) \<noteq> ''keeper_auth_name'' \<Longrightarrow>
    ev_ObjectRef (start_event x req hs w) = ev_ObjectRef (auditEventForRequest x req (h_state (w_holder w)))"
  by (auto simp: start_event_def Let_def split: if_splits)

lemma audit_test_ref_verbatim:
  assumes "managementRequestPath (rq_Path req) = managementHandleBase @ ''/notifications/test-send''"
    and "rq_Method req = ''POST''" and "gt_testSend x (rq_Body req) = ([], nid)" and "trim_space nid \<noteq> []"
  shows "ev_ObjectRef (start_event x req hs w) = ''notification:'' @ trim_space nid"
  using assms by (simp add: start_event_def auditEventForRequest_def test_event_def request_event_def trim_space_def Let_def)

text \<open>C23. What the gate redacts shows no secret it knows: the label, the name of a keeper account, the labels of
  channels, and every JSON string in the values of a change (names of JSON members apart) are texts without a
  secret, with marks between them.  The secrets include every key of a binding, every webhook, signature and
  credential of a notification, in the loaded state before the operation and after it, and the values of
  the headers that carry credentials.  Every other reference is a constant, the masked end of a key, or the ID that
  a test send was given, which is written as it came; so are the IDs of channels.\<close>

theorem audit_masks_secrets:
  "let before = h_state (w_holder w); after = h_state (w_holder w');
       s0 = auditSecrets x req hs (w_cfg w) [before]; s1 = auditSecrets x req hs (w_cfg w) [before, after];
       ev = start_event x req hs w; ev' = finish_event x req hs w w' res
   in known_secrets x req hs [before] \<subseteq> set s0 \<and> known_secrets x req hs [before, after] \<subseteq> set s1 \<and>
      masked_event x s0 ev \<and> masked_event x s1 (ev'\<lparr>ev_ObjectRef := []\<rparr>) \<and> ev_ObjectRef ev' = ev_ObjectRef ev \<and>
      (ev_ObjectType ev = ''keeper_auth_name'' \<or> ev_ObjectRef ev \<in> plain_refs x req \<or>
       ev_ObjectType ev = ''notification_test'' \<and>
         ev_ObjectRef ev = ''notification:'' @ trim_space (snd (gt_testSend x (rq_Body req))))"
proof -
  have nil: "masked s []" for s by (auto simp: masked_def intro!: exI [of _ "[]"])
  let ?ev = "start_event x req hs w"
  have "ev_ObjectType ?ev = ''keeper_auth_name'' \<or> ev_ObjectRef ?ev \<in> plain_refs x req \<or>
      ev_ObjectType ?ev = ''notification_test'' \<and> ev_ObjectRef ?ev = ''notification:'' @ trim_space (snd (gt_testSend x (rq_Body req)))"
    using event_refs [of x req "h_state (w_holder w)"] start_event_ref [of x req hs w] by metis
  moreover have "masked_event x (auditSecrets x req hs (w_cfg w) [h_state (w_holder w)]) ?ev"
    by (auto simp: Let_def masked_event_def start_event_def redact_masked auditEventForRequest_plain)
  ultimately show ?thesis
    by (auto simp: Let_def masked_event_def finish_event_def redact_masked nil
        known_secrets_collected known_secrets_collected [THEN subsetD] start_event_def auditEventForRequest_plain
        dest: auditRedactJSON_changes split: option.splits)
qed

section \<open>What the journal tells of an operation\<close>

lemma redact_Nil [simp]: "redact secrets t = [] \<longleftrightarrow> t = []"
  by (cases t) (auto simp: redacted_mark_def split: option.split)

lemma auditRedactText_Nil [simp]: "auditRedactText t secrets = [] \<longleftrightarrow> t = []"
  by (simp add: auditRedactText_def)

lemma auditEventForRequest_named:
  "ev_Action (auditEventForRequest x req st) \<noteq> []" "ev_Module (auditEventForRequest x req st) \<noteq> []"
  "ev_ObjectType (auditEventForRequest x req st) \<noteq> []" "ev_ObjectRef (auditEventForRequest x req st) \<noteq> []"
  by (simp_all add: auditEventForRequest_def keeper_event_def test_event_def key_event_def request_event_def Let_def split_beta
      auditKeyRef_def)

text \<open>The gate writes events the reader accepts.\<close>

lemma start_event_valid:
  "ax_id y \<noteq> [] \<Longrightarrow> ax_now y \<noteq> zero_time \<Longrightarrow> validAuditEvent (stamp_event y (ax_id y) ''start'' (start_event x req hs w))"
  by (simp add: validAuditEvent_def stamp_event_def start_event_def Let_def auditEventForRequest_plain auditEventForRequest_named)

lemma finish_event_valid:
  assumes "i \<noteq> []" and "ax_now y \<noteq> zero_time"
  shows "validAuditEvent (stamp_event y i ''finish'' (finish_event x req hs w w' (auditStateResult x enc req before after resp)))"
  using assms
  by (simp add: validAuditEvent_def stamp_event_def finish_event_def start_event_def auditStateResult_def Let_def
      auditEventForRequest_named)

lemma finish_event_result:
  "ev_Outcome (finish_event x req hs w w' res) = ar_Outcome res" "ev_Changed (finish_event x req hs w w' res) = ar_Changed res"
  by (simp_all add: finish_event_def Let_def)

text \<open>The two writes of one operation: one codec, a fresh ID, an honest clock.\<close>

definition audit_ready :: "'b gateEnv \<Rightarrow> auditState \<Rightarrow> bool" where
  "audit_ready x j \<longleftrightarrow>
     audit_codec_ok (ax_codec (gt_begin x)) \<and> ax_codec (gt_finish x) = ax_codec (gt_begin x) \<and>
     ax_id (gt_begin x) \<noteq> [] \<and> zero_time < ax_now (gt_begin x) \<and> ax_now (gt_begin x) \<le> ax_now (gt_finish x) \<and>
     (\<forall>p. fresh_in (ax_codec (gt_begin x)) (ax_id (gt_begin x)) (split_on [newline] (content_of (au_fs j) p))) \<and>
     au_unconfirmed j (ax_id (gt_begin x)) = None"

text \<open>C22. Nothing is changed without a record.  When the journal cannot take the start, the operation is not run and
  the world is as it was.  Otherwise it runs once, and whatever happens to the finish, the day's journal
  has one item for it under the ID that is answered: with the outcome of the response and whether a
  projected field changed, when the answer says it was recorded, and as unknown when it does not.\<close>

theorem audit_gate_honest:
  assumes "audit_ready x j"
    and "auditedStateManagement x enc isObject req hs handler (w, j) = (g, w', j')"
  shows "case g of
      AuditUnavailableAnswer \<Rightarrow> w' = w
    | InvalidManagementResponse \<Rightarrow> (w' = snd (handler req w) \<and> \<not> isObject (fst (handler req w)) \<and>
        (\<exists>path. shown (ax_codec (gt_begin x)) path j' (ax_id (gt_begin x)) \<noteq> None))
    | Gated resp i recorded \<Rightarrow> (resp, w') = handler req w \<and> i = ax_id (gt_begin x) \<and>
        (\<exists>path ev err. recorded = (err = None) \<and>
          tells (gt_begin x) (gt_finish x) ev err (shown (ax_codec (gt_begin x)) path j' i) \<and>
          ev_Outcome ev = (if 400 \<le> rs_Status resp then ''failed'' else ''succeeded'') \<and>
          ev_Changed ev = Some (rs_Status resp < 400 \<and>
            field_changes enc (audited_fields x req (h_state (w_holder w))) (audited_fields x req (h_state (w_holder w'))) \<noteq> []))"
proof (cases "beginAudit (gt_begin x) (gt_statePath x) (start_event x req hs w) j")
  case (Pair b j1)
  show ?thesis
  proof (cases b)
    case (Inl e)
    then show ?thesis using assms(2) Pair by (auto simp: auditedStateManagement_def withAuditedManagement_def)
  next
    case (Inr t)
    obtain resp w1 where h: "handler req w = (resp, w1)" by fastforce
    define res where "res = auditStateResult x enc req (h_state (w_holder w)) (h_state (w_holder w1)) resp"
    obtain err j2 where f: "finishAudit (gt_finish x) t (finish_event x req hs w w1 res) j1 = (err, j2)" by fastforce
    note b = Pair [unfolded Inr]
    have out: "g = (if isObject resp then Gated resp (tk_ID t) (err = None) else InvalidManagementResponse)" "w' = w1" "j' = j2"
      using assms(2) b h f by (auto simp: auditedStateManagement_def withAuditedManagement_def res_def)
    note r = assms(1) [unfolded audit_ready_def]
    have "tells (gt_begin x) (gt_finish x) (finish_event x req hs w w1 res) err
        (shown (ax_codec (gt_begin x)) (tk_Path t) j2 (tk_ID t))"
      using r by (intro finished_shown [OF _ _ b _ _ _ f]) (simp_all add: start_event_valid finish_event_valid res_def)
    moreover have "tk_ID t = ax_id (gt_begin x)" using b by (auto simp: beginAudit_def split: if_splits option.splits prod.splits)
    moreover have "ev_Outcome (finish_event x req hs w w1 res) = (if 400 \<le> rs_Status resp then ''failed'' else ''succeeded'')"
      "ev_Changed (finish_event x req hs w w1 res) = Some (rs_Status resp < 400 \<and>
            field_changes enc (audited_fields x req (h_state (w_holder w))) (audited_fields x req (h_state (w_holder w1))) \<noteq> [])"
      by (simp_all add: finish_event_result res_def auditStateResult_def Let_def)
    ultimately have told: "\<exists>path ev err'. (err = None) = (err' = None) \<and>
          tells (gt_begin x) (gt_finish x) ev err' (shown (ax_codec (gt_begin x)) path j2 (ax_id (gt_begin x))) \<and>
          ev_Outcome ev = (if 400 \<le> rs_Status resp then ''failed'' else ''succeeded'') \<and>
          ev_Changed ev = Some (rs_Status resp < 400 \<and>
            field_changes enc (audited_fields x req (h_state (w_holder w))) (audited_fields x req (h_state (w_holder w1))) \<noteq> [])"
      and id: "tk_ID t = ax_id (gt_begin x)" by metis+
    then have "\<exists>path. shown (ax_codec (gt_begin x)) path j2 (ax_id (gt_begin x)) \<noteq> None"
      by (auto simp: tells_def split: option.splits)
    with told id out h show ?thesis by (cases "isObject resp") simp_all
  qed
qed

text \<open>The recorded changes of a request to \<open>/keys\<close>.\<close>

lemma field_changes_iff:
  "(f, b, a) \<in> set (field_changes enc old new) \<longleftrightarrow>
    f \<in> fst ` (set old \<union> set new) \<and> b = enc (field_value old f) \<and> a = enc (field_value new f) \<and> a \<noteq> b"
  by (auto simp: field_changes_def List.map_filter_def Let_def split: if_splits)

lemma key_paths: "managementHandleBase @ ''/keys'' \<noteq> managementHandleBase @ ''/rules''"
  "managementHandleBase @ ''/keys'' \<noteq> managementHandleBase @ ''/notifications/settings''"
  by simp_all

text \<open>The key the gate audits is the key the handler works on, when the two readers of a body agree on it.\<close>

lemma audited_key:
  assumes "keyCommand (gt_mgmt x) req = Some c"
    and "\<And>raw b. decBinding (mx_decode (gt_mgmt x)) raw = Some b \<Longrightarrow> decKey (mx_decode (gt_mgmt x)) raw = kb_Key b"
  shows "cmd_key kb_Key c = auditRequestKey x req"
  using assms by (auto simp: keyCommand_def auditRequestKey_def cleanBinding_def stripKeyNotificationAtAll_def split: if_splits)

text \<open>C24. A key request that succeeds is audited with exactly the projected fields of its own binding whose encodings
  differ, and no other binding is changed.  One that fails is audited as failed and unchanged, and the loaded
  state is untouched.\<close>

theorem audit_key_changes_exact:
  assumes "holder_ok (w_holder w)" and "rq_Method req \<in> {''POST'', ''PATCH'', ''DELETE''}"
    and "managementRequestPath (rq_Path req) = managementHandleBase @ ''/keys''"
    and "\<And>raw b. decBinding (mx_decode (gt_mgmt x)) raw = Some b \<Longrightarrow> decKey (mx_decode (gt_mgmt x)) raw = kb_Key b"
    and "keyRequest (gt_mgmt x) req w = (r, w')"
  shows "let res = auditStateResult x enc req (h_state (w_holder w)) (h_state (w_holder w')) r; key = auditRequestKey x req;
        old = auditBindingFields (binding_at (bindings_of w) key); new = auditBindingFields (binding_at (bindings_of w') key)
    in if rs_Status r = 200 then
         ar_Outcome res = ''succeeded'' \<and> (\<forall>k. k \<noteq> key \<longrightarrow> binding_at (bindings_of w') k = binding_at (bindings_of w) k) \<and>
         (\<exists>cs. ar_Changes res = Some cs \<and> ar_Changed res = Some (cs \<noteq> []) \<and>
           (\<forall>f b a. (f, b, a) \<in> set cs \<longleftrightarrow>
              f \<in> fst ` (set old \<union> set new) \<and> b = enc (field_value old f) \<and> a = enc (field_value new f) \<and> a \<noteq> b))
       else ar_Outcome res = ''failed'' \<and> ar_Changed res = Some False \<and> ar_Changes res = None \<and> w_holder w' = w_holder w"
proof -
  note m = management_key_request [OF assms(1,5,2)]
  show ?thesis
  proof (cases "rs_Status r = 200")
    case True
    with m obtain c where c: "keyCommand (gt_mgmt x) req = Some c"
        "cmd_spec kb_Key c (binding_at (bindings_of w)) = Some (binding_at (bindings_of w'))"
      by (auto split: option.splits)
    from cmd_spec_frame [OF c(2)] audited_key [OF c(1) assms(4)]
    have "\<forall>k. k \<noteq> auditRequestKey x req \<longrightarrow> binding_at (bindings_of w') k = binding_at (bindings_of w) k" by simp
    with True show ?thesis
      by (simp add: Let_def auditStateResult_def audited_fields_def assms(3) field_changes_iff key_paths)
  next
    case False
    with m have "rs_Status r \<in> {400, 404, 500}" "w_holder w' = w_holder w" by (auto split: option.splits)
    then show ?thesis by (auto simp: Let_def auditStateResult_def)
  qed
qed

text \<open>What the audit cannot see: the schedule, the platforms or the scope of a key's notification are not projected, so
  an edit of them that keeps the identifiers, names and switches is recorded as a success without a change.\<close>

lemma audit_notification_edit_unseen:
  assumes "kb_NotificationSlice b = Some old"
    and "map (\<lambda>n. (n_ID n, n_Name n, n_Enabled n)) ns = map (\<lambda>n. (n_ID n, n_Name n, n_Enabled n)) old"
  shows "field_changes enc (auditBindingFields (Some b)) (auditBindingFields (Some (b\<lparr>kb_NotificationSlice := Some ns\<rparr>))) = []"
proof -
  have "auditBindingFields (Some (b\<lparr>kb_NotificationSlice := Some ns\<rparr>)) = auditBindingFields (Some b)"
    using assms by (simp add: auditBindingFields_def auditNotificationSummaries_def)
  moreover have "field_changes enc fs fs = []" for fs by (simp add: field_changes_def List.map_filter_def)
  ultimately show ?thesis by simp
qed

section \<open>Witnesses\<close>

text \<open>A gate over an empty configuration, whose changes are written as the texts they hold.\<close>

definition sample_menv_keyed :: "(string, bytes) fmap managementEnv" where
  "sample_menv_keyed = sample_menv\<lparr>mx_decode := sample_codec_requests\<lparr>decKey := \<lambda>_. kb_Key sample_binding\<rparr>\<rparr>"

definition gate_start :: auditEvent where
  "gate_start = request_event\<lparr>ev_Module := ''rules'', ev_ObjectType := ''rules'', ev_ObjectRef := ''rules'', ev_ObjectLabel := txt_globalRules\<rparr>"

definition gate_finish :: auditEvent where
  "gate_finish = gate_start\<lparr>ev_Outcome := ''succeeded'', ev_Changed := Some True, ev_Changes := Some [(''rules.global'', ''a'', ''b'')]\<rparr>"

definition gate_audit :: auditEnv where
  "gate_audit =
     \<lparr>ax_codec =
        \<lparr>encEvent = \<lambda>ev. if ev = gate_start\<lparr>ev_Version := 2, ev_OperationID := ''1'', ev_Phase := ''start'', ev_OccurredAt := 0\<rparr> then Some ''s''
           else if ev = gate_finish\<lparr>ev_Version := 2, ev_OperationID := ''1'', ev_Phase := ''finish'', ev_OccurredAt := 0\<rparr> then Some ''f'' else None,
         decEvent = \<lambda>raw. if raw = ''s'' then Some (gate_start\<lparr>ev_Version := 2, ev_OperationID := ''1'', ev_Phase := ''start'', ev_OccurredAt := 0\<rparr>)
           else if raw = ''f'' then Some (gate_finish\<lparr>ev_Version := 2, ev_OperationID := ''1'', ev_Phase := ''finish'', ev_OccurredAt := 0\<rparr>) else None\<rparr>,
      ax_now = 0, ax_loc = 28800, ax_id = ''1'', ax_fails = \<lambda>_. False, ax_written = 0\<rparr>"

definition sample_gate :: "(string, bytes) fmap gateEnv" where
  "sample_gate =
     \<lparr>gt_mgmt = sample_menv, gt_begin = gate_audit, gt_finish = gate_audit, gt_statePath = ''/s'', gt_alias = \<lambda>_. [],
      gt_keeperName = \<lambda>_. ([], []), gt_testSend = \<lambda>_. ([], []), gt_getenv = \<lambda>_. [], gt_cookies = \<lambda>_. [],
      gt_parse = \<lambda>raw. Some (JString raw), gt_print = \<lambda>v. (case v of JString s \<Rightarrow> s | _ \<Rightarrow> []), gt_strings = \<lambda>_. None,
      gt_labels = \<lparr>lc_supplier = [], lc_credential = []\<rparr>\<rparr>"

definition rules_request :: managementRequest where
  "rules_request = \<lparr>rq_Method = ''PUT'', rq_Path = managementHandleBase @ ''/rules'', rq_Query = Map.empty, rq_Body = []\<rparr>"

definition with_rules :: "string \<Rightarrow> World" where
  "with_rules r = \<lparr>w_cfg = defaultConfig, w_holder = initialHolder\<lparr>h_state := (h_state initialHolder)
     \<lparr>st_Rules := \<lparr>rs_Global = r, rs_Claude = [], rs_Codex = [], rs_OpenAI = []\<rparr>\<rparr>\<rparr>, w_fs = Map.empty\<rparr>"

definition set_rules :: "managementRequest \<Rightarrow> World \<Rightarrow> unit managementResponse \<times> World" where
  "set_rules req w = (managementError 200 UnknownRoute, with_rules ''b'')"

definition text_of :: "fieldValue \<Rightarrow> bytes" where
  "text_of v = (case v of FText t \<Rightarrow> t | _ \<Rightarrow> [])"

lemma redact_none [simp]: "redact [] t = t"
  by (induction t) simp_all

lemma sample_key: "auditRequestKey sample_gate rules_request = []"
proof -
  have "trim_space [] = []" by (simp add: go_simps)
  then show ?thesis
    by (simp add: auditRequestKey_def rules_request_def sample_gate_def keyFromRequest_def query_get_def sample_menv_def
        sample_codec_requests_def)
qed

lemma sample_state_secrets: "state_secrets (h_state (w_holder (with_rules a))) = []"
  by (simp add: state_secrets_def with_rules_def initialHolder_def globalNotificationList_def collectNotificationSecrets_def)

lemma sample_secrets: "auditRedactText t (auditSecrets sample_gate rules_request [] cfg [h_state (w_holder (with_rules a))]) = t"
  "auditRedactText t (auditSecrets sample_gate rules_request [] cfg [h_state (w_holder (with_rules a)), h_state (w_holder (with_rules b))]) = t"
  by (simp_all add: auditRedactText_def auditSecrets_def sample_key sample_state_secrets) (simp_all add: sample_gate_def)

lemma rules_request_path: "managementRequestPath (rq_Path rules_request) = managementHandleBase @ ''/rules''"
  using managementRequestPath_plain [OF plain_append [of "''/rules''"], of 0] by (simp add: rules_request_def plain_path_def)

lemma sample_start: "start_event sample_gate rules_request [] (with_rules ''a'') = gate_start"
  by (simp add: start_event_def auditEventForRequest_def rules_request_path sample_secrets gate_start_def request_event_def Let_def)

lemma sample_result: "auditStateResult sample_gate text_of rules_request (h_state (w_holder (with_rules ''a'')))
    (h_state (w_holder (with_rules ''b''))) (managementError 200 UnknownRoute) =
  \<lparr>ar_Outcome = ''succeeded'', ar_Changed = Some True, ar_Changes = Some [(''rules.global'', ''a'', ''b'')], ar_ErrorCode = []\<rparr>"
  by (simp add: auditStateResult_def audited_fields_def rules_request_path field_changes_def field_value_def ruleFields_def with_rules_def
      text_of_def managementError_def managementJSON_def List.map_filter_def Let_def)

lemma sample_finish_event:
  "finish_event sample_gate rules_request [] (with_rules ''a'') (with_rules ''b'')
     \<lparr>ar_Outcome = ''succeeded'', ar_Changed = Some True, ar_Changes = Some [(''rules.global'', ''a'', ''b'')], ar_ErrorCode = []\<rparr> = gate_finish"
proof -
  have "auditRedactJSON sample_gate raw (auditSecrets sample_gate rules_request [] cfg
      [h_state (w_holder (with_rules ''a'')), h_state (w_holder (with_rules ''b''))]) = raw" for raw cfg
    by (simp add: auditRedactJSON_def) (simp add: sample_gate_def sample_secrets [unfolded sample_gate_def])
  then show ?thesis
    by (simp add: finish_event_def sample_start sample_secrets redact_changes_def auditChangedChannelIDs_def
        auditChannelLabels_def List.map_filter_def Let_def) (simp add: gate_finish_def gate_start_def request_event_def)
qed

lemma gate_audit_ok: "audit_codec_ok (ax_codec gate_audit)"
  by (auto simp: audit_codec_ok_def gate_audit_def newline_def)

lemma gate_ready: "audit_ready sample_gate sample_journal"
proof -
  have "fresh_in (ax_codec gate_audit) ''1'' (split_on [newline] [])"
    by (simp add: split_char_none fresh_in_def gate_audit_def)
  then show ?thesis using gate_audit_ok
    by (simp add: audit_ready_def sample_gate_def sample_journal_def) (simp add: gate_audit_def zero_time_def)
qed

lemma gate_appends:
  "\<exists>fs'. appendAuditEvent gate_audit fs path (stamp_event gate_audit ''1'' ''start'' gate_start) = (None, fs')"
  "\<exists>fs'. appendAuditEvent gate_audit fs path (stamp_event gate_audit ''1'' ''finish'' gate_finish) = (None, fs')"
  by (simp_all add: appendAuditEvent_def gate_audit_def stamp_event_def Let_def gate_start_def gate_finish_def request_event_def)

lemma gate_begins: "\<exists>path j1. beginAudit gate_audit ''/s'' gate_start sample_journal =
    (Inr \<lparr>tk_ID = ''1'', tk_Path = path, tk_StartedAt = 0\<rparr>, j1)"
proof -
  have i: "ax_id gate_audit = ''1''" "ax_now gate_audit = 0" "\<not> ax_fails gate_audit ReadRandom" "ax_loc gate_audit = 28800"
    by (simp_all add: gate_audit_def)
  have "\<exists>path. auditDayPath ''/s'' (format_date 28800 0) = Some path" by (simp add: auditDayPath_def go_simps)
  then obtain path where path: "auditDayPath ''/s'' (format_date 28800 0) = Some path" by blast
  from gate_appends(1) obtain fs1 where
    "appendAuditEvent gate_audit (au_fs sample_journal) path (stamp_event gate_audit ''1'' ''start'' gate_start) = (None, fs1)" by blast
  then show ?thesis by (simp add: beginAudit_def i path)
qed

lemma sample_gate_run:
  "\<exists>w' j'. auditedStateManagement sample_gate text_of (\<lambda>_. True) rules_request [] set_rules (with_rules ''a'', sample_journal) =
    (Gated (managementError 200 UnknownRoute) ''1'' True, w', j')"
proof -
  have g: "gt_begin sample_gate = gate_audit" "gt_finish sample_gate = gate_audit" "gt_statePath sample_gate = ''/s''"
    by (simp_all add: sample_gate_def)
  from gate_begins obtain path j1 where b: "beginAudit gate_audit ''/s'' gate_start sample_journal =
      (Inr \<lparr>tk_ID = ''1'', tk_Path = path, tk_StartedAt = 0\<rparr>, j1)" by blast
  from gate_appends(2) [of "au_fs j1" path] have
    "fst (finishAudit gate_audit \<lparr>tk_ID = ''1'', tk_Path = path, tk_StartedAt = 0\<rparr> gate_finish j1) = None"
    by (auto simp: finishAudit_def Let_def)
  then show ?thesis
    by (simp add: auditedStateManagement_def withAuditedManagement_def g sample_start b set_rules_def sample_result
        sample_finish_event split_beta)
qed

theorem audit_gate_honest_witness:
  "\<exists>w' j' path. auditedStateManagement sample_gate text_of (\<lambda>_. True) rules_request [] set_rules (with_rules ''a'', sample_journal) =
      (Gated (managementError 200 UnknownRoute) ''1'' True, w', j') \<and> w' = with_rules ''b'' \<and>
    map_option it_Changed (shown (ax_codec gate_audit) path j' ''1'') = Some (Some True)"
proof -
  from sample_gate_run obtain w' j' where
    run: "auditedStateManagement sample_gate text_of (\<lambda>_. True) rules_request [] set_rules (with_rules ''a'', sample_journal) =
      (Gated (managementError 200 UnknownRoute) ''1'' True, w', j')" by blast
  have g: "gt_begin sample_gate = gate_audit" "ax_id gate_audit = ''1''" by (simp_all add: sample_gate_def gate_audit_def)
  have ch: "field_changes text_of (audited_fields sample_gate rules_request (h_state (w_holder (with_rules ''a''))))
      (audited_fields sample_gate rules_request (h_state (w_holder (with_rules ''b'')))) \<noteq> []"
    by (simp add: audited_fields_def rules_request_path field_changes_def field_value_def ruleFields_def with_rules_def text_of_def
        List.map_filter_def)
  note h = audit_gate_honest [OF gate_ready run, unfolded g, simplified]
  have w: "w' = with_rules ''b''" using h by (simp add: set_rules_def)
  from h ch w obtain path ev where told: "tells gate_audit (gt_finish sample_gate) ev None (shown (ax_codec gate_audit) path j' ''1'')"
      "ev_Changed ev = Some True"
    by (auto simp: managementError_def managementJSON_def)
  then have "map_option it_Changed (shown (ax_codec gate_audit) path j' ''1'') = Some (Some True)"
    by (auto simp: tells_def split: option.splits)
  with run w show ?thesis by blast
qed

lemma keyed_request:
  "keyRequest sample_menv_keyed sample_post = (keyRequest sample_menv sample_post :: World \<Rightarrow> unit managementResponse \<times> World)"
proof
  fix w
  have e: "(managementGetState sample_menv_keyed :: World \<Rightarrow> unit managementResponse) = managementGetState sample_menv"
    "mx_codec sample_menv_keyed = mx_codec sample_menv" "mx_os sample_menv_keyed = mx_os sample_menv"
    "decBinding (mx_decode sample_menv_keyed) = decBinding (mx_decode sample_menv)"
    by (simp_all add: fun_eq_iff managementGetState_def) (simp_all add: sample_menv_keyed_def sample_menv_def sample_codec_requests_def)
  show "keyRequest sample_menv_keyed sample_post w = (keyRequest sample_menv sample_post w :: unit managementResponse \<times> World)"
    unfolding keyRequest_def managementPostKey_def e by (simp add: sample_post_def)
qed

theorem audit_key_changes_exact_witness:
  "\<exists>(r :: unit managementResponse) w'. keyRequest sample_menv_keyed sample_post sample_world = (r, w') \<and> rs_Status r = 200 \<and>
    (\<forall>k. k \<noteq> auditRequestKey (sample_gate\<lparr>gt_mgmt := sample_menv_keyed\<rparr>) sample_post \<longrightarrow>
      binding_at (bindings_of w') k = binding_at (bindings_of sample_world) k)"
proof -
  have "\<exists>(r :: unit managementResponse) w'. keyRequest sample_menv_keyed sample_post sample_world = (r, w') \<and> rs_Status r = 200"
    using sample_post_done by (simp add: keyed_request)
  then obtain r :: "unit managementResponse" and w' where r: "keyRequest sample_menv_keyed sample_post sample_world = (r, w')"
    "rs_Status r = 200" by blast
  let ?x = "sample_gate\<lparr>gt_mgmt := sample_menv_keyed\<rparr>"
  have p: "managementRequestPath (rq_Path sample_post) = managementHandleBase @ ''/keys''"
    using managementRequestPath_plain [OF plain_append [of "''/keys''"], of 0] by (simp add: sample_post_def plain_path_def)
  have m: "rq_Method sample_post \<in> {''POST'', ''PATCH'', ''DELETE''}" by (simp add: sample_post_def)
  have a: "decBinding (mx_decode (gt_mgmt ?x)) raw = Some b \<Longrightarrow> decKey (mx_decode (gt_mgmt ?x)) raw = kb_Key b" for raw b
    by (simp add: sample_menv_keyed_def sample_codec_requests_def)
  from r(1) have k: "keyRequest (gt_mgmt ?x) sample_post sample_world = (r, w')" by simp
  from audit_key_changes_exact [OF sample_holder_ok m p a k, of text_of] r(2)
  have "\<forall>k. k \<noteq> auditRequestKey ?x sample_post \<longrightarrow> binding_at (bindings_of w') k = binding_at (bindings_of sample_world) k"
    by (simp add: Let_def)
  with r show ?thesis by blast
qed

end
