(* ===== verification/Notification_Control.thy ===== *)
theory Notification_Control
  imports Message Management
begin

text \<open>
  The management surface of the notifications (\<open>notification_management.go\<close>) and the life of the service behind
  it (\<open>notification_service.go\<close>): settings, status, preview, test sending, the list of deliveries and their
  retry, and the restart of the service.  The keeper traffic of the service's own ticks stays inside the
  environment of the service; what the handlers themselves ask of the keeper changes the host.
\<close>

section \<open>The service in its slot\<close>

text \<open>The placeholder of a service that could not be started has neither store nor source.\<close>

record 'h activeService =
  as_Status :: notificationStatus
  as_Store :: bool
  as_Source :: "'h statsSource option"

text \<open>The run-state file, the slot, the refresh stamps and the host.\<close>

record ('b, 'h) control =
  nc_db :: "'b db"
  nc_service :: "'h activeService option"
  nc_refreshes :: refreshes
  nc_host :: 'h

text \<open>The handlers' and the service's environment, whether the run-state file can be opened, the two store
  writes outside the service, the source a new service gets or the code of its failure, and what a collector
  needs.\<close>

record ('b, 'h) controlEnv =
  nx_mgmt :: "'b managementEnv"
  nx_opens :: bool
  nx_bumpCommits :: bool
  nx_recoverCommits :: bool
  nx_source :: "string + 'h statsSource"
  nx_codec :: statsCodec
  nx_order :: "(string \<times> periodStats) list \<Rightarrow> (string \<times> periodStats) list"
  nx_fuel :: nat
  nx_settings :: "bytes \<Rightarrow> NotificationSettings option"
  nx_target :: "bytes \<Rightarrow> (string \<times> string) option"
  nx_delivery :: "bytes \<Rightarrow> string option"

abbreviation nx_svc :: "('b, 'h) controlEnv \<Rightarrow> 'b svcEnv" where "nx_svc x \<equiv> mx_svc (nx_mgmt x)"

text \<open>\<open>withNotificationStore\<close>: the store of the service, else one opened for the call.\<close>

definition store_reachable :: "('b, 'h) controlEnv \<Rightarrow> ('b, 'h) control \<Rightarrow> bool" where
  "store_reachable x c \<longleftrightarrow> (case nc_service c of Some s \<Rightarrow> as_Store s | None \<Rightarrow> False) \<or> nx_opens x"

definition withNotificationStore ::
    "('b, 'h) controlEnv \<Rightarrow> (('b, 'h) control \<Rightarrow> ('e + 'r) \<times> ('b, 'h) control) \<Rightarrow> ('b, 'h) control \<Rightarrow>
     ('e option + 'r) \<times> ('b, 'h) control" where
  "withNotificationStore x fn c =
     (if \<not> store_reachable x c then (Inl None, c)
      else case fn c of (Inl e, c) \<Rightarrow> (Inl (Some e), c) | (Inr r, c) \<Rightarrow> (Inr r, c))"

definition notificationStatsSource :: "('b, 'h) control \<Rightarrow> 'h statsSource option" where
  "notificationStatsSource c = (case nc_service c of None \<Rightarrow> None | Some s \<Rightarrow> as_Source s)"

definition identities :: "channelStats list \<Rightarrow> string list" where
  "identities rows = filter (\<lambda>i. i \<noteq> []) (map ch_Identity rows)"

definition collectAuthChannels ::
    "'h statsSource \<Rightarrow> 'h keeperEnv \<Rightarrow> statsCodec \<Rightarrow> string \<Rightarrow> 'h \<Rightarrow> (keeperFailure + channelStats list) \<times> 'h" where
  "collectAuthChannels src client C key h = collectAuthChannelsPeriod client C key ModuleDaily PeriodCurrent (sc_now src h) h"

definition authChannelIDs :: "('b, 'h) controlEnv \<Rightarrow> 'h activeService \<Rightarrow> ('b, 'h) control \<Rightarrow> string list \<times> ('b, 'h) control" where
  "authChannelIDs x s c =
     (case as_Source s of
        None \<Rightarrow> ([''-''], c)
      | Some src \<Rightarrow>
        (case sc_client src of
           None \<Rightarrow> ([''-''], c)
         | Some client \<Rightarrow>
           (case collectAuthChannels src client (nx_codec x) [] (nc_host c) of
              (Inl e, h) \<Rightarrow>
                ([], c\<lparr>nc_host := h, nc_service := Some (s\<lparr>as_Status := (as_Status s)\<lparr>ss_ErrorCode := kf_Code e\<rparr>\<rparr>)\<rparr>)
            | (Inr rows, h) \<Rightarrow> (identities rows, c\<lparr>nc_host := h\<rparr>))))"

section \<open>Start, stop, restart\<close>

definition placeholder :: "string \<Rightarrow> 'h activeService" where
  "placeholder code =
     \<lparr>as_Status = \<lparr>ss_Running = False, ss_ErrorCode = code, ss_Revision = 0, ss_PendingJobs = 0, ss_NextFire = []\<rparr>,
      as_Store = False, as_Source = None\<rparr>"

definition setActiveNotificationUnavailable :: "string \<Rightarrow> ('b, 'h) control \<Rightarrow> ('b, 'h) control" where
  "setActiveNotificationUnavailable code c = c\<lparr>nc_service := Some (placeholder code)\<rparr>"

definition shutdownNotificationService :: "('b, 'h) control \<Rightarrow> ('b, 'h) control" where
  "shutdownNotificationService c = c\<lparr>nc_service := None\<rparr>"

text \<open>The jobs the first tick of the new service handed to a platform come back for the statements below.\<close>

definition restartNotificationServiceWithState ::
    "('b, 'h) controlEnv \<Rightarrow> State \<Rightarrow> ('b, 'h) control \<Rightarrow> notificationJob list \<times> ('b, 'h) control" where
  "restartNotificationServiceWithState x st c =
     (let c = c\<lparr>nc_service := None\<rparr>;
          code = (case nx_source x of Inl code \<Rightarrow> code | Inr _ \<Rightarrow> [])
      in if \<not> nx_opens x then ([], setActiveNotificationUnavailable ''store_unavailable'' c)
         else case startNotificationService ((nx_svc x)\<lparr>sx_state := st\<rparr>) code (nx_recoverCommits x) (Some (nc_db c)) of
           Inl e \<Rightarrow> ([], setActiveNotificationUnavailable (unavailableCode e) c)
         | Inr (sent, s) \<Rightarrow>
           (sent, c\<lparr>nc_db := sv_db s,
              nc_service := Some \<lparr>as_Status = sv_status s, as_Store = True,
                as_Source = (case nx_source x of Inl _ \<Rightarrow> None | Inr src \<Rightarrow> Some src)\<rparr>\<rparr>))"

section \<open>Answers\<close>

record notificationStatusView =
  nv_Status :: notificationStatus
  nv_GlobalName :: string
  nv_StoreError :: string

record platformPreview =
  pp_Kind :: PlatformKind
  pp_Text :: string
  pp_Warnings :: "string list"
  pp_TitleNote :: string

datatype resolve_error = NoNotification | NotificationUnknown | BindingUnknown | KeyNotificationUnknown

datatype control_error =
    BodyInvalid | Resolve resolve_error | NoPlatform | LimitInvalid | DeliveryMissing | IDMissing | StoreUnavailable
  | SendFailed "store_error option"

datatype controlBody =
    SettingsBody NotificationSettings | StatusBody notificationStatusView
  | NotificationPreviewBody string "string list" nat "platformPreview list"
  | DeliveryIDs "string list" | DeliveriesBody "deliveryRecord list" | JobIDBody string | ControlError control_error

type_synonym control_response = "controlBody managementResponse"

definition controlError :: "int \<Rightarrow> control_error \<Rightarrow> control_response" where
  "controlError status e = managementJSON status (OtherBody (ControlError e))"

section \<open>Settings and status\<close>

definition zeroNotification :: Notification where
  "zeroNotification =
     \<lparr>n_ID = [], n_Name = [], n_Enabled = False, n_IsDefault = False, n_TemplateFollowsGlobal = False,
      n_ScheduleFollowsGlobal = False, n_Modules = [], n_Schedule = None, n_Platforms = [], n_NextFire = []\<rparr>"

text \<open>The channels the next send times of the global notifications are taken over.\<close>

definition projection_channels :: "('b, 'h) controlEnv \<Rightarrow> ('b, 'h) control \<Rightarrow> string list \<times> ('b, 'h) control" where
  "projection_channels x c =
     (case nc_service c of
        None \<Rightarrow> ([''-''], c)
      | Some s \<Rightarrow> (case authChannelIDs x s c of (ids, c) \<Rightarrow> (if ids = [] then [''-''] else ids, c)))"

definition managementNotificationSettingsGet ::
    "('b, 'h) controlEnv \<Rightarrow> World \<Rightarrow> ('b, 'h) control \<Rightarrow> control_response \<times> ('b, 'h) control" where
  "managementNotificationSettingsGet x w c =
     (let settings = normalizeNotificationSettings (case st_Notifications (h_state (w_holder w)) of
            None \<Rightarrow> \<lparr>ns_Enabled = False, ns_GlobalDefault = zeroNotification, ns_Notifications = []\<rparr> | Some s \<Rightarrow> s)
      in if store_reachable x c then
           (case projection_channels x c of
              (channels, c) \<Rightarrow>
                (managementJSON 200 (OtherBody (SettingsBody
                   (projectSettingsNextFire (nx_svc x) (Some (nc_db c)) channels settings))), c))
         else (managementJSON 200 (OtherBody (SettingsBody settings)), c))"

definition replace_settings :: "NotificationSettings \<Rightarrow> State \<Rightarrow> mutate_error + State" where
  "replace_settings body st =
     (let body = normalizeNotificationSettings body
      in case validateNotificationSettings body of
           Some e \<Rightarrow> Inl (SettingsInvalid e) | None \<Rightarrow> Inr (st\<lparr>st_Notifications := Some body\<rparr>))"

text \<open>The error of the revision is only logged.\<close>

definition bump :: "('b, 'h) controlEnv \<Rightarrow> ('b, 'h) control \<Rightarrow> ('b, 'h) control" where
  "bump x c =
     (if \<not> store_reachable x c then c
      else c\<lparr>nc_db := snd (BumpRevision (at_time (sx_store (nx_svc x)) (sx_now (nx_svc x)) (nx_bumpCommits x)) (nc_db c))\<rparr>)"

definition state_answer :: "('b, 'h) controlEnv \<Rightarrow> World \<Rightarrow> ('b, 'h) control \<Rightarrow> control_response" where
  "state_answer x w c =
     managementGetState ((nx_mgmt x)\<lparr>mx_store := (if store_reachable x c then Some (nc_db c) else None)\<rparr>) w"

definition managementNotificationSettingsPut ::
    "('b, 'h) controlEnv \<Rightarrow> managementRequest \<Rightarrow> World \<times> ('b, 'h) control \<Rightarrow>
     control_response \<times> notificationJob list \<times> World \<times> ('b, 'h) control" where
  "managementNotificationSettingsPut x req wc =
     (case wc of (w, c) \<Rightarrow>
        (case nx_settings x (rq_Body req) of
           None \<Rightarrow> (controlError 400 BodyInvalid, [], w, c)
         | Some body \<Rightarrow>
           (case applyStateUpdate (mx_codec (nx_mgmt x)) (mx_os (nx_mgmt x)) (replace_settings body) w of
              (Some e, w) \<Rightarrow> (managementStateError e, [], w, c)
            | (None, w) \<Rightarrow>
              (case restartNotificationServiceWithState x (h_state (w_holder w)) (bump x c) of
                 (sent, c) \<Rightarrow> (state_answer x w c, sent, w, c)))))"

definition notificationGlobalName :: "State \<Rightarrow> string" where
  "notificationGlobalName st =
     (case defaultGlobalNotification (st_Notifications st) of None \<Rightarrow> [] | Some n \<Rightarrow> n_Name n)"

definition stopped_status :: notificationStatus where
  "stopped_status = \<lparr>ss_Running = False, ss_ErrorCode = [], ss_Revision = 0, ss_PendingJobs = 0, ss_NextFire = []\<rparr>"

definition managementNotificationStatus :: "World \<Rightarrow> ('b, 'h) control \<Rightarrow> control_response" where
  "managementNotificationStatus w c =
     (let name = notificationGlobalName (h_state (w_holder w))
      in managementJSON 200 (OtherBody (StatusBody
           (case nc_service c of
              None \<Rightarrow> \<lparr>nv_Status = stopped_status, nv_GlobalName = name, nv_StoreError = ''unavailable''\<rparr>
            | Some s \<Rightarrow>
              (let st = as_Status s;
                   st = (if \<not> ss_Running st \<and> ss_ErrorCode st = [] then st\<lparr>ss_ErrorCode := ''unavailable''\<rparr> else st)
               in \<lparr>nv_Status = st, nv_GlobalName = name,
                   nv_StoreError = (if ss_Running st then [] else ss_ErrorCode st)\<rparr>)))))"

section \<open>The notification that is meant\<close>

text \<open>Without a key a global one, the default or the named; with a key the binding's own list, else the global one.\<close>

definition resolveNotificationEntity ::
    "State \<Rightarrow> string \<Rightarrow> string \<Rightarrow> resolve_error + (Notification \<times> KeyBinding option)" where
  "resolveNotificationEntity st key nid =
     (if key = [] then
        (case st_Notifications st of
           None \<Rightarrow> Inl NoNotification
         | Some s \<Rightarrow>
           if nid \<noteq> [] then
             (case find (\<lambda>n. n_ID n = nid) (ns_Notifications s) of None \<Rightarrow> Inl NotificationUnknown | Some n \<Rightarrow> Inr (n, None))
           else
             (case defaultGlobalNotification (Some s) of Some d \<Rightarrow> Inr (d, None) | None \<Rightarrow> Inr (ns_GlobalDefault s, None)))
      else case findKeyBinding (st_KeyBindings st) key of
        None \<Rightarrow> Inl BindingUnknown
      | Some b \<Rightarrow>
        (case effectiveNotifications st b of
           [] \<Rightarrow> Inl NoNotification
         | n # ns \<Rightarrow>
           if nid = [] then Inr (n, Some b)
           else (case find (\<lambda>n. n_ID n = nid) (n # ns) of None \<Rightarrow> Inl KeyNotificationUnknown | Some n \<Rightarrow> Inr (n, Some b))))"

section \<open>Preview\<close>

definition zeroBinding :: KeyBinding where
  "zeroBinding =
     \<lparr>kb_Key = [], kb_Alias = [], kb_Enabled = False, kb_Blocked = False,
      kb_Rules = \<lparr>rs_Global = [], rs_Claude = [], rs_Codex = [], rs_OpenAI = []\<rparr>, kb_ChannelTarget = None,
      kb_FastAllowed = None, kb_NotificationSlice = None\<rparr>"

definition collector_of :: "('b, 'h) controlEnv \<Rightarrow> 'h statsSource \<Rightarrow> 'h collector" where
  "collector_of x src = \<lparr>cl_source = src, cl_codec = nx_codec x, cl_order = nx_order x, cl_fuel = nx_fuel x\<rparr>"

text \<open>What is collected goes by the notification's own modules, what is rendered by the effective ones.  The code
  asks first whether the state is persisted; one that is not has no notification and never comes here.\<close>

definition renderNotificationPreview ::
    "('b, 'h) controlEnv \<Rightarrow> State \<Rightarrow> KeyBinding option \<Rightarrow> Notification \<Rightarrow> string \<Rightarrow> ('b, 'h) control \<Rightarrow>
     ((string \<times> string list) \<times> ('b, 'h) control) option" where
  "renderNotificationPreview x st binding n channel c =
     (let b = (case binding of None \<Rightarrow> zeroBinding | Some b \<Rightarrow> b);
          now = sx_now (nx_svc x);
          shown = n\<lparr>n_Modules := effectiveModules (Some st) n\<rparr>
      in case notificationStatsSource c of
           None \<Rightarrow>
             (case renderMessage shown \<lparr>sd_DisplayName = kb_Alias b, sd_Plan = [], sd_PlanProvider = [], sd_Periods = [],
                  sd_Windows = [], sd_ResetCards = None, sd_ResetCardItems = []\<rparr> now of
                (text, warnings) \<Rightarrow> Some ((text, ''configuration_error'' # warnings), c))
         | Some src \<Rightarrow>
             (case collectStats (collector_of x src) b n now channel (nc_refreshes c) (nc_host c) of
                None \<Rightarrow> None
              | Some ((err, d), lr, h) \<Rightarrow>
                (case renderMessage shown d now of
                   (text, warnings) \<Rightarrow>
                     Some ((text, (case err of None \<Rightarrow> [] | Some e \<Rightarrow> [kf_Code e]) @ warnings),
                       c\<lparr>nc_refreshes := lr, nc_host := h\<rparr>))))"

definition previewChannelIDs ::
    "('b, 'h) controlEnv \<Rightarrow> KeyBinding option \<Rightarrow> ('b, 'h) control \<Rightarrow> string list \<times> ('b, 'h) control" where
  "previewChannelIDs x binding c =
     (case notificationStatsSource c of
        None \<Rightarrow> ([''-''], c)
      | Some src \<Rightarrow>
        (case sc_client src of
           None \<Rightarrow> ([''-''], c)
         | Some client \<Rightarrow>
           (case collectAuthChannels src client (nx_codec x) (case binding of None \<Rightarrow> [] | Some b \<Rightarrow> kb_Key b) (nc_host c) of
              (r, h) \<Rightarrow>
                ((case r of Inl _ \<Rightarrow> [''-''] | Inr rows \<Rightarrow> if identities rows = [] then [''-''] else identities rows),
                 c\<lparr>nc_host := h\<rparr>))))"

definition headed :: "string \<Rightarrow> string \<Rightarrow> string" where
  "headed channel text = (if one_channel channel then channel @ txt_nl @ text else text)"

fun preview_channels ::
    "('b, 'h) controlEnv \<Rightarrow> State \<Rightarrow> KeyBinding option \<Rightarrow> Notification \<Rightarrow> string list \<Rightarrow> ('b, 'h) control \<Rightarrow>
     ((string list \<times> string list) \<times> ('b, 'h) control) option" where
  "preview_channels x st binding n [] c = Some (([], []), c)"
| "preview_channels x st binding n (ch # chs) c =
     (case renderNotificationPreview x st binding n ch c of
        None \<Rightarrow> None
      | Some ((text, ws), c) \<Rightarrow>
        (case preview_channels x st binding n chs c of
           None \<Rightarrow> None
         | Some ((texts, warnings), c) \<Rightarrow> Some ((headed ch text # texts, ws @ warnings), c)))"

definition own_key :: "KeyBinding option \<Rightarrow> bool" where
  "own_key binding \<longleftrightarrow> (case binding of None \<Rightarrow> False | Some b \<Rightarrow> trim_space (kb_Key b) \<noteq> [])"

definition stackedPreview ::
    "('b, 'h) controlEnv \<Rightarrow> State \<Rightarrow> KeyBinding option \<Rightarrow> Notification \<Rightarrow> ('b, 'h) control \<Rightarrow>
     ((string \<times> string list) \<times> ('b, 'h) control) option" where
  "stackedPreview x st binding n c =
     (if own_key binding then renderNotificationPreview x st binding n [] c
      else case previewChannelIDs x binding c of
        (channels, c) \<Rightarrow>
          (case preview_channels x st binding n channels c of
             None \<Rightarrow> None
           | Some ((texts, warnings), c) \<Rightarrow>
             if texts = [] then renderNotificationPreview x st binding n [] c
             else Some ((join (txt_nl @ txt_nl) texts, warnings), c)))"

definition txt_titleNote :: string where
  "txt_titleNote = encode_runes [0xFF08, 0x4F1A, 0x8BDD, 0x5217, 0x8868, 0x6807, 0x9898, 0xFF1A]"

definition managementNotificationPreview ::
    "('b, 'h) controlEnv \<Rightarrow> managementRequest \<Rightarrow> World \<Rightarrow> ('b, 'h) control \<Rightarrow> (control_response \<times> ('b, 'h) control) option" where
  "managementNotificationPreview x req w c =
     (let st = h_state (w_holder w)
      in case nx_target x (rq_Body req) of
           None \<Rightarrow> Some (controlError 400 BodyInvalid, c)
         | Some (key, nid) \<Rightarrow>
           (case resolveNotificationEntity st (trim_space key) (trim_space nid) of
              Inl e \<Rightarrow> Some (controlError 404 (Resolve e), c)
            | Inr (n, binding) \<Rightarrow>
              (case stackedPreview x st binding n c of
                 None \<Rightarrow> None
               | Some ((text, warnings), c) \<Rightarrow>
                 Some (managementJSON 200 (OtherBody (NotificationPreviewBody text warnings (length text)
                     (map (\<lambda>p. \<lparr>pp_Kind = p_Kind p, pp_Text = text, pp_Warnings = warnings,
                           pp_TitleNote = (if p_Kind p = PlatformDingTalk then txt_titleNote @ n_Name n @ txt_close else [])\<rparr>)
                       (filter p_Enabled (n_Platforms n))))), c))))"

section \<open>Test sending\<close>

definition deliverTestMessage :: "'b svcEnv \<Rightarrow> PlatformIdentity \<Rightarrow> outboundMessage \<Rightarrow> deliveryResult" where
  "deliverTestMessage x p msg =
     (case buildAdapter p of
        Some e \<Rightarrow> delivery_result deliveryFailed (controlled e) ''adapter unavailable''
      | None \<Rightarrow> (case sx_send x p msg of None \<Rightarrow> transportUnknownResult | Some parts \<Rightarrow> mergeDeliveryResults parts))"

definition test_job :: "'b svcEnv \<Rightarrow> string \<Rightarrow> Notification \<Rightarrow> string \<Rightarrow> string \<Rightarrow> bytes \<Rightarrow> 64 word \<Rightarrow> PlatformIdentity \<Rightarrow> notificationJob" where
  "test_job x fp n ch periodKey payload r p =
     (let job = \<lparr>j_ID = [], j_KeyFingerprint = fp, j_NotificationID = n_ID n, j_Platform = p_Kind p, j_Channel = ch,
            j_PeriodKey = periodKey, j_State = jobPending, j_Payload = payload, j_MergedCount = 0, j_Attempts = 0,
            j_Revision = r, j_NextAttempt = sx_now x, j_CreatedAt = sx_now x, j_UpdatedAt = zero_time\<rparr>
      in job\<lparr>j_ID := sx_newID x (jobKey job)\<rparr>)"

text \<open>What has happened so far: the first error, the IDs of the records, and the messages that were sent.\<close>

type_synonym test_log = "store_error option option \<times> string list \<times> (PlatformIdentity \<times> outboundMessage) list"

definition test_one ::
    "'b svcEnv \<Rightarrow> string \<Rightarrow> Notification \<Rightarrow> string \<Rightarrow> string \<Rightarrow> string \<Rightarrow> 64 word \<Rightarrow> PlatformIdentity \<Rightarrow> 'b db \<Rightarrow> test_log \<times> 'b db" where
  "test_one x fp n ch text periodKey r p db =
     (let msg = \<lparr>om_Title = n_Name n, om_Body = text, om_UserIDs = nonEmptyIDs (p_UserIDs p)\<rparr>
      in case sx_encMsg x msg of
           None \<Rightarrow> ((Some None, [], []), db)
         | Some payload \<Rightarrow>
           (let job = test_job x fp n ch periodKey payload r p
            in case UpsertJob (store_env x (CallEnqueue (jobKey job))) job db of
                 (Inl e, db) \<Rightarrow> ((Some (Some e), [], []), db)
               | (Inr _, db) \<Rightarrow>
                 (let found = pendingJobIDFor (sx_store x) fp (n_ID n) (p_Kind p) periodKey db;
                      actual = (if found = [] then j_ID job else found);
                      res = deliverTestMessage x p msg
                  in case FinishJob (store_env x (CallFinish actual)) actual (r_Outcome res) (r_ErrorCode res) (r_Detail res) db of
                       (Inl e, db) \<Rightarrow> ((Some (Some e), [], [(p, msg)]), db)
                     | (Inr _, db) \<Rightarrow>
                       (let i = latestDeliveryIDFor (sx_store x) fp (n_ID n) (p_Kind p) actual db
                        in ((None, if i = [] then [] else [i], [(p, msg)]), db)))))"

fun test_targets ::
    "'b svcEnv \<Rightarrow> string \<Rightarrow> Notification \<Rightarrow> string \<Rightarrow> string \<Rightarrow> string \<Rightarrow> 64 word \<Rightarrow> PlatformIdentity list \<Rightarrow> 'b db \<Rightarrow>
     test_log \<times> 'b db" where
  "test_targets x fp n ch text periodKey r [] db = ((None, [], []), db)"
| "test_targets x fp n ch text periodKey r (p # ps) db =
     (case test_one x fp n ch text periodKey r p db of
        ((Some e, ids, sent), db) \<Rightarrow> ((Some e, ids, sent), db)
      | ((None, ids, sent), db) \<Rightarrow>
        (case test_targets x fp n ch text periodKey r ps db of
           ((e, ids', sent'), db) \<Rightarrow> ((e, ids @ ids', sent @ sent'), db)))"

fun test_channels ::
    "('b, 'h) controlEnv \<Rightarrow> State \<Rightarrow> KeyBinding option \<Rightarrow> Notification \<Rightarrow> string \<Rightarrow> string \<Rightarrow> 64 word \<Rightarrow> string list \<Rightarrow>
     ('b, 'h) control \<Rightarrow> (test_log \<times> ('b, 'h) control) option" where
  "test_channels x st binding n fp periodKey r [] c = Some ((None, [], []), c)"
| "test_channels x st binding n fp periodKey r (ch # chs) c =
     (case renderNotificationPreview x st binding n ch c of
        None \<Rightarrow> None
      | Some ((text, _), c) \<Rightarrow>
        (case test_targets (nx_svc x) fp n ch (headed ch text) periodKey r (filter p_Enabled (n_Platforms n)) (nc_db c) of
           ((Some e, ids, sent), db) \<Rightarrow> Some ((Some e, ids, sent), c\<lparr>nc_db := db\<rparr>)
         | ((None, ids, sent), db) \<Rightarrow>
           (case test_channels x st binding n fp periodKey r chs (c\<lparr>nc_db := db\<rparr>) of
              None \<Rightarrow> None
            | Some ((e, ids', sent'), c) \<Rightarrow> Some ((e, ids @ ids', sent @ sent'), c))))"

definition managementNotificationTestSend ::
    "('b, 'h) controlEnv \<Rightarrow> managementRequest \<Rightarrow> World \<Rightarrow> ('b, 'h) control \<Rightarrow>
     (control_response \<times> (PlatformIdentity \<times> outboundMessage) list \<times> ('b, 'h) control) option" where
  "managementNotificationTestSend x req w c =
     (let st = h_state (w_holder w); v = nx_svc x
      in case nx_target x (rq_Body req) of
           None \<Rightarrow> Some (controlError 400 BodyInvalid, [], c)
         | Some (key, nid) \<Rightarrow>
           (case resolveNotificationEntity st (trim_space key) (trim_space nid) of
              Inl e \<Rightarrow> Some (controlError 404 (Resolve e), [], c)
            | Inr (n, binding) \<Rightarrow>
              if filter p_Enabled (n_Platforms n) = [] then Some (controlError 400 NoPlatform, [], c)
              else
                (case (if own_key binding then ([[]], c) else previewChannelIDs x binding c) of
                   (channels, c) \<Rightarrow>
                     if \<not> store_reachable x c then Some (controlError 503 StoreUnavailable, [], c)
                     else
                       (case test_channels x st binding n
                           (case binding of Some b \<Rightarrow> if own_key binding then keyFingerprint (sx_hash v) (kb_Key b) else ''global''
                              | None \<Rightarrow> ''global'')
                           (notificationPeriodKey n (sx_now v)) (readRevision (sx_store v) (nc_db c)) channels c of
                          None \<Rightarrow> None
                        | Some ((Some e, ids, sent), c) \<Rightarrow> Some (controlError 500 (SendFailed e), sent, c)
                        | Some ((None, ids, sent), c) \<Rightarrow> Some (managementJSON 200 (OtherBody (DeliveryIDs ids)), sent, c)))))"

section \<open>Deliveries and retry\<close>

definition notificationDeliveriesDefaultLimit :: int where "notificationDeliveriesDefaultLimit = 100"
definition notificationDeliveriesMaxLimit :: int where "notificationDeliveriesMaxLimit = 500"

definition deliveries_limit :: "string \<Rightarrow> int option" where
  "deliveries_limit raw =
     (if raw = [] then Some notificationDeliveriesDefaultLimit
      else case atoi raw of
        None \<Rightarrow> None
      | Some v \<Rightarrow> if v < 1 then None else Some (min v notificationDeliveriesMaxLimit))"

definition managementNotificationDeliveries ::
    "('b, 'h) controlEnv \<Rightarrow> managementRequest \<Rightarrow> ('b, 'h) control \<Rightarrow> control_response" where
  "managementNotificationDeliveries x req c =
     (case deliveries_limit (trim_space (query_get req ''limit'')) of
        None \<Rightarrow> controlError 400 LimitInvalid
      | Some limit \<Rightarrow>
        if \<not> store_reachable x c then controlError 503 StoreUnavailable
        else managementJSON 200 (OtherBody (DeliveriesBody (Deliveries (sx_store (nx_svc x))
          \<lparr>f_KeyFingerprint = trim_space (query_get req ''key_fingerprint''),
           f_NotificationID = trim_space (query_get req ''notification_id''),
           f_Platform = trim_space (query_get req ''platform''), f_Outcome = trim_space (query_get req ''outcome''),
           f_Limit = limit\<rparr> (nc_db c)))))"

text \<open>The job of a retry is built without the channel of the delivery's job.\<close>

definition retried_job :: "'b svcEnv \<Rightarrow> 'b db \<Rightarrow> deliveryRecord \<Rightarrow> notificationJob \<Rightarrow> notificationJob" where
  "retried_job x db rec j =
     (let job = \<lparr>j_ID = [], j_KeyFingerprint = d_KeyFingerprint rec, j_NotificationID = d_NotificationID rec,
            j_Platform = d_Platform rec, j_Channel = [], j_PeriodKey = d_PeriodKey rec, j_State = jobPending,
            j_Payload = j_Payload j, j_MergedCount = 0, j_Attempts = 0, j_Revision = readRevision (sx_store x) db,
            j_NextAttempt = sx_now x, j_CreatedAt = sx_now x, j_UpdatedAt = zero_time\<rparr>
      in job\<lparr>j_ID := sx_newID x (jobKey job)\<rparr>)"

definition managementNotificationRetry ::
    "('b, 'h) controlEnv \<Rightarrow> managementRequest \<Rightarrow> ('b, 'h) control \<Rightarrow> control_response \<times> ('b, 'h) control" where
  "managementNotificationRetry x req c =
     (let v = nx_svc x; e = sx_store v; db = nc_db c
      in case map_option trim_space (nx_delivery x (rq_Body req)) of
           None \<Rightarrow> (controlError 400 BodyInvalid, c)
         | Some i \<Rightarrow>
           if i = [] then (controlError 400 IDMissing, c)
           else if \<not> store_reachable x c then (controlError 503 StoreUnavailable, c)
           else case deliveryByID e i db of
             None \<Rightarrow> (controlError 404 DeliveryMissing, c)
           | Some rec \<Rightarrow>
             (case jobByID e (d_JobID rec) db of
                None \<Rightarrow> (controlError 404 DeliveryMissing, c)
              | Some j \<Rightarrow>
                (let fresh = retried_job v db rec j
                 in case UpsertJob (store_env v (CallEnqueue (jobKey fresh))) fresh db of
                      (Inl _, db) \<Rightarrow> (controlError 503 StoreUnavailable, c\<lparr>nc_db := db\<rparr>)
                    | (Inr _, db) \<Rightarrow>
                      (let found = pendingJobIDFor e (d_KeyFingerprint rec) (d_NotificationID rec) (d_Platform rec) (d_PeriodKey rec) db
                       in (managementJSON 200 (OtherBody (JobIDBody (if found = [] then j_ID fresh else found))),
                           c\<lparr>nc_db := db\<rparr>)))))"

section \<open>Replacing the settings\<close>

text \<open>Generating jobs leaves the revision alone and every job under its key.\<close>

definition base_kept :: "'b svcEnv \<Rightarrow> 'b db \<Rightarrow> 'b service \<Rightarrow> bool" where
  "base_kept x db s \<longleftrightarrow> keyed (sx_store x) (sv_db s) \<and> db_revision (sv_db s) = db_revision db"

lemma base_kept_status [simp]:
  "base_kept x db (s\<lparr>sv_status := st\<rparr>) = base_kept x db s" "base_kept x db (addPending s) = base_kept x db s"
  "base_kept x db (setStatusError code s) = base_kept x db s"
  by (simp_all add: base_kept_def)

lemma UpsertJob_base:
  assumes "env_ok (sx_store x)" and "j_State j = jobPending" and "UpsertJob (store_env x c) j db = (r, db')"
    and "keyed (sx_store x) db"
  shows "keyed (sx_store x) db' \<and> db_revision db' = db_revision db"
proof -
  have "keyed (sx_store x) db'"
    using upsert_evolves [OF assms(1,2), where t = "sx_now x" and c = "sx_commits x c" and db = db] assms(3,4)
    by (simp add: jobs_evolve_def store_env_def)
  moreover have "db_revision db' = db_revision db"
    using assms(3) by (auto simp: UpsertJob_def db_Update_def Let_def sum_bind_def split: sum.splits if_splits prod.splits)
  ultimately show ?thesis by simp
qed

lemma enqueue_targets_base:
  assumes "env_ok (sx_store x)"
  shows "base_kept x db s \<Longrightarrow> base_kept x db (snd (enqueue_targets x fp n channel body periodKey ps s))"
proof (induction ps arbitrary: s)
  case (Cons p ps)
  show ?case
  proof (cases "pendingJobExists (sx_store x) fp (n_ID n) (p_Kind p) channel (sv_db s) \<or>
      sx_encMsg x \<lparr>om_Title = n_Name n, om_Body = body, om_UserIDs = nonEmptyIDs (p_UserIDs p)\<rparr> = None")
    case True
    then show ?thesis using Cons by auto
  next
    case False
    then obtain payload where payload:
      "sx_encMsg x \<lparr>om_Title = n_Name n, om_Body = body, om_UserIDs = nonEmptyIDs (p_UserIDs p)\<rparr> = Some payload" by blast
    define job0 where "job0 = \<lparr>j_ID = [], j_KeyFingerprint = fp, j_NotificationID = n_ID n, j_Platform = p_Kind p,
               j_Channel = channel, j_PeriodKey = periodKey, j_State = jobPending, j_Payload = payload,
               j_MergedCount = 0, j_Attempts = 0, j_Revision = readRevision (sx_store x) (sv_db s),
               j_NextAttempt = sx_now x, j_CreatedAt = sx_now x, j_UpdatedAt = zero_time\<rparr>"
    define job where "job = job0\<lparr>j_ID := sx_newID x (jobKey job0)\<rparr>"
    obtain r db' where u: "UpsertJob (store_env x (CallEnqueue (jobKey job))) job (sv_db s) = (r, db')" by fastforce
    have "j_State job = jobPending" by (simp add: job_def job0_def)
    from UpsertJob_base [OF assms this u] Cons.prems have b: "base_kept x db (s\<lparr>sv_db := db'\<rparr>)"
      by (simp add: base_kept_def)
    with False payload u Cons.IH show ?thesis
      by (cases r) (simp_all add: job_def job0_def)
  qed
qed simp

lemma enqueueForPeriod_base:
  "env_ok (sx_store x) \<Longrightarrow> base_kept x db s \<Longrightarrow> base_kept x db (snd (enqueueForPeriod x binding n channel s))"
  using enqueue_targets_base by (auto simp: enqueueForPeriod_def Let_def split: sum.split)

lemma tick_one_base:
  assumes "env_ok (sx_store x)" and "base_kept x db (snd acc)"
  shows "base_kept x db (snd (tick_one x binding n sched scope clockChannel channel acc))"
  using enqueueForPeriod_base [OF assms(1), of db "snd acc" binding n channel] assms(2)
  by (cases acc; cases "enqueueForPeriod x binding n channel (snd acc)")
    (auto simp: tick_one_def Let_def split: prod.split option.split)

lemma fold_base:
  "(\<And>y acc. y \<in> set ys \<Longrightarrow> base_kept x db (snd acc) \<Longrightarrow> base_kept x db (snd (f y acc))) \<Longrightarrow> base_kept x db (snd acc) \<Longrightarrow>
    base_kept x db (snd (fold f ys acc))"
  by (induction ys arbitrary: acc) auto

lemma scheduleTick_base:
  assumes "env_ok (sx_store x)" and "base_kept x db s"
  shows "base_kept x db (scheduleTick x s)"
proof -
  have g: "base_kept x db (snd (tick_global x chs acc))" if "base_kept x db (snd acc)" for chs acc
    unfolding tick_global_def using that
    by (intro fold_base) (auto intro!: fold_base tick_one_base [OF assms(1)] split: option.split)
  have b: "base_kept x db (snd (tick_bindings x acc))" if "base_kept x db (snd acc)" for acc
    unfolding tick_bindings_def using that
    by (intro fold_base) (auto intro!: fold_base tick_one_base [OF assms(1)] split: option.split)
  have t: "base_kept x db (snd (tick_bindings x (tick_global x chs (None, s'))))" if "base_kept x db s'" for chs s'
    using b [OF g, of "(None, s')"] that by simp
  show ?thesis using t [of "setStatusError _ s"] t [of s] assms(2)
    by (auto simp: scheduleTick_def Let_def split_beta split: option.split sum.split)
qed

lemma readRevision_base: "base_kept x db s \<Longrightarrow> readRevision (sx_store x) (sv_db s) = readRevision (sx_store x) db"
  by (simp add: readRevision_def base_kept_def)

lemma readRevision_at [simp]: "readRevision (at_time e t c) db = readRevision e db"
  by (simp add: readRevision_def)

text \<open>What the first tick of a new service sends is of the current revision, unless the older jobs could not be
  superseded, which the status then shows.\<close>

definition sent_current :: "'b svcEnv \<Rightarrow> 64 word \<Rightarrow> string \<Rightarrow> notificationJob list \<Rightarrow> bool" where
  "sent_current x cur code sent \<longleftrightarrow> list_all (\<lambda>j. cur \<le> j_Revision j) sent \<or>
     (\<exists>err db db'. supersededStaleJobs (store_env x CallSupersede) cur db = (Inl err, db')) \<and> code = ''store_write_failed''"

lemma startNotificationService_sends:
  assumes "env_ok (sx_store x)" and "keyed (sx_store x) db"
    and "startNotificationService x source rc (Some db) = Inr (sent, s)"
  shows "sent_current x (readRevision (sx_store x) db) (ss_ErrorCode (sv_status s)) sent"
proof -
  from assms(3) obtain u db1 where r: "RecoverOnBoot (at_time (sx_store x) (sx_now x) rc) db = (Inr u, db1)"
    by (auto simp: startNotificationService_def split: if_splits prod.splits sum.splits)
  define s0 where "s0 = \<lparr>sv_db = db1, sv_status = \<lparr>ss_Running = True, ss_ErrorCode = [],
      ss_Revision = readRevision (sx_store x) db1, ss_PendingJobs = 0, ss_NextFire = []\<rparr>\<rparr>"
  let ?s = "scheduleTick x s0"
  have tick: "sendTick x ?s = (sent, s)"
    using assms(3) r by (auto simp: startNotificationService_def s0_def split: if_splits)
  have k: "keyed (sx_store x) db1"
    using recover_evolves [OF assms(1), where t = "sx_now x" and c = rc and db = db] r assms(2) by (simp add: jobs_evolve_def)
  have "db_revision db1 = db_revision db"
    using r by (auto simp: RecoverOnBoot_def db_Update_Inr sum_bind_Inr)
  with k have "base_kept x db s0" by (simp add: base_kept_def s0_def)
  from scheduleTick_base [OF assms(1) this] have b: "base_kept x db ?s" .
  then have k2: "keyed (sx_store x) (sv_db ?s)" by (simp add: base_kept_def)
  note rev = readRevision_base [OF b]
  obtain res db2 where sup: "supersededStaleJobs (store_env x CallSupersede) (readRevision (sx_store x) (sv_db ?s)) (sv_db ?s) = (res, db2)"
    by fastforce
  show ?thesis
  proof (cases res)
    case (Inl err)
    from sendTick_reports [OF sup [unfolded Inl] tick] sup [unfolded Inl rev] show ?thesis
      by (auto simp: sent_current_def)
  next
    case (Inr n)
    with sendTick_hands [OF assms(1) k2 tick, unfolded sup] show ?thesis
      by (auto simp: sent_current_def list_all_iff rev split: option.splits)
  qed
qed

lemma restart_sends:
  assumes "env_ok (sx_store (nx_svc x))" and "keyed (sx_store (nx_svc x)) (nc_db c)"
    and "restartNotificationServiceWithState x st c = (sent, c')"
  shows "\<exists>a. nc_service c' = Some a \<and>
    sent_current (nx_svc x) (readRevision (sx_store (nx_svc x)) (nc_db c)) (ss_ErrorCode (as_Status a)) sent"
proof -
  let ?v = "(nx_svc x)\<lparr>sx_state := st\<rparr>"
  have e: "store_env ?v = store_env (nx_svc x)" by (simp add: fun_eq_iff store_env_def)
  then have "sent_current ?v = sent_current (nx_svc x)" by (simp add: fun_eq_iff sent_current_def)
  with assms startNotificationService_sends [of ?v "nc_db c"] show ?thesis
    by (auto simp: restartNotificationServiceWithState_def setActiveNotificationUnavailable_def sent_current_def Let_def
        split: if_splits sum.splits prod.splits)
qed

text \<open>Whether the change of the settings reaches the revision in the store; when it does not, the code only logs it.\<close>

definition bumps :: "('b, 'h) controlEnv \<Rightarrow> ('b, 'h) control \<Rightarrow> bool" where
  "bumps x c \<longleftrightarrow> store_reachable x c \<and>
     \<not> isl (fst (BumpRevision (at_time (sx_store (nx_svc x)) (sx_now (nx_svc x)) (nx_bumpCommits x)) (nc_db c)))"

lemma bump_reads:
  assumes "env_ok (sx_store (nx_svc x))"
  shows "readRevision (sx_store (nx_svc x)) (nc_db (bump x c)) =
      readRevision (sx_store (nx_svc x)) (nc_db c) + (if bumps x c then 1 else 0) \<and>
    db_jobs (nc_db (bump x c)) = db_jobs (nc_db c)"
proof -
  obtain res db1 where b: "BumpRevision (at_time (sx_store (nx_svc x)) (sx_now (nx_svc x)) (nx_bumpCommits x)) (nc_db c) = (res, db1)"
    by fastforce
  show ?thesis
  proof (cases res)
    case (Inl err)
    with b have "db1 = nc_db c" by (auto simp: BumpRevision_def db_Update_def Let_def split: sum.splits prod.splits if_splits)
    with Inl b show ?thesis by (simp add: bump_def bumps_def)
  next
    case (Inr new)
    with b BumpRevision_reads [OF assms b [unfolded Inr]] show ?thesis by (simp add: bump_def bumps_def)
  qed
qed


section \<open>What a test sends\<close>

definition messages_for :: "Notification \<Rightarrow> string list \<Rightarrow> (PlatformIdentity \<times> outboundMessage) list" where
  "messages_for n texts =
     concat (map (\<lambda>text. map (\<lambda>p. (p, \<lparr>om_Title = n_Name n, om_Body = text, om_UserIDs = nonEmptyIDs (p_UserIDs p)\<rparr>))
       (filter p_Enabled (n_Platforms n))) texts)"

lemma test_one_sent:
  assumes "test_one x fp n ch text periodKey r p db = ((e, ids, sent), db')"
  defines "m \<equiv> (p, \<lparr>om_Title = n_Name n, om_Body = text, om_UserIDs = nonEmptyIDs (p_UserIDs p)\<rparr>)"
  shows "prefix sent [m] \<and> (e = None \<longrightarrow> sent = [m])"
  using assms by (auto simp: test_one_def Let_def split: option.splits sum.splits prod.splits)

lemma prefix_one: "prefix s [m] \<Longrightarrow> prefix s (m # ms)"
  by (cases s) auto

lemma test_targets_sent:
  "test_targets x fp n ch text periodKey r ps db = ((e, ids, sent), db') \<Longrightarrow>
    prefix sent (map (\<lambda>p. (p, \<lparr>om_Title = n_Name n, om_Body = text, om_UserIDs = nonEmptyIDs (p_UserIDs p)\<rparr>)) ps) \<and>
    (e = None \<longrightarrow> sent = map (\<lambda>p. (p, \<lparr>om_Title = n_Name n, om_Body = text, om_UserIDs = nonEmptyIDs (p_UserIDs p)\<rparr>)) ps)"
proof (induction ps arbitrary: e ids sent db db')
  case (Cons p ps)
  obtain e1 ids1 sent1 db1 where one: "test_one x fp n ch text periodKey r p db = ((e1, ids1, sent1), db1)" by (metis surj_pair)
  note s1 = test_one_sent [OF one]
  obtain e2 ids2 sent2 db2 where rest: "test_targets x fp n ch text periodKey r ps db1 = ((e2, ids2, sent2), db2)"
    by (metis surj_pair)
  from Cons.prems one rest Cons.IH [OF rest] s1 show ?case by (cases e1) (auto dest: prefix_one)
qed simp

text \<open>Rendering neither reads nor writes the store, so the writes of a test leave what the preview renders.\<close>

lemma render_db:
  "renderNotificationPreview x st binding n ch (c\<lparr>nc_db := db\<rparr>) =
    map_option (\<lambda>(t, c'). (t, c'\<lparr>nc_db := db\<rparr>)) (renderNotificationPreview x st binding n ch c)"
  by (simp add: renderNotificationPreview_def notificationStatsSource_def Let_def split_beta split: option.split)

lemma preview_channels_db:
  "preview_channels x st binding n chs (c\<lparr>nc_db := db\<rparr>) =
    map_option (\<lambda>(t, c'). (t, c'\<lparr>nc_db := db\<rparr>)) (preview_channels x st binding n chs c)"
  by (induction chs arbitrary: c) (auto simp: render_db split: option.split)

lemma test_channels_sent:
  "test_channels x st binding n fp periodKey r chs c = Some ((e, ids, sent), c') \<Longrightarrow>
    \<exists>k texts ws c2. k \<le> length chs \<and> preview_channels x st binding n (take k chs) c = Some ((texts, ws), c2) \<and>
      prefix sent (messages_for n texts) \<and> (e = None \<longrightarrow> k = length chs \<and> sent = messages_for n texts)"
proof (induction chs arbitrary: e ids sent c c')
  case Nil
  then show ?case by (simp add: messages_for_def)
next
  case (Cons ch chs)
  from Cons.prems obtain body ws c1 where p: "renderNotificationPreview x st binding n ch c = Some ((body, ws), c1)"
    by (auto split: option.splits)
  let ?ms = "map (\<lambda>p. (p, \<lparr>om_Title = n_Name n, om_Body = headed ch body, om_UserIDs = nonEmptyIDs (p_UserIDs p)\<rparr>))
      (filter p_Enabled (n_Platforms n))"
  obtain e1 ids1 sent1 db1 where t: "test_targets (nx_svc x) fp n ch (headed ch body) periodKey r
      (filter p_Enabled (n_Platforms n)) (nc_db c1) = ((e1, ids1, sent1), db1)" by (metis surj_pair)
  note s1 = test_targets_sent [OF t]
  show ?case
  proof (cases e1)
    case (Some err)
    with Cons.prems p t s1 show ?thesis
      by (intro exI [of _ "Suc 0"] exI [of _ "[headed ch body]"] exI [of _ ws] exI [of _ c1]) (auto simp: messages_for_def)
  next
    case None
    with Cons.prems p t obtain e2 ids2 sent2 c2 where
      rest: "test_channels x st binding n fp periodKey r chs (c1\<lparr>nc_db := db1\<rparr>) = Some ((e2, ids2, sent2), c2)"
      "e = e2" "sent = sent1 @ sent2"
      by (auto split: option.splits)
    from Cons.IH [OF rest(1)] obtain k texts ws2 c3 where ih: "k \<le> length chs"
      "preview_channels x st binding n (take k chs) c1 = Some ((texts, ws2), c3)" "prefix sent2 (messages_for n texts)"
      "e2 = None \<longrightarrow> k = length chs \<and> sent2 = messages_for n texts"
      by (auto simp: preview_channels_db)
    have "sent1 = ?ms" using s1 None by simp
    with ih rest(2,3) p show ?thesis
      by (intro exI [of _ "Suc k"] exI [of _ "headed ch body # texts"] exI [of _ "ws @ ws2"] exI [of _ c3])
        (auto simp: messages_for_def)
  qed
qed

text \<open>With enough fuel, everything that renders returns, and leaves the service as it is.\<close>

definition collects_end :: "('b, 'h) controlEnv \<Rightarrow> ('b, 'h) control \<Rightarrow> bool" where
  "collects_end x c \<longleftrightarrow> (case notificationStatsSource c of None \<Rightarrow> True | Some src \<Rightarrow> polls_end (nx_fuel x) src)"

lemma collects_end_service: "nc_service c' = nc_service c \<Longrightarrow> collects_end x c' = collects_end x c"
  by (simp add: collects_end_def notificationStatsSource_def)

lemma render_ends:
  assumes "collects_end x c"
  shows "\<exists>body ws c'. renderNotificationPreview x st binding n ch c = Some ((body, ws), c') \<and> collects_end x c'"
proof (cases "notificationStatsSource c")
  case None
  with assms show ?thesis by (simp add: renderNotificationPreview_def Let_def split_beta)
next
  case (Some src)
  let ?b = "case binding of None \<Rightarrow> zeroBinding | Some b \<Rightarrow> b"
  have "polls_end (cl_fuel (collector_of x src)) (cl_source (collector_of x src))"
    using assms Some by (simp add: collects_end_def collector_of_def)
  from collectStats_ends [OF this] obtain err d lr h where
    "collectStats (collector_of x src) ?b n (sx_now (nx_svc x)) ch (nc_refreshes c) (nc_host c) = Some ((err, d), lr, h)"
    by (metis option.exhaust surj_pair)
  moreover have "collects_end x (c\<lparr>nc_refreshes := lr, nc_host := h\<rparr>)"
    using assms by (simp add: collects_end_def notificationStatsSource_def)
  ultimately show ?thesis using Some by (simp add: renderNotificationPreview_def Let_def split_beta)
qed

lemma previewChannelIDs_service: "previewChannelIDs x binding c = (chs, c') \<Longrightarrow> nc_service c' = nc_service c"
  by (auto simp: previewChannelIDs_def split: option.splits prod.splits)

lemma test_channels_ends:
  "collects_end x c \<Longrightarrow> test_channels x st binding n fp periodKey r chs c \<noteq> None"
proof (induction chs arbitrary: c)
  case (Cons ch chs)
  from render_ends [OF Cons.prems, of st binding n ch] obtain body ws c1 where
    p: "renderNotificationPreview x st binding n ch c = Some ((body, ws), c1)" "collects_end x c1" by metis
  have "collects_end x (c1\<lparr>nc_db := db\<rparr>)" for db
    using p(2) by (simp add: collects_end_def notificationStatsSource_def)
  then have i: "test_channels x st binding n fp periodKey r chs (c1\<lparr>nc_db := db\<rparr>) \<noteq> None" for db by (rule Cons.IH)
  obtain e ids sent db where
    "test_targets (nx_svc x) fp n ch (headed ch body) periodKey r (filter p_Enabled (n_Platforms n)) (nc_db c1) = ((e, ids, sent), db)"
    by (metis surj_pair)
  moreover obtain out where "test_channels x st binding n fp periodKey r chs (c1\<lparr>nc_db := db\<rparr>) = Some out" using i by blast
  ultimately show ?case using p(1) by (cases e) (auto split: prod.split)
qed simp

lemma preview_channels_ends:
  "collects_end x c \<Longrightarrow> \<exists>texts ws c'. preview_channels x st binding n chs c = Some ((texts, ws), c') \<and> collects_end x c'"
proof (induction chs arbitrary: c)
  case (Cons ch chs)
  from render_ends [OF Cons.prems, of st binding n ch] obtain body ws c1 where
    p: "renderNotificationPreview x st binding n ch c = Some ((body, ws), c1)" "collects_end x c1" by metis
  from Cons.IH [OF p(2)] p(1) show ?case by auto
qed simp

lemma preview_ends:
  assumes "collects_end x c"
  shows "managementNotificationPreview x req w c \<noteq> None"
proof -
  have "stackedPreview x st binding n c \<noteq> None" for st binding n
  proof -
    obtain chs c1 where chs: "previewChannelIDs x binding c = (chs, c1)" by fastforce
    have c1: "collects_end x c1" using assms collects_end_service [OF previewChannelIDs_service [OF chs]] by simp
    from preview_channels_ends [OF c1] obtain texts ws c2 where
      p: "preview_channels x st binding n chs c1 = Some ((texts, ws), c2)" "collects_end x c2" by metis
    have "\<exists>r. renderNotificationPreview x st binding n [] c = Some r" "\<exists>r. renderNotificationPreview x st binding n [] c2 = Some r"
      using render_ends [OF assms, of st binding n "[]"] render_ends [OF p(2), of st binding n "[]"] by metis+
    then show ?thesis by (auto simp: stackedPreview_def chs p(1))
  qed
  then have "\<forall>st binding n. stackedPreview x st binding n c \<noteq> None" by blast
  then show ?thesis
    by (auto simp: managementNotificationPreview_def Let_def split: option.split sum.split) (metis option.distinct(1))
qed

text \<open>A test send, by the request: refused before the store, or the run over its channels.\<close>

definition global_prefix :: "'b svcEnv \<Rightarrow> KeyBinding option \<Rightarrow> string" where
  "global_prefix v binding =
     (case binding of Some b \<Rightarrow> if own_key binding then keyFingerprint (sx_hash v) (kb_Key b) else ''global'' | None \<Rightarrow> ''global'')"

lemma test_send_cases:
  assumes "nx_target x (rq_Body req) = Some (key, nid)"
    and "resolveNotificationEntity (h_state (w_holder w)) (trim_space key) (trim_space nid) = Inr (n, binding)"
    and "(if own_key binding then ([[]], c) else previewChannelIDs x binding c) = (chs, c1)"
  obtains (refused) st e c' where "managementNotificationTestSend x req w c = Some (controlError st e, [], c')" "st \<in> {400, 503}"
  | (run) r where
      "test_channels x (h_state (w_holder w)) binding n (global_prefix (nx_svc x) binding) (notificationPeriodKey n (sx_now (nx_svc x)))
         (readRevision (sx_store (nx_svc x)) (nc_db c1)) chs c1 = r"
      "managementNotificationTestSend x req w c = map_option (\<lambda>((e, ids, sent), c2).
         (case e of None \<Rightarrow> managementJSON 200 (OtherBody (DeliveryIDs ids)) | Some e \<Rightarrow> controlError 500 (SendFailed e), sent, c2)) r"
proof (cases "filter p_Enabled (n_Platforms n) = [] \<or> \<not> store_reachable x c1")
  case True
  show thesis
    by (rule refused [of "if filter p_Enabled (n_Platforms n) = [] then 400 else 503"
        "if filter p_Enabled (n_Platforms n) = [] then NoPlatform else StoreUnavailable"
        "if filter p_Enabled (n_Platforms n) = [] then c else c1"])
      (use True assms in \<open>auto simp: managementNotificationTestSend_def\<close>)
next
  case False
  show thesis
    by (rule run [OF refl])
      (use False assms in \<open>auto simp: managementNotificationTestSend_def global_prefix_def Let_def split: option.split prod.split\<close>)
qed

text \<open>C13. A test send that is answered 200 has handed, to each enabled platform of the saved notification, exactly the
  texts that the preview renders for the channels, one for each channel in their order.  One that fails on the way
  (500) has handed over the first of them and no other, and one that is refused, because the body or the store
  cannot be read, the notification is unknown or none of its platforms is enabled, has sent nothing.  It always
  returns, unless the fuel of the window polling is short of its budget.\<close>

theorem test_send_once:
  "case managementNotificationTestSend x req w c of
     None \<Rightarrow> \<not> collects_end x c
   | Some (resp, sent, c') \<Rightarrow>
       (case map_option (\<lambda>(key, nid). resolveNotificationEntity (h_state (w_holder w)) (trim_space key) (trim_space nid))
           (nx_target x (rq_Body req)) of
          Some (Inr (n, binding)) \<Rightarrow>
            (case if own_key binding then ([[]], c) else previewChannelIDs x binding c of
               (channels, c1) \<Rightarrow>
                 \<exists>k texts ws c2. k \<le> length channels \<and>
                   preview_channels x (h_state (w_holder w)) binding n (take k channels) c1 = Some ((texts, ws), c2) \<and>
                   (if rs_Status resp = 200 then k = length channels \<and> sent = messages_for n texts
                    else if rs_Status resp = 500 then prefix sent (messages_for n texts)
                    else sent = [] \<and> rs_Status resp \<in> {400, 503}))
        | _ \<Rightarrow> sent = [] \<and> rs_Status resp \<in> {400, 404})"
proof -
  note status = controlError_def managementJSON_def
  consider (refused) "managementNotificationTestSend x req w c = Some (controlError 400 BodyInvalid, [], c)" "nx_target x (rq_Body req) = None"
    | (unknown) key nid e where "managementNotificationTestSend x req w c = Some (controlError 404 (Resolve e), [], c)"
        "nx_target x (rq_Body req) = Some (key, nid)"
        "resolveNotificationEntity (h_state (w_holder w)) (trim_space key) (trim_space nid) = Inl e"
    | (found) key nid n binding where "nx_target x (rq_Body req) = Some (key, nid)"
        "resolveNotificationEntity (h_state (w_holder w)) (trim_space key) (trim_space nid) = Inr (n, binding)"
  proof (cases "nx_target x (rq_Body req)")
    case None
    then show thesis by (intro refused) (simp_all add: managementNotificationTestSend_def)
  next
    case (Some kn)
    obtain key nid where kn: "kn = (key, nid)" by fastforce
    show thesis
    proof (cases "resolveNotificationEntity (h_state (w_holder w)) (trim_space key) (trim_space nid)")
      case (Inl e)
      with Some kn show thesis by (intro unknown [of e key nid]) (simp_all add: managementNotificationTestSend_def)
    next
      case (Inr nb)
      then show thesis using Some kn by (cases nb) (auto intro: found)
    qed
  qed
  then show ?thesis
  proof cases
    case found
    obtain chs c1 where chs: "(if own_key binding then ([[]], c) else previewChannelIDs x binding c) = (chs, c1)" by fastforce
    then have same: "nc_service c1 = nc_service c" by (auto split: if_splits dest: previewChannelIDs_service)
    from found chs show ?thesis
    proof (cases rule: test_send_cases)
      case (run r)
      show ?thesis
      proof (cases r)
        case None
        with run(1) have "\<not> collects_end x c1" using test_channels_ends by blast
        then have "\<not> collects_end x c" using collects_end_service [OF same] by simp
        with run(2) None show ?thesis by simp
      next
        case (Some out)
        obtain e ids sent c2 where out: "out = ((e, ids, sent), c2)" by (metis surj_pair)
        from test_channels_sent [OF run(1) [unfolded Some out]] obtain k texts ws c3 where k: "k \<le> length chs"
          "preview_channels x (h_state (w_holder w)) binding n (take k chs) c1 = Some ((texts, ws), c3)"
          "prefix sent (messages_for n texts)" "e = None \<longrightarrow> k = length chs \<and> sent = messages_for n texts" by blast
        then show ?thesis
          by (cases e) (simp_all add: run(2) Some out found status chs, (intro exI [of _ k] conjI; simp), (intro exI [of _ k] conjI; simp))
      qed
    next
      case (refused st e c2)
      from refused(2) consider "st = 400" | "st = 503" by auto
      then show ?thesis by cases (simp_all add: refused(1) found chs status, (intro exI [of _ 0], simp)+)
    qed
  qed (simp_all add: status)
qed

section \<open>Which job a test settles\<close>

lemma find_least:
  fixes xs :: "(string \<times> 'v) list"
  shows "sorted_wrt (<) (map fst xs) \<Longrightarrow> find P xs = Some (k, v) \<Longrightarrow> (k', v') \<in> set xs \<Longrightarrow> P (k', v') \<Longrightarrow> k \<le> k'"
  by (induction xs) (auto split: if_splits)

text \<open>The pending jobs of a key, a notification, a platform and a period, over whatever channel.\<close>

definition pending_for :: "string \<Rightarrow> string \<Rightarrow> PlatformKind \<Rightarrow> string \<Rightarrow> notificationJob \<Rightarrow> bool" where
  "pending_for fp nid kind periodKey j \<longleftrightarrow>
     j_State j = jobPending \<and> j_KeyFingerprint j = fp \<and> j_NotificationID j = nid \<and> j_Platform j = kind \<and> j_PeriodKey j = periodKey"

lemma pendingJobIDFor_found:
  assumes "env_ok e" and "job_at e (db_jobs db) k0 = Some j0" and "pending_for fp nid kind pk j0"
  obtains k j where "pendingJobIDFor e fp nid kind pk db = j_ID j" "job_at e (db_jobs db) k = Some j" "pending_for fp nid kind pk j"
    "\<And>k' j'. job_at e (db_jobs db) k' = Some j' \<Longrightarrow> pending_for fp nid kind pk j' \<Longrightarrow> k \<le> k'"
proof -
  let ?P = "\<lambda>(k, j). pending_for fp nid kind pk j"
  have f: "pendingJobIDFor e fp nid kind pk db = (case find ?P (jobs_of e (db_jobs db)) of None \<Rightarrow> [] | Some (k, j) \<Rightarrow> j_ID j)"
    by (simp add: pendingJobIDFor_def pending_for_def)
  have "(k0, j0) \<in> set (jobs_of e (db_jobs db))" using assms(1,2) by (simp add: jobs_of_set)
  with assms(3) have "find ?P (jobs_of e (db_jobs db)) \<noteq> None" by (auto simp: find_None_iff)
  then obtain k j where kj: "find ?P (jobs_of e (db_jobs db)) = Some (k, j)" by auto
  from find_Some_in [OF kj] have "job_at e (db_jobs db) k = Some j" "pending_for fp nid kind pk j"
    using jobs_of_set [OF assms(1)] by auto
  then show thesis using find_least [OF jobs_of_sorted [OF assms(1)] kj] jobs_of_set [OF assms(1)] f kj
    by (intro that [of j k]) auto
qed

text \<open>Stored jobs have IDs of their own, and a new ID is not one of them.\<close>

definition ids_ok :: "'b svcEnv \<Rightarrow> 'b db \<Rightarrow> bool" where
  "ids_ok x db \<longleftrightarrow>
     (\<forall>k j. job_at (sx_store x) (db_jobs db) k = Some j \<longrightarrow> j_ID j \<noteq> [] \<and> j_ID j \<notin> range (sx_newID x) \<and>
        (\<forall>k' j'. job_at (sx_store x) (db_jobs db) k' = Some j' \<longrightarrow> j_ID j' = j_ID j \<longrightarrow> k' = k)) \<and> [] \<notin> range (sx_newID x)"

text \<open>The steps of a test that succeeds: the job it queues and the job it finishes.\<close>

lemma test_one_steps:
  fixes x :: "'b svcEnv"
  assumes "env_ok (sx_store x)" and "test_one x fp n ch body pk r p db = ((None, ids, sent), db')"
  defines "msg \<equiv> \<lparr>om_Title = n_Name n, om_Body = body, om_UserIDs = nonEmptyIDs (p_UserIDs p)\<rparr>"
  obtains payload job stored db1 actual where
    "sx_encMsg x msg = Some payload" "job = test_job x fp n ch pk payload r p"
    "job_at (sx_store x) (db_jobs db1) = (job_at (sx_store x) (db_jobs db))(jobKey job \<mapsto> stored)"
    "j_State stored = jobPending" "j_Payload stored = payload"
    "j_ID stored = j_ID job \<and> pending_for fp (n_ID n) (p_Kind p) pk stored \<or>
      (\<exists>ex. job_at (sx_store x) (db_jobs db) (jobKey job) = Some ex \<and> j_ID stored = j_ID ex)"
    "actual = (let f = pendingJobIDFor (sx_store x) fp (n_ID n) (p_Kind p) pk db1 in if f = [] then j_ID job else f)"
    "FinishJob (store_env x (CallFinish actual)) actual (r_Outcome (deliverTestMessage x p msg))
       (r_ErrorCode (deliverTestMessage x p msg)) (r_Detail (deliverTestMessage x p msg)) db1 = (Inr (), db')"
proof -
  from assms(2) obtain payload where payload: "sx_encMsg x msg = Some payload"
    by (auto simp: test_one_def msg_def Let_def split: option.splits)
  define job where "job = test_job x fp n ch pk payload r p"
  from assms(2) payload obtain m db1 where u: "UpsertJob (store_env x (CallEnqueue (jobKey job))) job db = (Inr m, db1)"
    by (auto simp: test_one_def msg_def Let_def job_def split: sum.splits prod.splits)
  from UpsertJob_at [OF _ u, unfolded store_env_simps, OF assms(1)] obtain stored where
    st: "job_at (sx_store x) (db_jobs db1) = (job_at (sx_store x) (db_jobs db))(jobKey job \<mapsto> stored)"
      "stored = (case job_at (sx_store x) (db_jobs db) (jobKey job) of
         Some ex \<Rightarrow> if j_State ex = jobPending then mergeJob (store_env x (CallEnqueue (jobKey job))) ex job
           else freshJob (store_env x (CallEnqueue (jobKey job))) db job
       | None \<Rightarrow> freshJob (store_env x (CallEnqueue (jobKey job))) db job)" by blast
  have stored: "j_State stored = jobPending" "j_Payload stored = payload"
    using st(2) by (auto simp: mergeJob_def freshJob_def job_def test_job_def Let_def split: option.splits)
  have sid: "j_ID stored = j_ID job \<and> pending_for fp (n_ID n) (p_Kind p) pk stored \<or>
      (\<exists>ex. job_at (sx_store x) (db_jobs db) (jobKey job) = Some ex \<and> j_ID stored = j_ID ex)"
    using st(2) by (auto simp: mergeJob_sel freshJob_def pending_for_def job_def test_job_def Let_def split: option.splits)
  show thesis
    by (rule that [OF payload job_def st(1) stored sid refl])
      (use assms(2) payload u in \<open>auto simp: test_one_def msg_def Let_def job_def [symmetric] split: sum.splits prod.splits\<close>)
qed

text \<open>With the job of a test in the queue, IDs still name one job.\<close>

lemma queued_ids:
  assumes "ids_ok x db" and "j_ID job \<in> range (sx_newID x)"
    and "j_ID stored = j_ID job \<or> (\<exists>ex. job_at (sx_store x) (db_jobs db) own = Some ex \<and> j_ID stored = j_ID ex)"
  defines "jobs \<equiv> (job_at (sx_store x) (db_jobs db))(own \<mapsto> stored)"
  shows "j_ID job \<noteq> []" and "jobs k = Some j \<Longrightarrow> j_ID j \<noteq> []"
    and "jobs k = Some j \<Longrightarrow> jobs k' = Some j' \<Longrightarrow> j_ID j = j_ID j' \<Longrightarrow> k = k'"
    and "jobs k = Some j \<Longrightarrow> j_ID j = j_ID job \<Longrightarrow> k = own \<and> j_ID stored = j_ID job"
proof -
  show ne: "j_ID job \<noteq> []" using assms(1,2) by (metis ids_ok_def)
  show "jobs k = Some j \<Longrightarrow> j_ID j \<noteq> []"
    using assms(1,3) ne by (auto simp: jobs_def ids_ok_def split: if_splits)
  show "jobs k = Some j \<Longrightarrow> jobs k' = Some j' \<Longrightarrow> j_ID j = j_ID j' \<Longrightarrow> k = k'"
    using assms(1-3) unfolding ids_ok_def jobs_def by (auto split: if_splits) (metis rangeI)+
  show "jobs k = Some j \<Longrightarrow> j_ID j = j_ID job \<Longrightarrow> k = own \<and> j_ID stored = j_ID job"
    using assms(1,2) unfolding jobs_def ids_ok_def by (auto split: if_splits) (metis rangeI)
qed

text \<open>C14. A test to one platform that succeeds has put its own job in the queue, under its channel, and then settles the
  first pending job of the same key, notification, platform and period in the order of the keys: its
  outcome is the test's, its payload stays, and every other job is as it was.  That job is the test's own
  exactly when no pending job of another channel comes before it.\<close>

theorem test_one_settles:
  assumes "env_ok (sx_store x)" and "ids_ok x db" and "test_one x fp n ch body pk r p db = ((None, ids, sent), db')"
  shows "\<exists>own stored k j st.
      j_State stored = jobPending \<and> own = jobKey (test_job x fp n ch pk [] r p) \<and>
      sx_encMsg x \<lparr>om_Title = n_Name n, om_Body = body, om_UserIDs = nonEmptyIDs (p_UserIDs p)\<rparr> = Some (j_Payload stored) \<and>
      (let jobs = (job_at (sx_store x) (db_jobs db))(own \<mapsto> stored)
       in jobs k = Some j \<and> pending_for fp (n_ID n) (p_Kind p) pk j \<and>
          k = (LEAST k. case jobs k of None \<Rightarrow> False | Some j \<Rightarrow> pending_for fp (n_ID n) (p_Kind p) pk j) \<and>
          jobStateForOutcome (r_Outcome (deliverTestMessage x p
            \<lparr>om_Title = n_Name n, om_Body = body, om_UserIDs = nonEmptyIDs (p_UserIDs p)\<rparr>)) = Inr st \<and>
          job_at (sx_store x) (db_jobs db') = jobs(k \<mapsto> j\<lparr>j_State := st, j_UpdatedAt := sx_now x\<rparr>))"
proof -
  let ?e = "sx_store x" and ?msg = "\<lparr>om_Title = n_Name n, om_Body = body, om_UserIDs = nonEmptyIDs (p_UserIDs p)\<rparr>"
    and ?P = "pending_for fp (n_ID n) (p_Kind p) pk"
  from test_one_steps [OF assms(1,3)] obtain payload job stored db1 actual where
    t: "sx_encMsg x ?msg = Some payload" "job = test_job x fp n ch pk payload r p"
      "job_at ?e (db_jobs db1) = (job_at ?e (db_jobs db))(jobKey job \<mapsto> stored)"
      "j_State stored = jobPending" "j_Payload stored = payload"
    and sid: "j_ID stored = j_ID job \<and> ?P stored \<or> (\<exists>ex. job_at ?e (db_jobs db) (jobKey job) = Some ex \<and> j_ID stored = j_ID ex)"
    and actual: "actual = (let f = pendingJobIDFor ?e fp (n_ID n) (p_Kind p) pk db1 in if f = [] then j_ID job else f)"
    and fin: "FinishJob (store_env x (CallFinish actual)) actual (r_Outcome (deliverTestMessage x p ?msg))
       (r_ErrorCode (deliverTestMessage x p ?msg)) (r_Detail (deliverTestMessage x p ?msg)) db1 = (Inr (), db')" by metis
  let ?own = "jobKey job" and ?jobs = "(job_at ?e (db_jobs db))(jobKey job \<mapsto> stored)"
  have own: "?own = jobKey (test_job x fp n ch pk [] r p)" by (simp add: t(2) test_job_def jobKey_def Let_def)
  have jid: "j_ID job \<in> range (sx_newID x)" by (auto simp: t(2) test_job_def Let_def)
  note ids = queued_ids [OF assms(2) jid, of stored ?own]
  from FinishJob_at [OF _ fin, unfolded store_env_simps, OF assms(1)] obtain k j s where
    f: "?jobs k = Some j" "j_ID j = actual" "jobStateForOutcome (r_Outcome (deliverTestMessage x p ?msg)) = Inr s"
      "job_at ?e (db_jobs db') = ?jobs(k \<mapsto> j\<lparr>j_State := s, j_UpdatedAt := sx_now x\<rparr>)" unfolding t(3) by blast
  have "\<exists>k0 j0. ?jobs k0 = Some j0 \<and> ?P j0"
  proof (cases "pendingJobIDFor ?e fp (n_ID n) (p_Kind p) pk db1 = []")
    case True
    with f(2) have "j_ID j = j_ID job" by (simp add: actual)
    with ids(4) [OF _ f(1)] sid have "j_ID stored = j_ID job" by blast
    moreover have "j_ID ex \<noteq> j_ID job" if "job_at ?e (db_jobs db) ?own = Some ex" for ex
      using that jid assms(2) unfolding ids_ok_def by metis
    ultimately have "?P stored" using sid by metis
    then show ?thesis by (intro exI [of _ ?own] exI [of _ stored]) simp
  next
    case False
    then obtain k0 j0 where "find (\<lambda>(k, j). ?P j) (jobs_of ?e (db_jobs db1)) = Some (k0, j0)"
      by (auto simp: pendingJobIDFor_def pending_for_def split: option.splits)
    from find_Some_in [OF this] have "?jobs k0 = Some j0" "?P j0"
      using jobs_of_set [OF assms(1), of _ _ "db_jobs db1"] t(3) by auto
    then show ?thesis by blast
  qed
  then obtain k0 j0 where k0: "job_at ?e (db_jobs db1) k0 = Some j0" "?P j0" using t(3) by auto
  from pendingJobIDFor_found [OF assms(1) k0] obtain k1 j1 where k1: "pendingJobIDFor ?e fp (n_ID n) (p_Kind p) pk db1 = j_ID j1"
      "?jobs k1 = Some j1" "?P j1" "\<And>k' j'. ?jobs k' = Some j' \<Longrightarrow> ?P j' \<Longrightarrow> k1 \<le> k'" unfolding t(3) by metis
  have "j_ID j1 \<noteq> []" using ids(2) [OF _ k1(2)] sid by blast
  then have "k = k1" using ids(3) [OF _ f(1) k1(2)] f(2) k1(1) sid by (auto simp: actual)
  moreover have "(LEAST k. case ?jobs k of None \<Rightarrow> False | Some j \<Rightarrow> ?P j) = k1"
    using k1(2-4) by (intro Least_equality) (auto split: option.splits if_splits)
  ultimately show ?thesis using f k1 t own
    by (intro exI [of _ ?own] exI [of _ stored] exI [of _ k] exI [of _ j] exI [of _ s]) (simp add: Let_def)
qed

section \<open>Retry, deliveries, preview\<close>

text \<open>A retry that is answered 200 puts the payload of the delivery's own job back in the queue, pending now and
  under the current revision, and changes nothing else.\<close>

theorem retry_requeues:
  assumes "env_ok (sx_store (nx_svc x))" and "managementNotificationRetry x req c = (resp, c')" and "rs_Status resp = 200"
  shows "\<exists>i rec j stored key.
      map_option trim_space (nx_delivery x (rq_Body req)) = Some i \<and>
      deliveryByID (sx_store (nx_svc x)) i (nc_db c) = Some rec \<and> d_ID rec = i \<and>
      jobByID (sx_store (nx_svc x)) (d_JobID rec) (nc_db c) = Some j \<and> j_ID j = d_JobID rec \<and>
      key = jobKey (retried_job (nx_svc x) (nc_db c) rec j) \<and>
      job_at (sx_store (nx_svc x)) (db_jobs (nc_db c')) = (job_at (sx_store (nx_svc x)) (db_jobs (nc_db c)))(key \<mapsto> stored) \<and>
      j_State stored = jobPending \<and> j_Payload stored = j_Payload j \<and> j_NextAttempt stored = sx_now (nx_svc x) \<and>
      j_Revision stored = readRevision (sx_store (nx_svc x)) (nc_db c) \<and> db_deliveries (nc_db c') = db_deliveries (nc_db c)"
proof -
  let ?v = "nx_svc x" and ?e = "sx_store (nx_svc x)" and ?db = "nc_db c"
  from assms(2,3) obtain i rec j where ij: "map_option trim_space (nx_delivery x (rq_Body req)) = Some i"
      "deliveryByID ?e i ?db = Some rec" "jobByID ?e (d_JobID rec) ?db = Some j" "i \<noteq> []" "store_reachable x c"
    by (auto simp: managementNotificationRetry_def Let_def controlError_def managementJSON_def split: option.splits if_splits)
  let ?fresh = "retried_job ?v ?db rec j"
  obtain m db1 where u: "UpsertJob (store_env ?v (CallEnqueue (jobKey ?fresh))) ?fresh ?db = (m, db1)" by fastforce
  with assms(2,3) ij obtain k where k: "m = Inr k" "nc_db c' = db1"
    by (cases m) (auto simp: managementNotificationRetry_def Let_def controlError_def managementJSON_def)
  from UpsertJob_at [OF _ u [unfolded k(1)], unfolded store_env_simps, OF assms(1)] obtain stored where
    st: "db_deliveries db1 = db_deliveries ?db"
      "job_at ?e (db_jobs db1) = (job_at ?e (db_jobs ?db))(jobKey ?fresh \<mapsto> stored)"
      "stored = (case job_at ?e (db_jobs ?db) (jobKey ?fresh) of
         Some ex \<Rightarrow> if j_State ex = jobPending then mergeJob (store_env ?v (CallEnqueue (jobKey ?fresh))) ex ?fresh
           else freshJob (store_env ?v (CallEnqueue (jobKey ?fresh))) ?db ?fresh
       | None \<Rightarrow> freshJob (store_env ?v (CallEnqueue (jobKey ?fresh))) ?db ?fresh)" by blast
  have "readRevision (store_env ?v cl) ?db = readRevision ?e ?db" for cl by (simp add: readRevision_def store_env_def)
  with st(3) have "j_State stored = jobPending \<and> j_Payload stored = j_Payload j \<and> j_NextAttempt stored = sx_now ?v \<and>
      j_Revision stored = readRevision ?e ?db"
    by (auto simp: mergeJob_def freshJob_def retried_job_def Let_def split: option.splits)
  moreover have "d_ID rec = i" using ij(2) by (auto simp: deliveryByID_def find_Some_iff)
  moreover have "j_ID j = d_JobID rec" using ij(3) by (auto simp: jobByID_def find_Some_iff)
  ultimately show ?thesis using ij(1-3) st(1,2) k(2) by blast
qed

text \<open>The queue's place of a retry is not the job's when that had a channel of its own.\<close>

lemma retry_leaves_channel:
  assumes "one_channel (j_Channel j)" and "d_KeyFingerprint rec = j_KeyFingerprint j" and "d_NotificationID rec = j_NotificationID j"
    and "d_Platform rec = j_Platform j" and "d_PeriodKey rec = j_PeriodKey j"
  shows "jobKey (retried_job x db rec j) \<noteq> jobKey j"
  using assms by (auto simp: retried_job_def jobKey_def one_channel_def Let_def)

text \<open>The list of deliveries holds at most 500, whatever limit is asked for, and a limit that is no positive number
  is refused.\<close>

lemma deliveries_bounded:
  "case rs_Body (managementNotificationDeliveries x req c) of
     OtherBody (DeliveriesBody rows) \<Rightarrow> length rows \<le> 500
   | _ \<Rightarrow> rs_Status (managementNotificationDeliveries x req c) \<in> {400, 503}"
proof -
  have "length (Deliveries e f db) \<le> 500" if "0 < f_Limit f" "f_Limit f \<le> 500" for e f and db :: "'a db"
  proof -
    have "nat (f_Limit f) \<le> 500" using that by simp
    with that(1) show ?thesis by (simp add: Deliveries_def Let_def min.coboundedI2)
  qed
  then show ?thesis
    by (auto simp: managementNotificationDeliveries_def deliveries_limit_def controlError_def managementJSON_def
        notificationDeliveriesDefaultLimit_def notificationDeliveriesMaxLimit_def split: option.splits if_splits)
qed

text \<open>A notification that follows the template of the global one and has no modules of its own is previewed without a
  single section of statistics, whatever the modules of the global one are: they are rendered, but their
  periods are not collected.\<close>

lemma preview_of_follower:
  assumes "n_Modules n = []" and "\<not> one_channel channel" and "\<And>ps. set (nx_order x ps) = set ps"
    and "notificationStatsSource c = Some src" and "sc_client src \<noteq> None"
  obtains d c' where "sd_Periods d = []"
    "renderNotificationPreview x st binding n channel c =
      Some (renderMessage (n\<lparr>n_Modules := effectiveModules (Some st) n\<rparr>) d (sx_now (nx_svc x)), c')"
proof -
  let ?b = "case binding of None \<Rightarrow> zeroBinding | Some b \<Rightarrow> b"
  obtain client where cl: "sc_client src = Some client" using assms(5) by blast
  have o: "nx_order x [] = []" using assms(3) [of "[]"] by simp
  define d where "d = \<lparr>sd_DisplayName = kb_Alias ?b, sd_Plan = [], sd_PlanProvider = [], sd_Periods = [], sd_Windows = [],
      sd_ResetCards = None, sd_ResetCardItems = []\<rparr>"
  have "collectStats (collector_of x src) ?b n (sx_now (nx_svc x)) channel (nc_refreshes c) (nc_host c) =
      Some ((None, d), nc_refreshes c, nc_host c)"
    by (simp add: collectStats_def collector_of_def cl assms(1,2) o narrow_def channel_indexes_def d_def)
  then have "renderNotificationPreview x st binding n channel c =
      Some (renderMessage (n\<lparr>n_Modules := effectiveModules (Some st) n\<rparr>) d (sx_now (nx_svc x)), c)"
    by (simp add: renderNotificationPreview_def assms(4) split_beta Let_def)
  then show thesis by (intro that [of d c]) (simp_all add: d_def)
qed

section \<open>Witnesses\<close>

definition control_svc :: "(string, bytes) fmap svcEnv" where
  "control_svc = sample_svc\<lparr>sx_newID := \<lambda>_. ''1''\<rparr>"

definition control_notification :: Notification where
  "control_notification = zeroNotification\<lparr>n_ID := ''n''\<rparr>"

definition control_platform :: PlatformIdentity where
  "control_platform =
     \<lparr>p_Kind = ''wecom'', p_Enabled = True, p_Webhook = [], p_UserIDs = [], p_AtAll = False, p_SignSecret = [], p_FetchAppID = [],
      p_FetchAppSecret = [], p_FetchAppKey = [], p_FetchCorpID = [], p_FetchSecret = []\<rparr>"

lemma control_job: "test_job control_svc ''global'' control_notification [] ''p'' [] 0 control_platform = sample_job\<lparr>j_MergedCount := 0, j_UpdatedAt := zero_time\<rparr>"
  by (simp add: test_job_def control_svc_def control_notification_def control_platform_def sample_svc_def sample_job_def Let_def)

lemma control_env: "store_env control_svc cl = sample_sending_store" "sx_store control_svc = sample_sending_store" "sx_now control_svc = 0"
  using sample_svc_env by (simp_all add: control_svc_def store_env_def)

theorem test_one_settles_witness:
  "\<exists>ids sent db'. test_one control_svc ''global'' control_notification [] [] ''p'' 0 control_platform (sample_db None) = ((None, ids, sent), db') \<and>
     map_option j_State (job_at sample_store (db_jobs db') (jobKey sample_job)) = Some jobSent"
proof -
  have m: "sx_encMsg control_svc msg = Some []" "sx_send control_svc p msg = Some []" for msg p
    by (simp_all add: control_svc_def sample_svc_def)
  have "freshJob sample_sending_store (sample_db None) (sample_job\<lparr>j_MergedCount := 0, j_UpdatedAt := zero_time\<rparr>) = sample_job\<lparr>j_State := jobPending\<rparr>"
    by (simp add: freshJob_def sample_job_def sample_sending_store_def sample_store_def readRevision_def sample_bolt_def sample_db_def zero_time_def)
  moreover have "jobKey (sample_job\<lparr>j_MergedCount := 0, j_UpdatedAt := zero_time\<rparr>) = jobKey sample_job" by (simp add: jobKey_def)
  ultimately have u: "UpsertJob sample_sending_store (sample_job\<lparr>j_MergedCount := 0, j_UpdatedAt := zero_time\<rparr>) (sample_db None) =
      (Inr 1, sample_db (Some jobPending))"
    by (simp add: UpsertJob_def db_Update_def Let_def sample_sending_jobs sample_job_at sample_put)
      (simp add: sample_sending_sel sample_job_def sample_db_def)
  obtain b where f: "FinishJob sample_sending_store ''1'' deliveryAccepted [] [] (sample_db (Some jobPending)) =
      (Inr (), (sample_db (Some jobSent))\<lparr>db_deliveries := b\<rparr>)" using sample_finish by blast
  have sel: "n_ID control_notification = ''n''" "p_Kind control_platform = ''wecom''" "j_ID (sample_job\<lparr>j_MergedCount := 0, j_UpdatedAt := zero_time\<rparr>) = ''1''"
    by (simp_all add: control_notification_def control_platform_def sample_job_def)
  have jk: "jobKey (sample_job\<lparr>j_MergedCount := 0, j_UpdatedAt := zero_time\<rparr>) = jobKey sample_job" by (simp add: jobKey_def)
  have res: "deliverTestMessage control_svc control_platform msg = delivery_result deliveryAccepted [] []" for msg
    by (simp add: deliverTestMessage_def buildAdapter_def control_platform_def m mergeDeliveryResults_def PlatformWeCom_def)
  have found: "pendingJobIDFor sample_sending_store ''global'' ''n'' ''wecom'' ''p'' (sample_db (Some jobPending)) = ''1''"
    by (simp add: pendingJobIDFor_def sample_sending_jobs sample_jobs_of) (simp add: sample_job_def)
  have "\<exists>ids sent db'. test_one control_svc ''global'' control_notification [] [] ''p'' 0 control_platform (sample_db None) = ((None, ids, sent), db')"
    using f by (auto simp: test_one_def m control_job control_env jk u res found sel delivery_result_def Let_def)
  then obtain ids sent db' where t: "test_one control_svc ''global'' control_notification [] [] ''p'' 0 control_platform (sample_db None) =
      ((None, ids, sent), db')" by blast
  have "ids_ok control_svc (sample_db None)"
    by (simp add: ids_ok_def control_env sample_sending_jobs sample_job_at) (simp add: control_svc_def)
  from test_one_settles [OF _ this t] sample_sending_ok control_env obtain own stored k j st where
    s: "own = jobKey (test_job control_svc ''global'' control_notification [] ''p'' [] 0 control_platform)"
      "((job_at sample_sending_store (db_jobs (sample_db None)))(own \<mapsto> stored)) k = Some j"
      "jobStateForOutcome deliveryAccepted = Inr st"
      "job_at sample_sending_store (db_jobs db') = ((job_at sample_sending_store (db_jobs (sample_db None)))(own \<mapsto> stored))
         (k \<mapsto> j\<lparr>j_State := st, j_UpdatedAt := 0\<rparr>)"
    by (auto simp: res delivery_result_def Let_def)
  have "k = own" using s(2) by (simp add: sample_sending_jobs sample_job_at split: if_splits)
  moreover have "own = jobKey sample_job" using s(1) by (simp add: control_job jobKey_def)
  moreover have "st = jobSent" using s(3) by (simp add: jobStateForOutcome_def)
  ultimately show ?thesis using t s(4) by (auto simp: sample_sending_jobs)
qed

text \<open>A service over an idle keeper, a disk that takes every state, and settings that are switched off.\<close>

definition any_codec :: stateCodec where
  "any_codec = \<lparr>marshalState = \<lambda>_. Some ''S'', unmarshalState = \<lambda>_. None\<rparr>"

definition control_settings :: NotificationSettings where
  "control_settings = \<lparr>ns_Enabled = False, ns_GlobalDefault = sample_notification, ns_Notifications = [sample_notification]\<rparr>"

definition sample_controlEnv :: "((string, bytes) fmap, int) controlEnv" where
  "sample_controlEnv =
     \<lparr>nx_mgmt = sample_menv\<lparr>mx_codec := any_codec\<rparr>, nx_opens = True, nx_bumpCommits = True, nx_recoverCommits = True,
      nx_source = Inr cold_source, nx_codec = \<lparr>sc_composition = \<lambda>_ _. NoField, sc_settings = \<lambda>_. None\<rparr>, nx_order = id, nx_fuel = 7,
      nx_settings = \<lambda>_. Some control_settings, nx_target = \<lambda>_. None, nx_delivery = \<lambda>_. Some ''0-1''\<rparr>"

definition sample_control :: "string option \<Rightarrow> ((string, bytes) fmap, int) control" where
  "sample_control v = \<lparr>nc_db = sample_db v, nc_service = None, nc_refreshes = Map.empty, nc_host = 0\<rparr>"

lemma sample_controlEnv_sel: "nx_svc sample_controlEnv = sample_svc" "nx_opens sample_controlEnv"
  "mx_codec (nx_mgmt sample_controlEnv) = any_codec" "mx_os (nx_mgmt sample_controlEnv) = sample_env"
  "nx_settings sample_controlEnv raw = Some control_settings"
  by (simp_all add: sample_controlEnv_def sample_menv_def)

lemma supersede_any: "\<exists>b'. supersede_loop sample_sending_store (filter P (jobs_of sample_sending_store c)) b = Inr b'"
proof -
  have "\<exists>v. j = sample_job\<lparr>j_State := v\<rparr>" if "(k, j) \<in> set (jobs_of sample_sending_store c)" for k j
    using that unfolding sample_sending_jobs
    by (auto simp: jobs_of_def map_filter_mem sample_store_def sample_store_codec_def)
  then have ok: "\<forall>(k, j)\<in>set (filter P (jobs_of sample_sending_store c)). \<exists>v. j = sample_job\<lparr>j_State := v\<rparr>" by auto
  have "\<forall>(k, j)\<in>set xs. \<exists>v. j = sample_job\<lparr>j_State := v\<rparr> \<Longrightarrow> \<exists>b'. supersede_loop sample_sending_store xs b = Inr b'" for xs
  proof (induction xs arbitrary: b)
    case (Cons x xs)
    obtain k v where x: "x = (k, sample_job\<lparr>j_State := v\<rparr>)" using Cons.prems by (cases x) auto
    have "\<exists>b'. put_job sample_sending_store b k (sample_job\<lparr>j_State := jobSuperseded, j_UpdatedAt := 0\<rparr>) = Inr b'"
      by (simp add: sample_moved sample_sending_jobs)
        (simp add: put_job_def put_in_def sample_store_def sample_store_codec_def sample_bolt_def)
    with x Cons show ?case by (auto simp: sum_bind_def sample_sending_sel split: sum.split)
  qed simp
  from this [OF ok] show ?thesis .
qed

lemma sample_supersedes: "\<exists>n db1. supersededStaleJobs sample_sending_store cur db = (Inr n, db1)"
proof -
  let ?P = "\<lambda>(k, j). j_State j = jobPending \<and> j_Revision j < cur"
  obtain b where "supersede_loop sample_sending_store (filter ?P (jobs_of sample_sending_store (db_jobs db))) (db_jobs db) = Inr b"
    using supersede_any by blast
  then show ?thesis by (simp add: supersededStaleJobs_def db_Update_def Let_def sum_bind_def sample_sending_sel)
qed


end
