(* ===== verification/Plugin_Entry.thy ===== *)
theory Plugin_Entry
  imports Notification_Control Keeper_Cache
begin

text \<open>
  The life of the plugin (\<open>main.go\<close>: \<open>decodeLifecycleConfig\<close>, \<open>handlePluginRegister\<close>,
  \<open>handlePluginReconfigure\<close>): what the host sends is decoded into a configuration, the state file is
  resolved, the keeper caches are dropped and the notification service is restarted, in one step.
\<close>

section \<open>Base64, as the standard library decodes it\<close>

definition b64_value :: "char \<Rightarrow> nat option" where
  "b64_value c =
     (let n = of_char c :: nat
      in if 65 \<le> n \<and> n \<le> 90 then Some (n - 65)
         else if 97 \<le> n \<and> n \<le> 122 then Some (n - 71)
         else if 48 \<le> n \<and> n \<le> 57 then Some (n + 4)
         else if n = 43 then Some 62 else if n = 47 then Some 63 else None)"

fun b64_quads :: "string \<Rightarrow> string option" where
  "b64_quads [] = Some []"
| "b64_quads (a # b # c # d # rest) =
     (case (b64_value a, b64_value b) of
        (Some va, Some vb) \<Rightarrow>
          (let x = char_of (va * 4 + vb div 16)
           in if c = CHR ''='' then (if d = CHR ''='' \<and> rest = [] then Some [x] else None)
              else (case b64_value c of
                      None \<Rightarrow> None
                    | Some vc \<Rightarrow>
                      (let y = char_of (vb mod 16 * 16 + vc div 4)
                       in if d = CHR ''='' then (if rest = [] then Some [x, y] else None)
                          else (case b64_value d of
                                  None \<Rightarrow> None
                                | Some vd \<Rightarrow>
                                  map_option (\<lambda>r. x # y # char_of (vc mod 4 * 64 + vd) # r) (b64_quads rest)))))
      | _ \<Rightarrow> None)"
| "b64_quads _ = None"

text \<open>Line ends are skipped wherever they are.\<close>

definition b64_decode :: "string \<Rightarrow> string option" where
  "b64_decode s = b64_quads (filter (\<lambda>c. c \<noteq> CHR 0x0A \<and> c \<noteq> CHR 0x0D) s)"

section \<open>The configuration of the host\<close>

text \<open>A key that is absent is \<open>None\<close>.\<close>

record lifecycleConfigYAML =
  ly_UsageKeeperURL :: "string option"
  ly_UsageKeeperPasswordEnv :: "string option"
  ly_CPAManagementURL :: "string option"
  ly_CPAManagementKeyEnv :: "string option"
  ly_Enabled :: "bool option"
  ly_GlobalRules :: "string option"
  ly_ClaudeMessagesRules :: "string option"
  ly_CodexResponsesRules :: "string option"
  ly_OpenAICompletionsRules :: "string option"
  ly_StateFile :: "string option"

definition given :: "'a option \<Rightarrow> 'a \<Rightarrow> 'a" where
  "given v d = (case v of None \<Rightarrow> d | Some v \<Rightarrow> v)"

definition overlay :: "lifecycleConfigYAML \<Rightarrow> Config \<Rightarrow> Config" where
  "overlay doc cfg =
     \<lparr>cfg_UsageKeeperURL = given (ly_UsageKeeperURL doc) (cfg_UsageKeeperURL cfg),
      cfg_UsageKeeperPasswordEnv = given (ly_UsageKeeperPasswordEnv doc) (cfg_UsageKeeperPasswordEnv cfg),
      cfg_CPAManagementURL = given (ly_CPAManagementURL doc) (cfg_CPAManagementURL cfg),
      cfg_CPAManagementKeyEnv = given (ly_CPAManagementKeyEnv doc) (cfg_CPAManagementKeyEnv cfg),
      cfg_Enabled = given (ly_Enabled doc) (cfg_Enabled cfg),
      cfg_GlobalRules = given (ly_GlobalRules doc) (cfg_GlobalRules cfg),
      cfg_ClaudeMessagesRules = given (ly_ClaudeMessagesRules doc) (cfg_ClaudeMessagesRules cfg),
      cfg_CodexResponsesRules = given (ly_CodexResponsesRules doc) (cfg_CodexResponsesRules cfg),
      cfg_OpenAICompletionsRules = given (ly_OpenAICompletionsRules doc) (cfg_OpenAICompletionsRules cfg),
      cfg_StateFile = given (ly_StateFile doc) (cfg_StateFile cfg)\<rparr>"

datatype lifecycle_error = BadBase64 | BadYAML | ConfigNotEncoded

text \<open>The host's JSON object, whose field \<open>config_yaml\<close> is read, the YAML parser, and the JSON of a configuration.\<close>

record lifecycleCodec =
  lc_configYAML :: "bytes \<Rightarrow> string option"
  lc_yaml :: "string \<Rightarrow> lifecycleConfigYAML option"
  lc_config :: "Config \<Rightarrow> bytes option"

definition decodeLifecycleConfig :: "lifecycleCodec \<Rightarrow> bytes \<Rightarrow> lifecycle_error + bytes \<times> bool" where
  "decodeLifecycleConfig L raw =
     (let trimmed = trim_space raw
      in if trimmed = [] then Inr ([], False)
         else case lc_configYAML L trimmed of
           None \<Rightarrow> Inr (trimmed, False)
         | Some y \<Rightarrow>
           if y = [] then Inr (trimmed, False)
           else (case b64_decode y of
                   None \<Rightarrow> Inl BadBase64
                 | Some decoded \<Rightarrow>
                   (case lc_yaml L decoded of
                      None \<Rightarrow> Inl BadYAML
                    | Some doc \<Rightarrow>
                      (case lc_config L (overlay doc defaultConfig) of
                         None \<Rightarrow> Inl ConfigNotEncoded | Some cfgRaw \<Rightarrow> Inr (cfgRaw, True)))))"

section \<open>Register and reconfigure\<close>

record ('b, 'h) plugin =
  pl_world :: World
  pl_control :: "('b, 'h) control"
  pl_names :: serviceRegistry

text \<open>The environment of one reconfiguration.  The source of a new service is built from the new configuration.\<close>

record ('b, 'h) pluginEnv =
  pe_lifecycle :: lifecycleCodec
  pe_unmarshal :: "Config \<Rightarrow> bytes \<Rightarrow> Config option"
  pe_codec :: stateCodec
  pe_resolve :: osEnv
  pe_migrate :: osEnv
  pe_reread :: osEnv
  pe_control :: "Config \<Rightarrow> ('b, 'h) controlEnv"
  pe_registration :: "bytes option"

datatype plugin_error = LifecycleInvalid lifecycle_error | ConfigInvalid config_error | AnswerNotEncoded

definition received_config :: "('b, 'h) pluginEnv \<Rightarrow> bytes \<Rightarrow> plugin_error + Config" where
  "received_config e raw =
     (case decodeLifecycleConfig (pe_lifecycle e) raw of
        Inl err \<Rightarrow> Inl (LifecycleInvalid err)
      | Inr (cfgRaw, _) \<Rightarrow>
        (case decodeConfig (pe_unmarshal e) cfgRaw of Inl err \<Rightarrow> Inl (ConfigInvalid err) | Inr cfg \<Rightarrow> Inr cfg))"

text \<open>The jobs the new service hands over in its first tick come back for the statements below.\<close>

definition handlePluginReconfigure ::
    "('b, 'h) pluginEnv \<Rightarrow> bytes \<Rightarrow> ('b, 'h) plugin \<Rightarrow> (plugin_error + bytes) \<times> notificationJob list \<times> ('b, 'h) plugin" where
  "handlePluginReconfigure e raw p =
     (case received_config e raw of
        Inl err \<Rightarrow> (Inl err, [], p)
      | Inr cfg \<Rightarrow>
        (let w = reconfigure (pe_codec e) (pe_resolve e) (pe_migrate e) (pe_reread e) cfg (pl_world p)
         in case restartNotificationServiceWithState (pe_control e cfg) (h_state (w_holder w)) (pl_control p) of
              (sent, c) \<Rightarrow>
                ((case pe_registration e of None \<Rightarrow> Inl AnswerNotEncoded | Some r \<Rightarrow> Inr r), sent,
                 \<lparr>pl_world = w, pl_control = c, pl_names = resetKeeperAliases (pl_names p)\<rparr>)))"

definition handlePluginRegister ::
    "('b, 'h) pluginEnv \<Rightarrow> bytes \<Rightarrow> ('b, 'h) plugin \<Rightarrow> (plugin_error + bytes) \<times> notificationJob list \<times> ('b, 'h) plugin" where
  "handlePluginRegister e raw p = handlePluginReconfigure e raw p"

section \<open>What is decoded was encoded\<close>

definition b64_char :: "nat \<Rightarrow> char" where
  "b64_char v =
     char_of (if v < 26 then v + 65 else if v < 52 then v + 71 else if v < 62 then v - 4 else if v = 62 then 43 else 47)"

fun b64_encode :: "string \<Rightarrow> string" where
  "b64_encode [] = []"
| "b64_encode [x] = [b64_char (of_char x div 4), b64_char (of_char x mod 4 * 16), CHR ''='', CHR ''='']"
| "b64_encode [x, y] =
     [b64_char (of_char x div 4), b64_char (of_char x mod 4 * 16 + of_char y div 16), b64_char (of_char y mod 16 * 4), CHR ''='']"
| "b64_encode (x # y # z # r) =
     b64_char (of_char x div 4) # b64_char (of_char x mod 4 * 16 + of_char y div 16) #
     b64_char (of_char y mod 16 * 4 + of_char z div 64) # b64_char (of_char z mod 64) # b64_encode r"

lemma b64_char_code: "v < 64 \<Longrightarrow> (of_char (b64_char v) :: nat) =
    (if v < 26 then v + 65 else if v < 52 then v + 71 else if v < 62 then v - 4 else if v = 62 then 43 else 47)"
  by (simp add: b64_char_def)

lemma b64_char_sel:
  assumes "v < 64"
  shows "b64_value (b64_char v) = Some v" "b64_char v \<noteq> CHR ''=''" "b64_char v \<noteq> CHR 0x0A" "b64_char v \<noteq> CHR 0x0D"
proof -
  show "b64_value (b64_char v) = Some v" using assms unfolding b64_value_def b64_char_code [OF assms] Let_def by (simp; presburger)
  have "(of_char (b64_char v) :: nat) \<notin> {61, 10, 13}" using assms by (auto simp: b64_char_code)
  then show "b64_char v \<noteq> CHR ''=''" "b64_char v \<noteq> CHR 0x0A" "b64_char v \<noteq> CHR 0x0D" by auto
qed

lemma div_mod_group:
  "q < k \<Longrightarrow> (m * k + q) div k = m" "q < k \<Longrightarrow> (m * k + q) mod k = q" for m k q :: nat
  by simp_all

lemma b64_groups:
  fixes x y z :: char
  shows "(of_char x :: nat) div 4 < 64" "(of_char x :: nat) mod 4 * 16 < 64" "(of_char x :: nat) mod 4 * 16 + of_char y div 16 < 64"
    "(of_char y :: nat) mod 16 * 4 < 64" "(of_char y :: nat) mod 16 * 4 + of_char z div 64 < 64" "(of_char z :: nat) mod 64 < 64"
proof -
  have d: "(of_char x :: nat) div 4 < 64" "(of_char y :: nat) div 16 < 16" "(of_char z :: nat) div 64 < 4"
    by (rule less_mult_imp_div_less, simp)+
  have m: "(of_char x :: nat) mod 4 < 4" "(of_char y :: nat) mod 16 < 16" by simp_all
  show "(of_char x :: nat) div 4 < 64" "(of_char z :: nat) mod 64 < 64" using d by simp_all
  show "(of_char x :: nat) mod 4 * 16 < 64" "(of_char x :: nat) mod 4 * 16 + of_char y div 16 < 64"
    "(of_char y :: nat) mod 16 * 4 < 64" "(of_char y :: nat) mod 16 * 4 + of_char z div 64 < 64"
    using d m by linarith+
qed

lemma b64_bytes:
  fixes x y z :: char
  shows "char_of ((of_char x :: nat) div 4 * 4 + (of_char x mod 4 * 16 + of_char y div 16) div 16) = x"
    "char_of ((of_char x :: nat) div 4 * 4 + of_char x mod 4 * 16 div 16) = x"
    "char_of (((of_char x :: nat) mod 4 * 16 + of_char y div 16) mod 16 * 16 + (of_char y mod 16 * 4 + of_char z div 64) div 4) = y"
    "char_of (((of_char x :: nat) mod 4 * 16 + of_char y div 16) mod 16 * 16 + of_char y mod 16 * 4 div 4) = y"
    "char_of (((of_char y :: nat) mod 16 * 4 + of_char z div 64) mod 4 * 64 + of_char z mod 64) = z"
proof -
  have d: "(of_char y :: nat) div 16 < 16" "(of_char z :: nat) div 64 < 4"
    by (rule less_mult_imp_div_less, simp)+
  note g = div_mod_group [OF d(1)] div_mod_group [OF d(2)] div_mult_mod_eq nonzero_mult_div_cancel_right
  show "char_of ((of_char x :: nat) div 4 * 4 + (of_char x mod 4 * 16 + of_char y div 16) div 16) = x"
    "char_of (((of_char x :: nat) mod 4 * 16 + of_char y div 16) mod 16 * 16 + (of_char y mod 16 * 4 + of_char z div 64) div 4) = y"
    "char_of (((of_char y :: nat) mod 16 * 4 + of_char z div 64) mod 4 * 64 + of_char z mod 64) = z"
    by (simp_all only: g char_of_char)
  show "char_of ((of_char x :: nat) div 4 * 4 + of_char x mod 4 * 16 div 16) = x"
    "char_of (((of_char x :: nat) mod 4 * 16 + of_char y div 16) mod 16 * 16 + of_char y mod 16 * 4 div 4) = y"
    using g by simp_all
qed

lemma b64_round_trip: "b64_decode (b64_encode s) = Some s"
proof -
  have "b64_quads (b64_encode s) = Some s"
    by (induction s rule: b64_encode.induct)
      (simp_all only: b64_encode.simps b64_quads.simps b64_char_sel b64_groups b64_bytes Let_def option.case prod.case
        simp_thms if_False if_True option.map)
  moreover have "filter (\<lambda>c. c \<noteq> CHR 0x0A \<and> c \<noteq> CHR 0x0D) (b64_encode s) = b64_encode s"
    by (induction s rule: b64_encode.induct) (simp_all add: b64_char_sel b64_groups)
  ultimately show ?thesis by (simp add: b64_decode_def)
qed

section \<open>What a configuration says\<close>

text \<open>Under a host whose JSON and YAML are read as they were written, every field is the one of the YAML document where
  it has one and the default elsewhere, \<open>enabled\<close> included; only a blank name of the password variable falls back.
  A configuration with a rule that does not parse is refused.\<close>

lemma received_config_yaml:
  assumes "trim_space raw \<noteq> []" and "lc_configYAML (pe_lifecycle e) (trim_space raw) = Some (b64_encode y)" and "y \<noteq> []"
    and "lc_yaml (pe_lifecycle e) y = Some doc" and "lc_config (pe_lifecycle e) (overlay doc defaultConfig) = Some r"
    and "trim_space r \<notin> {[], ''{}''}" and "pe_unmarshal e defaultConfig r = Some (overlay doc defaultConfig)"
  shows "received_config e raw =
    (let cfg = overlay doc defaultConfig;
         cfg = (if trim_space (cfg_UsageKeeperPasswordEnv cfg) = []
                then cfg\<lparr>cfg_UsageKeeperPasswordEnv := cfg_UsageKeeperPasswordEnv defaultConfig\<rparr> else cfg)
     in case checkConfigRules [cfg_GlobalRules cfg, cfg_ClaudeMessagesRules cfg, cfg_CodexResponsesRules cfg,
                               cfg_OpenAICompletionsRules cfg] of
          Some err \<Rightarrow> Inl (ConfigInvalid (BadConfigRules err)) | None \<Rightarrow> Inr cfg)"
proof -
  have "b64_encode y \<noteq> []" using assms(3) by (cases y rule: b64_encode.cases) simp_all
  then have "decodeLifecycleConfig (pe_lifecycle e) raw = Inr (r, True)"
    using assms by (simp add: decodeLifecycleConfig_def b64_round_trip Let_def)
  then show ?thesis using assms(6,7)
    by (simp add: received_config_def decodeConfig_def Let_def del: checkConfigRules.simps split: option.split)
qed

text \<open>When a service can be started: the run-state file opens, the keeper of the configuration is usable, and the jobs
  a crash left in flight are settled.\<close>

definition service_starts :: "('b, 'h) controlEnv \<Rightarrow> 'b db \<Rightarrow> bool" where
  "service_starts x db \<longleftrightarrow> nx_opens x \<and> (case nx_source x of Inl code \<Rightarrow> code = [] | Inr _ \<Rightarrow> True) \<and>
     \<not> isl (fst (RecoverOnBoot (at_time (sx_store (nx_svc x)) (sx_now (nx_svc x)) (nx_recoverCommits x)) db))"

lemma restart_slot:
  assumes "restartNotificationServiceWithState x st c = (sent, c')"
  shows "\<exists>s. nc_service c' = Some s \<and> (as_Store s \<longleftrightarrow> service_starts x (nc_db c)) \<and>
    (as_Store s \<or> sent = [] \<and> nc_db c' = nc_db c \<and> s = placeholder (ss_ErrorCode (as_Status s)))"
proof -
  obtain res db1 where "RecoverOnBoot (at_time (sx_store (nx_svc x)) (sx_now (nx_svc x)) (nx_recoverCommits x)) (nc_db c) = (res, db1)"
    by fastforce
  with assms show ?thesis
    by (cases res) (auto simp: restartNotificationServiceWithState_def startNotificationService_def service_starts_def
        setActiveNotificationUnavailable_def placeholder_def Let_def split: if_splits sum.splits prod.splits)
qed


end
