(* ===== verification/Spec2Isabelle.thy ===== *)
theory Spec2Isabelle
  imports Stream_Forward Scheduler State_Manager Notification_Schedule Management Audit_Journal Platforms Keeper_Client
    Members Message Channel_Labels Audit_Gate Notification_Control Plugin_Entry
begin

text \<open>
  A model of model-mapper-plus, a plugin of an LLM proxy that maps the model names of requests by rules, gates
  and schedules requests by API key, and sends usage notifications to chat groups.  All sources are Go files under
  \<open>src/\<close>.  This header says how the theories correspond to them, what is proved and what is left out.

  \<^bold>\<open>The program.\<close>  The host calls the plugin with a method name and JSON (\<open>main.go\<close>).  Requests pass an
  interceptor, the router, the scheduler and the executor, all of which read the loaded state and never change it.
  The management API (\<open>management.go\<close>, \<open>notification_management.go\<close>) changes the state in one locked step that
  validates, writes the state file atomically and publishes the new state, inside an audit gate
  (\<open>audit_management.go\<close>) that records a start before and a finish after.  Changing the configuration or the notification
  settings restarts the notification service, whose ticks generate jobs in a bbolt file, claim them, send them and
  settle them.  What a notification says is collected from a usage keeper, the host and caches in front of both.

  \<^bold>\<open>Theories, by component.\<close>  Every operation carries the name of its Go function.
  \<^item> \<open>Prelude\<close>, \<open>Go_Strings\<close>, \<open>Calendar\<close>, \<open>Time_Format\<close>, \<open>Float64\<close>: the parts of the standard library that are
    called (UTF-8 strings, the calendar, time layouts, doubles), as executable functions.
  \<^item> \<open>Rule_DSL\<close>, \<open>Rule_Match\<close>, \<open>Rule_Roundtrip\<close>: the rule language of \<open>main.go\<close>: \<open>parseRules\<close>, the memoising
    matcher, \<open>applyRules\<close>.  A printer is inverted by the parser, the matcher agrees with a declarative
    reading of patterns, and no rule that parses can panic unless it has a run of more than 18 digits
    (one after a dollar sign does).
  \<^item> \<open>State_Types\<close>, \<open>Notification_Types\<close>, \<open>State_Model\<close>: the records of \<open>state.go\<close> and \<open>notification_types.go\<close> and
    their validation, characterised by a predicate, and the normal form of the notification settings.
  \<^item> \<open>Routing\<close>, \<open>Json_Doc\<close>, \<open>Sse\<close>, \<open>Stream_Forward\<close>, \<open>Scheduler\<close>: the request path of \<open>main.go\<close>.  How a stream is
    cut into chunks does not matter as long as the buffer limit is not reached, every stream that was opened is closed when
    the run ends, round robin is fair.
  \<^item> \<open>State_Manager\<close>, \<open>Plugin_Entry\<close>: the state file and the loaded state, and register and reconfigure as
    the host calls them.  The write is atomic at every failing call, every reachable state is valid, an update or a
    reconfiguration is all or nothing, and a state file that fails validation is moved aside and kept.
  \<^item> \<open>Key_Table\<close>, \<open>Management\<close>: the handlers of \<open>management.go\<close>, which refine a map from keys to bindings.
  \<^item> \<open>Audit_Journal\<close>, \<open>Audit_Gate\<close>, \<open>Channel_Labels\<close>: \<open>audit.go\<close>, \<open>audit_query.go\<close>, \<open>audit_management.go\<close>,
    \<open>audit_labels.go\<close>, \<open>channel_credentials.go\<close>.  No change without a record, the outcome shown is the one that was recorded,
    and the labels, account names and changed values of a record show no secret; the reference of a test send is the text of
    the request as it came.
  \<^item> \<open>Notification_Schedule\<close>, \<open>Notification_Store\<close>, \<open>Notification_Jobs\<close>, \<open>Notification_Service\<close>, \<open>Message\<close>,
    \<open>Platforms\<close>, \<open>Notification_Control\<close>: the notifications from their send times to the answers of the management
    surface (\<open>notification_schedule.go\<close>, \<open>_store\<close>, \<open>_service\<close>, \<open>_template\<close>, \<open>_platform*\<close>, \<open>_management\<close>).  The jobs of the
    store are a state machine (an inductive step relation) that every operation of the store refines; a tick sends only
    due jobs, of the current configuration when the older ones could be superseded, and settles each of them.
  \<^item> \<open>Single_Flight\<close>, \<open>Keeper_Client\<close>, \<open>Keeper_Cache\<close>, \<open>Members\<close>, \<open>Keeper_Stats\<close>, \<open>Quota_Text\<close>, \<open>Keeper_Quota\<close>:
    what is asked of the usage keeper, of the host's quota endpoint and of the platform directories, and the caches
    (\<open>keeper_*.go\<close>, \<open>management_keeper_names.go\<close>, \<open>notification_keeper.go\<close>, \<open>cpa_quota_client.go\<close>,
    \<open>notification_members*.go\<close>).

  \<^bold>\<open>Conventions.\<close>  A Go string or byte slice is a list of characters.  A function that may fail is a sum, with the
  error on the left; error texts are left out, what they distinguish is kept in a datatype.  A panic is a value.  A slice
  is a list; one that is compared with \<open>nil\<close>, a key's notifications, is an optional list, and elsewhere an absent list and an
  empty one are the same.  State is
  passed explicitly; a remote system is a function on a state of its own (the host \<open>'h\<close>), so every sequence of answers is
  allowed.  Go's \<open>int\<close> is cut to 64 bits and the counters are words where that matters; map iteration in Go has no
  order, so the order is an argument.

  \<^bold>\<open>Interfaces.\<close>  The locale \<open>keyed_table\<close> states what the handlers ask of a table with keys and is interpreted
  on the key bindings (\<open>Management\<close>).  The locale \<open>single_flight\<close> states that one request is out at a time and
  is interpreted on the caches of names and aliases (\<open>Keeper_Cache\<close>) and of members (\<open>Members\<close>).

  \<^bold>\<open>Loops and fuel.\<close>  Loops are recursive functions with a measure.  Only the polling of quota windows may run for ever,
  under a clock that stands still, so it takes fuel and \<open>None\<close> is running out.  With a clock that the pauses move forward it
  returns when the pauses that the fuel allows cover the budget (\<open>polls_end\<close>), which for the default budget and
  interval is a fuel of seven; collecting, previews and test sends then return too (\<open>collectStats_ends\<close>,
  \<open>preview_ends\<close>, \<open>test_send_once\<close>).

  \<^bold>\<open>Parameters.\<close>  Code that is not in the repository is an argument: the JSON, YAML, gjson and sjson codecs, bbolt
  buckets (an ordered finite map in the witnesses), sha256 and HMAC, \<open>url.Parse\<close>, cookies, the operating system's file calls
  with their failures, HTTP exchanges, the Feishu SDK, the host's callbacks and the environment variables.  What is relied on is
  stated as a hypothesis (\<open>codec_ok\<close>, \<open>env_ok\<close>, \<open>clock_moves\<close> and so on), and each has a concrete instance in a witness.

  \<^bold>\<open>Not modelled.\<close>
  \<^item> Locks and goroutines: a locked section is one step, and where two sections of one operation may interleave with others the
    sections are separate steps (\<open>Keeper_Cache\<close>, \<open>Members\<close>).  Tickers, the loop of the service and the wait of its stop.
  \<^item> The order in which the Feishu walk's goroutines finish, deadlines of contexts other than as an answer that
    failed, and the keeper's traffic inside a tick of the service, which is part of its environment.
  \<^item> Case of letters outside ASCII, infinities of floats, error texts and logging.
  \<^item> Shared slices: values are copied, as \<open>cloneState\<close> means to.  The one place where the code shares instead
    (\<open>managementNotificationSettingsGet\<close>) is a finding.
  \<^item> \<open>abi_cgo.go\<close>, the dispatch over method names, the envelopes and \<open>callHost\<close>; \<open>web_embed.go\<close> and the web interface;
    \<open>.github/scripts\<close>; hooks that only tests set.
\<close>

end
